(* ===== verification/Prelude.thy ===== *)
theory Prelude
  imports Main "HOL-Library.Sublist"
begin

text \<open>
  Shared vocabulary of the development: the error values that the HTTP handlers throw,
  the sum-type plumbing used to sequence fallible steps, the collections of simplification
  rules the component theories extend, generic facts about lists, and the transition-system
  interface under which state invariants of the signer and of the control plane are proved.
\<close>

section \<open>Collections\<close>

named_theorems wire_simps "rules that evaluate the byte-level encoders and decoders"
named_theorems guard_simps "rules that open the guard chains of the request handlers"
named_theorems frame_simps "rules saying which parts of a state an operation leaves alone"

section \<open>Errors and fallible results\<close>

text \<open>
  Every error a handler throws reaches \<open>Router.listen\<close> (lib/http.js), which answers with
  \<open>e.status || 400\<close> and the optional \<open>e.code\<close>. An error value keeps exactly these two. An error
  without a status (a \<open>TypeError\<close>, a plain \<open>new Error(msg)\<close>) has status 0, and its second field is a
  short tag for the message instead of a code (the message texts are not kept).
\<close>

datatype err = Err (err_status: nat) (err_code: string)

type_synonym 'a res = "err + 'a"

text \<open>\<open>e.status || s\<close> and \<open>e.code || c\<close>, as the handlers that rethrow an error use them.\<close>

definition rethrow :: "nat \<Rightarrow> string \<Rightarrow> err \<Rightarrow> err" where
  "rethrow s c e = (if err_status e = 0 then Err s c else e)"

definition http_status :: "err \<Rightarrow> nat" where
  "http_status e = (if err_status e = 0 then 400 else err_status e)"

definition bindE :: "'a res \<Rightarrow> ('a \<Rightarrow> 'b res) \<Rightarrow> 'b res" where
  "bindE r f = (case r of Inl e \<Rightarrow> Inl e | Inr x \<Rightarrow> f x)"

lemma bindE_simps [simp]: "bindE (Inl e) f = Inl e" "bindE (Inr x) f = f x"
  by (simp_all add: bindE_def)

lemma bindE_Inr_iff: "bindE r f = Inr y \<longleftrightarrow> (\<exists>x. r = Inr x \<and> f x = Inr y)"
  by (cases r) auto

lemma bindE_Inl_iff: "bindE r f = Inl e \<longleftrightarrow> r = Inl e \<or> (\<exists>x. r = Inr x \<and> f x = Inl e)"
  by (cases r) auto

lemma bindE_cong [fundef_cong]:
  "r = r' \<Longrightarrow> (\<And>x. r' = Inr x \<Longrightarrow> f x = g x) \<Longrightarrow> bindE r f = bindE r' g"
  by (cases r') auto

text \<open>The same with a state that is kept when a step fails.\<close>

definition bindS :: "'a res \<times> 's \<Rightarrow> ('a \<Rightarrow> 's \<Rightarrow> 'b res \<times> 's) \<Rightarrow> 'b res \<times> 's" where
  "bindS r f = (case r of (Inl e, s) \<Rightarrow> (Inl e, s) | (Inr x, s) \<Rightarrow> f x s)"

lemma bindS_simps [simp]: "bindS (Inl e, s) f = (Inl e, s)" "bindS (Inr x, s) f = f x s"
  by (simp_all add: bindS_def)

lemma bindS_cong [fundef_cong]:
  "r = r' \<Longrightarrow> (\<And>x s. r' = (Inr x, s) \<Longrightarrow> f x s = g x s) \<Longrightarrow> bindS r f = bindS r' g"
  by (auto simp: bindS_def split: prod.splits sum.splits)

lemma bindS_Inr_iff: "bindS r f = (Inr y, s') \<longleftrightarrow> (\<exists>x s. r = (Inr x, s) \<and> f x s = (Inr y, s'))"
  by (auto simp: bindS_def split: prod.splits sum.splits)

definition liftS :: "'a res \<Rightarrow> 's \<Rightarrow> 'a res \<times> 's" where
  "liftS r s = (r, s)"

text \<open>A fallible function along a list: the first error wins.\<close>

fun mapE :: "('a \<Rightarrow> 'b res) \<Rightarrow> 'a list \<Rightarrow> 'b list res" where
  "mapE f [] = Inr []"
| "mapE f (x # xs) = bindE (f x) (\<lambda>y. bindE (mapE f xs) (\<lambda>ys. Inr (y # ys)))"

lemma mapE_Inr_length: "mapE f xs = Inr ys \<Longrightarrow> length ys = length xs"
  by (induction xs arbitrary: ys) (auto simp: bindE_Inr_iff)

lemma mapE_total: "(\<And>x. x \<in> set xs \<Longrightarrow> f x = Inr (g x)) \<Longrightarrow> mapE f xs = Inr (map g xs)"
  by (induction xs) auto

definition isOk :: "'a res \<Rightarrow> bool" where
  "isOk r = (case r of Inl _ \<Rightarrow> False | Inr _ \<Rightarrow> True)"

lemma isOk_simps [simp]: "\<not> isOk (Inl e)" "isOk (Inr x)"
  by (simp_all add: isOk_def)

section \<open>Lists\<close>

text \<open>\<open>xs[i]\<close> of JavaScript: out of range reads give \<open>undefined\<close>, here \<open>None\<close>.\<close>

definition elem_at :: "'a list \<Rightarrow> nat \<Rightarrow> 'a option" where
  "elem_at xs i = (if i < length xs then Some (xs ! i) else None)"

lemma at_Nil [simp]: "elem_at [] i = None"
  by (simp add: elem_at_def)

lemma at_0_Cons [simp]: "elem_at (x # xs) 0 = Some x"
  by (simp add: elem_at_def)

lemma at_Suc_Cons [simp]: "elem_at (x # xs) (Suc i) = elem_at xs i"
  by (simp add: elem_at_def)

lemma at_append_left: "i < length xs \<Longrightarrow> elem_at (xs @ ys) i = elem_at xs i"
  by (simp add: elem_at_def nth_append)

lemma at_append_right: "length xs \<le> i \<Longrightarrow> elem_at (xs @ ys) i = elem_at ys (i - length xs)"
  by (auto simp: elem_at_def nth_append)

lemma at_append_length [simp]: "elem_at (xs @ ys) (length xs) = elem_at ys 0"
  by (simp add: at_append_right)

lemma at_Some_set: "elem_at xs i = Some x \<Longrightarrow> x \<in> set xs"
  by (auto simp: elem_at_def split: if_splits)

text \<open>\<open>xs.indexOf(x)\<close>, with \<open>None\<close> for -1, and the index of the last occurrence.\<close>

fun index_of :: "'a \<Rightarrow> 'a list \<Rightarrow> nat option" where
  "index_of x [] = None"
| "index_of x (y # ys) = (if y = x then Some 0 else map_option Suc (index_of x ys))"

lemma index_of_None_iff: "index_of x ys = None \<longleftrightarrow> x \<notin> set ys"
  by (induction ys) auto

lemma index_of_Some: "index_of x ys = Some i \<Longrightarrow> i < length ys \<and> ys ! i = x"
proof (induction ys arbitrary: i)
  case (Cons y ys)
  then show ?case by (cases "y = x") auto
qed simp

lemma index_of_least: "index_of x ys = Some i \<Longrightarrow> j < i \<Longrightarrow> ys ! j \<noteq> x"
proof (induction ys arbitrary: i j)
  case (Cons y ys)
  show ?case
  proof (cases "y = x")
    case True
    with Cons.prems show ?thesis by simp
  next
    case False
    with Cons show ?thesis by (cases j) auto
  qed
qed simp

text \<open>\<open>s.split(c)\<close> at a one-character separator: never empty, one piece more than separators.\<close>

fun split_on :: "char \<Rightarrow> string \<Rightarrow> string list" where
  "split_on c [] = [[]]"
| "split_on c (x # xs) =
     (if x = c then [] # split_on c xs
      else (case split_on c xs of [] \<Rightarrow> [[x]] | p # ps \<Rightarrow> (x # p) # ps))"

lemma split_on_nonempty [simp]: "split_on c s \<noteq> []"
  by (induction s) (auto split: list.splits)

fun join_on :: "string \<Rightarrow> string list \<Rightarrow> string" where
  "join_on sep [] = []"
| "join_on sep [p] = p"
| "join_on sep (p # q # ps) = p @ sep @ join_on sep (q # ps)"

lemma split_on_clean: "c \<notin> set p \<Longrightarrow> split_on c p = [p]"
  by (induction p) auto

lemma split_on_append: "c \<notin> set p \<Longrightarrow> split_on c (p @ c # s) = p # split_on c s"
  by (induction p) (auto split: list.splits)

lemma split_on_join:
  "ps \<noteq> [] \<Longrightarrow> \<forall>p \<in> set ps. c \<notin> set p \<Longrightarrow> split_on c (join_on [c] ps) = ps"
  by (induction "[c]" ps rule: join_on.induct) (auto simp: split_on_clean split_on_append)

lemma join_split: "join_on [c] (split_on c s) = s"
proof (induction s)
  case (Cons x xs)
  show ?case
  proof (cases "split_on c xs")
    case Nil
    then show ?thesis by simp
  next
    case (Cons p ps)
    with Cons.IH show ?thesis by (cases ps) auto
  qed
qed simp

lemma split_on_pieces_clean: "p \<in> set (split_on c s) \<Longrightarrow> c \<notin> set p"
  by (induction s arbitrary: p) (auto split: list.splits if_splits)

text \<open>Two texts cut at their first separator agree piece by piece.\<close>

lemma append_sep_inj:
  "p @ c # s = q @ c # t \<Longrightarrow> c \<notin> set p \<Longrightarrow> c \<notin> set q \<Longrightarrow> p = q \<and> s = t"
proof (induction p arbitrary: q)
  case Nil
  then show ?case by (cases q) auto
next
  case (Cons x p)
  then show ?case by (cases q) auto
qed

section \<open>State invariants\<close>

text \<open>
  A component with state is run as a sequence of operations on it. The interface fixes the
  step function of one operation, a class of operations and an invariant those operations keep;
  what follows from it for whole runs is proved once.
\<close>

definition run_ops :: "('s \<Rightarrow> 'op \<Rightarrow> 's) \<Rightarrow> 'op list \<Rightarrow> 's \<Rightarrow> 's" where
  "run_ops step ops s = foldl step s ops"

locale invariant_system =
  fixes step :: "'s \<Rightarrow> 'op \<Rightarrow> 's"
    and allowed :: "'op \<Rightarrow> bool"
    and inv :: "'s \<Rightarrow> bool"
  assumes step_inv: "inv s \<Longrightarrow> allowed op \<Longrightarrow> inv (step s op)"
begin

lemma run_inv: "inv s \<Longrightarrow> \<forall>op \<in> set ops. allowed op \<Longrightarrow> inv (run_ops step ops s)"
  unfolding run_ops_def by (induction ops arbitrary: s) (auto intro: step_inv)

text \<open>Every state on the way satisfies the invariant too.\<close>

lemma run_prefix_inv:
  "inv s \<Longrightarrow> \<forall>op \<in> set ops. allowed op \<Longrightarrow> prefix ps ops \<Longrightarrow> inv (run_ops step ps s)"
  by (rule run_inv) (auto dest: set_mono_prefix)

end

end
