(* ===== verification/Js_Number.thy ===== *)
theory Js_Number
  imports Prelude Complex_Main "HOL-Library.Log_Nat" "HOL-Library.Word"
begin

text \<open>
  The \<open>Number\<close> type of JavaScript, as the sources use it: IEEE 754 binary64 with round to nearest,
  ties to even. A number is \<open>NaN\<close>, an infinity or a finite value, kept as the exact rational it
  denotes; every arithmetic operation computes exactly and rounds once with \<open>fl\<close>. Negative zero is
  identified with zero (no comparison or test of the sources tells them apart).
\<close>

datatype jsnum = NaN | PInf | NInf | Fin rat

section \<open>Rounding to binary64\<close>

definition pow2 :: "int \<Rightarrow> rat" where
  "pow2 k = (if 0 \<le> k then 2 ^ nat k else 1 / 2 ^ nat (- k))"

text \<open>Nearest integer, ties to even.\<close>

definition rne :: "rat \<Rightarrow> int" where
  "rne q = (let f = \<lfloor>q\<rfloor>; d = q - of_int f
            in if d < 1 / 2 then f else if 1 / 2 < d then f + 1 else if even f then f else f + 1)"

text \<open>The exponent of the leading bit of a positive rational.\<close>

definition ilog2 :: "rat \<Rightarrow> int" where
  "ilog2 q = (let (a, b) = quotient_of q;
                  k = int (floorlog 2 (nat a)) - int (floorlog 2 (nat b))
              in if pow2 k \<le> q then k else k - 1)"

text \<open>The unit in the last place: 53 significant bits, no exponent below -1074.\<close>

definition fl_ulp :: "rat \<Rightarrow> rat" where
  "fl_ulp q = pow2 (max (ilog2 \<bar>q\<bar> - 52) (- 1074))"

definition fl :: "rat \<Rightarrow> jsnum" where
  "fl q = (if q = 0 then Fin 0
           else let u = fl_ulp q; r = of_int (rne (q / u)) * u
                in if pow2 1024 \<le> r then PInf else if r \<le> - pow2 1024 then NInf else Fin r)"

section \<open>Arithmetic and comparison\<close>

fun jneg :: "jsnum \<Rightarrow> jsnum" where
  "jneg NaN = NaN"
| "jneg PInf = NInf"
| "jneg NInf = PInf"
| "jneg (Fin a) = Fin (- a)"

fun jadd :: "jsnum \<Rightarrow> jsnum \<Rightarrow> jsnum" where
  "jadd NaN _ = NaN"
| "jadd _ NaN = NaN"
| "jadd PInf NInf = NaN"
| "jadd NInf PInf = NaN"
| "jadd PInf _ = PInf"
| "jadd _ PInf = PInf"
| "jadd NInf _ = NInf"
| "jadd _ NInf = NInf"
| "jadd (Fin a) (Fin b) = fl (a + b)"

definition jsub :: "jsnum \<Rightarrow> jsnum \<Rightarrow> jsnum" where
  "jsub x y = jadd x (jneg y)"

text \<open>The sign of a number that is not \<open>NaN\<close>: -1, 0 or 1.\<close>

fun jsgn :: "jsnum \<Rightarrow> int" where
  "jsgn NaN = 0"
| "jsgn PInf = 1"
| "jsgn NInf = - 1"
| "jsgn (Fin a) = (if 0 < a then 1 else if a < 0 then - 1 else 0)"

definition jinf :: "int \<Rightarrow> jsnum" where
  "jinf s = (if 0 < s then PInf else if s < 0 then NInf else NaN)"

fun jmul :: "jsnum \<Rightarrow> jsnum \<Rightarrow> jsnum" where
  "jmul NaN _ = NaN"
| "jmul _ NaN = NaN"
| "jmul (Fin a) (Fin b) = fl (a * b)"
| "jmul x y = jinf (jsgn x * jsgn y)"

fun jdiv :: "jsnum \<Rightarrow> jsnum \<Rightarrow> jsnum" where
  "jdiv NaN _ = NaN"
| "jdiv _ NaN = NaN"
| "jdiv (Fin a) (Fin b) = (if b = 0 then jinf (jsgn (Fin a)) else fl (a / b))"
| "jdiv (Fin a) _ = Fin 0"
| "jdiv x (Fin b) = jinf (jsgn x * (if b < 0 then - 1 else 1))"
| "jdiv _ _ = NaN"

text \<open>\<open>a < b\<close>; the other comparisons of the sources are \<open>a > b\<close> (swap), \<open>a <= b\<close> and \<open>a >= b\<close>.\<close>

fun jlt :: "jsnum \<Rightarrow> jsnum \<Rightarrow> bool" where
  "jlt NaN _ = False"
| "jlt _ NaN = False"
| "jlt (Fin a) (Fin b) = (a < b)"
| "jlt PInf _ = False"
| "jlt _ NInf = False"
| "jlt _ _ = True"

definition jnan :: "jsnum \<Rightarrow> bool" where
  "jnan x = (case x of NaN \<Rightarrow> True | _ \<Rightarrow> False)"

definition jle :: "jsnum \<Rightarrow> jsnum \<Rightarrow> bool" where
  "jle x y = (\<not> jnan x \<and> \<not> jnan y \<and> \<not> jlt y x)"

text \<open>\<open>a === b\<close> on two numbers.\<close>

definition jeq :: "jsnum \<Rightarrow> jsnum \<Rightarrow> bool" where
  "jeq x y = (\<not> jnan x \<and> x = y)"

text \<open>The numbers that count as \<open>false\<close> in a condition, and \<open>x || d\<close>.\<close>

definition jtruthy :: "jsnum \<Rightarrow> bool" where
  "jtruthy x = (x \<noteq> NaN \<and> x \<noteq> Fin 0)"

definition jor :: "jsnum \<Rightarrow> jsnum \<Rightarrow> jsnum" where
  "jor x d = (if jtruthy x then x else d)"

definition jmax :: "jsnum \<Rightarrow> jsnum \<Rightarrow> jsnum" where
  "jmax x y = (if jnan x \<or> jnan y then NaN else if jlt x y then y else x)"

definition jmin :: "jsnum \<Rightarrow> jsnum \<Rightarrow> jsnum" where
  "jmin x y = (if jnan x \<or> jnan y then NaN else if jlt y x then y else x)"

fun jabs :: "jsnum \<Rightarrow> jsnum" where
  "jabs NaN = NaN"
| "jabs (Fin a) = Fin \<bar>a\<bar>"
| "jabs _ = PInf"

definition jfinite :: "jsnum \<Rightarrow> bool" where
  "jfinite x = (case x of Fin _ \<Rightarrow> True | _ \<Rightarrow> False)"

text \<open>\<open>Math.floor\<close> and \<open>Math.round\<close> (ties towards plus infinity): exact on finite numbers.\<close>

fun jfloor :: "jsnum \<Rightarrow> jsnum" where
  "jfloor (Fin a) = Fin (of_int \<lfloor>a\<rfloor>)"
| "jfloor x = x"

fun jround :: "jsnum \<Rightarrow> jsnum" where
  "jround (Fin a) = Fin (of_int \<lfloor>a + 1 / 2\<rfloor>)"
| "jround x = x"

text \<open>\<open>ToInt32\<close>/\<open>ToUint32\<close>, applied by the bitwise operators: truncate, then wrap at 32 bits.\<close>

definition trunc_rat :: "rat \<Rightarrow> int" where
  "trunc_rat q = (if 0 \<le> q then \<lfloor>q\<rfloor> else - \<lfloor>- q\<rfloor>)"

fun to_u32 :: "jsnum \<Rightarrow> 32 word" where
  "to_u32 (Fin a) = of_int (trunc_rat a)"
| "to_u32 _ = 0"

abbreviation nat_num :: "nat \<Rightarrow> jsnum" where
  "nat_num n \<equiv> Fin (of_nat n)"

abbreviation int_num :: "int \<Rightarrow> jsnum" where
  "int_num n \<equiv> Fin (of_int n)"

section \<open>Facts about rounding\<close>

lemma pow2_pos [simp]: "0 < pow2 k"
  by (simp add: pow2_def)

lemma pow2_nonneg [simp]: "0 \<le> pow2 k"
  by (simp add: pow2_def)

lemma pow2_neq_0 [simp]: "pow2 k \<noteq> 0"
  by (simp add: pow2_def)

lemma pow2_powi: "pow2 k = 2 powi k"
  by (simp add: pow2_def power_int_def inverse_eq_divide power_one_over)

lemma pow2_add: "pow2 (j + k) = pow2 j * pow2 k"
  by (simp add: pow2_powi power_int_add)

lemma pow2_diff: "pow2 (j - k) = pow2 j / pow2 k"
  by (simp add: pow2_powi power_int_diff)

lemma pow2_mono: "j \<le> k \<Longrightarrow> pow2 j \<le> pow2 k"
  by (simp add: pow2_powi power_int_increasing)

lemma pow2_less_iff: "pow2 j < pow2 k \<longleftrightarrow> j < k"
proof
  assume "pow2 j < pow2 k"
  then show "j < k" using pow2_mono [of k j] by (meson linorder_not_less)
next
  assume "j < k"
  then have "pow2 (j + 1) \<le> pow2 k" by (intro pow2_mono) simp
  moreover have "pow2 j < pow2 (j + 1)" by (simp add: pow2_add pow2_def [of 1])
  ultimately show "pow2 j < pow2 k" by linarith
qed

lemma rne_of_int [simp]: "rne (of_int n) = n"
  by (simp add: rne_def)

lemma rne_error: "\<bar>of_int (rne q) - q\<bar> \<le> 1 / 2"
proof -
  have "of_int \<lfloor>q\<rfloor> \<le> q" "q < of_int \<lfloor>q\<rfloor> + 1" by linarith+
  then show ?thesis by (auto simp: rne_def Let_def abs_le_iff)
qed

lemma fl_0 [simp]: "fl 0 = Fin 0"
  by (simp add: fl_def)

lemma pow2_nat: "pow2 (int n) = 2 ^ n"
  by (simp add: pow2_def)

lemma pow2_1 [simp]: "pow2 1 = 2"
  by (simp add: pow2_def)

lemma ilog2_bounds:
  assumes "0 < q"
  shows "pow2 (ilog2 q) \<le> q" "q < pow2 (ilog2 q + 1)"
proof -
  obtain a b where ab: "quotient_of q = (a, b)" by (cases "quotient_of q")
  have b: "0 < b" using quotient_of_denom_pos [OF ab] .
  have q: "q = of_int a / of_int b" using quotient_of_div [OF ab] .
  with assms b have a: "0 < a" by (simp add: zero_less_divide_iff)
  define x y where "x = floorlog 2 (nat a)" and "y = floorlog 2 (nat b)"
  have x0: "1 \<le> x" and y0: "1 \<le> y"
    using a b floorlog_eq_zero_iff [of 2 "nat a"] floorlog_eq_zero_iff [of 2 "nat b"]
    by (auto simp: x_def y_def Suc_le_eq)
  have "2 ^ (x - 1) \<le> nat a" "nat a < 2 ^ x" "2 ^ (y - 1) \<le> nat b" "nat b < 2 ^ y"
    using floorlog_bounds [of "nat a" 2] floorlog_bounds [of "nat b" 2] a b
    by (auto simp: x_def y_def)
  then have "2 ^ (x - 1) \<le> a" "a < 2 ^ x" "2 ^ (y - 1) \<le> b" "b < 2 ^ y"
    using a b by (simp_all add: le_nat_iff nat_less_iff)
  then have "of_int (2 ^ (x - 1)) \<le> (of_int a :: rat)" "of_int a < (of_int (2 ^ x) :: rat)"
    "of_int (2 ^ (y - 1)) \<le> (of_int b :: rat)" "of_int b < (of_int (2 ^ y) :: rat)"
    by (simp_all only: of_int_le_iff of_int_less_iff)
  then have A: "pow2 (int x - 1) \<le> of_int a" "of_int a < pow2 (int x)"
    and B: "pow2 (int y - 1) \<le> of_int b" "of_int b < pow2 (int y)"
    using x0 y0 by (simp_all add: pow2_def nat_diff_distrib)
  have bp: "0 < (of_int b :: rat)" using b by simp
  have lo: "pow2 (int x - 1 - int y) < q"
    unfolding q pow2_diff [of "int x - 1" "int y"]
    using A(1) B(2) bp by (intro frac_less2) auto
  have hi: "q < pow2 (int x - int y + 1)"
  proof -
    have "q < pow2 (int x) / pow2 (int y - 1)"
      unfolding q using A(2) B(1) bp a by (intro frac_less) auto
    then show ?thesis by (simp add: pow2_diff [symmetric] algebra_simps)
  qed
  have k: "ilog2 q = (if pow2 (int x - int y) \<le> q then int x - int y else int x - int y - 1)"
    by (simp add: ilog2_def ab x_def y_def Let_def)
  show "pow2 (ilog2 q) \<le> q" "q < pow2 (ilog2 q + 1)"
    using lo hi unfolding k by (auto simp: algebra_simps)
qed

lemma ilog2_less: "0 < q \<Longrightarrow> q < pow2 k \<Longrightarrow> ilog2 q < k"
  using ilog2_bounds(1) [of q] pow2_less_iff [of "ilog2 q" k] by linarith

lemma pow2_int_factor: "j \<le> k \<Longrightarrow> \<exists>m. pow2 k = of_int m * pow2 j"
proof (rule exI [of _ "2 ^ nat (k - j)"])
  assume "j \<le> k"
  then show "pow2 k = of_int (2 ^ nat (k - j)) * pow2 j"
    by (simp add: pow2_add [symmetric] pow2_def [of "k - j", symmetric] flip: pow2_nat)
qed

lemma fl_exact:
  assumes q: "q = of_int n * pow2 k" and n: "\<bar>n\<bar> < 2 ^ 53" and k: "- 1074 \<le> k"
    and big: "\<bar>q\<bar> < pow2 1024"
  shows "fl q = Fin q"
proof (cases "q = 0")
  case False
  define e where "e = max (ilog2 \<bar>q\<bar> - 52) (- 1074)"
  have "\<bar>of_int n\<bar> < (of_int (2 ^ 53) :: rat)"
    using n by (simp only: of_int_abs [symmetric] of_int_less_iff)
  then have "\<bar>of_int n\<bar> < pow2 53" by (simp add: pow2_def)
  then have "\<bar>of_int n\<bar> * pow2 k < pow2 53 * pow2 k"
    by (intro mult_strict_right_mono) auto
  then have "\<bar>q\<bar> < pow2 (53 + k)"
    by (simp add: q abs_mult pow2_add)
  then have "ilog2 \<bar>q\<bar> < 53 + k" using False by (intro ilog2_less) auto
  then have "e \<le> k" using k by (simp add: e_def)
  then obtain m where "pow2 k = of_int m * pow2 e" using pow2_int_factor by blast
  then have qe: "q / pow2 e = of_int (n * m)" by (simp add: q)
  have "of_int (rne (q / pow2 e)) * pow2 e = q / pow2 e * pow2 e"
    by (simp only: qe rne_of_int)
  then have "of_int (rne (q / pow2 e)) * pow2 e = q"
    by simp
  then show ?thesis using big False
    by (simp add: fl_def fl_ulp_def e_def [symmetric] Let_def abs_less_iff not_le)
qed simp

lemma fl_int: "\<bar>n\<bar> < 2 ^ 53 \<Longrightarrow> fl (of_int n) = Fin (of_int n)"
proof (rule fl_exact [where k = 0 and n = n])
  assume n: "\<bar>n\<bar> < 2 ^ 53"
  then have "of_int \<bar>n\<bar> < (of_int (2 ^ 53) :: rat)" by (simp only: of_int_less_iff)
  then have "\<bar>of_int n\<bar> < pow2 53" by (simp add: pow2_def)
  also have "pow2 53 < pow2 1024" by (simp add: pow2_less_iff)
  finally show "\<bar>of_int n :: rat\<bar> < pow2 1024" .
qed (auto simp: pow2_def)

lemma fl_nat: "n < 2 ^ 53 \<Longrightarrow> fl (of_nat n) = Fin (of_nat n)"
  using fl_int [of "int n"] by simp

lemma jadd_int: "\<bar>a + b\<bar> < 2 ^ 53 \<Longrightarrow> jadd (int_num a) (int_num b) = int_num (a + b)"
  using fl_int [of "a + b"] by simp

lemma jsub_int: "\<bar>a - b\<bar> < 2 ^ 53 \<Longrightarrow> jsub (int_num a) (int_num b) = int_num (a - b)"
  using fl_int [of "a - b"] by (simp add: jsub_def)

lemma jlt_int [simp]: "jlt (int_num a) (int_num b) \<longleftrightarrow> a < b"
  by simp

lemma jlt_irrefl [simp]: "\<not> jlt x x"
  by (cases x) auto

lemma jlt_trans: "jlt x y \<Longrightarrow> jlt y z \<Longrightarrow> jlt x z"
  by (cases x; cases y; cases z) auto

lemma jlt_not_nan: "jlt x y \<Longrightarrow> \<not> jnan x \<and> \<not> jnan y"
  by (cases x; cases y) (auto simp: jnan_def)

lemma jle_total: "\<not> jnan x \<Longrightarrow> \<not> jnan y \<Longrightarrow> jle x y \<or> jle y x"
  by (cases x; cases y) (auto simp: jnan_def jle_def)

lemma jle_trans: "jle x y \<Longrightarrow> jle y z \<Longrightarrow> jle x z"
  by (cases x; cases y; cases z) (auto simp: jnan_def jle_def)

lemma jle_Fin [simp]: "jle (Fin a) (Fin b) \<longleftrightarrow> a \<le> b"
  by (auto simp: jle_def jnan_def)

lemma not_jlt_jle: "\<not> jnan x \<Longrightarrow> \<not> jnan y \<Longrightarrow> \<not> jlt y x \<longleftrightarrow> jle x y"
  by (auto simp: jle_def)

lemma rne_nonneg: "0 \<le> q \<Longrightarrow> 0 \<le> rne q"
  by (auto simp: rne_def Let_def)

lemma fl_nonneg: "0 \<le> q \<Longrightarrow> (\<exists>r. fl q = Fin r \<and> 0 \<le> r) \<or> fl q = PInf"
proof -
  assume q: "0 \<le> q"
  have u: "0 < fl_ulp q" by (simp add: fl_ulp_def)
  have r: "0 \<le> of_int (rne (q / fl_ulp q)) * fl_ulp q"
    using q u by (simp add: rne_nonneg)
  have "\<not> of_int (rne (q / fl_ulp q)) * fl_ulp q \<le> - pow2 1024"
    using r pow2_pos [of 1024] by linarith
  then show ?thesis using r by (auto simp: fl_def Let_def)
qed

text \<open>Sums of non-negative numbers are non-negative numbers.\<close>

lemma jadd_nonneg: "jle (Fin 0) x \<Longrightarrow> jle (Fin 0) y \<Longrightarrow> jle (Fin 0) (jadd x y)"
proof (cases "\<exists>a b. x = Fin a \<and> y = Fin b")
  case True
  assume p: "jle (Fin 0) x" "jle (Fin 0) y"
  obtain a b where ab: "x = Fin a" "y = Fin b" using True by blast
  then have "0 \<le> a + b" using p by simp
  from fl_nonneg [OF this] show ?thesis using ab by (auto simp: jle_def jnan_def)
qed (cases x; cases y; auto simp: jle_def jnan_def)

end
