(* ===== verification/Js_Value.thy ===== *)
theory Js_Value
  imports Js_Number "HOL-Library.Char_ord" "HOL-Library.List_Lexorder"
begin

text \<open>
  The values the handlers receive: what \<open>JSON.parse\<close> builds from a request body, plus \<open>undefined\<close>
  and the members every object inherits. Strings are lists of 8-bit code units (the character
  classes the sources test are all ASCII); an object is the list of its own properties in the
  order \<open>Object.keys\<close> reports them. The coercions and operators are the ECMAScript ones, errors
  included: a \<open>TypeError\<close> is the error value the router answers with status 400.
\<close>

datatype jsval =
    JUndef
  | JNull
  | JBool bool
  | JNum jsnum
  | JStr string
  | JArr "jsval list"
  | JObj "(string \<times> jsval) list"
  | JBuiltin string

abbreviation type_error :: err where
  "type_error \<equiv> Err 0 ''TypeError''"

section \<open>Decimal and radix notation\<close>

fun digits_of :: "nat \<Rightarrow> nat \<Rightarrow> nat list" where
  "digits_of b n = (if b < 2 \<or> n < b then [n] else digits_of b (n div b) @ [n mod b])"

declare digits_of.simps [simp del]

definition digit_char :: "nat \<Rightarrow> char" where
  "digit_char d = ''0123456789abcdefghijklmnopqrstuvwxyz'' ! d"

text \<open>\<open>n.toString(b)\<close> for a natural number.\<close>

definition radix_str :: "nat \<Rightarrow> nat \<Rightarrow> string" where
  "radix_str b n = map digit_char (digits_of b n)"

abbreviation nat_str :: "nat \<Rightarrow> string" where
  "nat_str \<equiv> radix_str 10"

definition is_digit :: "char \<Rightarrow> bool" where
  "is_digit c = (CHR ''0'' \<le> c \<and> c \<le> CHR ''9'')"

definition is_lower :: "char \<Rightarrow> bool" where
  "is_lower c = (CHR ''a'' \<le> c \<and> c \<le> CHR ''z'')"

definition is_upper :: "char \<Rightarrow> bool" where
  "is_upper c = (CHR ''A'' \<le> c \<and> c \<le> CHR ''Z'')"

definition digit_val :: "char \<Rightarrow> nat" where
  "digit_val c = (of_char c - 48 :: nat)"

definition hex_val :: "char \<Rightarrow> nat option" where
  "hex_val c = (if is_digit c then Some (digit_val c)
                else if CHR ''a'' \<le> c \<and> c \<le> CHR ''f'' then Some (of_char c - 87)
                else if CHR ''A'' \<le> c \<and> c \<le> CHR ''F'' then Some (of_char c - 55)
                else None)"

text \<open>The value of a list of digits, most significant first.\<close>

definition digits_value :: "nat \<Rightarrow> nat list \<Rightarrow> nat" where
  "digits_value b ds = foldl (\<lambda>v d. v * b + d) 0 ds"

section \<open>Number to text\<close>

text \<open>
  \<open>Number::toString\<close>: the decimal \<open>s * 10^(n-k)\<close> with the fewest digits \<open>k\<close> that rounds to the
  number. \<open>dec_exp\<close> gives the \<open>n\<close> with \<open>10^(n-1) <= q < 10^n\<close>; its fuel covers the smallest
  binary64 value (5e-324). The search tries \<open>k = 1, 2, \<dots>\<close>; the fuel 1400 covers the longest exact
  decimal expansion of a binary64 value (theory \<open>Js_Text\<close> proves both are enough).
\<close>

definition pow10 :: "int \<Rightarrow> rat" where
  "pow10 k = (if 0 \<le> k then 10 ^ nat k else 1 / 10 ^ nat (- k))"

fun leading_zeros :: "nat \<Rightarrow> rat \<Rightarrow> nat" where
  "leading_zeros 0 q = 0"
| "leading_zeros (Suc f) q = (if 1 \<le> q * 10 then 0 else Suc (leading_zeros f (q * 10)))"

definition dec_exp :: "rat \<Rightarrow> int" where
  "dec_exp q = (if 1 \<le> q then int (length (digits_of 10 (nat \<lfloor>q\<rfloor>)))
                else - int (leading_zeros 400 q))"

definition shortest_at :: "rat \<Rightarrow> nat \<Rightarrow> (nat \<times> nat \<times> int) option" where
  "shortest_at q k =
     (let n = dec_exp q; s = nat (rne (q * pow10 (int k - n)))
      in if fl (of_nat s * pow10 (n - int k)) = Fin q
         then (if s = 10 ^ k then Some (s div 10, k, n + 1) else Some (s, k, n))
         else None)"

fun shortest_from :: "rat \<Rightarrow> nat \<Rightarrow> nat \<Rightarrow> (nat \<times> nat \<times> int) option" where
  "shortest_from q k 0 = None"
| "shortest_from q k (Suc f) =
     (case shortest_at q k of Some r \<Rightarrow> Some r | None \<Rightarrow> shortest_from q (Suc k) f)"

definition layout_digits :: "string \<Rightarrow> nat \<Rightarrow> int \<Rightarrow> string" where
  "layout_digits ds k n =
     (if int k \<le> n \<and> n \<le> 21 then ds @ replicate (nat (n - int k)) CHR ''0''
      else if 0 < n \<and> n \<le> 21 then take (nat n) ds @ ''.'' @ drop (nat n) ds
      else if - 6 < n \<and> n \<le> 0 then ''0.'' @ replicate (nat (- n)) CHR ''0'' @ ds
      else let e = n - 1;
               es = (if e < 0 then ''e-'' else ''e+'') @ nat_str (nat \<bar>e\<bar>)
           in if k = 1 then ds @ es else take 1 ds @ ''.'' @ drop 1 ds @ es)"

definition pos_str :: "rat \<Rightarrow> string" where
  "pos_str q = (case shortest_from q 1 1400 of
      None \<Rightarrow> [] | Some (s, k, n) \<Rightarrow> layout_digits (nat_str s) k n)"

fun num_str :: "jsnum \<Rightarrow> string" where
  "num_str NaN = ''NaN''"
| "num_str PInf = ''Infinity''"
| "num_str NInf = ''-Infinity''"
| "num_str (Fin q) = (if q = 0 then ''0''
                      else if q < 0 then ''-'' @ pos_str (- q) else pos_str q)"

section \<open>Text to number\<close>

definition is_space :: "char \<Rightarrow> bool" where
  "is_space c = (c \<in> {CHR '' '', CHR 0x09, CHR 0x0A, CHR 0x0B, CHR 0x0C, CHR 0x0D, CHR 0xA0})"

text \<open>\<open>s.trim()\<close>.\<close>

definition trim :: "string \<Rightarrow> string" where
  "trim s = rev (dropWhile is_space (rev (dropWhile is_space s)))"

text \<open>\<open>s.toUpperCase()\<close> and \<open>s.toLowerCase()\<close> on ASCII texts.\<close>

definition upper_char :: "char \<Rightarrow> char" where
  "upper_char c = (if is_lower c then char_of (of_char c - 32 :: nat) else c)"

definition lower_char :: "char \<Rightarrow> char" where
  "lower_char c = (if is_upper c then char_of (of_char c + 32 :: nat) else c)"

abbreviation toUpperCase :: "string \<Rightarrow> string" where
  "toUpperCase s \<equiv> map upper_char s"

abbreviation toLowerCase :: "string \<Rightarrow> string" where
  "toLowerCase s \<equiv> map lower_char s"

definition str_exponent :: "string \<Rightarrow> int option" where
  "str_exponent s = (case s of
       [] \<Rightarrow> Some 0
     | c # r \<Rightarrow>
         if c \<noteq> CHR ''e'' \<and> c \<noteq> CHR ''E'' then None
         else let neg = (take 1 r = ''-'');
                  ds = (if take 1 r = ''-'' \<or> take 1 r = ''+'' then drop 1 r else r)
              in if ds = [] \<or> \<not> list_all is_digit ds then None
                 else Some ((if neg then - 1 else 1) * int (digits_value 10 (map digit_val ds))))"

definition str_unsigned :: "string \<Rightarrow> jsnum" where
  "str_unsigned s =
     (if s = ''Infinity'' then PInf
      else let ip = takeWhile is_digit s; r = dropWhile is_digit s;
               fp = (if take 1 r = ''.'' then takeWhile is_digit (drop 1 r) else []);
               r2 = (if take 1 r = ''.'' then dropWhile is_digit (drop 1 r) else r)
           in if ip @ fp = [] then NaN
              else (case str_exponent r2 of
                  None \<Rightarrow> NaN
                | Some e \<Rightarrow> fl (of_nat (digits_value 10 (map digit_val (ip @ fp)))
                                * pow10 (e - int (length fp)))))"

definition str_radix :: "nat \<Rightarrow> string \<Rightarrow> jsnum" where
  "str_radix b s =
     (if s = [] \<or> \<not> list_all (\<lambda>c. case hex_val c of None \<Rightarrow> False | Some d \<Rightarrow> d < b) s then NaN
      else fl (of_nat (digits_value b (map (\<lambda>c. the (hex_val c)) s))))"

text \<open>\<open>Number(s)\<close> for a string.\<close>

definition str_num :: "string \<Rightarrow> jsnum" where
  "str_num s0 =
     (let s = trim s0
      in if s = [] then Fin 0
         else if take 2 s \<in> {''0x'', ''0X''} then str_radix 16 (drop 2 s)
         else if take 2 s \<in> {''0o'', ''0O''} then str_radix 8 (drop 2 s)
         else if take 2 s \<in> {''0b'', ''0B''} then str_radix 2 (drop 2 s)
         else if take 1 s = ''-'' then jneg (str_unsigned (drop 1 s))
         else if take 1 s = ''+'' then str_unsigned (drop 1 s)
         else str_unsigned s)"

section \<open>Properties\<close>

definition object_members :: "string list" where
  "object_members = [''constructor'', ''toString'', ''valueOf'', ''hasOwnProperty'',
     ''isPrototypeOf'', ''propertyIsEnumerable'', ''toLocaleString'', ''__proto__'',
     ''__defineGetter__'', ''__defineSetter__'', ''__lookupGetter__'', ''__lookupSetter__'']"

definition array_members :: "string list" where
  "array_members = [''at'', ''concat'', ''copyWithin'', ''entries'', ''every'', ''fill'', ''filter'',
     ''find'', ''findIndex'', ''findLast'', ''findLastIndex'', ''flat'', ''flatMap'', ''forEach'',
     ''includes'', ''indexOf'', ''join'', ''keys'', ''lastIndexOf'', ''map'', ''pop'', ''push'',
     ''reduce'', ''reduceRight'', ''reverse'', ''shift'', ''slice'', ''some'', ''sort'', ''splice'',
     ''toReversed'', ''toSorted'', ''toSpliced'', ''unshift'', ''values'', ''with'']"

definition string_members :: "string list" where
  "string_members = [''at'', ''charAt'', ''charCodeAt'', ''codePointAt'', ''concat'', ''endsWith'',
     ''includes'', ''indexOf'', ''lastIndexOf'', ''localeCompare'', ''match'', ''matchAll'',
     ''normalize'', ''padEnd'', ''padStart'', ''repeat'', ''replace'', ''replaceAll'', ''search'',
     ''slice'', ''split'', ''startsWith'', ''substr'', ''substring'', ''toLowerCase'',
     ''toUpperCase'', ''trim'', ''trimEnd'', ''trimStart'', ''isWellFormed'', ''toWellFormed'',
     ''toLocaleLowerCase'', ''toLocaleUpperCase'', ''anchor'', ''big'', ''blink'', ''bold'',
     ''fixed'', ''fontcolor'', ''fontsize'', ''italics'', ''link'', ''small'', ''strike'', ''sub'',
     ''sup'', ''trimLeft'', ''trimRight'']"

definition number_members :: "string list" where
  "number_members = [''toExponential'', ''toFixed'', ''toPrecision'']"

definition inherited :: "string list \<Rightarrow> string \<Rightarrow> jsval" where
  "inherited ms k = (if k \<in> set ms \<or> k \<in> set object_members then JBuiltin k else JUndef)"

text \<open>\<open>v[k]\<close>: own properties first, then the inherited members; \<open>undefined\<close> and \<open>null\<close> throw.\<close>

fun jget :: "jsval \<Rightarrow> string \<Rightarrow> jsval res" where
  "jget JUndef k = Inl type_error"
| "jget JNull k = Inl type_error"
| "jget (JObj fs) k = Inr (case map_of fs k of Some v \<Rightarrow> v | None \<Rightarrow> inherited [] k)"
| "jget (JArr xs) k =
     Inr (if k = ''length'' then JNum (nat_num (length xs))
          else case map_of (map (\<lambda>i. (nat_str i, xs ! i)) [0..<length xs]) k of
              Some v \<Rightarrow> v | None \<Rightarrow> inherited array_members k)"
| "jget (JStr s) k =
     Inr (if k = ''length'' then JNum (nat_num (length s))
          else case map_of (map (\<lambda>i. (nat_str i, JStr [s ! i])) [0..<length s]) k of
              Some v \<Rightarrow> v | None \<Rightarrow> inherited string_members k)"
| "jget (JNum _) k = Inr (inherited number_members k)"
| "jget (JBool _) k = Inr (inherited [] k)"
| "jget (JBuiltin _) k = Inr (inherited [''call'', ''apply'', ''bind'', ''name'', ''length''] k)"

text \<open>\<open>v?.k\<close>.\<close>

definition jopt :: "jsval \<Rightarrow> string \<Rightarrow> jsval" where
  "jopt v k = (case jget v k of Inl _ \<Rightarrow> JUndef | Inr w \<Rightarrow> w)"

text \<open>\<open>k in v\<close>: throws on a primitive.\<close>

fun jhas :: "string \<Rightarrow> jsval \<Rightarrow> bool res" where
  "jhas k (JObj fs) = Inr (k \<in> fst ` set fs \<or> inherited [] k \<noteq> JUndef)"
| "jhas k (JArr xs) = Inr (k = ''length'' \<or> k \<in> set (map nat_str [0..<length xs])
                           \<or> inherited array_members k \<noteq> JUndef)"
| "jhas k (JBuiltin f) = Inr (inherited [''call'', ''apply'', ''bind'', ''name'', ''length''] k \<noteq> JUndef)"
| "jhas k _ = Inl type_error"

section \<open>Coercions and operators\<close>

fun truthy :: "jsval \<Rightarrow> bool" where
  "truthy JUndef = False"
| "truthy JNull = False"
| "truthy (JBool b) = b"
| "truthy (JNum x) = jtruthy x"
| "truthy (JStr s) = (s \<noteq> [])"
| "truthy _ = True"

definition nullish :: "jsval \<Rightarrow> bool" where
  "nullish v = (v = JUndef \<or> v = JNull)"

text \<open>\<open>typeof v === 'object'\<close> (which \<open>null\<close> satisfies too).\<close>

fun is_object_type :: "jsval \<Rightarrow> bool" where
  "is_object_type JNull = True"
| "is_object_type (JArr _) = True"
| "is_object_type (JObj _) = True"
| "is_object_type _ = False"

text \<open>
  \<open>a === b\<close>. Two objects or arrays are equal only when they are the same reference, which two
  values read from different places of the parsed requests and of the stored records never are.
\<close>

fun strict_eq :: "jsval \<Rightarrow> jsval \<Rightarrow> bool" where
  "strict_eq JUndef JUndef = True"
| "strict_eq JNull JNull = True"
| "strict_eq (JBool a) (JBool b) = (a = b)"
| "strict_eq (JNum x) (JNum y) = jeq x y"
| "strict_eq (JStr s) (JStr t) = (s = t)"
| "strict_eq (JBuiltin f) (JBuiltin g) = (f = g)"
| "strict_eq _ _ = False"

text \<open>
  \<open>String(v)\<close>. An object is converted by its \<open>toString\<close>: an own property of that name (JSON data
  is never callable) makes the conversion throw.
\<close>

fun to_str :: "jsval \<Rightarrow> string res"
  and elems_str :: "jsval list \<Rightarrow> string list res" where
  "to_str JUndef = Inr ''undefined''"
| "to_str JNull = Inr ''null''"
| "to_str (JBool b) = Inr (if b then ''true'' else ''false'')"
| "to_str (JNum x) = Inr (num_str x)"
| "to_str (JStr s) = Inr s"
| "to_str (JArr xs) = bindE (elems_str xs) (\<lambda>ps. Inr (join_on '','' ps))"
| "to_str (JObj fs) = (if ''toString'' \<in> fst ` set fs then Inl type_error else Inr ''[object Object]'')"
| "to_str (JBuiltin f) = Inr (''function '' @ f @ ''() { [native code] }'')"
| "elems_str [] = Inr []"
| "elems_str (x # xs) = bindE (if nullish x then Inr [] else to_str x)
     (\<lambda>s. bindE (elems_str xs) (\<lambda>ss. Inr (s # ss)))"

text \<open>\<open>Number(v)\<close>.\<close>

fun to_num :: "jsval \<Rightarrow> jsnum res" where
  "to_num JUndef = Inr NaN"
| "to_num JNull = Inr (Fin 0)"
| "to_num (JBool b) = Inr (Fin (if b then 1 else 0))"
| "to_num (JNum x) = Inr x"
| "to_num (JStr s) = Inr (str_num s)"
| "to_num (JBuiltin f) = Inr NaN"
| "to_num v = bindE (to_str v) (\<lambda>s. Inr (str_num s))"

end
