(* ===== verification/Js_Text.thy ===== *)
theory Js_Text
  imports Js_Value
begin

text \<open>
  Text round trips. A decimal number is read back as it was printed, and every binary64 value is
  recovered from its shortest decimal text (\<open>Number(String(x)) === x\<close>), so \<open>num_str\<close> tells
  numbers apart. The two fuels of \<open>Js_Value\<close> are shown to be enough on the way.
\<close>

section \<open>Digits\<close>

lemma digits_of_small: "n < b \<Longrightarrow> digits_of b n = [n]"
  by (simp add: digits_of.simps)

lemma digits_of_step: "2 \<le> b \<Longrightarrow> b \<le> n \<Longrightarrow> digits_of b n = digits_of b (n div b) @ [n mod b]"
  by (subst digits_of.simps) simp

lemma digits_of_nonempty [simp]: "digits_of b n \<noteq> []"
  by (subst digits_of.simps) simp

lemma digits_of_bound: "2 \<le> b \<Longrightarrow> d \<in> set (digits_of b n) \<Longrightarrow> d < b"
proof (induction b n rule: digits_of.induct)
  case (1 b n)
  then show ?case
    by (cases "n < b") (auto simp: digits_of_small digits_of_step)
qed

lemma digits_value_append: "digits_value b (xs @ [d]) = digits_value b xs * b + d"
  by (simp add: digits_value_def)

lemma digits_value_digits_of: "2 \<le> b \<Longrightarrow> digits_value b (digits_of b n) = n"
proof (induction b n rule: digits_of.induct)
  case (1 b n)
  show ?case
  proof (cases "n < b")
    case True
    then show ?thesis by (simp add: digits_of_small digits_value_def)
  next
    case False
    with 1 show ?thesis by (simp add: digits_of_step digits_value_append)
  qed
qed

lemma digits_of_length:
  "2 \<le> b \<Longrightarrow> 0 < n \<Longrightarrow> b ^ (length (digits_of b n) - 1) \<le> n \<and> n < b ^ length (digits_of b n)"
proof (induction b n rule: digits_of.induct)
  case (1 b n)
  show ?case
  proof (cases "n < b")
    case True
    with 1 show ?thesis by (simp add: digits_of_small)
  next
    case False
    let ?l = "length (digits_of b (n div b))"
    have "0 < n div b" using False 1 by (simp add: div_greater_zero_iff)
    with 1 False have IH: "b ^ (?l - 1) \<le> n div b" "n div b < b ^ ?l" by auto
    have "?l \<noteq> 0" by simp
    then have "b ^ ?l = b ^ (?l - 1) * b" by (cases ?l) auto
    also have "\<dots> \<le> n div b * b" using IH(1) by (rule mult_le_mono1)
    also have "\<dots> \<le> n" by (rule div_times_less_eq_dividend)
    finally have lo: "b ^ ?l \<le> n" .
    have "n < b ^ ?l * b" using IH(2) 1 by (simp add: less_mult_imp_div_less div_less_iff_less_mult)
    with lo False 1 show ?thesis by (simp add: digits_of_step mult.commute)
  qed
qed

lemma length_digits_of:
  assumes "2 \<le> b" "b ^ (k - 1) \<le> n" "n < b ^ k" "1 \<le> k"
  shows "length (digits_of b n) = k"
proof -
  have n: "0 < n" using assms by (meson le_trans less_le_trans nat_one_le_power not_less one_le_numeral zero_less_one order_less_le_trans power_eq_0_iff gr_zeroI zero_less_power pos2)
  note L = digits_of_length [OF assms(1) n]
  let ?l = "length (digits_of b n)"
  have "b ^ (?l - 1) < b ^ k" "b ^ (k - 1) < b ^ ?l" using L assms by linarith+
  then have "?l - 1 < k" "k - 1 < ?l" using assms(1) by (auto dest!: power_less_imp_less_exp [rotated])
  then show ?thesis using assms(4) by linarith
qed

lemma digit_char_val: "d < 10 \<Longrightarrow> is_digit (digit_char d) \<and> digit_val (digit_char d) = d"
proof -
  assume "d < 10"
  then have "d \<in> {0,1,2,3,4,5,6,7,8,9}" by auto
  then show ?thesis
    by (auto simp: digit_char_def is_digit_def digit_val_def less_eq_char_def)
qed

lemma radix_str_nonempty [simp]: "radix_str b n \<noteq> []"
  by (simp add: radix_str_def)

lemma nat_str_digits: "list_all is_digit (nat_str n)"
  using digits_of_bound [of 10 _ n] digit_char_val by (auto simp: radix_str_def list_all_iff)

lemma nat_str_digits_mem: "c \<in> set (nat_str n) \<Longrightarrow> is_digit c"
  using nat_str_digits by (simp add: list_all_iff)

lemma nat_str_map_val: "map digit_val (nat_str n) = digits_of 10 n"
proof -
  have "\<forall>d \<in> set (digits_of 10 n). digit_val (digit_char d) = d"
    using digits_of_bound [of 10 _ n] digit_char_val by auto
  then show ?thesis by (simp add: radix_str_def o_def map_idI)
qed

lemma nat_str_value: "digits_value 10 (map digit_val (nat_str n)) = n"
  by (simp add: nat_str_map_val digits_value_digits_of)

lemma nat_str_inj: "nat_str m = nat_str n \<Longrightarrow> m = n"
  by (metis nat_str_value)

lemma length_nat_str: "10 ^ (k - 1) \<le> n \<Longrightarrow> n < 10 ^ k \<Longrightarrow> 1 \<le> k \<Longrightarrow> length (nat_str n) = k"
  using length_digits_of [of 10 k n] by (simp add: radix_str_def)

section \<open>Powers of ten and the decimal exponent\<close>

lemma pow10_pos [simp]: "0 < pow10 k"
  by (simp add: pow10_def)

lemma pow10_neq_0 [simp]: "pow10 k \<noteq> 0"
  using pow10_pos [of k] by linarith

lemma pow10_powi: "pow10 k = 10 powi k"
  by (simp add: pow10_def power_int_def inverse_eq_divide power_one_over)

lemma pow10_add: "pow10 (j + k) = pow10 j * pow10 k"
  by (simp add: pow10_powi power_int_add)

lemma pow10_nat [simp]: "pow10 (int n) = 10 ^ n"
  by (simp add: pow10_def)

lemma pow10_less_iff: "pow10 j < pow10 k \<longleftrightarrow> j < k"
proof -
  have mono: "pow10 a \<le> pow10 b" if "a \<le> b" for a b
    using that by (simp add: pow10_powi power_int_increasing)
  have strict: "pow10 a < pow10 b" if "a < b" for a b
  proof -
    have "pow10 (a + 1) \<le> pow10 b" using that by (intro mono) simp
    moreover have "pow10 a < pow10 (a + 1)" by (simp add: pow10_add pow10_def [of 1])
    ultimately show ?thesis by linarith
  qed
  show ?thesis using mono [of k j] strict [of j k] by (meson linorder_not_less)
qed

lemma leading_zeros_bounds:
  "q < 1 \<Longrightarrow> 1 \<le> q * 10 ^ f \<Longrightarrow>
   q * 10 ^ leading_zeros f q < 1 \<and> 1 \<le> q * 10 ^ Suc (leading_zeros f q)"
proof (induction f arbitrary: q)
  case (Suc f)
  show ?case
  proof (cases "1 \<le> q * 10")
    case False
    with Suc.IH [of "q * 10"] Suc.prems show ?thesis by (simp add: mult.assoc)
  qed (use Suc.prems in simp)
qed simp

lemma leading_zeros_range:
  assumes "q < 1" "pow10 (- int f) \<le> q"
  shows "q * 10 ^ leading_zeros f q < 1 \<and> 1 \<le> q * 10 ^ Suc (leading_zeros f q)"
proof (rule leading_zeros_bounds [OF assms(1)])
  have "pow10 (- int f) * 10 ^ f \<le> q * 10 ^ f" using assms(2) by (rule mult_right_mono) simp
  moreover have "pow10 (- int f) * pow10 (int f) = 1"
    by (simp add: pow10_add [symmetric] pow10_def [of 0] del: pow10_nat)
  ultimately show "1 \<le> q * 10 ^ f" by (simp only: pow10_nat)
qed

lemma dec_exp_bounds:
  assumes q: "0 < q" "pow10 (- 400) \<le> q"
  shows "pow10 (dec_exp q - 1) \<le> q \<and> q < pow10 (dec_exp q)"
proof (cases "1 \<le> q")
  case True
  define m l where "m = nat \<lfloor>q\<rfloor>" and "l = length (digits_of 10 m)"
  have m: "0 < m" "of_nat m \<le> q" "q < of_nat m + 1"
    using True by (auto simp: m_def) (linarith)+
  have "10 ^ (l - 1) \<le> m" "m + 1 \<le> 10 ^ l"
    using digits_of_length [of 10 m] m(1) by (auto simp: l_def)
  moreover have "(10 :: rat) ^ (l - 1) = of_nat (10 ^ (l - 1))" "(10 :: rat) ^ l = of_nat (10 ^ l)"
    "(of_nat m :: rat) + 1 = of_nat (m + 1)" by simp_all
  ultimately have p: "10 ^ (l - 1) \<le> (of_nat m :: rat)" "of_nat m + 1 \<le> (10 ^ l :: rat)"
    by (simp_all only: of_nat_le_iff)
  have "l \<noteq> 0" by (simp add: l_def)
  then have "pow10 (int l - 1) = 10 ^ (l - 1)" by (cases l) (auto simp: pow10_def)
  then have "pow10 (int l - 1) \<le> q" "q < pow10 (int l)"
    using order_trans [OF p(1) m(2)] order_less_le_trans [OF m(3) p(2)] by simp_all
  moreover have "dec_exp q = int l" using True by (simp add: dec_exp_def m_def l_def)
  ultimately show ?thesis by simp
next
  case False
  define z where "z = leading_zeros 400 q"
  have b: "q * 10 ^ z < 1" "1 \<le> q * 10 ^ Suc z"
    using leading_zeros_range [of q 400] False q(2) by (simp_all add: z_def del: power_Suc)
  have "dec_exp q = - int z" using False by (simp add: dec_exp_def z_def)
  moreover have "pow10 (- int z) = 1 / 10 ^ z" by (simp add: pow10_def)
  moreover have "pow10 (- int z - 1) = 1 / 10 ^ Suc z"
    by (simp add: pow10_def nat_add_distrib)
  moreover have "1 / 10 ^ Suc z \<le> q" using b(2) by (simp add: divide_le_eq del: power_Suc)
  moreover have "q < 1 / 10 ^ z" using b(1) by (simp add: less_divide_eq)
  ultimately show ?thesis by (simp del: power_Suc)
qed

section \<open>Binary64 values\<close>

definition f64 :: "rat \<Rightarrow> bool" where
  "f64 q = (fl q = Fin q)"

lemma rne_minus: "rne (- q) = - rne q"
proof (cases "of_int \<lfloor>q\<rfloor> = q")
  case True
  then show ?thesis by (metis rne_of_int of_int_minus)
next
  case False
  have "of_int \<lfloor>q\<rfloor> \<le> q" by simp
  with False have less: "of_int \<lfloor>q\<rfloor> < q" by linarith
  have "\<lfloor>- q\<rfloor> = - \<lfloor>q\<rfloor> - 1"
  proof (rule floor_unique)
    show "of_int (- \<lfloor>q\<rfloor> - 1) \<le> - q" using floor_correct [of q] by simp
    show "- q < of_int (- \<lfloor>q\<rfloor> - 1) + 1" using less by simp
  qed
  then show ?thesis by (auto simp: rne_def Let_def)
qed

lemma fl_minus: "fl (- q) = jneg (fl q)"
  using pow2_pos [of 1024] by (auto simp: fl_def fl_ulp_def Let_def rne_minus simp del: pow2_pos)

lemma f64_minus: "f64 q \<Longrightarrow> f64 (- q)"
  by (simp add: f64_def fl_minus)

lemma fl_struct:
  assumes "fl x = Fin y"
  shows "\<exists>r e. y = of_int r * pow2 e \<and> - 1074 \<le> e \<and> \<bar>r\<bar> \<le> 2 ^ 53 \<and> \<bar>y\<bar> < pow2 1024"
proof (cases "x = 0")
  case True
  with assms show ?thesis by (intro exI [of _ 0] exI [of _ 0]) simp
next
  case False
  define e where "e = max (ilog2 \<bar>x\<bar> - 52) (- 1074)"
  have "y = of_int (rne (x / pow2 e)) * pow2 e" and "\<bar>y\<bar> < pow2 1024"
    using assms False by (auto simp: fl_def fl_ulp_def Let_def e_def split: if_splits)
  moreover have "\<bar>rne (x / pow2 e)\<bar> \<le> 2 ^ 53"
  proof -
    have "\<bar>x\<bar> < pow2 (ilog2 \<bar>x\<bar> + 1)" using False by (intro ilog2_bounds) simp
    also have "\<dots> \<le> pow2 (53 + e)" by (rule pow2_mono) (simp add: e_def)
    finally have "\<bar>x / pow2 e\<bar> < pow2 53"
      by (simp add: pow2_add abs_divide field_simps)
    then have "\<bar>of_int (rne (x / pow2 e))\<bar> < pow2 53 + (1 :: rat)"
      using rne_error [of "x / pow2 e"] by linarith
    then have "of_int \<bar>rne (x / pow2 e)\<bar> < (of_int (2 ^ 53 + 1) :: rat)"
      by (simp add: pow2_def)
    then have "\<bar>rne (x / pow2 e)\<bar> < 2 ^ 53 + 1" by (simp only: of_int_less_iff)
    then show ?thesis by simp
  qed
  moreover have "- 1074 \<le> e" by (simp add: e_def)
  ultimately show ?thesis by blast
qed

lemma fl_f64: "fl x = Fin y \<Longrightarrow> f64 y"
proof -
  assume "fl x = Fin y"
  then obtain r e where y: "y = of_int r * pow2 e" "- 1074 \<le> e" "\<bar>r\<bar> \<le> 2 ^ 53" "\<bar>y\<bar> < pow2 1024"
    using fl_struct by blast
  show "f64 y"
  proof (cases "\<bar>r\<bar> < 2 ^ 53")
    case True
    with y show ?thesis unfolding f64_def by (intro fl_exact [of y r e])
  next
    case False
    then have "r = 2 ^ 53 \<or> r = - (2 ^ 53)" using y(3) by linarith
    then have "\<exists>m. y = of_int m * pow2 (e + 1) \<and> \<bar>m\<bar> < 2 ^ 53"
    proof
      assume "r = 2 ^ 53"
      then show ?thesis using y(1) by (intro exI [of _ "2 ^ 52"]) (simp add: pow2_add)
    next
      assume "r = - (2 ^ 53)"
      then show ?thesis using y(1) by (intro exI [of _ "- (2 ^ 52)"]) (simp add: pow2_add)
    qed
    then obtain m where "y = of_int m * pow2 (e + 1)" "\<bar>m\<bar> < 2 ^ 53" by blast
    then show ?thesis unfolding f64_def using y(2,4) by (intro fl_exact [of y m "e + 1"]) linarith+
  qed
qed

lemma f64_int: "\<bar>n\<bar> < 2 ^ 53 \<Longrightarrow> f64 (of_int n)"
  by (simp add: f64_def fl_int)

lemma f64_lower:
  assumes "f64 q" "0 < q"
  shows "pow10 (- 400) \<le> q"
proof -
  obtain r e where y: "q = of_int r * pow2 e" "- 1074 \<le> e"
    using fl_struct assms(1) unfolding f64_def by blast
  have "0 < r" using assms(2) y(1) zero_less_mult_pos2 [of "of_int r" "pow2 e"] by simp
  then have "1 \<le> (of_int r :: rat)" by simp
  then have "1 * pow2 (- 1074) \<le> q" unfolding y(1)
    by (intro mult_mono pow2_mono y(2)) auto
  moreover have "pow10 (- 400) \<le> pow2 (- 1074)"
  proof -
    have e: "(1074 :: nat) = 3 * 358" by simp
    have "(2 :: rat) ^ 1074 \<le> 10 ^ 358" unfolding e power_mult by (rule power_mono) simp_all
    also have "(10 :: rat) ^ 358 \<le> 10 ^ 400" by (rule power_increasing) simp_all
    finally have le: "(2 :: rat) ^ 1074 \<le> 10 ^ 400" .
    have inv: "1 / b \<le> 1 / a" if "0 < a" "a \<le> b" for a b :: rat
      using that by (simp add: frac_le)
    have "1 / 10 ^ 400 \<le> 1 / (2 :: rat) ^ 1074"
      by (rule inv [OF _ le]) (rule zero_less_power, simp)
    moreover have "pow10 (- 400) = 1 / 10 ^ 400" "pow2 (- 1074) = 1 / 2 ^ 1074"
      by (simp_all only: pow10_def pow2_def) (simp_all del: power_numeral)
    ultimately show ?thesis by (simp only:)
  qed
  ultimately show ?thesis by (metis mult_1 order_trans)
qed

lemma f64_dec_exp:
  assumes "f64 q" "0 < q"
  shows "pow10 (dec_exp q - 1) \<le> q" "q < pow10 (dec_exp q)" "dec_exp q \<le> 309"
proof -
  note b = dec_exp_bounds [OF assms(2) f64_lower [OF assms]]
  then show "pow10 (dec_exp q - 1) \<le> q" "q < pow10 (dec_exp q)" by auto
  have "q < pow2 1024" using fl_struct assms unfolding f64_def by fastforce
  also have "pow2 1024 < pow10 309" by (simp add: pow10_def pow2_def)
  finally have "pow10 (dec_exp q - 1) < pow10 309" using b by linarith
  then show "dec_exp q \<le> 309" by (simp add: pow10_less_iff)
qed


section \<open>The shortest decimal text\<close>

lemma shortest_at_Some:
  assumes "f64 q" "0 < q" "1 \<le> k" "shortest_at q k = Some (s, k', n)"
  shows "k' = k \<and> 10 ^ (k - 1) \<le> s \<and> s < 10 ^ k \<and> n \<le> 310
    \<and> fl (of_nat s * pow10 (n - int k)) = Fin q"
proof -
  define n0 where "n0 = dec_exp q"
  define x where "x = q * pow10 (int k - n0)"
  define s0 where "s0 = nat (rne x)"
  note d = f64_dec_exp [OF assms(1,2), folded n0_def]
  obtain k1 where k1: "k = Suc k1" using assms(3) by (cases k) auto
  have "pow10 (n0 - 1) * pow10 (int k - n0) = pow10 (int k1)"
    "pow10 n0 * pow10 (int k - n0) = pow10 (int k)"
    by (simp_all add: pow10_add [symmetric] k1 del: pow10_nat)
  moreover have "pow10 (n0 - 1) * pow10 (int k - n0) \<le> x" "x < pow10 n0 * pow10 (int k - n0)"
    unfolding x_def using d(1,2) by (auto intro: mult_right_mono mult_strict_right_mono less_imp_le)
  ultimately have x: "of_int (10 ^ k1) \<le> x" "x < of_int (10 ^ k)"
    by simp_all
  have "rne x \<ge> 10 ^ k1" "rne x \<le> 10 ^ k"
  proof -
    have "10 ^ k1 \<le> \<lfloor>x\<rfloor>" "\<lfloor>x\<rfloor> < 10 ^ k"
      using x by (simp_all only: le_floor_iff floor_less_iff)
    then show "rne x \<ge> 10 ^ k1" "rne x \<le> 10 ^ k" by (auto simp: rne_def Let_def)
  qed
  then have s0: "10 ^ k1 \<le> s0" "s0 \<le> 10 ^ k"
    by (auto simp: s0_def le_nat_iff nat_le_iff)
  have r: "fl (of_nat s0 * pow10 (n0 - int k)) = Fin q"
    "(s, k', n) = (if s0 = 10 ^ k then (s0 div 10, k, n0 + 1) else (s0, k, n0))"
    using assms(4) by (auto simp: shortest_at_def Let_def n0_def [symmetric] x_def [symmetric]
        s0_def [symmetric] split: if_splits)
  show ?thesis
  proof (cases "s0 = 10 ^ k")
    case True
    have "of_nat (10 ^ k1) * pow10 (n0 + 1 - int k) = of_nat s0 * pow10 (n0 - int k)"
      using True k1 pow10_add [of 1 "n0 - int k"] by (simp add: pow10_def [of 1] algebra_simps)
    then have "fl (of_nat (10 ^ k1) * pow10 (n0 + 1 - int k)) = Fin q" using r(1) by simp
    with True r(2) k1 d(3) show ?thesis by simp
  next
    case False
    with r s0 k1 d(3) show ?thesis by simp
  qed
qed

lemma shortest_at_exact:
  assumes "f64 q" "0 < q" and k: "dec_exp q + 1074 \<le> int k"
  shows "shortest_at q k \<noteq> None"
proof -
  obtain w :: nat where w: "w = 1074" by blast
  obtain r e where q: "q = of_int r * pow2 e" and e: "- int w \<le> e"
    using fl_struct assms(1) unfolding f64_def w by fastforce
  define m where "m = int k - dec_exp q"
  have m: "int w \<le> m" using k by (simp add: m_def w)
  have "pow10 m = pow10 (m - int w) * pow10 (int w)" by (simp add: pow10_add [symmetric] del: pow10_nat)
  also have "pow10 (m - int w) = of_int (10 ^ nat (m - int w))" using m by (simp add: pow10_def)
  also have "pow10 (int w) = of_int (5 ^ w) * pow2 (int w)"
    by (simp add: pow2_nat power_mult_distrib [symmetric])
  finally have m10: "pow10 m = of_int (10 ^ nat (m - int w)) * (of_int (5 ^ w) * pow2 (int w))" .
  have "pow2 e * pow2 (int w) = of_int (2 ^ nat (e + int w))"
  proof -
    have "pow2 e * pow2 (int w) = pow2 (e + int w)" by (simp add: pow2_add)
    then show ?thesis using e by (simp add: pow2_def [of "e + int w"])
  qed
  then have "q * pow10 m = of_int (r * 10 ^ nat (m - int w) * 5 ^ w * 2 ^ nat (e + int w))"
    unfolding q m10 by (simp add: mult_ac)
  then obtain z where z: "q * pow10 m = of_int z" by blast
  have "0 < q * pow10 m" using assms(2) by simp
  then have z0: "0 < z" using z by simp
  have "of_nat (nat z) * pow10 (- m) = q * (pow10 m * pow10 (- m))"
    using z0 by (simp add: z [symmetric] mult.assoc)
  also have "pow10 m * pow10 (- m) = 1"
    by (simp add: pow10_add [symmetric] pow10_def [of 0])
  finally have "of_nat (nat z) * pow10 (- m) = q" by simp
  then show ?thesis using assms(1) z
    by (simp add: shortest_at_def Let_def f64_def m_def)
qed

lemma shortest_from_Some:
  "k \<le> k' \<Longrightarrow> k' < k + f \<Longrightarrow> shortest_at q k' \<noteq> None \<Longrightarrow>
   \<exists>j \<ge> k. \<exists>r. shortest_at q j = Some r \<and> shortest_from q k f = Some r"
proof (induction f arbitrary: k)
  case (Suc f)
  show ?case
  proof (cases "shortest_at q k")
    case None
    with Suc.prems have "Suc k \<le> k'" by (cases "k = k'") auto
    then obtain j r where "Suc k \<le> j" "shortest_at q j = Some r" "shortest_from q (Suc k) f = Some r"
      using Suc.IH [of "Suc k"] Suc.prems by auto
    with None show ?thesis by (intro exI [of _ j] conjI exI [of _ r]) simp_all
  qed auto
qed simp

lemma shortest_digits:
  assumes "f64 q" "0 < q"
  obtains s k n where "shortest_from q 1 1400 = Some (s, k, n)" "1 \<le> k"
    "10 ^ (k - 1) \<le> s" "s < 10 ^ k" "n \<le> 310" "fl (of_nat s * pow10 (n - int k)) = Fin q"
proof -
  let ?k = "nat (max 1 (dec_exp q + 1074))"
  have "shortest_at q ?k \<noteq> None" by (rule shortest_at_exact [OF assms]) arith
  moreover have "1 \<le> ?k" "?k < 1 + 1400" using f64_dec_exp(3) [OF assms] by auto
  ultimately obtain j r where j: "1 \<le> j" "shortest_at q j = Some r" "shortest_from q 1 1400 = Some r"
    using shortest_from_Some [of 1 ?k 1400 q] by blast
  obtain s k n where r: "r = (s, k, n)" by (cases r)
  show thesis using shortest_at_Some [OF assms j(1)] j that unfolding r by blast
qed

section \<open>Reading a number back\<close>

lemma digits_value_zeros_left: "digits_value b (replicate m 0 @ ds) = digits_value b ds"
  by (induction m) (auto simp: digits_value_def)

lemma digits_value_zeros_right: "digits_value b (ds @ replicate m 0) = digits_value b ds * b ^ m"
proof (induction m)
  case (Suc m)
  have "ds @ replicate (Suc m) 0 = (ds @ replicate m 0) @ [0]"
    by (simp add: replicate_append_same)
  then show ?case by (simp only: digits_value_append Suc) simp
qed simp

lemma takeWhile_digits:
  "list_all P xs \<Longrightarrow> r = [] \<or> \<not> P (hd r) \<Longrightarrow> takeWhile P (xs @ r) = xs"
  by (induction xs) (cases r; auto)+

lemma dropWhile_digits:
  "list_all P xs \<Longrightarrow> r = [] \<or> \<not> P (hd r) \<Longrightarrow> dropWhile P (xs @ r) = r"
  by (induction xs) (cases r; auto)+

lemma special_not_digit [simp]:
  "\<not> is_digit CHR ''.''" "\<not> is_digit CHR ''e''" "\<not> is_digit CHR ''-''" "\<not> is_digit CHR ''+''"
  "\<not> is_digit CHR '',''" "\<not> is_digit CHR ''n''" "\<not> is_digit CHR 0x0A" "\<not> is_digit CHR ''I''"
  "\<not> is_digit CHR ''x''" "\<not> is_digit CHR ''X''" "\<not> is_digit CHR ''o''" "\<not> is_digit CHR ''O''"
  "\<not> is_digit CHR ''b''" "\<not> is_digit CHR ''B''"
  by (simp_all add: is_digit_def less_eq_char_def)

lemma digit_not_space: "is_digit c \<Longrightarrow> \<not> is_space c"
  by (auto simp: is_digit_def is_space_def less_eq_char_def)

definition exp_text :: "int \<Rightarrow> string" where
  "exp_text e = (if e = 0 then [] else (if e < 0 then ''e-'' else ''e+'') @ nat_str (nat \<bar>e\<bar>))"

lemma str_exponent_text: "str_exponent (exp_text e) = Some e"
proof (cases "e = 0")
  case False
  have "take (Suc 0) (nat_str m) \<noteq> ''-''" for m
  proof -
    have "is_digit (hd (nat_str m))" by (rule nat_str_digits_mem [of _ m]) simp
    then show ?thesis by (cases "nat_str m") auto
  qed
  with False show ?thesis
    by (auto simp: exp_text_def str_exponent_def nat_str_digits nat_str_value Let_def)
qed (simp add: exp_text_def str_exponent_def)

lemma exp_text_hd: "exp_text e = [] \<or> hd (exp_text e) = CHR ''e''"
  by (simp add: exp_text_def)

definition point_text :: "string \<Rightarrow> string" where
  "point_text fp = (if fp = [] then [] else CHR ''.'' # fp)"

lemma str_unsigned_parts:
  assumes ip: "list_all is_digit ip" "ip \<noteq> []" and fp: "list_all is_digit fp"
  shows "str_unsigned (ip @ point_text fp @ exp_text e)
    = fl (of_nat (digits_value 10 (map digit_val (ip @ fp))) * pow10 (e - int (length fp)))"
proof -
  let ?s = "ip @ point_text fp @ exp_text e"
  have ni: "?s \<noteq> ''Infinity''"
    using ip by (cases ip) auto
  have r: "point_text fp @ exp_text e = [] \<or> \<not> is_digit (hd (point_text fp @ exp_text e))"
    using exp_text_hd [of e] by (auto simp: point_text_def)
  have 1: "takeWhile is_digit ?s = ip" "dropWhile is_digit ?s = point_text fp @ exp_text e"
    using takeWhile_digits [OF ip(1) r] dropWhile_digits [OF ip(1) r] by auto
  have e: "exp_text e = [] \<or> \<not> is_digit (hd (exp_text e))"
    using exp_text_hd [of e] by auto
  have 2: "takeWhile is_digit (fp @ exp_text e) = fp" "dropWhile is_digit (fp @ exp_text e) = exp_text e"
    using takeWhile_digits [OF fp e] dropWhile_digits [OF fp e] by auto
  have 3: "take (Suc 0) (exp_text e) \<noteq> ''.''"
    using exp_text_hd [of e] by (cases "exp_text e") auto
  show ?thesis
    using ni ip(2) 3 1 2 by (cases "fp = []") (simp_all add: str_unsigned_def point_text_def str_exponent_text Let_def)
qed

lemma trim_id: "s \<noteq> [] \<Longrightarrow> \<not> is_space (hd s) \<Longrightarrow> \<not> is_space (last s) \<Longrightarrow> trim s = s"
proof -
  assume a: "s \<noteq> []" "\<not> is_space (hd s)" "\<not> is_space (last s)"
  have "dropWhile is_space s = s" using a by (cases s) auto
  moreover have "dropWhile is_space (rev s) = rev s"
    using a by (cases "rev s") (auto simp: last_rev hd_rev [symmetric] rev_eq_Cons_iff)
  ultimately show ?thesis by (simp add: trim_def)
qed

definition num_char :: "char \<Rightarrow> bool" where
  "num_char c = (is_digit c \<or> c \<in> {CHR ''.'', CHR ''e'', CHR ''-'', CHR ''+''})"

lemma num_char_not: "num_char c \<Longrightarrow> \<not> is_space c \<and> c \<noteq> CHR ''x'' \<and> c \<noteq> CHR ''X''
   \<and> c \<noteq> CHR ''o'' \<and> c \<noteq> CHR ''O'' \<and> c \<noteq> CHR ''b'' \<and> c \<noteq> CHR ''B''"
  using digit_not_space by (auto simp: num_char_def is_space_def)

lemma take2_radix:
  assumes "\<forall>c \<in> set s. num_char c"
  shows "take 2 s \<notin> {''0x'', ''0X''}" "take 2 s \<notin> {''0o'', ''0O''}" "take 2 s \<notin> {''0b'', ''0B''}"
proof -
  have "\<forall>c \<in> set (take 2 s). num_char c" using assms by (auto dest: in_set_takeD)
  then show "take 2 s \<notin> {''0x'', ''0X''}" "take 2 s \<notin> {''0o'', ''0O''}" "take 2 s \<notin> {''0b'', ''0B''}"
  proof -
    have "\<forall>c \<in> {CHR ''x'', CHR ''X'', CHR ''o'', CHR ''O'', CHR ''b'', CHR ''B''}. c \<notin> set (take 2 s)"
      using \<open>\<forall>c \<in> set (take 2 s). num_char c\<close> num_char_not by blast
    then show "take 2 s \<notin> {''0x'', ''0X''}" "take 2 s \<notin> {''0o'', ''0O''}" "take 2 s \<notin> {''0b'', ''0B''}"
      by auto
  qed
qed

lemma str_num_unsigned:
  assumes "s \<noteq> []" "\<forall>c \<in> set s. num_char c" "is_digit (hd s)"
  shows "str_num s = str_unsigned s"
proof -
  have "trim s = s"
    using assms num_char_not by (intro trim_id) auto
  moreover have "take 1 s \<noteq> ''-''" "take 1 s \<noteq> ''+''"
    using assms by (cases s; auto)+
  ultimately show ?thesis
    using assms(1) take2_radix [OF assms(2)] by (simp add: str_num_def Let_def)
qed

lemma str_num_negative:
  assumes "s \<noteq> []" "\<forall>c \<in> set s. num_char c"
  shows "str_num (CHR ''-'' # s) = jneg (str_unsigned s)"
proof -
  have "trim (CHR ''-'' # s) = CHR ''-'' # s"
    using assms num_char_not by (intro trim_id) (auto simp: is_space_def [of "CHR ''-''"])
  moreover have "\<forall>c \<in> set (CHR ''-'' # s). num_char c"
    using assms by (auto simp: num_char_def)
  ultimately show ?thesis
    using take2_radix [of "CHR ''-'' # s"] by (simp add: str_num_def Let_def)
qed

text \<open>The three shapes of a decimal text, all of them integer part, fraction and exponent.\<close>

definition decimal_text :: "string \<Rightarrow> string \<Rightarrow> int \<Rightarrow> string" where
  "decimal_text ip fp e = ip @ point_text fp @ exp_text e"

lemma decimal_text_chars:
  assumes "list_all is_digit ip" "list_all is_digit fp"
  shows "\<forall>c \<in> set (decimal_text ip fp e). num_char c"
proof -
  have "\<forall>c \<in> set (exp_text e). num_char c"
    using nat_str_digits_mem by (auto simp: exp_text_def num_char_def)
  then show ?thesis
    using assms by (auto simp: decimal_text_def point_text_def num_char_def list_all_iff)
qed

lemma layout_digits_decimal:
  assumes s: "10 ^ (k - 1) \<le> s" "s < 10 ^ k" "1 \<le> k"
  shows "\<exists>ip fp e. layout_digits (nat_str s) k n = decimal_text ip fp e
    \<and> list_all is_digit ip \<and> ip \<noteq> [] \<and> list_all is_digit fp
    \<and> of_nat (digits_value 10 (map digit_val (ip @ fp))) * pow10 (e - int (length fp))
        = of_nat s * pow10 (n - int k)"
proof -
  let ?ds = "nat_str s"
  have len: "length ?ds = k" using length_nat_str s by blast
  have dig: "list_all is_digit ?ds" by (rule nat_str_digits)
  have z: "is_digit CHR ''0''" "digit_val CHR ''0'' = 0" by (simp_all add: is_digit_def digit_val_def)
  have part: "list_all is_digit (take m ?ds)" "list_all is_digit (drop m ?ds)" for m
    using dig by (auto simp: list_all_iff dest: in_set_takeD in_set_dropD)
  consider (int) "int k \<le> n" "n \<le> 21" | (frac) "0 < n" "n < int k" "n \<le> 21"
    | (small) "- 6 < n" "n \<le> 0" | (exp) "n \<le> - 6 \<or> 21 < n"
    by linarith
  then show ?thesis
  proof cases
    case int
    let ?ip = "?ds @ replicate (nat (n - int k)) CHR ''0''"
    have "layout_digits ?ds k n = decimal_text ?ip [] 0"
      using int by (simp add: layout_digits_def decimal_text_def point_text_def exp_text_def)
    moreover have "digits_value 10 (map digit_val ?ip) = s * 10 ^ nat (n - int k)"
      using z by (simp add: digits_value_zeros_right nat_str_value)
    ultimately show ?thesis using int dig z
      by (intro exI [of _ ?ip] exI [of _ "[]"] exI [of _ 0])
         (auto simp: list_all_iff pow10_def)
  next
    case frac
    have "layout_digits ?ds k n = decimal_text (take (nat n) ?ds) (drop (nat n) ?ds) 0"
      using frac len by (simp add: layout_digits_def decimal_text_def point_text_def exp_text_def)
    moreover have "take (nat n) ?ds \<noteq> []" using frac by simp
    moreover have "int (length (drop (nat n) ?ds)) = int k - n" using frac len by simp
    ultimately show ?thesis using part nat_str_value [of s]
      by (intro exI [of _ "take (nat n) ?ds"] exI [of _ "drop (nat n) ?ds"] exI [of _ 0])
         (simp del: map_append)
  next
    case small
    let ?fp = "replicate (nat (- n)) CHR ''0'' @ ?ds"
    have "layout_digits ?ds k n = decimal_text ''0'' ?fp 0"
      using small s(3) by (simp add: layout_digits_def decimal_text_def point_text_def exp_text_def)
    moreover have "digits_value 10 (map digit_val (''0'' @ ?fp)) = s"
      using z digits_value_zeros_left [of 10 "Suc (nat (- n))" "map digit_val ?ds"]
      by (simp add: nat_str_value)
    moreover have "int (length ?fp) = int k - n" using small len by simp
    ultimately show ?thesis using dig z
      by (intro exI [of _ "''0''"] exI [of _ ?fp] exI [of _ 0]) (auto simp: list_all_iff)
  next
    case exp
    have n1: "n - 1 \<noteq> 0" using exp by linarith
    then have lay: "layout_digits ?ds k n = decimal_text (take 1 ?ds) (drop 1 ?ds) (n - 1)"
      using exp len s(3)
      by (auto simp: layout_digits_def decimal_text_def point_text_def exp_text_def Let_def)
    moreover have "take 1 ?ds \<noteq> []" by simp
    moreover have "int (length (drop 1 ?ds)) = int k - 1" using len s(3) by simp
    ultimately show ?thesis using part nat_str_value [of s]
      by (intro exI [of _ "take 1 ?ds"] exI [of _ "drop 1 ?ds"] exI [of _ "n - 1"])
         (simp del: map_append One_nat_def)
  qed
qed

lemma pos_str_read:
  assumes "f64 q" "0 < q"
  shows "str_unsigned (pos_str q) = Fin q" "pos_str q \<noteq> []" "\<forall>c \<in> set (pos_str q). num_char c"
    "is_digit (hd (pos_str q))"
proof -
  obtain s k n where d: "shortest_from q 1 1400 = Some (s, k, n)" "1 \<le> k"
    "10 ^ (k - 1) \<le> s" "s < 10 ^ k" "fl (of_nat s * pow10 (n - int k)) = Fin q"
    using shortest_digits [OF assms] by metis
  obtain ip fp e where t: "layout_digits (nat_str s) k n = decimal_text ip fp e"
    "list_all is_digit ip" "ip \<noteq> []" "list_all is_digit fp"
    "of_nat (digits_value 10 (map digit_val (ip @ fp))) * pow10 (e - int (length fp))
        = of_nat s * pow10 (n - int k)"
    using layout_digits_decimal [OF d(3,4,2)] by blast
  have p: "pos_str q = decimal_text ip fp e" by (simp add: pos_str_def d(1) t(1) del: One_nat_def)
  show "str_unsigned (pos_str q) = Fin q"
    unfolding p decimal_text_def str_unsigned_parts [OF t(2,3,4)] t(5) by (rule d(5))
  show "pos_str q \<noteq> []" "is_digit (hd (pos_str q))"
    using t(2,3) by (auto simp: p decimal_text_def list_all_iff)
  show "\<forall>c \<in> set (pos_str q). num_char c"
    unfolding p by (rule decimal_text_chars [OF t(2,4)])
qed

text \<open>Every binary64 value is read back from its text.\<close>

lemma str_num_num_str: "f64 q \<Longrightarrow> str_num (num_str (Fin q)) = Fin q"
proof -
  assume f: "f64 q"
  consider "q = 0" | "0 < q" | "q < 0" by linarith
  then show ?thesis
  proof cases
    case 1
    have "str_num ''0'' = Fin 0"
      using str_num_unsigned [of "''0''"] str_unsigned_parts [of "''0''" "[]" 0]
      by (simp add: num_char_def is_digit_def point_text_def exp_text_def digit_val_def digits_value_def)
    with 1 show ?thesis by simp
  next
    case 2
    note r = pos_str_read [OF f 2]
    show ?thesis using 2 str_num_unsigned [OF r(2,3,4)] r(1) by simp
  next
    case 3
    note r = pos_str_read [OF f64_minus [OF f]]
    show ?thesis using 3 str_num_negative [OF r(2,3)] r(1) by simp
  qed
qed

lemma num_str_inj: "f64 a \<Longrightarrow> f64 b \<Longrightarrow> num_str (Fin a) = num_str (Fin b) \<Longrightarrow> a = b"
  by (metis str_num_num_str jsnum.inject)

lemma num_str_chars: "f64 q \<Longrightarrow> c \<in> set (num_str (Fin q)) \<Longrightarrow> num_char c"
  using pos_str_read(3) [of q] pos_str_read(3) [of "- q"] f64_minus [of q]
  by (cases "q = 0"; cases "q < 0") (auto simp: num_char_def is_digit_def)

lemma num_str_nonempty: "f64 q \<Longrightarrow> num_str (Fin q) \<noteq> []"
  using pos_str_read(2) [of q] by (cases "q = 0"; cases "q < 0") auto

end
