(* ===== verification/Canonical.thy ===== *)
theory Canonical
  imports Js_Text
begin

text \<open>
  The JSON texts the sources hash and sign: \<open>JSON.stringify\<close>, the \<open>stableStringify\<close> of
  lib/owner-auth.js and lib/node-auth.js (two identical copies) and the one of
  lib/verified-intent.js, which differs on \<open>undefined\<close>. The main fact is that a canonical text
  determines the value it was printed from, up to the order of keys and members that are
  \<open>undefined\<close>: a signature over the text commits to the whole value.
\<close>

section \<open>JSON.stringify\<close>

abbreviation quote_char :: char where
  "quote_char \<equiv> CHR 0x22"

abbreviation backslash :: char where
  "backslash \<equiv> CHR 0x5C"

definition json_char :: "char \<Rightarrow> string" where
  "json_char c =
     (if c = quote_char then [backslash, quote_char]
      else if c = backslash then [backslash, backslash]
      else if c = CHR 0x08 then [backslash, CHR ''b'']
      else if c = CHR 0x09 then [backslash, CHR ''t'']
      else if c = CHR 0x0A then [backslash, CHR ''n'']
      else if c = CHR 0x0C then [backslash, CHR ''f'']
      else if c = CHR 0x0D then [backslash, CHR ''r'']
      else let n = of_char c :: nat
           in if n < 32 then [backslash, CHR ''u'', CHR ''0'', CHR ''0'',
                              digit_char (n div 16), digit_char (n mod 16)]
              else [c])"

definition json_str :: "string \<Rightarrow> string" where
  "json_str s = quote_char # concat (map json_char s) @ [quote_char]"

definition json_num :: "jsnum \<Rightarrow> string" where
  "json_num x = (case x of Fin _ \<Rightarrow> num_str x | _ \<Rightarrow> ''null'')"

definition json_bool :: "bool \<Rightarrow> string" where
  "json_bool b = (if b then ''true'' else ''false'')"

lemma size_member: "(k, v) \<in> set fs \<Longrightarrow> size v < Suc (size_list (size_prod (\<lambda>_. 0) size) fs)"
  by (induction fs) auto

text \<open>\<open>None\<close> is the \<open>undefined\<close> that \<open>JSON.stringify\<close> returns for values JSON cannot express.\<close>

function json_stringify :: "jsval \<Rightarrow> string option" where
  "json_stringify JUndef = None"
| "json_stringify (JBuiltin f) = None"
| "json_stringify JNull = Some ''null''"
| "json_stringify (JBool b) = Some (json_bool b)"
| "json_stringify (JNum x) = Some (json_num x)"
| "json_stringify (JStr s) = Some (json_str s)"
| "json_stringify (JArr xs) = Some (''['' @ join_on '','' (map (\<lambda>v.
     case json_stringify v of None \<Rightarrow> ''null'' | Some t \<Rightarrow> t) xs) @ '']'')"
| "json_stringify (JObj fs) = Some (''{'' @ join_on '','' (concat (map (\<lambda>(k, v).
     case json_stringify v of None \<Rightarrow> [] | Some t \<Rightarrow> [json_str k @ '':'' @ t]) fs)) @ ''}'')"
  by pat_completeness auto
termination
  by (relation "measure size") (auto simp: size_member less_Suc_eq_le size_list_estimation')

section \<open>The canonical serializers\<close>

text \<open>\<open>stableStringify\<close> of lib/owner-auth.js and lib/node-auth.js: keys sorted, \<open>undefined\<close> dropped.\<close>

function stable_stringify :: "jsval \<Rightarrow> string" where
  "stable_stringify JUndef = ''null''"
| "stable_stringify JNull = ''null''"
| "stable_stringify (JBool b) = json_bool b"
| "stable_stringify (JNum x) = json_num x"
| "stable_stringify (JStr s) = json_str s"
| "stable_stringify (JBuiltin f) = ''undefined''"
| "stable_stringify (JArr xs) = ''['' @ join_on '','' (map stable_stringify xs) @ '']''"
| "stable_stringify (JObj fs) = ''{'' @ join_on '','' (map (\<lambda>(k, v). json_str k @ '':'' @ stable_stringify v)
     (sort_key fst (filter (\<lambda>(k, v). v \<noteq> JUndef) fs))) @ ''}''"
  by pat_completeness auto
termination
  by (relation "measure size") (auto simp: size_member less_Suc_eq_le size_list_estimation')

text \<open>
  \<open>stableStringify\<close> of lib/verified-intent.js keeps \<open>undefined\<close> members: the function then returns
  \<open>undefined\<close> for them, which \<open>join\<close> prints as nothing and \<open>+\<close> as the word.
\<close>

function vi_stringify :: "jsval \<Rightarrow> string option" where
  "vi_stringify JUndef = None"
| "vi_stringify (JBuiltin f) = None"
| "vi_stringify JNull = Some ''null''"
| "vi_stringify (JBool b) = Some (json_bool b)"
| "vi_stringify (JNum x) = Some (json_num x)"
| "vi_stringify (JStr s) = Some (json_str s)"
| "vi_stringify (JArr xs) = Some (''['' @ join_on '','' (map (\<lambda>v.
     case vi_stringify v of None \<Rightarrow> [] | Some t \<Rightarrow> t) xs) @ '']'')"
| "vi_stringify (JObj fs) = Some (''{'' @ join_on '','' (map (\<lambda>(k, v). json_str k @ '':'' @
     (case vi_stringify v of None \<Rightarrow> ''undefined'' | Some t \<Rightarrow> t)) (sort_key fst fs)) @ ''}'')"
  by pat_completeness auto
termination
  by (relation "measure size") (auto simp: size_member less_Suc_eq_le size_list_estimation')

text \<open>What a canonical text keeps of a value.\<close>

function canon :: "jsval \<Rightarrow> jsval" where
  "canon JUndef = JNull"
| "canon JNull = JNull"
| "canon (JBool b) = JBool b"
| "canon (JNum x) = (case x of Fin _ \<Rightarrow> JNum x | _ \<Rightarrow> JNull)"
| "canon (JStr s) = JStr s"
| "canon (JBuiltin f) = JBuiltin f"
| "canon (JArr xs) = JArr (map canon xs)"
| "canon (JObj fs) = JObj (map (\<lambda>(k, v). (k, canon v))
     (sort_key fst (filter (\<lambda>(k, v). v \<noteq> JUndef) fs)))"
  by pat_completeness auto
termination
  by (relation "measure size") (auto simp: size_member less_Suc_eq_le size_list_estimation')

text \<open>The values \<open>JSON.parse\<close> and object literals build: every number is a binary64 value.\<close>

fun json_value :: "jsval \<Rightarrow> bool" where
  "json_value (JNum x) = (case x of Fin q \<Rightarrow> f64 q | _ \<Rightarrow> True)"
| "json_value (JArr xs) = list_all json_value xs"
| "json_value (JObj fs) = list_all (\<lambda>(k, v). json_value v) fs"
| "json_value (JBuiltin f) = False"
| "json_value _ = True"

section \<open>Strings are printed prefix-free\<close>

definition json_unchar :: "string \<Rightarrow> (char \<times> string) option" where
  "json_unchar s = (case s of
      [] \<Rightarrow> None
    | c # r \<Rightarrow> if c \<noteq> backslash then Some (c, r) else (case r of
          [] \<Rightarrow> None
        | d # t \<Rightarrow>
            if d = quote_char \<or> d = backslash then Some (d, t)
            else if d = CHR ''b'' then Some (CHR 0x08, t)
            else if d = CHR ''t'' then Some (CHR 0x09, t)
            else if d = CHR ''n'' then Some (CHR 0x0A, t)
            else if d = CHR ''f'' then Some (CHR 0x0C, t)
            else if d = CHR ''r'' then Some (CHR 0x0D, t)
            else (case drop 2 t of
                h # l # u \<Rightarrow> Some (char_of (16 * the (hex_val h) + the (hex_val l) :: nat), u)
              | _ \<Rightarrow> None)))"

lemma hex_digit_val: "d < 16 \<Longrightarrow> hex_val (digit_char d) = Some d"
proof -
  assume "d < 16"
  then have "d = 0 \<or> d = 1 \<or> d = 2 \<or> d = 3 \<or> d = 4 \<or> d = 5 \<or> d = 6 \<or> d = 7 \<or> d = 8 \<or> d = 9
    \<or> d = 10 \<or> d = 11 \<or> d = 12 \<or> d = 13 \<or> d = 14 \<or> d = 15" by presburger
  then show ?thesis
    by (auto simp: digit_char_def hex_val_def is_digit_def digit_val_def less_eq_char_def)
qed

lemma json_unchar_char: "json_unchar (json_char c @ r) = Some (c, r)"
proof -
  let ?n = "of_char c :: nat"
  consider "c \<in> {quote_char, backslash, CHR 0x08, CHR 0x09, CHR 0x0A, CHR 0x0C, CHR 0x0D}"
    | (ctl) "c \<notin> {quote_char, backslash, CHR 0x08, CHR 0x09, CHR 0x0A, CHR 0x0C, CHR 0x0D}" "?n < 32"
    | (plain) "c \<notin> {quote_char, backslash, CHR 0x08, CHR 0x09, CHR 0x0A, CHR 0x0C, CHR 0x0D}" "\<not> ?n < 32"
    by blast
  then show ?thesis
  proof cases
    case 1
    then show ?thesis by (auto simp: json_char_def json_unchar_def)
  next
    case ctl
    have "16 * (?n div 16) + ?n mod 16 = ?n" by simp
    moreover have "?n div 16 < 16" "?n mod 16 < 16" using ctl(2) by auto
    ultimately show ?thesis using ctl
      by (simp add: json_char_def json_unchar_def Let_def hex_digit_val)
  next
    case plain
    then show ?thesis by (simp add: json_char_def json_unchar_def Let_def)
  qed
qed

lemma json_char_hd: "json_char c \<noteq> [] \<and> hd (json_char c) \<noteq> quote_char"
  by (simp add: json_char_def Let_def)

lemma json_chars_inj:
  "concat (map json_char s) @ quote_char # r = concat (map json_char t) @ quote_char # r' \<Longrightarrow>
   s = t \<and> r = r'"
proof (induction s arbitrary: t)
  case Nil
  show ?case
  proof (cases t)
    case (Cons d t')
    with Nil json_char_hd [of d] show ?thesis by (cases "json_char d") auto
  qed (use Nil in simp)
next
  case (Cons c s)
  show ?case
  proof (cases t)
    case Nil
    with Cons.prems json_char_hd [of c] show ?thesis
      by (cases "json_char c") auto
  next
    case (Cons d t')
    let ?x = "concat (map json_char s) @ quote_char # r"
    let ?y = "concat (map json_char t') @ quote_char # r'"
    have "json_char c @ ?x = json_char d @ ?y" using Cons.prems Cons by simp
    then have "Some (c, ?x) = Some (d, ?y)" by (metis json_unchar_char)
    with Cons.IH [of t'] Cons show ?thesis by simp
  qed
qed

lemma json_str_inj: "json_str s @ r = json_str t @ r' \<Longrightarrow> s = t \<and> r = r'"
  using json_chars_inj [of s r t r'] by (simp add: json_str_def)

section \<open>Canonical texts are printed prefix-free\<close>

text \<open>What may follow a value inside a larger text.\<close>

definition delim :: "string \<Rightarrow> bool" where
  "delim r = (r = [] \<or> hd r \<in> {CHR '','', CHR '']'', CHR ''}''})"

lemma delim_simps [simp]: "delim []" "delim (CHR '','' # r)" "delim (CHR '']'' # r)" "delim (CHR ''}'' # r)"
  by (simp_all add: delim_def)

lemma join_on_Cons: "join_on sep (p # ps) = p @ (if ps = [] then [] else sep @ join_on sep ps)"
  by (cases ps) auto

lemma join_inj:
  assumes inj: "\<And>x y r r'. x \<in> set xs \<Longrightarrow> y \<in> set ys \<Longrightarrow> delim r \<Longrightarrow> delim r' \<Longrightarrow>
      enc x @ r = enc y @ r' \<Longrightarrow> f x = f y \<and> r = r'"
    and hd: "\<And>x. x \<in> set xs \<union> set ys \<Longrightarrow> enc x \<noteq> [] \<and> hd (enc x) \<noteq> z"
    and z: "z \<in> {CHR '']'', CHR ''}''}"
    and eq: "join_on '','' (map enc xs) @ z # r = join_on '','' (map enc ys) @ z # r'"
  shows "map f xs = map f ys \<and> r = r'"
  using inj hd eq
proof (induction xs arbitrary: ys)
  case Nil
  show ?case
  proof (cases ys)
    case (Cons y ys')
    with Nil.prems(3) Nil.prems(2) [of y] show ?thesis
      by (cases "enc y") (auto simp: join_on_Cons)
  qed (use Nil in simp)
next
  case (Cons x xs)
  show ?case
  proof (cases ys)
    case Nil
    with Cons.prems(3) Cons.prems(2) [of x] show ?thesis by (cases "enc x") (auto simp: join_on_Cons)
  next
    case ys: (Cons y ys')
    define tx where "tx = (if xs = [] then z # r else '','' @ join_on '','' (map enc xs) @ z # r)"
    define ty where "ty = (if ys' = [] then z # r' else '','' @ join_on '','' (map enc ys') @ z # r')"
    have "enc x @ tx = enc y @ ty"
      using Cons.prems(3) by (auto simp: ys join_on_Cons tx_def ty_def)
    moreover have "delim tx" "delim ty" using z by (auto simp: tx_def ty_def)
    ultimately have xy: "f x = f y" "tx = ty" using Cons.prems(1) ys by auto
    have "(xs = []) = (ys' = [])" using xy(2) z by (auto simp: tx_def ty_def split: if_splits)
    then have "join_on '','' (map enc xs) @ z # r = join_on '','' (map enc ys') @ z # r'"
      using xy(2) by (auto simp: tx_def ty_def split: if_splits)
    then have "map f xs = map f ys' \<and> r = r'"
      by (intro Cons.IH) (use Cons.prems(1,2) ys in auto)
    with xy(1) ys show ?thesis by simp
  qed
qed

lemma num_char_other: "num_char c \<Longrightarrow> c \<noteq> CHR '']'' \<and> c \<noteq> CHR ''}'' \<and> c \<noteq> CHR '','' \<and> c \<noteq> CHR ''n''
    \<and> c \<noteq> CHR ''t'' \<and> c \<noteq> CHR ''f'' \<and> c \<noteq> CHR ''['' \<and> c \<noteq> CHR ''{'' \<and> c \<noteq> quote_char"
  by (auto simp: num_char_def is_digit_def less_eq_char_def)

lemma num_hd: "f64 q \<Longrightarrow> num_char (hd (num_str (Fin q)))"
  using num_str_chars [of q "hd (num_str (Fin q))"] num_str_nonempty [of q] by simp

lemma delim_num: "delim r \<Longrightarrow> r = [] \<or> \<not> num_char (hd r)"
  using num_char_other by (auto simp: delim_def)

lemma num_prefix:
  assumes "f64 a" "f64 b" "delim r" "delim r'" "num_str (Fin a) @ r = num_str (Fin b) @ r'"
  shows "a = b \<and> r = r'"
proof -
  have split: "takeWhile num_char (num_str (Fin q) @ t) = num_str (Fin q)" if "f64 q" "delim t" for q t
    using num_str_chars [OF that(1)] delim_num [OF that(2)]
    by (intro takeWhile_digits) (auto simp: list_all_iff)
  have "num_str (Fin a) = num_str (Fin b)"
    using split [OF assms(1,3)] split [OF assms(2,4)] assms(5) by simp
  then show ?thesis using num_str_inj [OF assms(1,2)] assms(5) by simp
qed

text \<open>The first character of a canonical text tells the kind of the value.\<close>

lemma stable_hd:
  "stable_stringify v \<noteq> [] \<and> hd (stable_stringify v) \<noteq> CHR '']'' \<and> hd (stable_stringify v) \<noteq> CHR ''}''"
  if "json_value v"
proof (cases v)
  case (JNum x)
  show ?thesis
  proof (cases x)
    case (Fin q)
    with that JNum have "f64 q" by simp
    then show ?thesis using JNum Fin num_char_other [OF num_hd] num_str_nonempty
      by (simp add: json_num_def del: num_str.simps)
  qed (use JNum in \<open>simp_all add: json_num_def\<close>)
qed (use that in \<open>auto simp: json_bool_def json_str_def\<close>)

definition char_kind :: "char \<Rightarrow> nat" where
  "char_kind c = (if c = CHR ''n'' then 0 else if c = CHR ''t'' then 1 else if c = CHR ''f'' then 2
     else if c = quote_char then 4 else if c = CHR ''['' then 5 else if c = CHR ''{'' then 6 else 3)"

fun val_kind :: "jsval \<Rightarrow> nat" where
  "val_kind (JBool b) = (if b then 1 else 2)"
| "val_kind (JNum x) = (case x of Fin _ \<Rightarrow> 3 | _ \<Rightarrow> 0)"
| "val_kind (JStr s) = 4"
| "val_kind (JArr xs) = 5"
| "val_kind (JObj fs) = 6"
| "val_kind _ = 0"

lemma stable_kind: "json_value v \<Longrightarrow> char_kind (hd (stable_stringify v @ r)) = val_kind v"
proof (cases v)
  case (JNum x)
  assume "json_value v"
  show ?thesis
  proof (cases x)
    case (Fin q)
    with \<open>json_value v\<close> JNum have "f64 q" by simp
    then show ?thesis using JNum Fin num_char_other [OF num_hd] num_str_nonempty
      by (simp add: json_num_def char_kind_def del: num_str.simps)
  qed (use JNum in \<open>simp_all add: json_num_def char_kind_def\<close>)
qed (auto simp: json_bool_def json_str_def char_kind_def)

lemma stable_same_kind:
  assumes "json_value v" "json_value w" "stable_stringify v @ r = stable_stringify w @ r'"
  shows "val_kind v = val_kind w"
  using stable_kind [OF assms(1), of r] stable_kind [OF assms(2), of r'] assms(3) by simp

lemma stable_inj_prefix:
  "json_value v \<Longrightarrow> json_value w \<Longrightarrow> delim r \<Longrightarrow> delim r' \<Longrightarrow>
   stable_stringify v @ r = stable_stringify w @ r' \<Longrightarrow> canon v = canon w \<and> r = r'"
proof (induction v arbitrary: w r r' rule: stable_stringify.induct)
  case 1
  with stable_same_kind [OF 1(1,2,5)] show ?case
    by (cases w) (auto simp: json_num_def split: if_splits jsnum.splits)
next
  case 2
  with stable_same_kind [OF 2(1,2,5)] show ?case
    by (cases w) (auto simp: json_num_def split: if_splits jsnum.splits)
next
  case (3 b)
  with stable_same_kind [OF 3(1,2,5)] show ?case
    by (cases w) (auto simp: json_bool_def split: if_splits jsnum.splits)
next
  case (4 x)
  show ?case
  proof (cases x)
    case (Fin q)
    with 4 stable_same_kind [OF 4(1,2,5)] obtain p where "w = JNum (Fin p)"
      by (cases w) (auto split: if_splits jsnum.splits)
    with 4 Fin num_prefix [of q p r r'] show ?thesis
      by (simp add: json_num_def del: num_str.simps)
  qed (use 4 stable_same_kind [OF 4(1,2,5)] in
      \<open>cases w; auto simp: json_num_def split: if_splits jsnum.splits\<close>)+
next
  case (5 s)
  with stable_same_kind [OF 5(1,2,5)] obtain t where "w = JStr t"
    by (cases w) (auto split: if_splits jsnum.splits)
  with 5 json_str_inj [of s r t r'] show ?case by simp
next
  case (6 f)
  then show ?case by simp
next
  case (7 xs)
  then obtain ys where w: "w = JArr ys"
    using stable_same_kind [OF 7(2,3,6)] by (cases w) (auto split: if_splits jsnum.splits)
  have ok: "\<And>x. x \<in> set xs \<union> set ys \<Longrightarrow> json_value x"
    using 7(2,3) w by (auto simp: list_all_iff)
  have "map canon xs = map canon ys \<and> r = r'"
  proof (rule join_inj [where enc = stable_stringify and z = "CHR '']''"])
    fix x y t t'
    assume "x \<in> set xs" "y \<in> set ys" "delim t" "delim t'"
      "stable_stringify x @ t = stable_stringify y @ t'"
    then show "canon x = canon y \<and> t = t'" using 7(1) ok by blast
  next
    show "join_on '','' (map stable_stringify xs) @ CHR '']'' # r =
        join_on '','' (map stable_stringify ys) @ CHR '']'' # r'"
      using 7(6) w by simp
  qed (use ok stable_hd in auto)
  with w show ?case by simp
next
  case (8 fs)
  then obtain gs where w: "w = JObj gs"
    using stable_same_kind [OF 8(2,3,6)] by (cases w) (auto split: if_splits jsnum.splits)
  define xs where "xs = sort_key fst (filter (\<lambda>(k, v). v \<noteq> JUndef) fs)"
  define ys where "ys = sort_key fst (filter (\<lambda>(k, v). v \<noteq> JUndef) gs)"
  let ?enc = "\<lambda>(k, v). json_str k @ '':'' @ stable_stringify v"
  have ok: "\<And>k v. (k, v) \<in> set xs \<union> set ys \<Longrightarrow> json_value v"
    using 8(2,3) w by (auto simp: list_all_iff xs_def ys_def)
  have "map (\<lambda>(k, v). (k, canon v)) xs = map (\<lambda>(k, v). (k, canon v)) ys \<and> r = r'"
  proof (rule join_inj [where enc = ?enc and z = "CHR ''}''"])
    fix x y t t'
    assume a: "x \<in> set xs" "y \<in> set ys" "delim t" "delim t'" "?enc x @ t = ?enc y @ t'"
    obtain k v l u where xy: "x = (k, v)" "y = (l, u)" by (cases x; cases y)
    from a(5) have "k = l" and v: "stable_stringify v @ t = stable_stringify u @ t'"
      using json_str_inj [of k "'':'' @ stable_stringify v @ t" l "'':'' @ stable_stringify u @ t'"]
      by (simp_all add: xy)
    moreover have "canon v = canon u \<and> t = t'"
      using 8(1) [of "(k, v)" k v u t t'] a xy v ok by (auto simp: xs_def)
    ultimately show "(case x of (k, v) \<Rightarrow> (k, canon v)) = (case y of (k, v) \<Rightarrow> (k, canon v)) \<and> t = t'"
      by (simp add: xy)
  next
    show "join_on '','' (map ?enc xs) @ CHR ''}'' # r = join_on '','' (map ?enc ys) @ CHR ''}'' # r'"
      using 8(6) w by (simp add: xs_def ys_def)
  qed (auto simp: json_str_def)
  with w show ?case by (simp add: xs_def ys_def)
qed

lemma stable_stringify_inj:
  "json_value v \<Longrightarrow> json_value w \<Longrightarrow> stable_stringify v = stable_stringify w \<Longrightarrow> canon v = canon w"
  using stable_inj_prefix [of v w "[]" "[]"] by simp

end
