(* ===== verification/Encoding.thy ===== *)
theory Encoding
  imports Js_Text
begin

text \<open>
  lib/ed25519.js: the base58 codec of Solana addresses (encoder and decoder as the carry loops of
  the source), the key framing, and what the signer uses of Node's \<open>crypto\<close>. Ed25519, SHA-256 and
  AES-GCM are native code behind \<open>node:crypto\<close>: they are parameters of the definitions that use
  them. The codec is proved to be a bijection between byte strings and the texts over its alphabet.
\<close>

type_synonym byte = "8 word"
type_synonym bytes = "byte list"

section \<open>The base58 alphabet\<close>

definition B58 :: string where
  "B58 = ''123456789ABCDEFGHJKLMNPQRSTUVWXYZabcdefghijkmnopqrstuvwxyz''"

definition B58_MAP :: "char \<Rightarrow> nat option" where
  "B58_MAP c = index_of c B58"

section \<open>The carry loops\<close>

text \<open>
  One round of either codec runs over the digits produced so far (least significant first),
  multiplying by \<open>mul\<close>, adding the carry and keeping the remainder modulo \<open>base\<close>; what is left of
  the carry is pushed as new digits. The encoder has \<open>mul = 256\<close>, \<open>base = 58\<close>, the decoder
  \<open>mul = 58\<close>, \<open>base = 256\<close>. All intermediate values stay far below \<open>2^31\<close> (lemma
  \<open>carry_pass_bounds\<close>), where the source's 32-bit \<open><< 8\<close>, \<open>| 0\<close>, \<open>& 0xff\<close> and \<open>>>= 8\<close> are
  multiplication, truncation, remainder and division.
\<close>

fun carry_pass :: "nat \<Rightarrow> nat \<Rightarrow> nat \<Rightarrow> nat list \<Rightarrow> nat list \<times> nat" where
  "carry_pass mul base carry [] = ([], carry)"
| "carry_pass mul base carry (d # ds) =
     (let c = carry + d * mul; (ds', c') = carry_pass mul base (c div base) ds
      in (c mod base # ds', c'))"

fun push_carry :: "nat \<Rightarrow> nat \<Rightarrow> nat list" where
  "push_carry base carry =
     (if carry = 0 \<or> base < 2 then [] else carry mod base # push_carry base (carry div base))"

declare push_carry.simps [simp del]

definition absorb :: "nat \<Rightarrow> nat \<Rightarrow> nat list \<Rightarrow> nat \<Rightarrow> nat list" where
  "absorb mul base ds x =
     (case carry_pass mul base x ds of (ds', c) \<Rightarrow> ds' @ push_carry base c)"

definition count_leading :: "'a \<Rightarrow> 'a list \<Rightarrow> nat" where
  "count_leading x xs = length (takeWhile (\<lambda>y. y = x) xs)"

section \<open>base58 and base58decode\<close>

definition base58_digits :: "nat list \<Rightarrow> nat list" where
  "base58_digits bs = foldl (absorb 256 58) [] bs"

definition base58 :: "bytes \<Rightarrow> string" where
  "base58 buf =
     (let bs = map unat buf; zeros = count_leading 0 bs;
          digits = base58_digits (drop zeros bs)
      in replicate zeros CHR ''1'' @ map (\<lambda>d. B58 ! d) (rev digits))"

fun decode_loop :: "nat list \<Rightarrow> string \<Rightarrow> nat list res" where
  "decode_loop bs [] = Inr bs"
| "decode_loop bs (c # cs) =
     (case B58_MAP c of
        None \<Rightarrow> Inl (Err 0 ''invalid base58 char'')
      | Some d \<Rightarrow> decode_loop (absorb 58 256 bs d) cs)"

definition base58decode :: "string \<Rightarrow> bytes res" where
  "base58decode str =
     (let zeros = count_leading CHR ''1'' str
      in bindE (decode_loop [] (drop zeros str))
           (\<lambda>bs. Inr (replicate zeros 0 @ map of_nat (rev bs))))"

section \<open>Key framing\<close>

text \<open>
  The fixed DER prefixes in front of a raw Ed25519 seed and public key, and \<open>fromSeed\<close>: it throws
  unless the seed has 32 bytes; \<open>derive\<close> is Node's seed-to-public-key derivation (SPKI bytes out of
  PKCS8 bytes).
\<close>

definition PKCS8_PREFIX :: bytes where
  "PKCS8_PREFIX = [0x30, 0x2e, 0x02, 0x01, 0x00, 0x30, 0x05, 0x06, 0x03, 0x2b, 0x65, 0x70, 0x04, 0x22, 0x04, 0x20]"

definition SPKI_PREFIX :: bytes where
  "SPKI_PREFIX = [0x30, 0x2a, 0x30, 0x05, 0x06, 0x03, 0x2b, 0x65, 0x70, 0x03, 0x21, 0x00]"

record keypair =
  kp_seed :: bytes
  kp_priv :: bytes
  kp_pubkey :: bytes
  kp_address :: string

definition fromSeed :: "(bytes \<Rightarrow> bytes) \<Rightarrow> bytes \<Rightarrow> keypair res" where
  "fromSeed derive seed =
     (if length seed \<noteq> 32 then Inl (Err 0 ''seed must be 32 bytes'')
      else let priv = PKCS8_PREFIX @ seed; spki = derive priv;
               pubkey = drop (length spki - 32) spki
           in Inr \<lparr>kp_seed = seed, kp_priv = priv, kp_pubkey = pubkey, kp_address = base58 pubkey\<rparr>)"

section \<open>Positional values\<close>

fun le_val :: "nat \<Rightarrow> nat list \<Rightarrow> nat" where
  "le_val b [] = 0"
| "le_val b (d # ds) = d + b * le_val b ds"

lemma le_val_append: "le_val b (xs @ ys) = le_val b xs + b ^ length xs * le_val b ys"
  by (induction xs) (auto simp: algebra_simps)

lemma le_val_rev: "le_val b (rev xs) = digits_value b xs"
proof (induction xs rule: rev_induct)
  case (snoc x xs)
  then show ?case by (simp add: digits_value_def algebra_simps)
qed (simp add: digits_value_def)

lemma le_val_less: "\<forall>d \<in> set ds. d < b \<Longrightarrow> le_val b ds < b ^ length ds"
proof (induction ds)
  case (Cons d ds)
  then have "d + b * le_val b ds < b + b * le_val b ds" by simp
  also have "\<dots> = b * Suc (le_val b ds)" by simp
  also have "\<dots> \<le> b * b ^ length ds" using Cons by (intro mult_le_mono2) auto
  finally show ?case by simp
qed simp

definition canonical :: "nat \<Rightarrow> nat list \<Rightarrow> bool" where
  "canonical b ds = ((\<forall>d \<in> set ds. d < b) \<and> (ds \<noteq> [] \<longrightarrow> last ds \<noteq> 0))"

lemma canonical_lower: "canonical b ds \<Longrightarrow> ds \<noteq> [] \<Longrightarrow> b ^ (length ds - 1) \<le> le_val b ds"
proof -
  assume c: "canonical b ds" and ne: "ds \<noteq> []"
  have "ds = butlast ds @ [last ds]" using ne by simp
  then have "le_val b ds = le_val b (butlast ds) + b ^ (length ds - 1) * last ds"
    by (metis le_val_append le_val.simps add_0_right length_butlast mult_0_right)
  moreover have "b ^ (length ds - 1) \<le> b ^ (length ds - 1) * last ds"
    using c ne by (simp add: canonical_def)
  ultimately show ?thesis by linarith
qed

lemma canonical_inj:
  "canonical b xs \<Longrightarrow> canonical b ys \<Longrightarrow> le_val b xs = le_val b ys \<Longrightarrow> xs = ys"
proof (induction xs arbitrary: ys)
  case Nil
  show ?case
  proof (rule ccontr)
    assume ne: "[] \<noteq> ys"
    have "ys \<noteq> []" using ne by simp
    then have "0 < b" using Nil by (cases ys) (auto simp: canonical_def)
    then have "0 < b ^ (length ys - 1)" by simp
    also have "\<dots> \<le> le_val b ys" using Nil ne by (intro canonical_lower) auto
    finally show False using Nil by simp
  qed
next
  case (Cons x xs)
  have b: "x < b" "0 < b" using Cons.prems by (auto simp: canonical_def)
  show ?case
  proof (cases ys)
    case Nil
    have "0 < b ^ (length (x # xs) - 1)" using b by simp
    also have "\<dots> \<le> le_val b (x # xs)" using Cons by (intro canonical_lower) auto
    finally show ?thesis using Cons Nil by simp
  next
    case ys: (Cons y ys')
    have y: "y < b" using Cons.prems ys by (auto simp: canonical_def)
    have eq: "x + b * le_val b xs = y + b * le_val b ys'" using Cons.prems ys by simp
    have "x = (x + b * le_val b xs) mod b" using b by simp
    also have "\<dots> = y" unfolding eq using y by simp
    finally have "x = y" .
    with eq b have "le_val b xs = le_val b ys'" by simp
    moreover have "canonical b xs" "canonical b ys'"
      using Cons.prems ys by (auto simp: canonical_def split: if_splits)
    ultimately show ?thesis using Cons.IH \<open>x = y\<close> ys by blast
  qed
qed

section \<open>The carry loops are exact\<close>

lemma carry_pass_length [simp]: "length (fst (carry_pass mul base c ds)) = length ds"
  by (induction mul base c ds rule: carry_pass.induct) (auto simp: Let_def split: prod.splits)

lemma carry_pass_val:
  "le_val base (fst (carry_pass mul base c ds)) + base ^ length ds * snd (carry_pass mul base c ds)
   = le_val base ds * mul + c"
proof (induction mul base c ds rule: carry_pass.induct)
  case (2 mul base carry d ds)
  define c where "c = carry + d * mul"
  obtain ds' c' where p: "carry_pass mul base (c div base) ds = (ds', c')" by fastforce
  have IH: "le_val base ds' + base ^ length ds * c' = le_val base ds * mul + c div base"
    using 2 [OF c_def] p by simp
  have "le_val base (c mod base # ds') + base ^ Suc (length ds) * c'
      = c mod base + base * (le_val base ds' + base ^ length ds * c')" by (simp add: algebra_simps)
  also have "\<dots> = c mod base + base * (c div base) + base * le_val base ds * mul"
    unfolding IH by (simp add: algebra_simps)
  also have "\<dots> = (d + base * le_val base ds) * mul + carry"
    by (simp add: c_def algebra_simps)
  finally show ?case by (simp add: p c_def [symmetric])
qed simp

text \<open>
  The intermediate values: with digits below \<open>base\<close> and a carry below \<open>mul\<close> the carry stays below
  \<open>mul\<close> and the sums below \<open>mul * base\<close> (14848 for both codecs).
\<close>

lemma carry_pass_bounds:
  assumes "0 < base" "0 < mul"
  shows "\<forall>d \<in> set ds. d < base \<Longrightarrow> c < mul \<Longrightarrow>
    (\<forall>d \<in> set (fst (carry_pass mul base c ds)). d < base) \<and> snd (carry_pass mul base c ds) < mul"
proof (induction ds arbitrary: c)
  case (Cons d ds)
  let ?c = "c + d * mul"
  have "?c < mul + d * mul" using Cons.prems by simp
  also have "\<dots> = Suc d * mul" by simp
  also have "\<dots> \<le> base * mul" using Cons.prems by (intro mult_le_mono1) auto
  finally have "?c div base < mul" by (simp add: less_mult_imp_div_less mult.commute)
  with Cons.IH [of "?c div base"] Cons.prems assms show ?case
    by (auto simp: Let_def split: prod.splits)
qed simp

lemma carry_sum_bound: "d < base \<Longrightarrow> c < mul \<Longrightarrow> c + d * mul < base * mul" for c d :: nat
proof -
  assume "d < base" "c < mul"
  then have "c + d * mul < Suc d * mul" by simp
  also have "\<dots> \<le> base * mul" using \<open>d < base\<close> by (intro mult_le_mono1) auto
  finally show ?thesis .
qed

lemma push_carry_val: "2 \<le> b \<Longrightarrow> le_val b (push_carry b c) = c"
proof (induction b c rule: push_carry.induct)
  case (1 b c)
  then show ?case by (subst push_carry.simps) simp
qed

lemma push_carry_canonical: "2 \<le> b \<Longrightarrow> canonical b (push_carry b c)"
proof (induction b c rule: push_carry.induct)
  case (1 b c)
  show ?case
  proof (cases "c = 0")
    case False
    have "push_carry b (c div b) = [] \<Longrightarrow> c mod b \<noteq> 0"
    proof
      assume e: "push_carry b (c div b) = []" and "c mod b = 0"
      have "le_val b (push_carry b (c div b)) = c div b" using 1 by (rule_tac push_carry_val)
      with e have "c div b = 0" by simp
      with \<open>c mod b = 0\<close> False show False using div_mult_mod_eq [of c b] by simp
    qed
    with 1 False show ?thesis by (subst push_carry.simps) (auto simp: canonical_def)
  qed (simp add: push_carry.simps canonical_def)
qed

lemma push_carry_Nil_iff: "2 \<le> b \<Longrightarrow> push_carry b c = [] \<longleftrightarrow> c = 0"
  by (subst push_carry.simps) auto

lemma absorb_val: "2 \<le> base \<Longrightarrow> le_val base (absorb mul base ds x) = le_val base ds * mul + x"
  using carry_pass_val [of base mul x ds]
  by (auto simp: absorb_def le_val_append push_carry_val split: prod.splits)
     (metis carry_pass_length fst_conv snd_conv)

lemma absorb_canonical:
  assumes c: "canonical base ds" and b: "2 \<le> base" and m: "0 < mul" and x: "x < mul"
    and ne: "ds \<noteq> [] \<or> x \<noteq> 0"
  shows "canonical base (absorb mul base ds x) \<and> absorb mul base ds x \<noteq> []"
proof -
  obtain ds' r where p: "carry_pass mul base x ds = (ds', r)" by fastforce
  have len: "length ds' = length ds" using carry_pass_length [of mul base x ds] p by simp
  have dig: "\<forall>d \<in> set ds'. d < base"
    using carry_pass_bounds [of base mul ds x] c b m x p by (auto simp: canonical_def)
  have pc: "canonical base (push_carry base r)" using b by (rule push_carry_canonical)
  have a: "absorb mul base ds x = ds' @ push_carry base r" by (simp add: absorb_def p)
  show ?thesis
  proof (cases "r = 0")
    case False
    then have "push_carry base r \<noteq> []" using b by (simp add: push_carry_Nil_iff)
    with pc dig show ?thesis by (auto simp: a canonical_def)
  next
    case True
    have ds: "ds \<noteq> []" using ne p True by (cases ds) auto
    have v: "le_val base ds' = le_val base ds * mul + x"
      using carry_pass_val [of base mul x ds] p True by simp
    have "last ds' \<noteq> 0"
    proof
      assume l: "last ds' = 0"
      have ne': "ds' \<noteq> []" using ds len by auto
      then have "ds' = butlast ds' @ [0]" using l by (metis append_butlast_last_id)
      then have "le_val base ds' = le_val base (butlast ds')"
        by (metis le_val_append le_val.simps add_0_right mult_0_right)
      also have "\<dots> < base ^ (length ds - 1)"
        using le_val_less [of "butlast ds'" base] dig len by (auto dest: in_set_butlastD)
      also have "\<dots> \<le> le_val base ds" using c ds by (rule canonical_lower)
      also have "\<dots> \<le> le_val base ds * mul + x" using m by (simp add: trans_le_add1)
      finally show False using v by simp
    qed
    with dig ds len True show ?thesis
      by (auto simp: a canonical_def push_carry.simps)
  qed
qed

text \<open>Both codecs convert a number, most significant digit first, to its canonical digits.\<close>

definition convert :: "nat \<Rightarrow> nat \<Rightarrow> nat list \<Rightarrow> nat list" where
  "convert mul base xs = foldl (absorb mul base) [] xs"

lemma convert_val: "2 \<le> base \<Longrightarrow> le_val base (convert mul base xs) = digits_value mul xs"
proof (induction xs rule: rev_induct)
  case (snoc x xs)
  then show ?case by (simp add: convert_def absorb_val digits_value_append)
qed (simp add: convert_def digits_value_def)

lemma convert_canonical:
  assumes "2 \<le> base" "0 < mul"
  shows "\<forall>x \<in> set xs. x < mul \<Longrightarrow> (xs \<noteq> [] \<Longrightarrow> hd xs \<noteq> 0) \<Longrightarrow>
    canonical base (convert mul base xs) \<and> (convert mul base xs = [] \<longleftrightarrow> xs = [])"
proof (induction xs rule: rev_induct)
  case (snoc x xs)
  have IH: "canonical base (convert mul base xs)" "convert mul base xs = [] \<longleftrightarrow> xs = []"
    using snoc by (cases xs; auto)+
  have "convert mul base xs \<noteq> [] \<or> x \<noteq> 0" using IH(2) snoc.prems(2) by (cases xs) auto
  then show ?case
    using absorb_canonical [OF IH(1) assms, of x] snoc.prems(1) by (auto simp: convert_def)
qed (simp add: convert_def canonical_def)

lemma convert_convert:
  assumes b: "2 \<le> base" "2 \<le> mul" and xs: "\<forall>x \<in> set xs. x < mul" "xs \<noteq> [] \<Longrightarrow> hd xs \<noteq> 0"
  shows "convert base mul (rev (convert mul base xs)) = rev xs"
proof (rule canonical_inj [of mul])
  let ?ds = "convert mul base xs"
  have c: "canonical base ?ds" using convert_canonical [of base mul xs] b xs by auto
  have "canonical mul (convert base mul (rev ?ds))
      \<and> (convert base mul (rev ?ds) = [] \<longleftrightarrow> rev ?ds = [])"
    using c b by (intro convert_canonical) (auto simp: canonical_def hd_rev)
  then show "canonical mul (convert base mul (rev ?ds))" by blast
  show "canonical mul (rev xs)" using xs by (auto simp: canonical_def last_rev)
  have "le_val mul (convert base mul (rev ?ds)) = digits_value base (rev ?ds)"
    using b by (intro convert_val)
  also have "\<dots> = le_val base ?ds" using le_val_rev [of base "rev ?ds"] by simp
  also have "\<dots> = digits_value mul xs" using b by (intro convert_val)
  finally show "le_val mul (convert base mul (rev ?ds)) = le_val mul (rev xs)"
    by (simp add: le_val_rev)
qed


section \<open>The codec is a bijection\<close>

lemma drop_count_leading: "drop (count_leading x xs) xs = dropWhile (\<lambda>y. y = x) xs"
  by (simp add: count_leading_def dropWhile_eq_drop)

lemma leading_split: "xs = replicate (count_leading x xs) x @ drop (count_leading x xs) xs"
proof -
  have "takeWhile (\<lambda>y. y = x) xs = replicate (count_leading x xs) x"
    by (induction xs) (auto simp: count_leading_def)
  then show ?thesis by (metis drop_count_leading takeWhile_dropWhile_id)
qed

lemma hd_drop_leading: "drop (count_leading x xs) xs \<noteq> [] \<Longrightarrow> hd (drop (count_leading x xs) xs) \<noteq> x"
  using hd_dropWhile [of "\<lambda>y. y = x" xs] by (simp add: drop_count_leading)

lemma count_leading_replicate: "ys = [] \<or> hd ys \<noteq> x \<Longrightarrow> count_leading x (replicate n x @ ys) = n"
  by (cases ys) (auto simp: count_leading_def takeWhile_append)

lemma B58_length: "length B58 = 58"
  by (simp add: B58_def)

lemma B58_distinct: "distinct B58"
  by (simp add: B58_def)

lemma B58_MAP_nth: "d < 58 \<Longrightarrow> B58_MAP (B58 ! d) = Some d"
proof -
  assume d: "d < 58"
  then have "B58 ! d \<in> set B58" by (simp add: B58_length)
  then obtain i where i: "B58_MAP (B58 ! d) = Some i"
    unfolding B58_MAP_def by (meson index_of_None_iff option.exhaust)
  then have "i < length B58" "B58 ! i = B58 ! d"
    using index_of_Some unfolding B58_MAP_def by fastforce+
  with d B58_distinct have "i = d" by (simp add: B58_length nth_eq_iff_index_eq)
  with i show ?thesis by simp
qed

lemma B58_MAP_Some: "B58_MAP c = Some d \<Longrightarrow> d < 58 \<and> B58 ! d = c"
  using index_of_Some [of c B58 d] by (simp add: B58_MAP_def B58_length)

lemma B58_zero: "B58 ! 0 = CHR ''1''"
  by (simp add: B58_def)

lemma B58_one_iff: "d < 58 \<Longrightarrow> B58 ! d = CHR ''1'' \<longleftrightarrow> d = 0"
  using B58_MAP_nth [of d] B58_MAP_nth [of 0] B58_zero by auto

lemma decode_loop_digits:
  "\<forall>d \<in> set ds. d < 58 \<Longrightarrow> decode_loop bs (map (\<lambda>d. B58 ! d) ds) = Inr (foldl (absorb 58 256) bs ds)"
  by (induction ds arbitrary: bs) (auto simp: B58_MAP_nth)

lemma decode_loop_Inr:
  "decode_loop bs cs = Inr r \<Longrightarrow>
   \<exists>ds. cs = map (\<lambda>d. B58 ! d) ds \<and> (\<forall>d \<in> set ds. d < 58) \<and> r = foldl (absorb 58 256) bs ds"
proof (induction cs arbitrary: bs)
  case (Cons c cs)
  then obtain d where d: "B58_MAP c = Some d" "decode_loop (absorb 58 256 bs d) cs = Inr r"
    by (auto split: option.splits)
  from Cons.IH [OF d(2)] obtain ds where "cs = map (\<lambda>d. B58 ! d) ds" "\<forall>d \<in> set ds. d < 58"
    "r = foldl (absorb 58 256) (absorb 58 256 bs d) ds" by blast
  with B58_MAP_Some [OF d(1)] show ?case by (intro exI [of _ "d # ds"]) auto
qed simp

lemma unat_bytes: "\<forall>x \<in> set (map unat (bs :: bytes)). x < 256"
proof
  fix x assume "x \<in> set (map unat bs)"
  then obtain b :: byte where "x = unat b" by auto
  then show "x < 256" using unsigned_less [of b, where 'a = nat] by simp
qed

lemma of_nat_unat_bytes: "map of_nat (map unat (bs :: bytes)) = bs"
  by (simp add: o_def)

lemma base58decode_base58: "base58decode (base58 buf) = Inr buf"
proof -
  define bs where "bs = map unat buf"
  define z where "z = count_leading 0 bs"
  define rest where "rest = drop z bs"
  define ds where "ds = convert 256 58 rest"
  have rest: "\<forall>x \<in> set rest. x < 256" "rest \<noteq> [] \<Longrightarrow> hd rest \<noteq> 0"
    using unat_bytes [of buf] hd_drop_leading [of 0 bs]
    by (auto simp: rest_def bs_def [symmetric] z_def simp del: set_map dest: in_set_dropD)
  have c: "canonical 58 ds" using convert_canonical [of 58 256 rest] rest by (auto simp: ds_def)
  have out: "base58 buf = replicate z CHR ''1'' @ map (\<lambda>d. B58 ! d) (rev ds)"
    by (simp add: base58_def base58_digits_def convert_def ds_def rest_def z_def bs_def Let_def)
  have "map (\<lambda>d. B58 ! d) (rev ds) = [] \<or> hd (map (\<lambda>d. B58 ! d) (rev ds)) \<noteq> CHR ''1''"
    using c by (auto simp: canonical_def hd_map hd_rev B58_one_iff)
  then have lead: "count_leading CHR ''1'' (base58 buf) = z"
    unfolding out by (rule count_leading_replicate)
  have "decode_loop [] (map (\<lambda>d. B58 ! d) (rev ds)) = Inr (convert 58 256 (rev ds))"
    using c by (subst decode_loop_digits) (auto simp: canonical_def convert_def)
  also have "convert 58 256 (rev ds) = rev rest"
    unfolding ds_def using rest by (intro convert_convert) auto
  finally have "base58decode (base58 buf) = Inr (replicate z 0 @ map of_nat rest)"
    by (simp add: base58decode_def lead Let_def) (simp add: out)
  also have "replicate z (0 :: byte) @ map of_nat rest = map of_nat (replicate z 0 @ rest)" by simp
  also have "replicate z 0 @ rest = bs"
    using leading_split [of bs 0] by (simp add: z_def rest_def)
  finally show ?thesis by (simp add: bs_def o_def)
qed

lemma base58_base58decode: "base58decode str = Inr buf \<Longrightarrow> base58 buf = str"
proof -
  assume dec: "base58decode str = Inr buf"
  define z where "z = count_leading CHR ''1'' str"
  define rest where "rest = drop z str"
  obtain r where r: "decode_loop [] rest = Inr r" and buf: "buf = replicate z 0 @ map of_nat (rev r)"
    using dec by (auto simp: base58decode_def z_def rest_def Let_def bindE_Inr_iff)
  obtain ds where ds: "rest = map (\<lambda>d. B58 ! d) ds" "\<forall>d \<in> set ds. d < 58" "r = convert 58 256 ds"
    using decode_loop_Inr [OF r] by (auto simp: convert_def)
  have hd: "ds \<noteq> [] \<Longrightarrow> hd ds \<noteq> 0"
    using hd_drop_leading [of "CHR ''1''" str] ds B58_zero
    by (metis hd_map list.map_disc_iff rest_def z_def)
  have c: "canonical 256 r" using convert_canonical [of 256 58 ds] ds(2,3) hd by auto
  have un: "map unat (map of_nat (rev r) :: bytes) = rev r"
    using c by (auto simp: canonical_def unat_of_nat o_def intro!: map_idI)
  have "rev r = [] \<or> hd (rev r) \<noteq> 0" using c by (auto simp: canonical_def hd_rev)
  then have "count_leading 0 (map unat buf) = z"
    unfolding buf map_append un by (simp add: count_leading_replicate)
  moreover have "drop z (map unat buf) = rev r" by (simp add: buf un del: map_map)
  moreover have "convert 256 58 (rev r) = rev ds"
    unfolding ds(3) using ds(2) hd by (intro convert_convert) auto
  ultimately have "base58 buf = replicate z CHR ''1'' @ rest"
    by (simp add: base58_def base58_digits_def convert_def [symmetric] Let_def ds(1))
  also have "\<dots> = str" using leading_split [of str "CHR ''1''"] by (simp add: z_def rest_def)
  finally show ?thesis .
qed

lemma base58_nonempty: "b \<noteq> [] \<Longrightarrow> base58 b \<noteq> []"
  using base58decode_base58 [of b] by (auto simp: base58decode_def count_leading_def)

lemma base58_inj: "base58 a = base58 b \<Longrightarrow> a = b"
  by (metis base58decode_base58 sum.inject(2))

end
