(* ===== verification/Crypto.thy ===== *)
theory Crypto
  imports Encoding
begin

text \<open>
  lib/ed25519.js over node:crypto. The primitives of node:crypto are the fields of \<open>crypto\<close>, an
  argument of every definition that reaches them; the framing around them (DER prefixes, hex
  fields of a sealed seed, addresses) is modelled. What is relied on of the primitives is stated
  by the predicates at the end, and each is shown satisfiable by a concrete \<open>crypto\<close>.
\<close>

section \<open>Texts as bytes\<close>

text \<open>\<open>Buffer.from(s)\<close>: the UTF-8 encoding of the code units.\<close>

definition utf8_char :: "char \<Rightarrow> bytes" where
  "utf8_char c = (let n = of_char c :: nat
     in if n < 128 then [of_nat n] else [of_nat (192 + n div 64), of_nat (128 + n mod 64)])"

definition utf8 :: "string \<Rightarrow> bytes" where
  "utf8 s = concat (map utf8_char s)"

text \<open>\<open>buf.toString('hex')\<close> and \<open>Buffer.from(s, 'hex')\<close>, which stops at the first pair that is not hex.\<close>

definition byte_hex :: "byte \<Rightarrow> string" where
  "byte_hex b = [digit_char (unat b div 16), digit_char (unat b mod 16)]"

definition hex_enc :: "bytes \<Rightarrow> string" where
  "hex_enc bs = concat (map byte_hex bs)"

fun hex_dec :: "string \<Rightarrow> bytes" where
  "hex_dec (c # d # s) = (case hex_val c of None \<Rightarrow> [] | Some h \<Rightarrow>
     (case hex_val d of None \<Rightarrow> [] | Some l \<Rightarrow> of_nat (16 * h + l) # hex_dec s))"
| "hex_dec _ = []"

text \<open>\<open>Buffer.from(v, enc)\<close> of an arbitrary value, given what the encoding makes of a string.\<close>

definition to_byte :: "jsval \<Rightarrow> byte res" where
  "to_byte v = bindE (to_num v) (\<lambda>x. Inr (ucast (to_u32 x)))"

fun buffer_from :: "(string \<Rightarrow> bytes) \<Rightarrow> jsval \<Rightarrow> bytes res" where
  "buffer_from dec (JStr s) = Inr (dec s)"
| "buffer_from dec (JArr xs) = mapE to_byte xs"
| "buffer_from dec (JObj fs) =
     (case map_of fs ''length'' of
        Some (JNum x) \<Rightarrow> (case x of
            Fin q \<Rightarrow> if 2 ^ 32 < q then Inl (Err 0 ''ERR_OUT_OF_RANGE'')
                      else mapE (\<lambda>i. to_byte (jopt (JObj fs) (nat_str i))) [0..<nat \<lfloor>q\<rfloor>]
          | PInf \<Rightarrow> Inl (Err 0 ''ERR_OUT_OF_RANGE'')
          | _ \<Rightarrow> Inr [])
      | Some _ \<Rightarrow> Inr []
      | None \<Rightarrow> (case (map_of fs ''type'', map_of fs ''data'') of
            (Some (JStr t), Some (JArr xs)) \<Rightarrow> if t = ''Buffer'' then mapE to_byte xs else Inl type_error
          | _ \<Rightarrow> Inl type_error))"
| "buffer_from dec _ = Inl type_error"

section \<open>The primitives\<close>

record crypto =
  createPublicKey :: "bytes \<Rightarrow> bytes res"
  edVerify :: "bytes \<Rightarrow> bytes \<Rightarrow> bytes \<Rightarrow> bool"
  edSign :: "bytes \<Rightarrow> bytes \<Rightarrow> bytes"
  exportSpki :: "bytes \<Rightarrow> bytes"
  sha256 :: "bytes \<Rightarrow> bytes"
  gcmEnc :: "bytes \<Rightarrow> bytes \<Rightarrow> bytes \<Rightarrow> bytes \<times> bytes"
  gcmDec :: "bytes \<Rightarrow> bytes \<Rightarrow> bytes \<Rightarrow> bytes \<Rightarrow> bytes res"

section \<open>lib/ed25519.js\<close>

definition sign :: "crypto \<Rightarrow> bytes \<Rightarrow> bytes \<Rightarrow> bytes" where
  "sign C priv msg = edSign C priv msg"

definition verify :: "crypto \<Rightarrow> bytes \<Rightarrow> bytes \<Rightarrow> bytes \<Rightarrow> bool res" where
  "verify C pubkey msg sig =
     bindE (createPublicKey C (SPKI_PREFIX @ pubkey)) (\<lambda>pub. Inr (edVerify C msg pub sig))"

definition newKeypair :: "crypto \<Rightarrow> bytes \<Rightarrow> keypair res" where
  "newKeypair C random32 = fromSeed (exportSpki C) random32"

record sealed =
  seal_iv :: string
  seal_tag :: string
  seal_ct :: string

definition seal :: "crypto \<Rightarrow> bytes \<Rightarrow> bytes \<Rightarrow> bytes \<Rightarrow> sealed" where
  "seal C masterKey iv plaintext =
     (case gcmEnc C masterKey iv plaintext of (ct, tag) \<Rightarrow>
        \<lparr> seal_iv = hex_enc iv, seal_tag = hex_enc tag, seal_ct = hex_enc ct \<rparr>)"

definition open_seal :: "crypto \<Rightarrow> bytes \<Rightarrow> sealed \<Rightarrow> bytes res" where
  "open_seal C masterKey rec =
     gcmDec C masterKey (hex_dec (seal_iv rec)) (hex_dec (seal_tag rec)) (hex_dec (seal_ct rec))"

definition sha256hex :: "crypto \<Rightarrow> string \<Rightarrow> string" where
  "sha256hex C s = hex_enc (sha256 C (utf8 s))"

definition sha256hex_bytes :: "crypto \<Rightarrow> bytes \<Rightarrow> string" where
  "sha256hex_bytes C b = hex_enc (sha256 C b)"

section \<open>Documented behaviour of the primitives\<close>

text \<open>
  Ed25519: public keys have 32 bytes, signatures 64, and a signature made with the private key of
  a seed verifies under the public key of that seed.
\<close>

definition signs_verify :: "crypto \<Rightarrow> bool" where
  "signs_verify C = (\<forall>seed msg kp. fromSeed (exportSpki C) seed = Inr kp \<longrightarrow>
     length (kp_pubkey kp) = 32 \<and> length (sign C (kp_priv kp) msg) = 64 \<and>
     verify C (kp_pubkey kp) msg (sign C (kp_priv kp) msg) = Inr True)"

text \<open>AES-GCM opens what it sealed, under the same key and iv.\<close>

definition gcm_opens :: "crypto \<Rightarrow> bool" where
  "gcm_opens C = (\<forall>k iv p. gcmDec C k iv (snd (gcmEnc C k iv p)) (fst (gcmEnc C k iv p)) = Inr p)"

text \<open>Two texts do not collide under the hash.\<close>

definition no_collision :: "crypto \<Rightarrow> string \<Rightarrow> string \<Rightarrow> bool" where
  "no_collision C s t = (sha256 C (utf8 s) = sha256 C (utf8 t) \<longrightarrow> s = t)"

section \<open>Round trips\<close>

lemma unat_byte: "unat (b :: byte) < 256"
  using unsigned_less [of b] by simp

lemma hex_val_digit_char: "d < 16 \<Longrightarrow> hex_val (digit_char d) = Some d"
proof -
  assume "d < 16"
  then have "d \<in> set [0..<16]" by simp
  moreover have "\<forall>d \<in> set [0..<16]. hex_val (digit_char d) = Some d" by code_simp
  ultimately show ?thesis by blast
qed

lemma hex_dec_enc [simp]: "hex_dec (hex_enc bs @ s) = bs @ hex_dec s"
proof (induction bs)
  case (Cons b bs)
  have b: "unat b < 256" by (rule unat_byte)
  have "16 * (unat b div 16) + unat b mod 16 = unat b" by simp
  then have "(of_nat (16 * (unat b div 16) + unat b mod 16) :: byte) = b" by simp
  then show ?case using Cons b
    by (simp add: hex_enc_def byte_hex_def hex_val_digit_char)
qed (simp add: hex_enc_def)

lemma hex_dec_enc_id [simp]: "hex_dec (hex_enc bs) = bs"
  using hex_dec_enc [of bs "[]"] by simp

lemma hex_enc_inj: "hex_enc a = hex_enc b \<Longrightarrow> a = b"
  by (metis hex_dec_enc_id)

lemma hex_enc_length [simp]: "length (hex_enc bs) = 2 * length bs"
  by (induction bs) (auto simp: hex_enc_def byte_hex_def)

lemma hex_enc_chars: "c \<in> set (hex_enc bs) \<Longrightarrow> is_digit c \<or> CHR ''a'' \<le> c \<and> c \<le> CHR ''f''"
proof -
  have *: "is_digit (digit_char d) \<or> CHR ''a'' \<le> digit_char d \<and> digit_char d \<le> CHR ''f''" if "d < 16" for d
  proof -
    have "d \<in> set [0..<16]" using that by simp
    moreover have "\<forall>d \<in> set [0..<16]. is_digit (digit_char d) \<or> CHR ''a'' \<le> digit_char d \<and> digit_char d \<le> CHR ''f''"
      by code_simp
    ultimately show ?thesis by blast
  qed
  assume "c \<in> set (hex_enc bs)"
  then obtain b :: byte where "c = digit_char (unat b div 16) \<or> c = digit_char (unat b mod 16)"
    by (auto simp: hex_enc_def byte_hex_def)
  then show ?thesis using * [of "unat b div 16"] * [of "unat b mod 16"] unat_byte [of b] by auto
qed

lemma open_seal_seal: "gcm_opens C \<Longrightarrow> open_seal C k (seal C k iv p) = Inr p"
  by (simp add: gcm_opens_def open_seal_def seal_def split: prod.splits) (metis fst_conv snd_conv)

lemma utf8_char_nat: "map unat (utf8_char c) = (let n = of_char c :: nat
     in if n < 128 then [n] else [192 + n div 64, 128 + n mod 64])"
proof -
  have n: "(of_char c :: nat) < 256" using of_char_mod_256 [where 'a=nat, of c]
    by (metis mod_less_divisor zero_less_numeral)
  have *: "m < 256 \<Longrightarrow> unat (of_nat m :: byte) = m" for m
    by (simp add: unat_of_nat)
  have "unat (of_nat (192 + of_char c div 64) :: byte) = 192 + of_char c div 64"
    "unat (of_nat (128 + of_char c mod 64) :: byte) = 128 + of_char c mod 64"
    using n by (intro *; linarith)+
  then show ?thesis using * [of "of_char c"]
    by (simp add: utf8_char_def Let_def del: of_nat_add of_nat_numeral unsigned_of_nat)
qed

lemma utf8_inj: "utf8 s = utf8 t \<Longrightarrow> s = t"
proof (induction s arbitrary: t)
  case Nil
  then show ?case by (cases t) (auto simp: utf8_def utf8_char_def Let_def split: if_splits)
next
  case (Cons c s)
  then obtain d t' where t: "t = d # t'"
    by (cases t) (auto simp: utf8_def utf8_char_def Let_def split: if_splits)
  have n: "(of_char c :: nat) < 256" "(of_char d :: nat) < 256"
    using of_char_mod_256 [where 'a=nat] by (metis mod_less_divisor zero_less_numeral)+
  have e: "map unat (utf8_char c) @ map unat (utf8 s) = map unat (utf8_char d) @ map unat (utf8 t')"
    using Cons.prems unfolding t by (simp add: utf8_def flip: map_append)
  have cd: "(of_char c :: nat) = of_char d"
  proof -
    consider "(of_char c :: nat) < 128" | "\<not> (of_char c :: nat) < 128" by blast
    then show ?thesis
    proof cases
      case 1 then show ?thesis using e n by (auto simp: utf8_char_nat Let_def split: if_splits)
    next
      case 2
      then have "192 + (of_char c :: nat) div 64 = 192 + of_char d div 64"
        "128 + (of_char c :: nat) mod 64 = 128 + of_char d mod 64"
        using e n by (auto simp: utf8_char_nat Let_def split: if_splits)
      then have "of_char c div 64 = (of_char d :: nat) div 64" "of_char c mod 64 = (of_char d :: nat) mod 64" by auto
      then show ?thesis by (metis div_mult_mod_eq)
    qed
  qed
  then have "c = d" by (simp add: of_char_eq_iff)
  moreover have "utf8 s = utf8 t'" using Cons.prems \<open>c = d\<close> unfolding t by (simp add: utf8_def)
  ultimately show ?case using Cons.IH t by simp
qed

lemma sha256hex_inj: "no_collision C s t \<Longrightarrow> sha256hex C s = sha256hex C t \<Longrightarrow> s = t"
  by (auto simp: sha256hex_def no_collision_def dest: hex_enc_inj)

section \<open>A concrete instance\<close>

text \<open>
  A small instance of the interface, used to show that the stated behaviours are satisfiable and
  to evaluate handlers in the witnesses: signatures carry the public key and the message.
\<close>

definition toy_crypto :: crypto where
  "toy_crypto = \<lparr> createPublicKey = (\<lambda>der. if length der = 44 then Inr (drop 12 der) else Inl (Err 0 ''bad key'')),
     edVerify = (\<lambda>msg pub sig. sig = pub @ take 32 (msg @ replicate 32 0)),
     edSign = (\<lambda>priv msg. drop 16 priv @ take 32 (msg @ replicate 32 0)),
     exportSpki = (\<lambda>priv. SPKI_PREFIX @ drop 16 priv), sha256 = (\<lambda>b. b),
     gcmEnc = (\<lambda>k iv p. (p, k)), gcmDec = (\<lambda>k iv tag ct. if tag = k then Inr ct else Inl (Err 0 ''gcm'')) \<rparr>"

lemma toy_signs_verify: "signs_verify toy_crypto"
  by (auto simp: signs_verify_def toy_crypto_def fromSeed_def verify_def sign_def SPKI_PREFIX_def
      PKCS8_PREFIX_def Let_def split: if_splits)

lemma toy_gcm_opens: "gcm_opens toy_crypto"
  by (simp add: gcm_opens_def toy_crypto_def)

lemma toy_no_collision: "no_collision toy_crypto s t"
  by (simp add: no_collision_def toy_crypto_def utf8_inj)

definition toy_keypair :: "byte \<Rightarrow> keypair" where
  "toy_keypair b = \<lparr> kp_seed = replicate 32 b, kp_priv = PKCS8_PREFIX @ replicate 32 b,
     kp_pubkey = replicate 32 b, kp_address = base58 (replicate 32 b) \<rparr>"

lemma toy_fromSeed: "fromSeed (exportSpki toy_crypto) (replicate 32 b) = Inr (toy_keypair b)"
  by (simp add: fromSeed_def toy_crypto_def toy_keypair_def Let_def PKCS8_PREFIX_def SPKI_PREFIX_def)

end
