(* ===== verification/Js_Map.thy ===== *)
theory Js_Map
  imports Prelude
begin

text \<open>
  The \<open>Map\<close> of JavaScript: iteration is in insertion order, setting an existing key keeps its
  place, so a map is the list of its entries with distinct keys. The interface \<open>keyed_store\<close> is
  what the stores of the services (lib/store.js, the nonce stores, the signer's tables) rely on;
  \<open>replay_guard\<close> is what the request and evidence checks rely on.
\<close>

type_synonym ('k, 'v) jmap = "('k \<times> 'v) list"

definition map_get :: "'k \<Rightarrow> ('k, 'v) jmap \<Rightarrow> 'v option" where
  "map_get k m = map_of m k"

definition map_has :: "'k \<Rightarrow> ('k, 'v) jmap \<Rightarrow> bool" where
  "map_has k m = (map_get k m \<noteq> None)"

fun map_set :: "'k \<Rightarrow> 'v \<Rightarrow> ('k, 'v) jmap \<Rightarrow> ('k, 'v) jmap" where
  "map_set k v [] = [(k, v)]"
| "map_set k v ((l, w) # m) = (if l = k then (k, v) # m else (l, w) # map_set k v m)"

definition map_delete :: "'k \<Rightarrow> ('k, 'v) jmap \<Rightarrow> ('k, 'v) jmap" where
  "map_delete k m = filter (\<lambda>(l, w). l \<noteq> k) m"

abbreviation map_keys :: "('k, 'v) jmap \<Rightarrow> 'k list" where
  "map_keys m \<equiv> map fst m"

abbreviation map_values :: "('k, 'v) jmap \<Rightarrow> 'v list" where
  "map_values m \<equiv> map snd m"

definition map_ok :: "('k, 'v) jmap \<Rightarrow> bool" where
  "map_ok m = distinct (map_keys m)"

section \<open>Laws of the map\<close>

lemma map_get_set_same [simp]: "map_get k (map_set k v m) = Some v"
  by (induction m rule: map_set.induct) (auto simp: map_get_def)

lemma map_get_set_other [simp]: "k \<noteq> l \<Longrightarrow> map_get l (map_set k v m) = map_get l m"
  by (induction k v m rule: map_set.induct) (auto simp: map_get_def)

lemma map_get_delete_same [simp]: "map_get k (map_delete k m) = None"
  by (induction m) (auto simp: map_get_def map_delete_def)

lemma map_get_delete_other [simp]: "k \<noteq> l \<Longrightarrow> map_get l (map_delete k m) = map_get l m"
  by (induction m) (auto simp: map_get_def map_delete_def)

lemma map_get_Nil [simp]: "map_get k [] = None"
  by (simp add: map_get_def)

lemma map_keys_set: "map_keys (map_set k v m) = (if k \<in> set (map_keys m) then map_keys m else map_keys m @ [k])"
  by (induction k v m rule: map_set.induct) auto

lemma map_ok_set [simp]: "map_ok m \<Longrightarrow> map_ok (map_set k v m)"
  by (auto simp: map_ok_def map_keys_set)

lemma map_ok_filter: "map_ok m \<Longrightarrow> map_ok (filter P m)"
  by (simp add: map_ok_def distinct_map_filter)

lemma map_ok_delete [simp]: "map_ok m \<Longrightarrow> map_ok (map_delete k m)"
  unfolding map_delete_def by (rule map_ok_filter)

lemma map_ok_Nil [simp]: "map_ok []"
  by (simp add: map_ok_def)

lemma map_get_in: "map_get k m = Some v \<Longrightarrow> (k, v) \<in> set m"
  by (auto simp: map_get_def dest: map_of_SomeD)

lemma map_get_iff: "map_ok m \<Longrightarrow> map_get k m = Some v \<longleftrightarrow> (k, v) \<in> set m"
  by (simp add: map_get_def map_ok_def)

lemma map_get_filter: "map_ok m \<Longrightarrow> map_get k m = Some v \<Longrightarrow> P (k, v) \<Longrightarrow> map_get k (filter P m) = Some v"
  using map_get_iff [of m k v] map_get_iff [OF map_ok_filter [of m P], of k v] by simp

lemma map_get_filter_Some: "map_ok m \<Longrightarrow> map_get k (filter P m) = Some v \<Longrightarrow> map_get k m = Some v \<and> P (k, v)"
  using map_get_iff [of m k v] map_get_iff [OF map_ok_filter [of m P], of k v] by simp

lemma set_map_set: "map_ok m \<Longrightarrow> (l, w) \<in> set (map_set k v m) \<longleftrightarrow> (l = k \<and> w = v) \<or> (l \<noteq> k \<and> (l, w) \<in> set m)"
  using map_get_iff [of "map_set k v m" l w] map_get_iff [of m l w] by (cases "l = k") auto

text \<open>Reading and listing after an update.\<close>

lemma map_get_set: "map_get l (map_set k v m) = (if l = k then Some v else map_get l m)"
  by auto

lemma map_get_delete: "map_get l (map_delete k m) = (if l = k then None else map_get l m)"
  by auto

lemma map_values_set: "x \<in> set (map_values (map_set k v m)) \<Longrightarrow> x = v \<or> x \<in> set (map_values m)"
  by (induction k v m rule: map_set.induct) (auto split: if_splits)

lemma map_values_get: "map_get k m = Some v \<Longrightarrow> v \<in> set (map_values m)"
  by (force dest: map_get_in)

lemma map_values_delete: "x \<in> set (map_values (map_delete k m)) \<Longrightarrow> x \<in> set (map_values m)"
  by (auto simp: map_delete_def)

section \<open>The keyed store interface\<close>

locale keyed_store =
  fixes get :: "'k \<Rightarrow> 's \<Rightarrow> 'v option"
    and put :: "'k \<Rightarrow> 'v \<Rightarrow> 's \<Rightarrow> 's"
    and del :: "'k \<Rightarrow> 's \<Rightarrow> 's"
    and ok :: "'s \<Rightarrow> bool"
  assumes get_put_same: "ok s \<Longrightarrow> get k (put k v s) = Some v"
    and get_put_other: "ok s \<Longrightarrow> k \<noteq> l \<Longrightarrow> get l (put k v s) = get l s"
    and get_del_same: "ok s \<Longrightarrow> get k (del k s) = None"
    and get_del_other: "ok s \<Longrightarrow> k \<noteq> l \<Longrightarrow> get l (del k s) = get l s"
    and ok_put: "ok s \<Longrightarrow> ok (put k v s)"
    and ok_del: "ok s \<Longrightarrow> ok (del k s)"
begin

text \<open>An entry survives any batch of updates of other keys.\<close>

lemma get_put_all_other:
  "ok s \<Longrightarrow> k \<notin> fst ` set kvs \<Longrightarrow> get k (fold (\<lambda>(l, v). put l v) kvs s) = get k s"
proof (induction kvs arbitrary: s)
  case (Cons kv kvs)
  then show ?case by (cases kv) (auto simp: get_put_other ok_put)
qed simp

lemma get_del_all_other:
  "ok s \<Longrightarrow> k \<notin> set ks \<Longrightarrow> get k (fold del ks s) = get k s"
  by (induction ks arbitrary: s) (auto simp: get_del_other ok_del)

text \<open>A property of all values is kept by updates that establish it.\<close>

lemma put_all_values:
  "ok s \<Longrightarrow> (\<And>l w. get l s = Some w \<Longrightarrow> P l w) \<Longrightarrow> P k v \<Longrightarrow> get l (put k v s) = Some w \<Longrightarrow> P l w"
  by (cases "l = k") (auto simp: get_put_same get_put_other)

lemma del_all_values:
  "ok s \<Longrightarrow> (\<And>l w. get l s = Some w \<Longrightarrow> P l w) \<Longrightarrow> get l (del k s) = Some w \<Longrightarrow> P l w"
  by (cases "l = k") (auto simp: get_del_same get_del_other)

end

interpretation jm: keyed_store map_get map_set map_delete map_ok
  by unfold_locales simp_all

section \<open>The replay guard interface\<close>

text \<open>
  A guard remembers keys with an entry each. \<open>look t k s\<close> is the test at time \<open>t\<close>, with the store it
  leaves behind (a test may drop an expired entry); \<open>add t k e s\<close> records a key, provided it is one
  that can be found again (\<open>keyed\<close>). An entry is kept as
  long as it is \<open>live\<close>, whatever else is looked up or added.
\<close>

definition guarded :: "('t \<Rightarrow> 'k \<Rightarrow> 's \<Rightarrow> bool \<times> 's) \<Rightarrow> ('t \<Rightarrow> 'k \<Rightarrow> 'e \<Rightarrow> 's \<Rightarrow> 's) \<Rightarrow> 't \<times> 'k \<times> 'e \<Rightarrow> 's \<Rightarrow> 's" where
  "guarded look add u s = (case u of (t, l, f) \<Rightarrow>
     if fst (look t l s) then snd (look t l s) else add t l f (snd (look t l s)))"

locale replay_guard =
  fixes entry :: "'s \<Rightarrow> 'k \<Rightarrow> 'e option"
    and live :: "'t \<Rightarrow> 'e \<Rightarrow> bool"
    and look :: "'t \<Rightarrow> 'k \<Rightarrow> 's \<Rightarrow> bool \<times> 's"
    and add :: "'t \<Rightarrow> 'k \<Rightarrow> 'e \<Rightarrow> 's \<Rightarrow> 's"
    and keyed :: "'k \<Rightarrow> bool"
    and ok :: "'s \<Rightarrow> bool"
  assumes look_live: "ok s \<Longrightarrow> entry s k = Some e \<Longrightarrow> live t e \<Longrightarrow> fst (look t k s)"
    and look_keeps: "ok s \<Longrightarrow> entry s k = Some e \<Longrightarrow> live t e \<Longrightarrow> entry (snd (look t l s)) k = Some e"
    and add_same: "ok s \<Longrightarrow> keyed k \<Longrightarrow> live t e \<Longrightarrow> entry (add t k e s) k = Some e"
    and add_keeps: "ok s \<Longrightarrow> k \<noteq> l \<Longrightarrow> entry s k = Some e \<Longrightarrow> live t e \<Longrightarrow> entry (add t l f s) k = Some e"
    and ok_look: "ok s \<Longrightarrow> ok (snd (look t l s))"
    and ok_add: "ok s \<Longrightarrow> ok (add t l f s)"
begin

text \<open>One guarded use of a key: refused when it is known, recorded otherwise.\<close>

lemma guarded_ok: "ok s \<Longrightarrow> ok (guarded look add u s)"
  by (cases u) (auto simp: guarded_def ok_look ok_add)

lemma guarded_keeps:
  assumes "ok s" "entry s k = Some e" "live (fst u) e"
  shows "entry (guarded look add u s) k = Some e"
proof -
  obtain t l f where u: "u = (t, l, f)" by (cases u)
  show ?thesis
  proof (cases "l = k")
    case True
    then show ?thesis using assms by (simp add: u guarded_def look_live look_keeps)
  next
    case False
    then show ?thesis using assms by (auto simp: u guarded_def look_keeps add_keeps ok_look)
  qed
qed

lemma guarded_run_ok: "ok s \<Longrightarrow> ok (fold (guarded look add) us s)"
  by (induction us arbitrary: s) (auto simp: guarded_ok)

lemma guarded_run_keeps:
  "ok s \<Longrightarrow> entry s k = Some e \<Longrightarrow> \<forall>u \<in> set us. live (fst u) e \<Longrightarrow>
   entry (fold (guarded look add) us s) k = Some e"
  by (induction us arbitrary: s) (auto simp: guarded_ok guarded_keeps)

text \<open>So a key once recorded is refused as long as its entry is live.\<close>

lemma recorded_refused:
  "ok s \<Longrightarrow> entry s k = Some e \<Longrightarrow> \<forall>u \<in> set us. live (fst u) e \<Longrightarrow> live t e \<Longrightarrow>
   fst (look t k (fold (guarded look add) us s))"
  by (rule look_live [OF guarded_run_ok guarded_run_keeps])

end

end
