(* ===== verification/Request_Auth.thy ===== *)
theory Request_Auth
  imports Canonical Crypto Js_Map
begin

text \<open>
  lib/owner-auth.js and lib/node-auth.js: requests signed by an agent's owner or by a node. The
  text signed, the headers, the nonce store and both verifiers. \<open>now\<close> is the clock the freshness
  test reads, \<open>clk\<close> the one the nonce store reads (both are \<open>Date.now\<close> in the program, read at
  different moments). Header names are looked up as written and in lower case; a missing header
  and an empty one are both the empty string here, which is how the code tests them.

  The two verifiers are the same protocol under different names: the interface
  \<open>signed_requests\<close> states what both promise and proves the replay protection once.
\<close>

section \<open>The nonce store\<close>

type_synonym nonce_store = "(string, jsnum) jmap"

definition nonce_has :: "int \<Rightarrow> string \<Rightarrow> nonce_store \<Rightarrow> bool \<times> nonce_store" where
  "nonce_has clk n m = (case map_get n m of
       None \<Rightarrow> (False, m)
     | Some e \<Rightarrow> if jtruthy e \<and> jlt (int_num clk) e then (True, m)
                 else if jtruthy e then (False, map_delete n m) else (False, m))"

definition nonce_add :: "int \<Rightarrow> string \<Rightarrow> jsnum \<Rightarrow> nonce_store \<Rightarrow> nonce_store" where
  "nonce_add clk n expiry m =
     (let m' = map_set n expiry m
      in if 5000 < length m' then filter (\<lambda>(k, v). \<not> jle v (int_num clk)) m' else m')"

definition nonce_live :: "int \<Rightarrow> jsnum \<Rightarrow> bool" where
  "nonce_live clk e = (jtruthy e \<and> jlt (int_num clk) e)"

section \<open>The signed texts\<close>

abbreviation nl :: char where
  "nl \<equiv> CHR 0x0A"

record request =
  rq_method :: string
  rq_path :: string
  rq_body :: jsval

definition body_or_empty :: "jsval \<Rightarrow> jsval" where
  "body_or_empty v = (if nullish v then JObj [] else v)"

definition ownerAuthMessage :: "crypto \<Rightarrow> request \<Rightarrow> jsnum \<Rightarrow> string \<Rightarrow> string" where
  "ownerAuthMessage C r ts nonce =
     (let bodyHash = sha256hex C (stable_stringify (body_or_empty (rq_body r)))
      in ''circuit-owner-auth'' @ [nl] @ ''v1'' @ [nl] @ toUpperCase (rq_method r) @ [nl] @ rq_path r @ [nl]
         @ bodyHash @ [nl] @ num_str ts @ [nl] @ nonce)"

definition nodeAuthMessage :: "crypto \<Rightarrow> request \<Rightarrow> jsnum \<Rightarrow> string \<Rightarrow> string" where
  "nodeAuthMessage C r ts nonce =
     (let bodyHash = sha256hex C (stable_stringify (body_or_empty (rq_body r)))
      in ''circuit-node-auth'' @ [nl] @ ''v1'' @ [nl] @ toUpperCase (rq_method r) @ [nl] @ rq_path r @ [nl]
         @ bodyHash @ [nl] @ num_str ts @ [nl] @ nonce)"

section \<open>Signing\<close>

type_synonym headers = "(string \<times> string) list"

definition math_trunc :: "jsnum \<Rightarrow> jsnum" where
  "math_trunc x = (case x of Fin q \<Rightarrow> Fin (of_int (trunc_rat q)) | _ \<Rightarrow> x)"

text \<open>\<open>perf\<close> is \<open>performance.now()\<close> and \<open>rnd\<close> the 12 random bytes, used when no nonce is given.\<close>

definition signOwnerHeaders ::
  "crypto \<Rightarrow> jsnum \<Rightarrow> bytes \<Rightarrow> string \<Rightarrow> request \<Rightarrow> jsnum \<Rightarrow> string option \<Rightarrow> headers" where
  "signOwnerHeaders C perf priv owner r ts nonce =
     (let n = (case nonce of Some n \<Rightarrow> n
               | None \<Rightarrow> base58 (utf8 (num_str ts @ ''-'' @ num_str (math_trunc (jmul perf (Fin 1000))))));
          msg = ownerAuthMessage C r ts n
      in [(''X-Circuit-Owner'', owner), (''X-Circuit-Ts'', num_str ts), (''X-Circuit-Nonce'', n),
          (''X-Circuit-Sig'', base58 (sign C priv (utf8 msg)))])"

definition signNodeHeaders ::
  "crypto \<Rightarrow> bytes \<Rightarrow> bytes \<Rightarrow> string \<Rightarrow> request \<Rightarrow> jsnum \<Rightarrow> string option \<Rightarrow> headers" where
  "signNodeHeaders C rnd priv address r ts nonce =
     (let n = (case nonce of Some n \<Rightarrow> n | None \<Rightarrow> base58 rnd);
          sig = sign C priv (utf8 (nodeAuthMessage C r ts n))
      in [(''X-Circuit-Node'', address), (''X-Circuit-Node-Ts'', num_str ts), (''X-Circuit-Node-Nonce'', n),
          (''X-Circuit-Node-Sig'', base58 sig)])"

text \<open>
  The key file of a node: its text (\<open>None\<close> when it cannot be read) and 32 random bytes give the
  key and what is written back.
\<close>

definition loadOrCreateNodeKey :: "crypto \<Rightarrow> bytes \<Rightarrow> string option \<Rightarrow> keypair res \<times> string option" where
  "loadOrCreateNodeKey C random32 file =
     (let seed = map_option (\<lambda>t. hex_dec (trim t)) file
      in case seed of
           Some s \<Rightarrow> if length s = 32 then (fromSeed (exportSpki C) s, file)
                     else (fromSeed (exportSpki C) random32, Some (hex_enc random32))
         | None \<Rightarrow> (fromSeed (exportSpki C) random32, Some (hex_enc random32)))"

section \<open>Verifying\<close>

definition header :: "headers \<Rightarrow> string \<Rightarrow> string" where
  "header hs k = (case map_of hs k of
       Some v \<Rightarrow> if v \<noteq> [] then v
                  else (case map_of hs (toLowerCase k) of Some w \<Rightarrow> w | None \<Rightarrow> [])
     | None \<Rightarrow> (case map_of hs (toLowerCase k) of Some w \<Rightarrow> w | None \<Rightarrow> []))"

abbreviation auth_fail :: "string \<Rightarrow> err" where
  "auth_fail m \<equiv> Err 401 m"

definition verifyOwnerRequest ::
  "crypto \<Rightarrow> jsnum \<Rightarrow> int \<Rightarrow> int \<Rightarrow> request \<Rightarrow> headers \<Rightarrow> nonce_store \<Rightarrow> string option res \<times> nonce_store" where
  "verifyOwnerRequest C maxAgeMs now clk r hs st =
     (let owner = header hs ''X-Circuit-Owner''; ts = header hs ''X-Circuit-Ts'';
          nonce = header hs ''X-Circuit-Nonce''; sig = header hs ''X-Circuit-Sig''
      in if owner = [] \<and> ts = [] \<and> nonce = [] \<and> sig = [] then (Inr None, st)
         else if owner = [] \<or> ts = [] \<or> nonce = [] \<or> sig = []
         then (Inl (auth_fail ''incomplete signature headers''), st)
         else let tsn = str_num ts
           in if \<not> jfinite tsn \<or> jlt maxAgeMs (jabs (jsub (int_num now) tsn))
              then (Inl (auth_fail ''stale or invalid timestamp''), st)
              else let (seen, st1) = nonce_has clk nonce st
                in if seen then (Inl (auth_fail ''nonce replay''), st1)
                   else let st2 = nonce_add clk nonce (jadd tsn maxAgeMs) st1
                     in case bindE (base58decode owner) (\<lambda>pub.
                          let msg = ownerAuthMessage C r tsn nonce
                          in bindE (base58decode sig) (\<lambda>sb. verify C pub (utf8 msg) sb)) of
                          Inl _ \<Rightarrow> (Inl (auth_fail ''malformed signature''), st2)
                        | Inr ok \<Rightarrow> if \<not> ok then (Inl (auth_fail ''bad signature''), st2)
                                    else (Inr (Some owner), st2))"

definition verifyNodeRequest ::
  "crypto \<Rightarrow> jsnum \<Rightarrow> int \<Rightarrow> int \<Rightarrow> request \<Rightarrow> headers \<Rightarrow> nonce_store \<Rightarrow> string option res \<times> nonce_store" where
  "verifyNodeRequest C maxAgeMs now clk r hs st =
     (let node = header hs ''X-Circuit-Node''; ts = header hs ''X-Circuit-Node-Ts'';
          nonce = header hs ''X-Circuit-Node-Nonce''; sig = header hs ''X-Circuit-Node-Sig''
      in if node = [] \<and> ts = [] \<and> nonce = [] \<and> sig = [] then (Inr None, st)
         else if node = [] \<or> ts = [] \<or> nonce = [] \<or> sig = []
         then (Inl (auth_fail ''incomplete signature headers''), st)
         else let tsn = str_num ts
           in if \<not> jfinite tsn \<or> jlt maxAgeMs (jabs (jsub (int_num now) tsn))
              then (Inl (auth_fail ''stale or invalid timestamp''), st)
              else let (seen, st1) = nonce_has clk nonce st
                in if seen then (Inl (auth_fail ''nonce replay''), st1)
                   else let st2 = nonce_add clk nonce (jadd tsn maxAgeMs) st1
                     in case bindE (base58decode node) (\<lambda>pub.
                          let msg = nodeAuthMessage C r tsn nonce
                          in bindE (base58decode sig) (\<lambda>sb. verify C pub (utf8 msg) sb)) of
                          Inl _ \<Rightarrow> (Inl (auth_fail ''malformed signature''), st2)
                        | Inr ok \<Rightarrow> if \<not> ok then (Inl (auth_fail ''bad signature''), st2)
                                    else (Inr (Some node), st2))"

section \<open>The nonce store is a replay guard\<close>

lemma nonce_look_live: "map_get k s = Some e \<Longrightarrow> nonce_live t e \<Longrightarrow> fst (nonce_has t k s)"
  by (simp add: nonce_has_def nonce_live_def)

lemma nonce_look_keeps:
  "map_get k s = Some e \<Longrightarrow> nonce_live t e \<Longrightarrow> map_get k (snd (nonce_has t l s)) = Some e"
  by (cases "l = k") (auto simp: nonce_has_def nonce_live_def split: option.splits)

lemma jle_not_jlt: "jle x y \<Longrightarrow> \<not> jlt y x"
  by (cases x; cases y) (auto simp: jle_def jnan_def)

lemma nonce_add_get:
  assumes "map_ok s" "map_get k (map_set l f s) = Some e" "nonce_live t e"
  shows "map_get k (nonce_add t l f s) = Some e"
proof -
  have "\<not> jle e (int_num t)" using assms(3) jle_not_jlt by (auto simp: nonce_live_def)
  then show ?thesis using assms map_get_filter [of "map_set l f s" k e]
    by (simp add: nonce_add_def Let_def)
qed

lemma nonce_ok_look: "map_ok s \<Longrightarrow> map_ok (snd (nonce_has t l s))"
  by (auto simp: nonce_has_def split: option.splits)

lemma nonce_ok_add: "map_ok s \<Longrightarrow> map_ok (nonce_add t l f s)"
  by (auto simp: nonce_add_def Let_def intro: map_ok_filter)

interpretation nonces: replay_guard "\<lambda>s k. map_get k s" nonce_live nonce_has nonce_add "\<lambda>_. True" map_ok
  by unfold_locales
     (simp_all add: nonce_look_live nonce_look_keeps nonce_add_get nonce_ok_look nonce_ok_add)

section \<open>What a signed text commits to\<close>

lemma upper_char_nl [simp]: "nl = upper_char c \<longleftrightarrow> nl = c"
proof (cases "is_lower c")
  case True
  then have b: "97 \<le> (of_char c :: nat)" "(of_char c :: nat) \<le> 122"
    by (simp_all add: is_lower_def less_eq_char_def)
  have "(of_char (upper_char c) :: nat) = of_char c - 32"
    using True b by (simp add: upper_char_def)
  then have "upper_char c \<noteq> nl" "c \<noteq> nl" using b by auto
  then show ?thesis by simp
qed (simp add: upper_char_def)

lemma nl_in_upper [simp]: "nl \<in> set (toUpperCase s) \<longleftrightarrow> nl \<in> set s"
  by (induction s) auto

lemma nl_not_num_char: "\<not> num_char nl"
  by (simp add: num_char_def is_digit_def)

lemma nl_not_in_num_str: "nl \<notin> set (num_str (Fin q))" if "f64 q"
  using num_str_chars [OF that] nl_not_num_char by blast

lemma nl_not_in_hex: "nl \<notin> set (sha256hex C s)"
  using hex_enc_chars [of nl "sha256 C (utf8 s)"] by (auto simp: sha256hex_def is_digit_def)

text \<open>The five fields of a request text, without the domain line.\<close>

definition auth_fields :: "crypto \<Rightarrow> request \<Rightarrow> jsnum \<Rightarrow> string \<Rightarrow> string" where
  "auth_fields C r ts nonce = toUpperCase (rq_method r) @ [nl] @ rq_path r @ [nl]
     @ sha256hex C (stable_stringify (body_or_empty (rq_body r))) @ [nl] @ num_str ts @ [nl] @ nonce"

lemma auth_messages_fields:
  "ownerAuthMessage C r ts nonce = ''circuit-owner-auth'' @ [nl] @ ''v1'' @ [nl] @ auth_fields C r ts nonce"
  "nodeAuthMessage C r ts nonce = ''circuit-node-auth'' @ [nl] @ ''v1'' @ [nl] @ auth_fields C r ts nonce"
  by (simp_all add: ownerAuthMessage_def nodeAuthMessage_def auth_fields_def Let_def)

definition one_line :: "request \<Rightarrow> bool" where
  "one_line r = (nl \<notin> set (rq_method r) \<and> nl \<notin> set (rq_path r))"

definition body_text :: "request \<Rightarrow> string" where
  "body_text r = stable_stringify (body_or_empty (rq_body r))"

lemma auth_fields_commit:
  assumes eq: "auth_fields C r (Fin t) n = auth_fields C r' (Fin t') n'"
    and r: "one_line r" "one_line r'" and t: "f64 t" "f64 t'"
    and h: "no_collision C (body_text r) (body_text r')"
  shows "toUpperCase (rq_method r) = toUpperCase (rq_method r') \<and> rq_path r = rq_path r' \<and>
    body_text r = body_text r' \<and> t = t' \<and> n = n'"
proof -
  have 1: "toUpperCase (rq_method r) = toUpperCase (rq_method r') \<and>
      rq_path r @ nl # sha256hex C (body_text r) @ nl # num_str (Fin t) @ nl # n =
      rq_path r' @ nl # sha256hex C (body_text r') @ nl # num_str (Fin t') @ nl # n'"
    using eq r nl_in_upper unfolding auth_fields_def body_text_def one_line_def append_Cons append_Nil
    by (intro append_sep_inj [where c = nl]) blast+
  then have 2: "rq_path r = rq_path r' \<and>
      sha256hex C (body_text r) @ nl # num_str (Fin t) @ nl # n =
      sha256hex C (body_text r') @ nl # num_str (Fin t') @ nl # n'"
    by (intro append_sep_inj [where c = nl]) (use r in \<open>auto simp: one_line_def\<close>)
  then have 3: "sha256hex C (body_text r) = sha256hex C (body_text r') \<and>
      num_str (Fin t) @ nl # n = num_str (Fin t') @ nl # n'"
    by (intro append_sep_inj [where c = nl]) (auto simp: nl_not_in_hex)
  then have 4: "num_str (Fin t) = num_str (Fin t') \<and> n = n'"
    by (intro append_sep_inj [where c = nl]) (use nl_not_in_num_str t in auto)
  have "t = t'" using num_str_inj [OF t] 4 by blast
  with 1 2 3 4 show ?thesis using sha256hex_inj [OF h] by blast
qed

lemma body_text_commit:
  assumes "body_text r = body_text r'" "json_value (rq_body r)" "json_value (rq_body r')"
  shows "canon (body_or_empty (rq_body r)) = canon (body_or_empty (rq_body r'))"
  using assms by (intro stable_stringify_inj) (auto simp: body_text_def body_or_empty_def)

section \<open>The contract of a verifier\<close>

text \<open>The store after a sequence of requests, each with its clocks, its content and its headers.\<close>

definition verify_run ::
  "(crypto \<Rightarrow> jsnum \<Rightarrow> int \<Rightarrow> int \<Rightarrow> request \<Rightarrow> headers \<Rightarrow> nonce_store \<Rightarrow> string option res \<times> nonce_store) \<Rightarrow>
   crypto \<Rightarrow> jsnum \<Rightarrow> (int \<times> int \<times> request \<times> headers) list \<Rightarrow> nonce_store \<Rightarrow> nonce_store" where
  "verify_run vr C mx qs st = fold (\<lambda>(now, clk, r, hs) s. snd (vr C mx now clk r hs s)) qs st"

locale signed_requests =
  fixes vr :: "crypto \<Rightarrow> jsnum \<Rightarrow> int \<Rightarrow> int \<Rightarrow> request \<Rightarrow> headers \<Rightarrow> nonce_store \<Rightarrow> string option res \<times> nonce_store"
    and msg :: "crypto \<Rightarrow> request \<Rightarrow> jsnum \<Rightarrow> string \<Rightarrow> string"
    and hWho hTs hNonce hSig :: string
  assumes accepts: "fst (vr C mx now clk r hs st) = Inr (Some who) \<Longrightarrow>
      who = header hs hWho \<and> who \<noteq> [] \<and> header hs hNonce \<noteq> [] \<and>
      jfinite (str_num (header hs hTs)) \<and>
      \<not> jlt mx (jabs (jsub (int_num now) (str_num (header hs hTs)))) \<and>
      \<not> fst (nonce_has clk (header hs hNonce) st) \<and>
      (\<exists>pub sb. base58decode who = Inr pub \<and> base58decode (header hs hSig) = Inr sb \<and>
         verify C pub (utf8 (msg C r (str_num (header hs hTs)) (header hs hNonce))) sb = Inr True) \<and>
      snd (vr C mx now clk r hs st) =
        nonce_add clk (header hs hNonce) (jadd (str_num (header hs hTs)) mx) (snd (nonce_has clk (header hs hNonce) st))"
    and touches: "snd (vr C mx now clk r hs st) = st \<or>
      snd (vr C mx now clk r hs st) =
        guarded nonce_has nonce_add (clk, header hs hNonce, jadd (str_num (header hs hTs)) mx) st"
begin

lemma step_keeps:
  "map_ok st \<Longrightarrow> map_get k st = Some e \<Longrightarrow> nonce_live clk e \<Longrightarrow>
   map_get k (snd (vr C mx now clk r hs st)) = Some e"
  using touches [of C mx now clk r hs st] nonces.guarded_keeps [of st k e] by auto

lemma step_ok: "map_ok st \<Longrightarrow> map_ok (snd (vr C mx now clk r hs st))"
  using touches [of C mx now clk r hs st] nonces.guarded_ok [of st] by auto

lemma run_ok: "map_ok st \<Longrightarrow> map_ok (verify_run vr C mx qs st)"
  unfolding verify_run_def by (induction qs arbitrary: st) (auto simp: step_ok)

lemma run_keeps:
  "map_ok st \<Longrightarrow> map_get k st = Some e \<Longrightarrow> \<forall>(now, clk, r, hs) \<in> set qs. nonce_live clk e \<Longrightarrow>
   map_get k (verify_run vr C mx qs st) = Some e"
  unfolding verify_run_def by (induction qs arbitrary: st) (auto simp: step_ok step_keeps)

lemma accepted_recorded:
  "map_ok st \<Longrightarrow> fst (vr C mx now clk r hs st) = Inr (Some who) \<Longrightarrow>
   nonce_live clk (jadd (str_num (header hs hTs)) mx) \<Longrightarrow>
   map_get (header hs hNonce) (snd (vr C mx now clk r hs st)) = Some (jadd (str_num (header hs hTs)) mx)"
  using accepts [of C mx now clk r hs st who] by (simp add: nonces.add_same nonces.ok_look)

text \<open>A nonce that was accepted is refused until its expiry, whatever requests come in between.\<close>

lemma replay_refused:
  assumes ok: "map_ok st" and acc: "fst (vr C mx now clk r hs st) = Inr (Some who)"
    and e: "e = jadd (str_num (header hs hTs)) mx" and n: "header hs' hNonce = header hs hNonce"
    and l: "nonce_live clk e" "\<forall>(now, clk, r, hs) \<in> set qs. nonce_live clk e" "nonce_live clk' e"
  shows "fst (vr C mx now' clk' r' hs' (verify_run vr C mx qs (snd (vr C mx now clk r hs st)))) \<noteq> Inr (Some who')"
proof
  let ?st = "verify_run vr C mx qs (snd (vr C mx now clk r hs st))"
  assume a: "fst (vr C mx now' clk' r' hs' ?st) = Inr (Some who')"
  have "map_get (header hs hNonce) ?st = Some e"
    using accepted_recorded [OF ok acc] l unfolding e by (intro run_keeps step_ok ok) auto
  then have "fst (nonce_has clk' (header hs' hNonce) ?st)"
    unfolding n using l(3) by (rule nonce_look_live)
  then show False using accepts [OF a] by simp
qed

end

section \<open>Both verifiers keep the contract\<close>

lemma owner_accepts:
  assumes "fst (verifyOwnerRequest C mx now clk r hs st) = Inr (Some who)"
  shows "who = header hs ''X-Circuit-Owner'' \<and> who \<noteq> [] \<and> header hs ''X-Circuit-Nonce'' \<noteq> [] \<and>
      jfinite (str_num (header hs ''X-Circuit-Ts'')) \<and>
      \<not> jlt mx (jabs (jsub (int_num now) (str_num (header hs ''X-Circuit-Ts'')))) \<and>
      \<not> fst (nonce_has clk (header hs ''X-Circuit-Nonce'') st) \<and>
      (\<exists>pub sb. base58decode who = Inr pub \<and> base58decode (header hs ''X-Circuit-Sig'') = Inr sb \<and>
         verify C pub (utf8 (ownerAuthMessage C r (str_num (header hs ''X-Circuit-Ts''))
           (header hs ''X-Circuit-Nonce''))) sb = Inr True) \<and>
      snd (verifyOwnerRequest C mx now clk r hs st) =
        nonce_add clk (header hs ''X-Circuit-Nonce'') (jadd (str_num (header hs ''X-Circuit-Ts'')) mx)
          (snd (nonce_has clk (header hs ''X-Circuit-Nonce'') st))"
  using assms
  by (auto simp: verifyOwnerRequest_def Let_def bindE_Inr_iff split: if_splits prod.splits sum.splits)

lemma owner_touches:
  "snd (verifyOwnerRequest C mx now clk r hs st) = st \<or>
   snd (verifyOwnerRequest C mx now clk r hs st) = guarded nonce_has nonce_add
     (clk, header hs ''X-Circuit-Nonce'', jadd (str_num (header hs ''X-Circuit-Ts'')) mx) st"
  by (auto simp: verifyOwnerRequest_def guarded_def Let_def split: prod.splits sum.splits)

lemma node_accepts:
  assumes "fst (verifyNodeRequest C mx now clk r hs st) = Inr (Some who)"
  shows "who = header hs ''X-Circuit-Node'' \<and> who \<noteq> [] \<and> header hs ''X-Circuit-Node-Nonce'' \<noteq> [] \<and>
      jfinite (str_num (header hs ''X-Circuit-Node-Ts'')) \<and>
      \<not> jlt mx (jabs (jsub (int_num now) (str_num (header hs ''X-Circuit-Node-Ts'')))) \<and>
      \<not> fst (nonce_has clk (header hs ''X-Circuit-Node-Nonce'') st) \<and>
      (\<exists>pub sb. base58decode who = Inr pub \<and> base58decode (header hs ''X-Circuit-Node-Sig'') = Inr sb \<and>
         verify C pub (utf8 (nodeAuthMessage C r (str_num (header hs ''X-Circuit-Node-Ts''))
           (header hs ''X-Circuit-Node-Nonce''))) sb = Inr True) \<and>
      snd (verifyNodeRequest C mx now clk r hs st) =
        nonce_add clk (header hs ''X-Circuit-Node-Nonce'') (jadd (str_num (header hs ''X-Circuit-Node-Ts'')) mx)
          (snd (nonce_has clk (header hs ''X-Circuit-Node-Nonce'') st))"
  using assms
  by (auto simp: verifyNodeRequest_def Let_def bindE_Inr_iff split: if_splits prod.splits sum.splits)

lemma node_touches:
  "snd (verifyNodeRequest C mx now clk r hs st) = st \<or>
   snd (verifyNodeRequest C mx now clk r hs st) = guarded nonce_has nonce_add
     (clk, header hs ''X-Circuit-Node-Nonce'', jadd (str_num (header hs ''X-Circuit-Node-Ts'')) mx) st"
  by (auto simp: verifyNodeRequest_def guarded_def Let_def split: prod.splits sum.splits)

interpretation owner_requests: signed_requests verifyOwnerRequest ownerAuthMessage
  "''X-Circuit-Owner''" "''X-Circuit-Ts''" "''X-Circuit-Nonce''" "''X-Circuit-Sig''"
  by unfold_locales (rule owner_accepts owner_touches, assumption?)+

interpretation node_requests: signed_requests verifyNodeRequest nodeAuthMessage
  "''X-Circuit-Node''" "''X-Circuit-Node-Ts''" "''X-Circuit-Node-Nonce''" "''X-Circuit-Node-Sig''"
  by unfold_locales (rule node_accepts node_touches, assumption?)+

section \<open>Signed headers are accepted\<close>

text \<open>The headers reach the server with the names in lower case.\<close>

definition sent :: "headers \<Rightarrow> headers" where
  "sent hs = map (\<lambda>(k, v). (toLowerCase k, v)) hs"

lemma owner_header_names: "sent [(''X-Circuit-Owner'', a), (''X-Circuit-Ts'', b), (''X-Circuit-Nonce'', c), (''X-Circuit-Sig'', d)] =
   [(''x-circuit-owner'', a), (''x-circuit-ts'', b), (''x-circuit-nonce'', c), (''x-circuit-sig'', d)]"
  by (simp add: sent_def) code_simp

lemma owner_header_values:
  assumes "hs = sent (signOwnerHeaders C perf priv owner r ts (Some n))"
  shows "header hs ''X-Circuit-Owner'' = owner" "header hs ''X-Circuit-Ts'' = num_str ts"
    "header hs ''X-Circuit-Nonce'' = n"
    "header hs ''X-Circuit-Sig'' = base58 (sign C priv (utf8 (ownerAuthMessage C r ts n)))"
proof -
  have l: "toLowerCase ''X-Circuit-Owner'' = ''x-circuit-owner''" "toLowerCase ''X-Circuit-Ts'' = ''x-circuit-ts''"
    "toLowerCase ''X-Circuit-Nonce'' = ''x-circuit-nonce''" "toLowerCase ''X-Circuit-Sig'' = ''x-circuit-sig''"
    by code_simp+
  show "header hs ''X-Circuit-Owner'' = owner" "header hs ''X-Circuit-Ts'' = num_str ts"
    "header hs ''X-Circuit-Nonce'' = n"
    "header hs ''X-Circuit-Sig'' = base58 (sign C priv (utf8 (ownerAuthMessage C r ts n)))"
    unfolding assms signOwnerHeaders_def Let_def option.case owner_header_names header_def l
    by simp_all
qed

lemma age_exact: "\<bar>now - t\<bar> < 2 ^ 53 \<Longrightarrow> jabs (jsub (int_num now) (int_num t)) = int_num \<bar>now - t\<bar>"
  by (simp add: jsub_int)

lemma owner_signed_accepted:
  assumes C: "signs_verify C" and kp: "fromSeed (exportSpki C) seed = Inr kp"
    and t: "\<bar>t\<bar> < 2 ^ 53" "\<bar>now - t\<bar> \<le> mx" "mx < 2 ^ 53" and n: "n \<noteq> []"
    and fresh: "\<not> fst (nonce_has clk n st)"
  shows "verifyOwnerRequest C (int_num mx) now clk r
     (sent (signOwnerHeaders C perf (kp_priv kp) (kp_address kp) r (int_num t) (Some n))) st =
   (Inr (Some (kp_address kp)), nonce_add clk n (jadd (int_num t) (int_num mx)) (snd (nonce_has clk n st)))"
proof -
  let ?hs = "sent (signOwnerHeaders C perf (kp_priv kp) (kp_address kp) r (int_num t) (Some n))"
  note h = owner_header_values [OF refl, of C perf "kp_priv kp" "kp_address kp" r "int_num t" n]
  have f: "f64 (of_int t)" using t(1) by (rule f64_int)
  have kpa: "kp_address kp = base58 (kp_pubkey kp)"
    using kp by (auto simp: fromSeed_def Let_def split: if_splits)
  have s: "length (kp_pubkey kp) = 32" "length (sign C (kp_priv kp) m) = 64"
    "verify C (kp_pubkey kp) m (sign C (kp_priv kp) m) = Inr True" for m
    using C kp unfolding signs_verify_def by blast+
  have ne: "kp_address kp \<noteq> []" "base58 (sign C (kp_priv kp) m) \<noteq> []" for m
    using s by (auto simp: kpa intro!: base58_nonempty) (metis s(2) list.size(3) zero_neq_numeral)
  have ts: "str_num (num_str (int_num t)) = int_num t" "num_str (int_num t) \<noteq> []"
    using str_num_num_str [OF f] num_str_nonempty [OF f] by simp_all
  have age: "\<not> jlt (int_num mx) (jabs (jsub (int_num now) (int_num t)))"
    using t age_exact [of now t] by simp
  obtain st1 where st1: "nonce_has clk n st = (False, st1)" using fresh by (cases "nonce_has clk n st") auto
  show ?thesis
    unfolding verifyOwnerRequest_def h Let_def ts(1)
    using ne ts(2) n age st1 by (simp add: kpa base58decode_base58 s(3) jfinite_def)
qed

lemma node_header_names: "sent [(''X-Circuit-Node'', a), (''X-Circuit-Node-Ts'', b), (''X-Circuit-Node-Nonce'', c), (''X-Circuit-Node-Sig'', d)] =
   [(''x-circuit-node'', a), (''x-circuit-node-ts'', b), (''x-circuit-node-nonce'', c), (''x-circuit-node-sig'', d)]"
  by (simp add: sent_def) code_simp

lemma node_header_values:
  assumes "hs = sent (signNodeHeaders C rnd priv address r ts (Some n))"
  shows "header hs ''X-Circuit-Node'' = address" "header hs ''X-Circuit-Node-Ts'' = num_str ts"
    "header hs ''X-Circuit-Node-Nonce'' = n"
    "header hs ''X-Circuit-Node-Sig'' = base58 (sign C priv (utf8 (nodeAuthMessage C r ts n)))"
proof -
  have l: "toLowerCase ''X-Circuit-Node'' = ''x-circuit-node''" "toLowerCase ''X-Circuit-Node-Ts'' = ''x-circuit-node-ts''"
    "toLowerCase ''X-Circuit-Node-Nonce'' = ''x-circuit-node-nonce''" "toLowerCase ''X-Circuit-Node-Sig'' = ''x-circuit-node-sig''"
    by code_simp+
  show "header hs ''X-Circuit-Node'' = address" "header hs ''X-Circuit-Node-Ts'' = num_str ts"
    "header hs ''X-Circuit-Node-Nonce'' = n"
    "header hs ''X-Circuit-Node-Sig'' = base58 (sign C priv (utf8 (nodeAuthMessage C r ts n)))"
    unfolding assms signNodeHeaders_def Let_def option.case node_header_names header_def l
    by simp_all
qed

lemma node_signed_accepted:
  assumes C: "signs_verify C" and kp: "fromSeed (exportSpki C) seed = Inr kp"
    and t: "\<bar>t\<bar> < 2 ^ 53" "\<bar>now - t\<bar> \<le> mx" "mx < 2 ^ 53" and n: "n \<noteq> []"
    and fresh: "\<not> fst (nonce_has clk n st)"
  shows "verifyNodeRequest C (int_num mx) now clk r
     (sent (signNodeHeaders C rnd (kp_priv kp) (kp_address kp) r (int_num t) (Some n))) st =
   (Inr (Some (kp_address kp)), nonce_add clk n (jadd (int_num t) (int_num mx)) (snd (nonce_has clk n st)))"
proof -
  note h = node_header_values [OF refl, of C rnd "kp_priv kp" "kp_address kp" r "int_num t" n]
  have f: "f64 (of_int t)" using t(1) by (rule f64_int)
  have kpa: "kp_address kp = base58 (kp_pubkey kp)"
    using kp by (auto simp: fromSeed_def Let_def split: if_splits)
  have s: "length (kp_pubkey kp) = 32" "length (sign C (kp_priv kp) m) = 64"
    "verify C (kp_pubkey kp) m (sign C (kp_priv kp) m) = Inr True" for m
    using C kp unfolding signs_verify_def by blast+
  have ne: "kp_address kp \<noteq> []" "base58 (sign C (kp_priv kp) m) \<noteq> []" for m
    using s by (auto simp: kpa intro!: base58_nonempty) (metis s(2) list.size(3) zero_neq_numeral)
  have ts: "str_num (num_str (int_num t)) = int_num t" "num_str (int_num t) \<noteq> []"
    using str_num_num_str [OF f] num_str_nonempty [OF f] by simp_all
  have age: "\<not> jlt (int_num mx) (jabs (jsub (int_num now) (int_num t)))"
    using t age_exact [of now t] by simp
  obtain st1 where st1: "nonce_has clk n st = (False, st1)" using fresh by (cases "nonce_has clk n st") auto
  show ?thesis
    unfolding verifyNodeRequest_def h Let_def ts(1)
    using ne ts(2) n age st1 by (simp add: kpa base58decode_base58 s(3) jfinite_def)
qed

section \<open>Properties\<close>

lemma nonce_live_int: "0 \<le> clk \<Longrightarrow> clk < e \<Longrightarrow> nonce_live clk (int_num e)"
  by (simp add: nonce_live_def jtruthy_def)

lemma expiry_exact: "\<bar>t\<bar> < 2 ^ 52 \<Longrightarrow> 0 \<le> mx \<Longrightarrow> mx < 2 ^ 52 \<Longrightarrow> jadd (int_num t) (int_num mx) = int_num (t + mx)"
  by (rule jadd_int) (simp add: abs_less_iff)

text \<open>C30. A request signed by the holder of a key pair within the freshness window, under a nonce the
  store does not hold, is accepted for the address of that key pair; and until the window of its
  timestamp closes, after whatever requests came in between, no request under the same nonce is
  accepted any more, for whatever owner and content.\<close>

theorem owner_signed_request_accepted_once:
  assumes C: "signs_verify C" and kp: "fromSeed (exportSpki C) seed = Inr kp"
    and t: "\<bar>t\<bar> < 2 ^ 52" "\<bar>now - t\<bar> \<le> mx" "mx < 2 ^ 52" and n: "n \<noteq> []"
    and st: "map_ok st" "\<not> fst (nonce_has clk n st)"
    and clocks: "0 \<le> clk" "clk < t + mx" "\<forall>(now, clk, r, hs) \<in> set qs. 0 \<le> clk \<and> clk < t + mx"
      "0 \<le> clk'" "clk' < t + mx"
    and hs: "hs = sent (signOwnerHeaders C perf (kp_priv kp) (kp_address kp) r (int_num t) (Some n))"
    and same: "header hs' ''X-Circuit-Nonce'' = n"
  shows "fst (verifyOwnerRequest C (int_num mx) now clk r hs st) = Inr (Some (kp_address kp)) \<and>
    fst (verifyOwnerRequest C (int_num mx) now' clk' r' hs'
      (verify_run verifyOwnerRequest C (int_num mx) qs
        (snd (verifyOwnerRequest C (int_num mx) now clk r hs st)))) \<noteq> Inr (Some who)"
proof
  have mx: "0 \<le> mx" using t(2) by linarith
  show acc: "fst (verifyOwnerRequest C (int_num mx) now clk r hs st) = Inr (Some (kp_address kp))"
    unfolding hs using t by (subst owner_signed_accepted [OF C kp _ _ _ n st(2)]) auto
  have f: "f64 (of_int t)" using t(1) by (intro f64_int) simp
  have e: "int_num (t + mx) = jadd (str_num (header hs ''X-Circuit-Ts'')) (int_num mx)"
    using expiry_exact [OF t(1) mx t(3)] str_num_num_str [OF f]
    by (simp add: hs owner_header_values [OF refl] del: num_str.simps)
  have h: "header hs' ''X-Circuit-Nonce'' = header hs ''X-Circuit-Nonce''"
    by (simp add: same hs owner_header_values [OF refl])
  show "fst (verifyOwnerRequest C (int_num mx) now' clk' r' hs'
      (verify_run verifyOwnerRequest C (int_num mx) qs
        (snd (verifyOwnerRequest C (int_num mx) now clk r hs st)))) \<noteq> Inr (Some who)"
    by (rule owner_requests.replay_refused [OF st(1) acc e h]) (use clocks in \<open>auto simp del: of_int_add intro!: nonce_live_int\<close>)
qed

definition toy_request :: request where
  "toy_request = \<lparr> rq_method = ''POST'', rq_path = ''/v1/agents/a/start'', rq_body = JObj [] \<rparr>"

definition toy_owner_headers :: headers where
  "toy_owner_headers = sent (signOwnerHeaders toy_crypto (Fin 0) (kp_priv (toy_keypair 7)) (kp_address (toy_keypair 7))
     toy_request (int_num 1000000) (Some ''n1''))"

theorem owner_signed_request_accepted_once_witness:
  "fst (verifyOwnerRequest toy_crypto (int_num 30000) 1000005 1000005 toy_request toy_owner_headers []) =
     Inr (Some (kp_address (toy_keypair 7))) \<and>
   fst (verifyOwnerRequest toy_crypto (int_num 30000) 1000009 1000009 toy_request toy_owner_headers
      (verify_run verifyOwnerRequest toy_crypto (int_num 30000) [(1000007, 1000008, toy_request, [])]
        (snd (verifyOwnerRequest toy_crypto (int_num 30000) 1000005 1000005 toy_request toy_owner_headers [])))) \<noteq>
     Inr (Some ''anyone'')"
  by (rule owner_signed_request_accepted_once [OF toy_signs_verify toy_fromSeed, where t = 1000000 and n = "''n1''" and perf = "Fin 0"])
     (simp_all add: toy_owner_headers_def nonce_has_def owner_header_values [OF refl])

text \<open>The boundary of the replay protection: the freshness test accepts a timestamp exactly
  \<open>maxAgeMs\<close> old, while the nonce store forgets the nonce at that same instant, so the very same
  headers are accepted a second time at \<open>ts + maxAgeMs\<close>.\<close>

theorem owner_replay_at_the_boundary:
  assumes C: "signs_verify C" and kp: "fromSeed (exportSpki C) seed = Inr kp"
    and t: "0 < t" "t < 2 ^ 52" "0 < mx" "mx < 2 ^ 52" and n: "n \<noteq> []"
    and hs: "hs = sent (signOwnerHeaders C perf (kp_priv kp) (kp_address kp) r (int_num t) (Some n))"
  shows "let (r1, st1) = verifyOwnerRequest C (int_num mx) t t r hs [];
             (r2, st2) = verifyOwnerRequest C (int_num mx) (t + mx) (t + mx) r hs st1
         in r1 = Inr (Some (kp_address kp)) \<and> r2 = Inr (Some (kp_address kp))"
proof -
  have e: "jadd (int_num t) (int_num mx) = int_num (t + mx)" using t by (intro expiry_exact) auto
  have 1: "verifyOwnerRequest C (int_num mx) t t r hs [] =
      (Inr (Some (kp_address kp)), nonce_add t n (int_num (t + mx)) [])"
    unfolding hs using t e
    by (subst owner_signed_accepted [OF C kp _ _ _ n]) (auto simp: nonce_has_def)
  have f: "\<not> fst (nonce_has (t + mx) n (nonce_add t n (int_num (t + mx)) []))"
    by (simp add: nonce_has_def nonce_add_def map_get_def)
  have 2: "fst (verifyOwnerRequest C (int_num mx) (t + mx) (t + mx) r hs (nonce_add t n (int_num (t + mx)) [])) =
      Inr (Some (kp_address kp))"
    unfolding hs using t by (subst owner_signed_accepted [OF C kp _ _ _ n f]) auto
  show ?thesis using 1 2 by (simp split: prod.splits) (metis fst_conv)
qed

theorem owner_replay_at_the_boundary_witness:
  "let (r1, st1) = verifyOwnerRequest toy_crypto (int_num 30000) 1000000 1000000 toy_request toy_owner_headers [];
       (r2, st2) = verifyOwnerRequest toy_crypto (int_num 30000) (1000000 + 30000) (1000000 + 30000) toy_request toy_owner_headers st1
   in r1 = Inr (Some (kp_address (toy_keypair 7))) \<and> r2 = Inr (Some (kp_address (toy_keypair 7)))"
  by (rule owner_replay_at_the_boundary [OF toy_signs_verify toy_fromSeed, where n = "''n1''" and perf = "Fin 0"]) (simp_all add: toy_owner_headers_def)

text \<open>C37. A signature commits to the whole request: two owner texts (or two node texts) that are equal
  have the same method up to case, the same path, the same body up to the order of its keys and its
  undefined members, the same timestamp and the same nonce, unless SHA-256 collides on the two
  canonical bodies; and an owner text is never a node text.\<close>

theorem signed_text_commits:
  assumes "one_line r" "one_line r'" "f64 t" "f64 t'" "json_value (rq_body r)" "json_value (rq_body r')"
    and "no_collision C (body_text r) (body_text r')"
    and eq: "ownerAuthMessage C r (Fin t) n = ownerAuthMessage C r' (Fin t') n' \<or>
             nodeAuthMessage C r (Fin t) n = nodeAuthMessage C r' (Fin t') n' \<or>
             ownerAuthMessage C r (Fin t) n = nodeAuthMessage C r' (Fin t') n'"
  shows "toUpperCase (rq_method r) = toUpperCase (rq_method r') \<and> rq_path r = rq_path r' \<and>
    canon (body_or_empty (rq_body r)) = canon (body_or_empty (rq_body r')) \<and> t = t' \<and> n = n' \<and>
    ownerAuthMessage C r (Fin t) n \<noteq> nodeAuthMessage C r' (Fin t') n'"
proof -
  have ne: "ownerAuthMessage C r (Fin t) n \<noteq> nodeAuthMessage C r' (Fin t') n'"
    unfolding auth_messages_fields by simp
  have "auth_fields C r (Fin t) n = auth_fields C r' (Fin t') n'"
    using eq ne unfolding auth_messages_fields by auto
  from auth_fields_commit [OF this assms(1-4,7)] body_text_commit [OF _ assms(5,6)] ne
  show ?thesis by blast
qed

definition toy_request2 :: request where
  "toy_request2 = \<lparr> rq_method = ''POST'', rq_path = ''/x'', rq_body = JObj [(''b'', JNull), (''a'', JBool True)] \<rparr>"

definition toy_request3 :: request where
  "toy_request3 = \<lparr> rq_method = ''POST'', rq_path = ''/x'', rq_body = JObj [(''a'', JBool True), (''c'', JUndef), (''b'', JNull)] \<rparr>"

theorem signed_text_commits_witness:
  "toUpperCase (rq_method toy_request2) = toUpperCase (rq_method toy_request3) \<and> rq_path toy_request2 = rq_path toy_request3 \<and>
    canon (body_or_empty (rq_body toy_request2)) = canon (body_or_empty (rq_body toy_request3)) \<and> (5::rat) = 5 \<and> ''n'' = ''n'' \<and>
    ownerAuthMessage toy_crypto toy_request2 (Fin 5) ''n'' \<noteq> nodeAuthMessage toy_crypto toy_request3 (Fin 5) ''n''"
  using f64_int [of 5]
  by (intro signed_text_commits)
     (simp_all add: toy_request2_def toy_request3_def one_line_def ownerAuthMessage_def Let_def body_or_empty_def
       nullish_def toy_no_collision del: num_str.simps)

end
