(* ===== verification/Proto.thy ===== *)
theory Proto
  imports Js_Text
begin

text \<open>
  lib/proto.js: the lifecycle states, the placement constraint \<open>nodeSatisfies\<close>, and the
  normalisation of the owner's policy and of the verified-intent configuration from whatever the
  request body holds.
\<close>

section \<open>Lifecycle states\<close>

datatype lifecycle = PENDING | SCHEDULED | RUNNING | STOPPING | STOPPED | FAILED

definition PROTO_VERSION :: nat where
  "PROTO_VERSION = 2"

section \<open>Placement\<close>

definition SANDBOX_RANK :: "(string \<times> nat) list" where
  "SANDBOX_RANK = [(''none'', 0), (''node'', 1), (''oci'', 2), (''microvm'', 3)]"

text \<open>
  \<open>SANDBOX_RANK[v] ?? 0\<close> as a number. The lookup sees the members a plain object inherits, which
  are functions (or the prototype) and count as \<open>NaN\<close> in the comparisons that follow.
\<close>

definition sandbox_rank :: "jsval \<Rightarrow> jsnum res" where
  "sandbox_rank v = bindE (to_str v) (\<lambda>k. Inr (case map_of SANDBOX_RANK k of
       Some n \<Rightarrow> nat_num n
     | None \<Rightarrow> if inherited [] k = JUndef then Fin 0 else NaN))"

definition isFirstPartyNodeRuntime :: "jsval \<Rightarrow> string list \<Rightarrow> bool" where
  "isFirstPartyNodeRuntime publisher firstPartyKeys =
     (if firstPartyKeys = [] then True else (\<exists>k \<in> set firstPartyKeys. strict_eq publisher (JStr k)))"

definition bundle_runtime :: "jsval \<Rightarrow> jsval" where
  "bundle_runtime b = (if truthy (jopt b ''runtime'') then jopt b ''runtime''
                       else jopt (jopt b ''manifest'') ''runtime'')"

text \<open>\<open>caps\<close> is \<open>node?.caps\<close>, \<open>trusted\<close> is \<open>node?.trusted\<close> and \<open>spec\<close> is \<open>agent?.spec\<close>.\<close>

definition nodeSatisfies :: "jsval \<Rightarrow> bool \<Rightarrow> jsval \<Rightarrow> bool res" where
  "nodeSatisfies caps trusted spec =
     (let b = jopt spec ''bundle''
      in if \<not> truthy b then Inr True
         else let oci = strict_eq (bundle_runtime b) (JStr ''oci'')
           in bindE (sandbox_rank (jopt spec ''requireSandbox'')) (\<lambda>req.
              let need = jmax (if oci then Fin 2 else Fin 1) req
              in bindE (sandbox_rank (jopt caps ''sandbox'')) (\<lambda>have.
                 if jlt have need then Inr False
                 else if oci \<and> \<not> trusted then Inr False
                 else Inr True)))"

section \<open>The owner's policy\<close>

text \<open>\<open>{...v}\<close>: the own enumerable properties of a value.\<close>

fun spread :: "jsval \<Rightarrow> (string \<times> jsval) list" where
  "spread (JObj fs) = fs"
| "spread (JArr xs) = map (\<lambda>i. (nat_str i, xs ! i)) [0..<length xs]"
| "spread (JStr s) = map (\<lambda>i. (nat_str i, JStr [s ! i])) [0..<length s]"
| "spread _ = []"

text \<open>\<open>po_rest\<close> keeps the members of the request's policy that no handler reads.\<close>

record policy =
  po_maxNotionalSol :: jsnum
  po_maxDailySol :: jsnum
  po_cooldownMs :: jsnum
  po_allow :: "string list"
  po_denyTokens :: "jsval list"
  po_allowTokens :: "jsval list option"
  po_paper :: bool
  po_requireVerifiedIntent :: bool
  po_rest :: "(string \<times> jsval) list"

definition policy_keys :: "string list" where
  "policy_keys = [''maxNotionalSol'', ''maxDailySol'', ''cooldownMs'', ''allow'', ''denyTokens'',
     ''allowTokens'', ''paper'', ''requireVerifiedIntent'']"

definition DEFAULT_POLICY :: "(string \<times> jsval) list" where
  "DEFAULT_POLICY = [(''maxNotionalSol'', JNum (fl (5 / 100))), (''maxDailySol'', JNum (Fin (1 / 2))),
     (''cooldownMs'', JNum (Fin 30000)), (''allow'', JArr [JStr ''buy'', JStr ''sell'']),
     (''denyTokens'', JArr []), (''allowTokens'', JNull), (''paper'', JBool True),
     (''requireVerifiedIntent'', JBool False)]"

fun as_array :: "jsval \<Rightarrow> jsval list option" where
  "as_array (JArr xs) = Some xs"
| "as_array _ = None"

definition num_or :: "jsval \<Rightarrow> jsnum \<Rightarrow> jsnum res" where
  "num_or v d = bindE (to_num v) (\<lambda>x. Inr (jor x d))"

text \<open>\<open>(Array.isArray(v) ? v : ['buy', 'sell']).filter((k) => k === 'buy' || k === 'sell')\<close>.\<close>

definition trade_kinds :: "jsval \<Rightarrow> string list" where
  "trade_kinds v = concat (map (\<lambda>k. case k of JStr s \<Rightarrow> if s = ''buy'' \<or> s = ''sell'' then [s] else [] | _ \<Rightarrow> [])
     (case as_array v of Some xs \<Rightarrow> xs | None \<Rightarrow> [JStr ''buy'', JStr ''sell'']))"

definition normalizePolicy :: "jsval \<Rightarrow> policy res" where
  "normalizePolicy p =
     (let own = spread p;
          n = (\<lambda>k. case map_of own k of Some v \<Rightarrow> v | None \<Rightarrow> the (map_of DEFAULT_POLICY k))
      in bindE (num_or (n ''maxNotionalSol'') (Fin 0)) (\<lambda>notional.
         let maxNotional = jmax (Fin 0) notional
         in bindE (num_or (n ''maxDailySol'') (Fin 0)) (\<lambda>daily.
         bindE (num_or (n ''cooldownMs'') (Fin 0)) (\<lambda>cooldown.
         Inr \<lparr> po_maxNotionalSol = maxNotional, po_maxDailySol = jmax maxNotional daily,
               po_cooldownMs = jmax (Fin 0) cooldown, po_allow = trade_kinds (n ''allow''),
               po_denyTokens = (case as_array (n ''denyTokens'') of Some xs \<Rightarrow> xs | None \<Rightarrow> []),
               po_allowTokens = as_array (n ''allowTokens''),
               po_paper = (n ''paper'' \<noteq> JBool False),
               po_requireVerifiedIntent = (n ''requireVerifiedIntent'' = JBool True),
               po_rest = filter (\<lambda>(k, v). k \<notin> set policy_keys) own \<rparr>))))"

text \<open>The policy as the object the handlers store and answer with.\<close>

definition policy_val :: "policy \<Rightarrow> jsval" where
  "policy_val p = JObj ([(''maxNotionalSol'', JNum (po_maxNotionalSol p)), (''maxDailySol'', JNum (po_maxDailySol p)),
     (''cooldownMs'', JNum (po_cooldownMs p)), (''allow'', JArr (map JStr (po_allow p))),
     (''denyTokens'', JArr (po_denyTokens p)),
     (''allowTokens'', case po_allowTokens p of None \<Rightarrow> JNull | Some xs \<Rightarrow> JArr xs),
     (''paper'', JBool (po_paper p)), (''requireVerifiedIntent'', JBool (po_requireVerifiedIntent p))] @ po_rest p)"

section \<open>The verified-intent configuration\<close>

record condition =
  co_input :: string
  co_op :: string
  co_value :: jsval

record rule =
  ru_id :: string
  ru_when :: "condition list"
  ru_then :: "(string \<times> jsval) list"
  ru_requires :: "string list"

definition normalize_condition :: "jsval \<Rightarrow> condition res" where
  "normalize_condition c =
     bindE (bindE (jget c ''input'') to_str) (\<lambda>i.
     bindE (bindE (jget c ''op'') to_str) (\<lambda>oper.
     bindE (jget c ''value'') (\<lambda>v. Inr \<lparr> co_input = i, co_op = oper, co_value = v \<rparr>)))"

definition str_or :: "jsval \<Rightarrow> jsval \<Rightarrow> jsval" where
  "str_or v d = (if truthy v then v else d)"

text \<open>\<open>None\<close> is the \<open>null\<close> returned for something that is not an object.\<close>

definition normalizeRule :: "jsval \<Rightarrow> rule option res" where
  "normalizeRule r =
     (if \<not> truthy r \<or> \<not> is_object_type r then Inr None
      else bindE (to_str (str_or (jopt r ''id'') (JStr []))) (\<lambda>rid.
         bindE (case as_array (jopt r ''when'') of Some cs \<Rightarrow> mapE normalize_condition cs | None \<Rightarrow> Inr []) (\<lambda>conds.
         bindE (case as_array (jopt r ''requires'') of Some qs \<Rightarrow> mapE to_str qs | None \<Rightarrow> Inr []) (\<lambda>req.
         let t = jopt r ''then''
         in Inr (Some \<lparr> ru_id = rid, ru_when = conds,
              ru_then = (if truthy t \<and> is_object_type t then spread t else [(''kind'', JStr ''buy'')]),
              ru_requires = req \<rparr>)))))"

record verified =
  ve_rule :: "rule option"
  ve_acceptedKeys :: "(string \<times> jsval) list"
  ve_acceptedNotaries :: "string list"
  ve_evidenceMaxAgeMs :: jsnum

definition normalizeVerified :: "jsval \<Rightarrow> verified res" where
  "normalizeVerified v0 =
     (let v = (if v0 = JUndef then JObj [] else v0)
      in bindE (jget v ''rule'') (\<lambda>r.
         bindE (if truthy r then normalizeRule r else Inr None) (\<lambda>rl.
         let ak = jopt v ''acceptedKeys''
         in bindE (case as_array (jopt v ''acceptedNotaries'') of Some ns \<Rightarrow> mapE to_str ns | None \<Rightarrow> Inr []) (\<lambda>ns.
            bindE (num_or (jopt v ''evidenceMaxAgeMs'') (Fin 60000)) (\<lambda>age.
            Inr \<lparr> ve_rule = rl,
                  ve_acceptedKeys = (if truthy ak \<and> is_object_type ak \<and> as_array ak = None then spread ak else []),
                  ve_acceptedNotaries = ns,
                  ve_evidenceMaxAgeMs = jmax (Fin 1000) age \<rparr>)))))"

section \<open>Facts about the policy\<close>

lemma jmax_ge: "\<not> jnan x \<Longrightarrow> \<not> jnan y \<Longrightarrow> jle x (jmax x y) \<and> jle y (jmax x y) \<and> \<not> jnan (jmax x y)"
  by (cases x; cases y) (auto simp: jmax_def jle_def jnan_def)

lemma jor_not_nan: "\<not> jnan d \<Longrightarrow> \<not> jnan (jor x d)"
  by (cases x) (auto simp: jor_def jtruthy_def jnan_def)

lemma num_or_not_nan: "num_or v d = Inr x \<Longrightarrow> \<not> jnan d \<Longrightarrow> \<not> jnan x"
  by (auto simp: num_or_def bindE_Inr_iff jor_not_nan)

lemma trade_kinds_set: "k \<in> set (trade_kinds v) \<Longrightarrow> k = ''buy'' \<or> k = ''sell''"
  by (auto simp: trade_kinds_def split: jsval.splits if_splits)

definition policy_ok :: "policy \<Rightarrow> bool" where
  "policy_ok p = (jle (Fin 0) (po_maxNotionalSol p) \<and> jle (po_maxNotionalSol p) (po_maxDailySol p) \<and>
     jle (Fin 0) (po_cooldownMs p) \<and> set (po_allow p) \<subseteq> {''buy'', ''sell''} \<and>
     (\<forall>(k, v) \<in> set (po_rest p). k \<notin> set policy_keys))"

lemma not_jnan_Fin [simp]: "\<not> jnan (Fin a)"
  by (simp add: jnan_def)

lemma normalizePolicy_ok:
  assumes "normalizePolicy v = Inr p"
  shows "policy_ok p"
proof -
  let ?n = "\<lambda>k. case map_of (spread v) k of Some v \<Rightarrow> v | None \<Rightarrow> the (map_of DEFAULT_POLICY k)"
  from assms obtain a b c where nums: "num_or (?n ''maxNotionalSol'') (Fin 0) = Inr a"
      "num_or (?n ''maxDailySol'') (Fin 0) = Inr b" "num_or (?n ''cooldownMs'') (Fin 0) = Inr c"
    and p: "p = \<lparr> po_maxNotionalSol = jmax (Fin 0) a, po_maxDailySol = jmax (jmax (Fin 0) a) b,
               po_cooldownMs = jmax (Fin 0) c, po_allow = trade_kinds (?n ''allow''),
               po_denyTokens = (case as_array (?n ''denyTokens'') of Some xs \<Rightarrow> xs | None \<Rightarrow> []),
               po_allowTokens = as_array (?n ''allowTokens''),
               po_paper = (?n ''paper'' \<noteq> JBool False),
               po_requireVerifiedIntent = (?n ''requireVerifiedIntent'' = JBool True),
               po_rest = filter (\<lambda>(k, v). k \<notin> set policy_keys) (spread v) \<rparr>"
    unfolding normalizePolicy_def Let_def bindE_Inr_iff sum.inject by blast
  have "\<not> jnan a" "\<not> jnan b" "\<not> jnan c"
    using nums [THEN num_or_not_nan] by simp_all
  then show ?thesis using trade_kinds_set jmax_ge unfolding policy_ok_def p by auto
qed

lemma jmax_absorb: "jle x y \<Longrightarrow> jmax x y = y"
  by (cases x; cases y) (auto simp: jmax_def jle_def jnan_def)

lemma num_or_JNum: "jle x0 x \<Longrightarrow> num_or (JNum x) (Fin 0) = Inr x"
  by (cases x) (auto simp: num_or_def jor_def jtruthy_def jle_def jnan_def)

lemma policy_rest_get:
  assumes "\<forall>(k, v) \<in> set (po_rest p). k \<notin> set policy_keys"
  shows "filter (\<lambda>(k, v). k \<notin> set policy_keys) (spread (policy_val p)) = po_rest p"
proof -
  have "filter (\<lambda>(k, v). k \<notin> set policy_keys) (po_rest p) = po_rest p"
    using assms by (intro filter_True) auto
  then show ?thesis by (simp add: policy_val_def policy_keys_def)
qed

lemma trade_kinds_map: "set ks \<subseteq> {''buy'', ''sell''} \<Longrightarrow> trade_kinds (JArr (map JStr ks)) = ks"
  by (induction ks) (auto simp: trade_kinds_def)

lemma normalizePolicy_val:
  assumes "policy_ok p"
  shows "normalizePolicy (policy_val p) = Inr p"
proof -
  let ?own = "spread (policy_val p)"
  have nums: "num_or (JNum (po_maxNotionalSol p)) (Fin 0) = Inr (po_maxNotionalSol p)"
    "num_or (JNum (po_maxDailySol p)) (Fin 0) = Inr (po_maxDailySol p)"
    "num_or (JNum (po_cooldownMs p)) (Fin 0) = Inr (po_cooldownMs p)"
    using assms unfolding policy_ok_def by (blast intro: num_or_JNum)+
  have maxs: "jmax (Fin 0) (po_maxNotionalSol p) = po_maxNotionalSol p"
    "jmax (po_maxNotionalSol p) (po_maxDailySol p) = po_maxDailySol p"
    "jmax (Fin 0) (po_cooldownMs p) = po_cooldownMs p"
    using assms by (auto simp: policy_ok_def jmax_absorb)
  have rest: "filter (\<lambda>(k, v). k \<notin> set policy_keys) ?own = po_rest p"
    using assms by (intro policy_rest_get) (simp add: policy_ok_def)
  have kinds: "trade_kinds (JArr (map JStr (po_allow p))) = po_allow p"
    using assms by (intro trade_kinds_map) (simp add: policy_ok_def)
  have look: "map_of ?own ''maxNotionalSol'' = Some (JNum (po_maxNotionalSol p))"
    "map_of ?own ''maxDailySol'' = Some (JNum (po_maxDailySol p))"
    "map_of ?own ''cooldownMs'' = Some (JNum (po_cooldownMs p))"
    "map_of ?own ''allow'' = Some (JArr (map JStr (po_allow p)))"
    "map_of ?own ''denyTokens'' = Some (JArr (po_denyTokens p))"
    "map_of ?own ''allowTokens'' = Some (case po_allowTokens p of None \<Rightarrow> JNull | Some xs \<Rightarrow> JArr xs)"
    "map_of ?own ''paper'' = Some (JBool (po_paper p))"
    "map_of ?own ''requireVerifiedIntent'' = Some (JBool (po_requireVerifiedIntent p))"
    by (simp_all add: policy_val_def)
  show ?thesis
    unfolding normalizePolicy_def Let_def look option.case nums bindE_simps maxs rest kinds
    by (cases p) (simp split: option.split)
qed

section \<open>Properties\<close>

text \<open>C38. Whatever the request body holds, a normalised policy has non-negative caps with the daily cap at
  least the cap of one trade, a non-negative cooldown and no verb other than buy and sell; and the
  normalisation is idempotent: the stored policy, read back and normalised again, is the same.\<close>

theorem normalizePolicy_bounds_idempotent:
  assumes "normalizePolicy v = Inr p"
  shows "jle (Fin 0) (po_maxNotionalSol p) \<and> jle (po_maxNotionalSol p) (po_maxDailySol p) \<and>
    jle (Fin 0) (po_cooldownMs p) \<and> set (po_allow p) \<subseteq> {''buy'', ''sell''} \<and>
    normalizePolicy (policy_val p) = Inr p"
  using normalizePolicy_ok [OF assms] normalizePolicy_val [of p] by (simp add: policy_ok_def)

definition sample_policy :: jsval where
  "sample_policy = JObj [(''maxNotionalSol'', JNum (Fin 2)), (''maxDailySol'', JNum (Fin 1)),
     (''cooldownMs'', JNum (Fin (- 5))), (''allow'', JArr [JStr ''sell'', JStr ''transfer'']), (''note'', JStr ''x'')]"

definition sample_normal :: policy where
  "sample_normal = \<lparr> po_maxNotionalSol = Fin 2, po_maxDailySol = Fin 2, po_cooldownMs = Fin 0,
     po_allow = [''sell''], po_denyTokens = [], po_allowTokens = None, po_paper = True,
     po_requireVerifiedIntent = False, po_rest = [(''note'', JStr ''x'')] \<rparr>"

lemma sample_policy_normal: "normalizePolicy sample_policy = Inr sample_normal"
  by (simp add: normalizePolicy_def sample_policy_def sample_normal_def DEFAULT_POLICY_def num_or_def
      jor_def jtruthy_def jmax_def jnan_def trade_kinds_def policy_keys_def Let_def)

theorem normalizePolicy_bounds_idempotent_witness:
  "jle (Fin 0) (po_maxNotionalSol sample_normal) \<and>
   jle (po_maxNotionalSol sample_normal) (po_maxDailySol sample_normal) \<and>
   jle (Fin 0) (po_cooldownMs sample_normal) \<and> set (po_allow sample_normal) \<subseteq> {''buy'', ''sell''} \<and>
   normalizePolicy (policy_val sample_normal) = Inr sample_normal"
  by (rule normalizePolicy_bounds_idempotent [OF sample_policy_normal])

text \<open>The isolation tiers a node can advertise and an owner can require.\<close>

definition tier :: "jsval \<Rightarrow> nat \<Rightarrow> bool" where
  "tier v n = ((v = JUndef \<and> n = 0) \<or> (\<exists>s. v = JStr s \<and> (case map_of SANDBOX_RANK s of
       Some m \<Rightarrow> n = m | None \<Rightarrow> inherited [] s = JUndef \<and> n = 0)))"

lemma undefined_rank: "sandbox_rank JUndef = Inr (Fin 0)"
  by (simp add: sandbox_rank_def SANDBOX_RANK_def inherited_def object_members_def)

lemma tier_rank: "tier v n \<Longrightarrow> sandbox_rank v = Inr (nat_num n)"
  by (auto simp: tier_def undefined_rank) (auto simp: sandbox_rank_def split: option.splits)

text \<open>Placement of a bundle. Between tiers the table names (or does not know), a node is eligible
  exactly when its tier reaches both the floor of the runtime (container for oci, curated
  environment otherwise) and the owner's required tier, and an oci bundle only on a trusted node.
  Without a bundle every node is eligible.\<close>

theorem nodeSatisfies_iff:
  assumes "tier (jopt spec ''requireSandbox'') req" "tier (jopt caps ''sandbox'') have"
  shows "nodeSatisfies caps trusted spec = Inr
    (\<not> truthy (jopt spec ''bundle'') \<or>
     (if strict_eq (bundle_runtime (jopt spec ''bundle'')) (JStr ''oci'')
      then trusted \<and> max 2 req \<le> have else max 1 req \<le> have))"
  using assms by (auto simp: nodeSatisfies_def tier_rank Let_def jmax_def max_def)

theorem nodeSatisfies_iff_witness:
  "nodeSatisfies (JObj [(''sandbox'', JStr ''oci'')]) True
     (JObj [(''bundle'', JObj [(''runtime'', JStr ''oci'')]), (''requireSandbox'', JStr ''microvm'')]) = Inr False"
  using nodeSatisfies_iff [of "JObj [(''bundle'', JObj [(''runtime'', JStr ''oci'')]), (''requireSandbox'', JStr ''microvm'')]"
      3 "JObj [(''sandbox'', JStr ''oci'')]" 2 True]
  by (simp add: tier_def jopt_def SANDBOX_RANK_def bundle_runtime_def)

text \<open>The table is a plain object, so a required tier (or an advertised one) that names an inherited
  member ranks as NaN: every comparison with it is false and the tier check passes, even for an
  oci bundle on a trusted node without any sandbox, and for a microvm requirement.\<close>

theorem inherited_tier_disables_check:
  assumes "k \<in> set object_members" "truthy (jopt spec ''bundle'')"
    and "jopt spec ''requireSandbox'' = JStr k \<and> sandbox_rank (jopt caps ''sandbox'') = Inr x \<or>
         jopt caps ''sandbox'' = JStr k \<and> sandbox_rank (jopt spec ''requireSandbox'') = Inr x"
  shows "nodeSatisfies caps True spec = Inr True"
proof -
  have k: "sandbox_rank (JStr k) = Inr NaN"
    using assms(1) by (auto simp: sandbox_rank_def SANDBOX_RANK_def inherited_def object_members_def)
  have n: "jmax y NaN = NaN" "\<not> jlt x NaN" "\<not> jlt NaN y" for y
    by (simp_all add: jmax_def jnan_def) (cases x; simp)
  show ?thesis using assms(2,3) k n by (auto simp: nodeSatisfies_def Let_def)
qed

theorem inherited_tier_disables_check_witness:
  "nodeSatisfies (JObj [(''sandbox'', JStr ''none'')]) True
     (JObj [(''bundle'', JObj [(''runtime'', JStr ''oci'')]), (''requireSandbox'', JStr ''constructor'')]) = Inr True"
  by (rule inherited_tier_disables_check [of "''constructor''" _ _ "Fin 0"])
     (simp_all add: object_members_def jopt_def sandbox_rank_def SANDBOX_RANK_def)

end
