(* ===== verification/Verified_Intent.thy ===== *)
theory Verified_Intent
  imports Proto Canonical Crypto Js_Map
begin

text \<open>
  lib/verified-intent.js: the decision gate the signer runs before it signs a trade, and the store
  of used evidence nonces of signer/server.js (\<open>VERIFIED_NONCES\<close>). The gate is called with the
  nonce store (always present) and, by the signer, without a zkTLS verifier; the options record
  keeps both optional fields of the code. A thrown error is an \<open>Inl\<close>; the store left behind is
  returned in every case, because nonces used before an error stay used.
\<close>

section \<open>The evidence nonces of the signer\<close>

text \<open>
  Keys are compared by \<open>SameValueZero\<close>: two objects or arrays from different requests are never
  the same key. The entry is the time of insertion.
\<close>

fun is_ref :: "jsval \<Rightarrow> bool" where
  "is_ref (JArr _) = True"
| "is_ref (JObj _) = True"
| "is_ref _ = False"

type_synonym evidence_store = "(jsval, int) jmap"

definition vnonce_get :: "jsval \<Rightarrow> evidence_store \<Rightarrow> int option" where
  "vnonce_get n m = (if is_ref n then None else map_get n m)"

definition vnonce_has :: "jsval \<Rightarrow> evidence_store \<Rightarrow> bool" where
  "vnonce_has n m = (vnonce_get n m \<noteq> None)"

definition vnonce_put :: "int \<Rightarrow> jsval \<Rightarrow> int \<Rightarrow> evidence_store \<Rightarrow> evidence_store" where
  "vnonce_put now n t m =
     (let m' = (if is_ref n then m @ [(n, t)] else map_set n t m)
      in if 5000 < length m' then filter (\<lambda>(k, t). \<not> 300000 < now - t) m' else m')"

definition vnonce_add :: "int \<Rightarrow> jsval \<Rightarrow> evidence_store \<Rightarrow> evidence_store" where
  "vnonce_add now n m = vnonce_put now n now m"

definition vnonce_live :: "int \<Rightarrow> int \<Rightarrow> bool" where
  "vnonce_live now t = (\<not> 300000 < now - t)"

definition nonrefs :: "evidence_store \<Rightarrow> evidence_store" where
  "nonrefs m = filter (\<lambda>(k, t). \<not> is_ref k) m"

definition vnonce_ok :: "evidence_store \<Rightarrow> bool" where
  "vnonce_ok m = map_ok (nonrefs m)"

section \<open>Signed payloads\<close>

text \<open>The canonical text of a payload; \<open>Buffer.from(undefined)\<close> throws.\<close>

definition verifyPayload :: "crypto \<Rightarrow> jsval \<Rightarrow> jsval \<Rightarrow> jsval \<Rightarrow> bool" where
  "verifyPayload C pubkeyHex payload sigHex =
     (case bindE (buffer_from hex_dec pubkeyHex) (\<lambda>pub.
           case vi_stringify payload of
             None \<Rightarrow> Inl type_error
           | Some t \<Rightarrow> bindE (buffer_from hex_dec sigHex) (\<lambda>sig. verify C pub (utf8 t) sig)) of
        Inl _ \<Rightarrow> False
      | Inr ok \<Rightarrow> ok)"

definition quotePayload :: "jsval \<Rightarrow> jsval" where
  "quotePayload q = JObj (map (\<lambda>k. (k, jopt q k)) [''kind'', ''path'', ''data'', ''ts'', ''nonce''])"

definition receiptPayload :: "jsval \<Rightarrow> jsval" where
  "receiptPayload r = JObj [(''kind'', jopt r ''kind''), (''inputHash'', jopt r ''inputHash''),
     (''outputHash'', jopt r ''outputHash''),
     (''verdict'', if nullish (jopt r ''verdict'') then JNull else jopt r ''verdict''),
     (''modelFp'', jopt r ''modelFp''), (''ts'', jopt r ''ts''), (''nonce'', jopt r ''nonce'')]"

section \<open>Evidence\<close>

record gate_opts =
  go_rule :: rule
  go_acceptedKeys :: "(string \<times> jsval) list"
  go_acceptedNotaries :: "string list"
  go_maxAgeMs :: jsnum
  go_verifyZkTls :: "(jsval \<Rightarrow> bool) option"
  go_requireZkTlsProof :: bool

text \<open>\<open>opts.acceptedKeys[ev.key]\<close>: the key is converted to a property name.\<close>

definition accepted_class :: "gate_opts \<Rightarrow> jsval \<Rightarrow> jsval res" where
  "accepted_class opts key = bindE (to_str key) (\<lambda>k. jget (JObj (go_acceptedKeys opts)) k)"

text \<open>The tail all three kinds share: staleness, replay, recording of the nonce.\<close>

definition evidence_use :: "int \<Rightarrow> gate_opts \<Rightarrow> jsval \<Rightarrow> jsval \<Rightarrow> evidence_store \<Rightarrow> string res \<times> evidence_store" where
  "evidence_use now opts ts nonce st =
     (case to_num ts of
        Inl e \<Rightarrow> (Inl e, st)
      | Inr t \<Rightarrow>
          if jlt (jor (go_maxAgeMs opts) (Fin 60000)) (jsub (int_num now) t) then (Inr ''evidence-stale'', st)
          else if vnonce_has nonce st then (Inr ''evidence-replay'', st)
          else (Inr ''ok'', vnonce_add now nonce st))"

definition verifyEvidence ::
  "crypto \<Rightarrow> int \<Rightarrow> gate_opts \<Rightarrow> jsval \<Rightarrow> evidence_store \<Rightarrow> string res \<times> evidence_store" where
  "verifyEvidence C now opts ev st =
     (if \<not> truthy ev \<or> \<not> is_object_type ev then (Inr ''evidence-unknown'', st)
      else let kind = jopt ev ''kind''; key = jopt ev ''key''
        in if strict_eq kind (JStr ''signed-quote'')
           then (case accepted_class opts key of
                   Inl e \<Rightarrow> (Inl e, st)
                 | Inr cls \<Rightarrow>
                     if \<not> strict_eq cls (JStr ''data'') then (Inr ''evidence-untrusted-key'', st)
                     else if \<not> verifyPayload C key (quotePayload ev) (jopt ev ''sig'') then (Inr ''evidence-invalid'', st)
                     else evidence_use now opts (jopt ev ''ts'') (jopt ev ''nonce'') st)
           else if strict_eq kind (JStr ''inference-receipt'')
           then (case accepted_class opts key of
                   Inl e \<Rightarrow> (Inl e, st)
                 | Inr cls \<Rightarrow>
                     if \<not> strict_eq cls (JStr ''inference'') then (Inr ''evidence-untrusted-key'', st)
                     else if \<not> verifyPayload C key (receiptPayload ev) (jopt ev ''sig'') then (Inr ''evidence-invalid'', st)
                     else evidence_use now opts (jopt ev ''ts'') (jopt ev ''nonce'') st)
           else if strict_eq kind (JStr ''zktls'')
           then if \<not> (\<exists>n \<in> set (go_acceptedNotaries opts). strict_eq (jopt ev ''notary'') (JStr n))
                then (Inr ''evidence-untrusted-notary'', st)
                else (case go_verifyZkTls opts of
                        Some vz \<Rightarrow> if \<not> vz ev then (Inr ''evidence-invalid'', st)
                                   else evidence_use now opts (jopt ev ''sessionTime'') (jopt ev ''nonce'') st
                      | None \<Rightarrow> if go_requireZkTlsProof opts then (Inr ''evidence-zktls-unverified'', st)
                                 else evidence_use now opts (jopt ev ''sessionTime'') (jopt ev ''nonce'') st)
           else (Inr ''evidence-unknown'', st))"

text \<open>The loop over the evidence: the first failure is the result.\<close>

fun verify_all ::
  "crypto \<Rightarrow> int \<Rightarrow> gate_opts \<Rightarrow> jsval list \<Rightarrow> evidence_store \<Rightarrow> string res \<times> evidence_store" where
  "verify_all C now opts [] st = (Inr ''ok'', st)"
| "verify_all C now opts (ev # evs) st =
     (case verifyEvidence C now opts ev st of
        (Inr code, st1) \<Rightarrow> if code = ''ok'' then verify_all C now opts evs st1 else (Inr code, st1)
      | (Inl e, st1) \<Rightarrow> (Inl e, st1))"

text \<open>\<open>input in o && o[input] === value\<close>.\<close>

definition member_is :: "jsval \<Rightarrow> string \<Rightarrow> jsval \<Rightarrow> bool res" where
  "member_is obj input value = bindE (jhas input obj) (\<lambda>h.
     if h then bindE (jget obj input) (\<lambda>w. Inr (strict_eq w value)) else Inr False)"

definition backs_one :: "jsval \<Rightarrow> string \<Rightarrow> jsval \<Rightarrow> bool res" where
  "backs_one ev input value =
     bindE (jget ev ''kind'') (\<lambda>kind.
       if strict_eq kind (JStr ''signed-quote'') then member_is (jopt ev ''data'') input value
       else if strict_eq kind (JStr ''zktls'') then member_is (jopt ev ''claim'') input value
       else if strict_eq kind (JStr ''inference-receipt'')
       then Inr (jopt ev ''verdict'' \<noteq> JUndef \<and> strict_eq (jopt ev ''verdict'') value)
       else Inr False)"

fun evidenceBacks :: "jsval list \<Rightarrow> string \<Rightarrow> jsval \<Rightarrow> bool res" where
  "evidenceBacks [] input value = Inr False"
| "evidenceBacks (ev # evs) input value =
     bindE (backs_one ev input value) (\<lambda>b. if b then Inr True else evidenceBacks evs input value)"

section \<open>The rule\<close>

fun js_cmp :: "jsval \<Rightarrow> string \<Rightarrow> jsval \<Rightarrow> bool" where
  "js_cmp a oper b =
     (if oper = ''=='' then strict_eq a b
      else if oper = ''!='' then \<not> strict_eq a b
      else (case (a, b) of
          (JNum x, JNum y) \<Rightarrow>
            if oper = ''<'' then jlt x y else if oper = ''<='' then jle x y
            else if oper = ''>'' then jlt y x else if oper = ''>='' then jle y x else False
        | _ \<Rightarrow> False))"

record trade_intent =
  ti_kind :: jsval
  ti_token :: jsval
  ti_sizeSol :: jsval

fun conditions_hold :: "condition list \<Rightarrow> jsval \<Rightarrow> bool res" where
  "conditions_hold [] inputs = Inr True"
| "conditions_hold (c # cs) inputs = bindE (jget inputs (co_input c)) (\<lambda>v.
     if js_cmp v (co_op c) (co_value c) then conditions_hold cs inputs else Inr False)"

text \<open>A member that is left out of the resulting intent is \<open>undefined\<close>.\<close>

definition evaluateRule :: "rule \<Rightarrow> jsval \<Rightarrow> trade_intent option res" where
  "evaluateRule rl inputs = bindE (conditions_hold (ru_when rl) inputs) (\<lambda>h.
     if \<not> h then Inr None
     else let t = JObj (ru_then rl);
              input_of = (\<lambda>k. bindE (to_str (jopt t k)) (\<lambda>s. jget inputs s))
       in bindE (if \<not> nullish (jopt t ''token'') then Inr (jopt t ''token'')
                 else if \<not> nullish (jopt t ''tokenInput'')
                 then bindE (bindE (input_of ''tokenInput'') to_str) (\<lambda>s. Inr (JStr s))
                 else Inr JUndef) (\<lambda>token.
          bindE (if \<not> nullish (jopt t ''sizeSol'') then Inr (jopt t ''sizeSol'')
                 else if \<not> nullish (jopt t ''sizeInput'')
                 then bindE (bindE (input_of ''sizeInput'') to_num) (\<lambda>x. Inr (JNum x))
                 else Inr JUndef) (\<lambda>sizeSol.
          Inr (Some \<lparr> ti_kind = jopt t ''kind'', ti_token = token, ti_sizeSol = sizeSol \<rparr>))))"

definition nn :: "jsval \<Rightarrow> jsval" where
  "nn v = (if nullish v then JNull else v)"

definition sameIntent :: "trade_intent \<Rightarrow> jsval \<Rightarrow> bool" where
  "sameIntent a b = (strict_eq (ti_kind a) (jopt b ''kind'') \<and>
     strict_eq (nn (ti_token a)) (nn (jopt b ''token'')) \<and>
     strict_eq (nn (ti_sizeSol a)) (nn (jopt b ''sizeSol'')))"

section \<open>The gate\<close>

record verified_intent =
  vi_intent :: jsval
  vi_rule :: jsval
  vi_inputs :: jsval
  vi_evidence :: jsval

definition or_empty :: "jsval \<Rightarrow> jsval" where
  "or_empty v = (if truthy v then v else JObj [])"

fun requirements_met :: "string list \<Rightarrow> jsval list \<Rightarrow> jsval \<Rightarrow> bool res" where
  "requirements_met [] evidence inputs = Inr True"
| "requirements_met (k # ks) evidence inputs =
     bindE (jget inputs k) (\<lambda>v. bindE (evidenceBacks evidence k v) (\<lambda>b.
       if \<not> b then Inr False else requirements_met ks evidence inputs))"

definition evidence_of :: "verified_intent \<Rightarrow> jsval list" where
  "evidence_of vi = (case as_array (vi_evidence vi) of Some evs \<Rightarrow> evs | None \<Rightarrow> [])"

definition decisionGate ::
  "crypto \<Rightarrow> int \<Rightarrow> gate_opts \<Rightarrow> verified_intent \<Rightarrow> evidence_store \<Rightarrow> string res \<times> evidence_store" where
  "decisionGate C now opts vi st =
     (if \<not> strict_eq (vi_rule vi) (JStr (ru_id (go_rule opts))) then (Inr ''unknown-rule'', st)
      else case verify_all C now opts (evidence_of vi) st of
        (Inl e, st1) \<Rightarrow> (Inl e, st1)
      | (Inr code, st1) \<Rightarrow>
          if code \<noteq> ''ok'' then (Inr code, st1)
          else (bindE (requirements_met (ru_requires (go_rule opts)) (evidence_of vi) (or_empty (vi_inputs vi))) (\<lambda>met.
                  if \<not> met then Inr ''input-mismatch''
                  else bindE (evaluateRule (go_rule opts) (or_empty (vi_inputs vi))) (\<lambda>expected.
                    case expected of
                      None \<Rightarrow> Inr ''decision-unjustified''
                    | Some i \<Rightarrow> if sameIntent i (or_empty (vi_intent vi)) then Inr ''verified''
                                 else Inr ''decision-unjustified'')), st1))"

section \<open>The evidence nonces are a replay guard\<close>

lemma nonrefs_get: "\<not> is_ref n \<Longrightarrow> map_get n (nonrefs m) = map_get n m"
  unfolding nonrefs_def by (induction m) (auto simp: map_get_def)

lemma nonrefs_set: "\<not> is_ref n \<Longrightarrow> nonrefs (map_set n t m) = map_set n t (nonrefs m)"
  unfolding nonrefs_def by (induction n t m rule: map_set.induct) auto

lemma nonrefs_append: "is_ref n \<Longrightarrow> nonrefs (m @ [(n, t)]) = nonrefs m"
  by (simp add: nonrefs_def)

lemma nonrefs_filter: "nonrefs (filter P m) = filter P (nonrefs m)"
  unfolding nonrefs_def by (induction m) auto

lemma vnonce_put_ok: "vnonce_ok m \<Longrightarrow> vnonce_ok (vnonce_put now n t m)"
  unfolding vnonce_ok_def vnonce_put_def Let_def
  by (auto simp: nonrefs_set nonrefs_append nonrefs_filter intro!: map_ok_filter)

lemma vnonce_ok_sweep:
  "vnonce_ok m \<Longrightarrow> \<not> is_ref n \<Longrightarrow> map_get n m = Some e \<Longrightarrow> P (n, e) \<Longrightarrow> map_get n (filter P m) = Some e"
  using map_get_filter [of "nonrefs m" n e P] nonrefs_get [of n "filter P m"] nonrefs_get [of n m]
  by (simp add: vnonce_ok_def nonrefs_filter)

lemma vnonce_put_get:
  assumes "vnonce_ok m" "\<not> is_ref k" "vnonce_live now e"
    and e: "k = n \<and> e = t \<or> k \<noteq> n \<and> map_get k m = Some e"
  shows "map_get k (vnonce_put now n t m) = Some e"
proof -
  let ?m = "if is_ref n then m @ [(n, t)] else map_set n t m"
  have get: "map_get k ?m = Some e"
    using assms(2) e by (auto simp: map_get_def map_add_def) (metis map_get_def map_get_set_same map_get_set_other)+
  have ok: "vnonce_ok ?m" using assms(1) by (auto simp: vnonce_ok_def nonrefs_set nonrefs_append)
  show ?thesis
    using get vnonce_ok_sweep [OF ok assms(2) get] assms(3)
    by (simp add: vnonce_put_def Let_def vnonce_live_def)
qed

interpretation evidence_nonces: replay_guard "\<lambda>s k. vnonce_get k s" vnonce_live
  "\<lambda>t k s. (vnonce_has k s, s)" vnonce_put "\<lambda>k. \<not> is_ref k" vnonce_ok
  by unfold_locales
     (auto simp: vnonce_has_def vnonce_get_def vnonce_put_ok split: if_splits intro: vnonce_put_get)

section \<open>What the gate guarantees\<close>

text \<open>
  What stands behind a piece of evidence: a signature over its content under a key that is accepted for the class of
  the evidence; or, for zkTLS, a listed notary and the verdict of the configured verifier, without one (and
  without a demand for a proof, which is how the signer calls the gate) the mere name of the notary.
\<close>

definition accepted_for :: "gate_opts \<Rightarrow> jsval \<Rightarrow> string \<Rightarrow> bool" where
  "accepted_for opts key cls = (accepted_class opts key = Inr (JStr cls))"

definition signed_evidence :: "crypto \<Rightarrow> gate_opts \<Rightarrow> jsval \<Rightarrow> bool" where
  "signed_evidence C opts ev =
     ((jopt ev ''kind'' = JStr ''signed-quote'' \<and> accepted_for opts (jopt ev ''key'') ''data'' \<and>
         verifyPayload C (jopt ev ''key'') (quotePayload ev) (jopt ev ''sig'')) \<or>
      (jopt ev ''kind'' = JStr ''inference-receipt'' \<and> accepted_for opts (jopt ev ''key'') ''inference'' \<and>
         verifyPayload C (jopt ev ''key'') (receiptPayload ev) (jopt ev ''sig'')))"

definition notary_claim :: "gate_opts \<Rightarrow> jsval \<Rightarrow> bool" where
  "notary_claim opts ev =
     (jopt ev ''kind'' = JStr ''zktls'' \<and> (\<exists>n \<in> set (go_acceptedNotaries opts). jopt ev ''notary'' = JStr n) \<and>
      (case go_verifyZkTls opts of Some vz \<Rightarrow> vz ev | None \<Rightarrow> \<not> go_requireZkTlsProof opts))"

definition authenticated :: "crypto \<Rightarrow> gate_opts \<Rightarrow> jsval \<Rightarrow> bool" where
  "authenticated C opts ev = (signed_evidence C opts ev \<or> notary_claim opts ev)"

lemmas authenticated_defs = authenticated_def signed_evidence_def notary_claim_def

definition evidence_time :: "jsval \<Rightarrow> jsval" where
  "evidence_time ev = (if jopt ev ''kind'' = JStr ''zktls'' then jopt ev ''sessionTime'' else jopt ev ''ts'')"

definition not_stale :: "int \<Rightarrow> gate_opts \<Rightarrow> jsval \<Rightarrow> bool" where
  "not_stale now opts ev = (\<exists>t. to_num (evidence_time ev) = Inr t \<and>
     \<not> jlt (jor (go_maxAgeMs opts) (Fin 60000)) (jsub (int_num now) t))"

lemma strict_eq_JStr [simp]: "strict_eq v (JStr s) \<longleftrightarrow> v = JStr s"
  by (cases v) auto

lemma evidence_use_ok:
  "evidence_use now opts ts nonce st = (Inr ''ok'', st') \<Longrightarrow>
   \<not> vnonce_has nonce st \<and> st' = vnonce_add now nonce st \<and>
   (\<exists>t. to_num ts = Inr t \<and> \<not> jlt (jor (go_maxAgeMs opts) (Fin 60000)) (jsub (int_num now) t))"
  by (auto simp: evidence_use_def split: sum.splits if_splits)

lemma verifyEvidence_ok:
  assumes "verifyEvidence C now opts ev st = (Inr ''ok'', st')"
  shows "authenticated C opts ev \<and> not_stale now opts ev \<and>
    \<not> vnonce_has (jopt ev ''nonce'') st \<and> st' = vnonce_add now (jopt ev ''nonce'') st"
  using assms
  by (auto simp: verifyEvidence_def Let_def authenticated_defs accepted_for_def not_stale_def evidence_time_def
      split: if_splits sum.splits option.splits dest!: evidence_use_ok)

text \<open>Evidence that is authenticated and fresh can only fail as a replay.\<close>

lemma no_index_name: "map_of (map (\<lambda>i. (nat_str i, f i)) is) ''kind'' = None"
proof -
  have "nat_str i \<noteq> ''kind''" for i
  proof
    assume "nat_str i = ''kind''"
    then have "is_digit (CHR ''k'')" using nat_str_digits_mem [of "CHR ''k''" i] by simp
    then show False by (simp add: is_digit_def less_eq_char_def)
  qed
  then have "''kind'' \<noteq> nat_str i" for i by metis
  then show ?thesis by (induction "is") auto
qed

lemma verifyEvidence_fresh:
  assumes "authenticated C opts ev" "not_stale now opts ev"
  shows "fst (verifyEvidence C now opts ev st) = Inr (if vnonce_has (jopt ev ''nonce'') st then ''evidence-replay'' else ''ok'')"
proof -
  obtain s where "jopt ev ''kind'' = JStr s" using assms(1) by (auto simp: authenticated_defs)
  then have o: "truthy ev \<and> is_object_type ev"
    by (cases ev) (auto simp: jopt_def inherited_def object_members_def array_members_def string_members_def number_members_def no_index_name split: if_splits)
  show ?thesis using assms o
    by (auto simp: authenticated_defs accepted_for_def not_stale_def evidence_time_def verifyEvidence_def Let_def evidence_use_def
        split: option.splits)
qed

lemma evidence_use_store:
  "snd (evidence_use now opts ts nonce st) = st \<or> snd (evidence_use now opts ts nonce st) = vnonce_add now nonce st \<and> \<not> vnonce_has nonce st"
  by (auto simp: evidence_use_def split: sum.splits)

lemma verifyEvidence_store:
  "snd (verifyEvidence C now opts ev st) = st \<or>
   snd (verifyEvidence C now opts ev st) = vnonce_add now (jopt ev ''nonce'') st \<and> \<not> vnonce_has (jopt ev ''nonce'') st"
  using evidence_use_store
  by (auto simp: verifyEvidence_def Let_def split: sum.splits option.splits)

lemma verifyEvidence_guarded:
  "snd (verifyEvidence C now opts ev st) = st \<or>
   snd (verifyEvidence C now opts ev st) =
     guarded (\<lambda>t k s. (vnonce_has k s, s)) vnonce_put (now, jopt ev ''nonce'', now) st"
  using verifyEvidence_store [of C now opts ev st] by (auto simp: guarded_def vnonce_add_def)

lemma verify_all_ok:
  "verify_all C now opts evs st = (Inr ''ok'', st') \<Longrightarrow>
   (\<forall>ev \<in> set evs. authenticated C opts ev \<and> not_stale now opts ev)"
  by (induction C now opts evs st rule: verify_all.induct)
     (auto split: prod.splits sum.splits if_splits dest!: verifyEvidence_ok)

lemma verify_all_fresh:
  "\<forall>ev \<in> set evs. authenticated C opts ev \<and> not_stale now opts ev \<Longrightarrow>
   fst (verify_all C now opts evs st) = Inr ''ok'' \<or> fst (verify_all C now opts evs st) = Inr ''evidence-replay''"
proof (induction C now opts evs st rule: verify_all.induct)
  case (2 C now opts ev evs st)
  then have "fst (verifyEvidence C now opts ev st) = Inr (if vnonce_has (jopt ev ''nonce'') st then ''evidence-replay'' else ''ok'')"
    by (simp add: verifyEvidence_fresh)
  then show ?case using 2 by (cases "verifyEvidence C now opts ev st") auto
qed simp

lemma verify_all_keeps:
  "vnonce_ok st \<Longrightarrow> vnonce_get n st = Some e \<Longrightarrow> vnonce_live now e \<Longrightarrow>
   vnonce_get n (snd (verify_all C now opts evs st)) = Some e"
proof (induction C now opts evs st rule: verify_all.induct)
  case (2 C now opts ev evs st)
  have k: "vnonce_get n (snd (verifyEvidence C now opts ev st)) = Some e"
    "vnonce_ok (snd (verifyEvidence C now opts ev st))"
    using verifyEvidence_guarded [of C now opts ev st] 2(2-4)
      evidence_nonces.guarded_keeps [of st n e] evidence_nonces.guarded_ok [of st] by auto
  show ?case using 2 k by (cases "verifyEvidence C now opts ev st") (auto split: sum.splits)
qed simp

lemma verify_all_store_ok: "vnonce_ok st \<Longrightarrow> vnonce_ok (snd (verify_all C now opts evs st))"
proof (induction C now opts evs st rule: verify_all.induct)
  case (2 C now opts ev evs st)
  have k: "vnonce_ok (snd (verifyEvidence C now opts ev st))"
    using verifyEvidence_guarded [of C now opts ev st] 2(2) evidence_nonces.guarded_ok [of st] by auto
  show ?case using 2 k by (cases "verifyEvidence C now opts ev st") (auto split: sum.splits)
qed simp

text \<open>Every nonce of accepted evidence was unused, is used once, and is recorded at the time of use.\<close>

lemma verify_all_nonces:
  "verify_all C now opts evs st = (Inr ''ok'', st') \<Longrightarrow> vnonce_ok st \<Longrightarrow> ev \<in> set evs \<Longrightarrow>
   \<not> is_ref (jopt ev ''nonce'') \<Longrightarrow>
   vnonce_get (jopt ev ''nonce'') st' = Some now \<and> (vnonce_has (jopt ev ''nonce'') st \<longrightarrow> \<not> vnonce_live now (the (vnonce_get (jopt ev ''nonce'') st)))"
proof (induction evs arbitrary: st)
  case (Cons e evs)
  obtain st1 where v: "verifyEvidence C now opts e st = (Inr ''ok'', st1)"
    and r: "verify_all C now opts evs st1 = (Inr ''ok'', st')"
    using Cons.prems(1) by (auto split: prod.splits sum.splits if_splits)
  note u = verifyEvidence_ok [OF v]
  have ok1: "vnonce_ok st1" using u Cons.prems(2) by (simp add: vnonce_add_def vnonce_put_ok)
  have live: "vnonce_live now now" by (simp add: vnonce_live_def)
  show ?case
  proof (cases "ev = e")
    case True
    have nr: "\<not> is_ref (jopt e ''nonce'')" using Cons.prems(4) True by simp
    have "vnonce_get (jopt e ''nonce'') st1 = Some now"
      using u evidence_nonces.add_same [OF Cons.prems(2) nr live] by (simp add: vnonce_add_def)
    then have "vnonce_get (jopt e ''nonce'') st' = Some now"
      using verify_all_keeps [OF ok1 _ live, of _ C opts evs] r by simp
    then show ?thesis using u True by simp
  next
    case False
    then have "ev \<in> set evs" using Cons.prems(3) by simp
    note ih = Cons.IH [OF r ok1 this Cons.prems(4)]
    show ?thesis
    proof (intro conjI impI)
      show "vnonce_get (jopt ev ''nonce'') st' = Some now" using ih by simp
      assume h: "vnonce_has (jopt ev ''nonce'') st"
      show "\<not> vnonce_live now (the (vnonce_get (jopt ev ''nonce'') st))"
      proof
        assume l: "vnonce_live now (the (vnonce_get (jopt ev ''nonce'') st))"
        obtain t where t: "vnonce_get (jopt ev ''nonce'') st = Some t" using h by (auto simp: vnonce_has_def)
        have "vnonce_get (jopt ev ''nonce'') st1 = Some t"
          using verifyEvidence_guarded [of C now opts e st] v t l
            evidence_nonces.guarded_keeps [OF Cons.prems(2), of "jopt ev ''nonce''" t "(now, jopt e ''nonce'', now)"]
          by auto
        then show False using ih t l by (simp add: vnonce_has_def)
      qed
    qed
  qed
qed simp

lemma evidence_use_code: "fst (evidence_use now opts ts nonce st) \<noteq> Inr ''verified''"
  by (simp add: evidence_use_def split: sum.split)

lemma verifyEvidence_code: "fst (verifyEvidence C now opts ev st) \<noteq> Inr ''verified''"
  unfolding verifyEvidence_def Let_def
  by (simp add: evidence_use_code split: sum.split option.split)

lemma verify_all_code: "fst (verify_all C now opts evs st) \<noteq> Inr ''verified''"
proof (induction C now opts evs st rule: verify_all.induct)
  case (2 C now opts ev evs st)
  then show ?case using verifyEvidence_code [of C now opts ev st]
    by (auto split: prod.splits sum.splits)
qed simp

lemma decisionGate_cases:
  assumes "decisionGate C now opts vi st = (Inr ''verified'', st')"
  shows "vi_rule vi = JStr (ru_id (go_rule opts)) \<and>
    verify_all C now opts (evidence_of vi) st = (Inr ''ok'', st') \<and>
    requirements_met (ru_requires (go_rule opts)) (evidence_of vi) (or_empty (vi_inputs vi)) = Inr True \<and>
    (\<exists>i. evaluateRule (go_rule opts) (or_empty (vi_inputs vi)) = Inr (Some i) \<and> sameIntent i (or_empty (vi_intent vi)))"
  using assms verify_all_code [of C now opts "evidence_of vi" st]
  by (auto simp: decisionGate_def bindE_Inr_iff split: if_splits prod.splits sum.splits option.splits)

lemma decisionGate_store: "snd (decisionGate C now opts vi st) = st \<or>
    snd (decisionGate C now opts vi st) = snd (verify_all C now opts (evidence_of vi) st)"
  by (auto simp: decisionGate_def split: prod.splits sum.splits)

lemma decisionGate_keeps:
  "vnonce_ok st \<Longrightarrow> vnonce_get n st = Some e \<Longrightarrow> vnonce_live now e \<Longrightarrow>
   vnonce_get n (snd (decisionGate C now opts vi st)) = Some e"
  using decisionGate_store [of C now opts vi st] verify_all_keeps [of st n e now C opts "evidence_of vi"] by auto

lemma decisionGate_store_ok: "vnonce_ok st \<Longrightarrow> vnonce_ok (snd (decisionGate C now opts vi st))"
  using decisionGate_store [of C now opts vi st] verify_all_store_ok [of st C now opts "evidence_of vi"] by auto

lemma evidenceBacks_ex: "evidenceBacks evs k v = Inr True \<Longrightarrow> \<exists>ev \<in> set evs. backs_one ev k v = Inr True"
  by (induction evs k v rule: evidenceBacks.induct) (auto simp: bindE_Inr_iff split: if_splits)

lemma requirements_met_all:
  "requirements_met ks evs inputs = Inr True \<Longrightarrow> k \<in> set ks \<Longrightarrow>
   \<exists>v. jget inputs k = Inr v \<and> (\<exists>ev \<in> set evs. backs_one ev k v = Inr True)"
  by (induction ks evs inputs rule: requirements_met.induct)
     (auto simp: bindE_Inr_iff split: if_splits dest: evidenceBacks_ex)

section \<open>Properties\<close>


definition sample_rule :: rule where
  "sample_rule = \<lparr> ru_id = ''r1'', ru_when = [\<lparr> co_input = ''px'', co_op = ''<'', co_value = JNum (Fin 10) \<rparr>],
     ru_then = [(''kind'', JStr ''buy''), (''token'', JStr ''T''), (''sizeSol'', JNum (Fin 1))], ru_requires = [''px''] \<rparr>"

definition sample_opts :: gate_opts where
  "sample_opts = \<lparr> go_rule = sample_rule, go_acceptedKeys = [], go_acceptedNotaries = [''n''],
     go_maxAgeMs = Fin 60000, go_verifyZkTls = None, go_requireZkTlsProof = False \<rparr>"

definition sample_vi :: verified_intent where
  "sample_vi = \<lparr> vi_intent = JObj [(''kind'', JStr ''buy''), (''token'', JStr ''T''), (''sizeSol'', JNum (Fin 1))],
     vi_rule = JStr ''r1'', vi_inputs = JObj [(''px'', JNum (Fin 7))],
     vi_evidence = JArr [JObj [(''kind'', JStr ''zktls''), (''notary'', JStr ''n''), (''sessionTime'', JNum (Fin 100)),
        (''nonce'', JStr ''u1''), (''claim'', JObj [(''px'', JNum (Fin 7))])]] \<rparr>"

lemma sample_gate: "decisionGate C 100 sample_opts sample_vi [] = (Inr ''verified'', [(JStr ''u1'', 100)])"
  by (simp add: decisionGate_def sample_opts_def sample_vi_def sample_rule_def evidence_of_def verifyEvidence_def
      jopt_def Let_def evidence_use_def jsub_def jor_def jtruthy_def vnonce_has_def vnonce_get_def vnonce_add_def
      vnonce_put_def or_empty_def backs_one_def member_is_def evaluateRule_def nullish_def sameIntent_def nn_def
      jeq_def jnan_def)

text \<open>A quote signed by an accepted data source, for a rule that needs it.\<close>

definition quoting_opts :: gate_opts where
  "quoting_opts = sample_opts\<lparr> go_acceptedKeys := [(hex_enc (replicate 32 7), JStr ''data'')], go_acceptedNotaries := [] \<rparr>"

definition sample_quote :: "string \<Rightarrow> jsval" where
  "sample_quote sig = JObj [(''kind'', JStr ''signed-quote''), (''key'', JStr (hex_enc (replicate 32 7))), (''path'', JStr ''/px''),
     (''data'', JObj [(''px'', JNum (Fin 7))]), (''ts'', JNum (Fin 100)), (''nonce'', JStr ''u3''), (''sig'', JStr sig)]"

lemma sample_quote_signed: "\<exists>sig. signed_evidence toy_crypto quoting_opts (sample_quote sig)"
proof -
  let ?p = "quotePayload (sample_quote [])"
  have p: "quotePayload (sample_quote sig) = ?p" for sig by (simp add: quotePayload_def sample_quote_def jopt_def)
  obtain t where t: "vi_stringify ?p = Some t" by (simp add: quotePayload_def)
  let ?sig = "hex_enc (sign toy_crypto (kp_priv (toy_keypair 7)) (utf8 t))"
  have "verify toy_crypto (replicate 32 7) (utf8 t) (sign toy_crypto (kp_priv (toy_keypair 7)) (utf8 t)) = Inr True"
    using toy_signs_verify [unfolded signs_verify_def, rule_format, OF toy_fromSeed [of 7]] by (simp add: toy_keypair_def)
  then have "verifyPayload toy_crypto (JStr (hex_enc (replicate 32 7))) (quotePayload (sample_quote ?sig)) (JStr ?sig)"
    unfolding p [of "?sig"] by (simp add: verifyPayload_def t)
  moreover have "accepted_for quoting_opts (JStr (hex_enc (replicate 32 7))) ''data''"
    by (simp add: accepted_for_def accepted_class_def quoting_opts_def)
  ultimately have "signed_evidence toy_crypto quoting_opts (sample_quote ?sig)"
    by (simp add: signed_evidence_def sample_quote_def jopt_def)
  then show ?thesis by blast
qed

definition quoted_vi :: "string \<Rightarrow> verified_intent" where
  "quoted_vi sig = sample_vi\<lparr> vi_evidence := JArr [sample_quote sig] \<rparr>"

lemma quoted_gate:
  assumes "signed_evidence toy_crypto quoting_opts (sample_quote sig)"
  shows "decisionGate toy_crypto 100 quoting_opts (quoted_vi sig) [] = (Inr ''verified'', [(JStr ''u3'', 100)])"
proof -
  have v: "verifyPayload toy_crypto (JStr (hex_enc (replicate 32 7))) (quotePayload (sample_quote sig)) (JStr sig)"
    "accepted_class quoting_opts (JStr (hex_enc (replicate 32 7))) = Inr (JStr ''data'')"
    using assms by (simp_all add: signed_evidence_def sample_quote_def jopt_def accepted_for_def)
  have g: "jopt (sample_quote sig) ''kind'' = JStr ''signed-quote''" "jopt (sample_quote sig) ''key'' = JStr (hex_enc (replicate 32 7))"
    "jopt (sample_quote sig) ''ts'' = JNum (Fin 100)" "jopt (sample_quote sig) ''nonce'' = JStr ''u3''" "jopt (sample_quote sig) ''sig'' = JStr sig"
    "jopt (sample_quote sig) ''data'' = JObj [(''px'', JNum (Fin 7))]" "truthy (sample_quote sig)" "is_object_type (sample_quote sig)"
    "jget (sample_quote sig) ''kind'' = Inr (JStr ''signed-quote'')"
    by (simp_all add: sample_quote_def jopt_def)
  have e: "verifyEvidence toy_crypto 100 quoting_opts (sample_quote sig) [] = (Inr ''ok'', [(JStr ''u3'', 100)])"
    using v by (simp add: verifyEvidence_def g Let_def evidence_use_def) (simp add: quoting_opts_def sample_opts_def jsub_def jor_def jtruthy_def
        vnonce_has_def vnonce_get_def vnonce_add_def vnonce_put_def)
  have b: "backs_one (sample_quote sig) ''px'' (JNum (Fin 7)) = Inr True"
    by (simp add: backs_one_def g member_is_def jeq_def jnan_def)
  have r: "evaluateRule sample_rule (JObj [(''px'', JNum (Fin 7))]) =
      Inr (Some \<lparr> ti_kind = JStr ''buy'', ti_token = JStr ''T'', ti_sizeSol = JNum (Fin 1) \<rparr>)"
    by (simp add: evaluateRule_def sample_rule_def jopt_def nullish_def)
  have o: "go_rule quoting_opts = sample_rule" "ru_id sample_rule = ''r1''" "ru_requires sample_rule = [''px'']"
    "vi_rule (quoted_vi sig) = JStr ''r1''" "evidence_of (quoted_vi sig) = [sample_quote sig]" "or_empty (vi_inputs (quoted_vi sig)) = JObj [(''px'', JNum (Fin 7))]"
    "or_empty (vi_intent (quoted_vi sig)) = JObj [(''kind'', JStr ''buy''), (''token'', JStr ''T''), (''sizeSol'', JNum (Fin 1))]"
    by (simp_all add: quoting_opts_def sample_opts_def sample_rule_def quoted_vi_def sample_vi_def evidence_of_def or_empty_def)
  show ?thesis
    by (simp add: decisionGate_def o e b r) (simp add: sameIntent_def nn_def jopt_def nullish_def jeq_def jnan_def)
qed


text \<open>The store after a sequence of gates, each with its clock, options and request.\<close>

definition gate_run :: "crypto \<Rightarrow> (int \<times> gate_opts \<times> verified_intent) list \<Rightarrow> evidence_store \<Rightarrow> evidence_store" where
  "gate_run C qs st = fold (\<lambda>(now, opts, vi) s. snd (decisionGate C now opts vi s)) qs st"

lemma gate_run_keeps:
  "vnonce_ok st \<Longrightarrow> vnonce_get n st = Some e \<Longrightarrow> \<forall>(now, opts, vi) \<in> set qs. vnonce_live now e \<Longrightarrow>
   vnonce_get n (gate_run C qs st) = Some e \<and> vnonce_ok (gate_run C qs st)"
  unfolding gate_run_def by (induction qs arbitrary: st) (auto simp: decisionGate_keeps decisionGate_store_ok)

text \<open>C31. Evidence is used once: after a gate has passed at time \<open>t\<close> with a nonce that is not an object or an array (those
  are never equal to another), whatever gates run in between, no gate within the next five minutes passes with evidence under the
  same nonce; and when nothing else is wrong before (the request names the rule, and all its evidence is authenticated
  and fresh) the gate answers that the evidence is a replay.\<close>

theorem evidence_used_once:
  assumes "vnonce_ok st" "decisionGate C t opts vi st = (Inr ''verified'', st')"
    and "ev \<in> set (evidence_of vi)" "ev' \<in> set (evidence_of vi')"
    and "jopt ev' ''nonce'' = jopt ev ''nonce''" "\<not> is_ref (jopt ev ''nonce'')"
    and "\<forall>(now, opts, vi) \<in> set qs. now \<le> t + 300000" "t' \<le> t + 300000"
  shows "fst (decisionGate C t' opts' vi' (gate_run C qs st')) \<noteq> Inr ''verified'' \<and>
    (vi_rule vi' = JStr (ru_id (go_rule opts')) \<and> (\<forall>e \<in> set (evidence_of vi'). authenticated C opts' e \<and> not_stale t' opts' e) \<longrightarrow>
     fst (decisionGate C t' opts' vi' (gate_run C qs st')) = Inr ''evidence-replay'')"
proof -
  have v: "verify_all C t opts (evidence_of vi) st = (Inr ''ok'', st')"
    using decisionGate_cases [OF assms(2)] by blast
  have ok: "vnonce_ok st'" using verify_all_store_ok [OF assms(1), of C t opts "evidence_of vi"] v by simp
  have "vnonce_get (jopt ev ''nonce'') st' = Some t"
    using verify_all_nonces [OF v assms(1,3,6)] by blast
  moreover have "\<forall>(now, opts, vi) \<in> set qs. vnonce_live now t"
    using assms(7) by (auto simp: vnonce_live_def)
  ultimately have r: "vnonce_get (jopt ev ''nonce'') (gate_run C qs st') = Some t" "vnonce_ok (gate_run C qs st')"
    using gate_run_keeps [OF ok, of "jopt ev ''nonce''" t qs C] by blast+
  have n: "fst (verify_all C t' opts' (evidence_of vi') (gate_run C qs st')) \<noteq> Inr ''ok''"
  proof
    assume "fst (verify_all C t' opts' (evidence_of vi') (gate_run C qs st')) = Inr ''ok''"
    then obtain st2 where v2: "verify_all C t' opts' (evidence_of vi') (gate_run C qs st') = (Inr ''ok'', st2)" by (metis prod.collapse)
    have "\<not> vnonce_live t' t"
      using verify_all_nonces [OF v2 r(2) assms(4)] assms(5,6) r(1) by (simp add: vnonce_has_def)
    then show False using assms(8) by (simp add: vnonce_live_def)
  qed
  have "fst (decisionGate C t' opts' vi' (gate_run C qs st')) \<noteq> Inr ''verified''"
    using decisionGate_cases [of C t' opts' vi' "gate_run C qs st'"] n by (metis fst_conv prod.collapse)
  moreover have "fst (decisionGate C t' opts' vi' (gate_run C qs st')) = Inr ''evidence-replay''"
    if "vi_rule vi' = JStr (ru_id (go_rule opts'))" "\<forall>e \<in> set (evidence_of vi'). authenticated C opts' e \<and> not_stale t' opts' e"
    using verify_all_fresh [OF that(2), of "gate_run C qs st'"] n that(1)
    by (cases "verify_all C t' opts' (evidence_of vi') (gate_run C qs st')") (auto simp: decisionGate_def)
  ultimately show ?thesis by blast
qed

theorem evidence_used_once_witness:
  "\<exists>sig. fst (decisionGate toy_crypto 150 quoting_opts (quoted_vi sig) (gate_run toy_crypto [(120, quoting_opts, quoted_vi sig)]
     [(JStr ''u3'', 100)])) = Inr ''evidence-replay''"
proof -
  obtain sig where sig: "signed_evidence toy_crypto quoting_opts (sample_quote sig)" using sample_quote_signed by blast
  have e: "evidence_of (quoted_vi sig) = [sample_quote sig]" by (simp add: quoted_vi_def evidence_of_def)
  have n: "jopt (sample_quote sig) ''nonce'' = JStr ''u3''" "jopt (sample_quote sig) ''kind'' = JStr ''signed-quote''"
    "jopt (sample_quote sig) ''ts'' = JNum (Fin 100)" by (simp_all add: sample_quote_def jopt_def)
  have s: "not_stale 150 quoting_opts (sample_quote sig)"
    using fl_int [of 50] by (simp add: not_stale_def evidence_time_def n quoting_opts_def sample_opts_def jor_def jtruthy_def jsub_def)
  have "vi_rule (quoted_vi sig) = JStr (ru_id (go_rule quoting_opts))"
    by (simp add: quoted_vi_def sample_vi_def quoting_opts_def sample_opts_def sample_rule_def)
  with evidence_used_once [OF _ quoted_gate [OF sig], of "sample_quote sig" "sample_quote sig" "quoted_vi sig" "[(120, quoting_opts, quoted_vi sig)]" 150 quoting_opts]
  show ?thesis using sig s by (intro exI [of _ sig]) (simp add: e n vnonce_ok_def nonrefs_def authenticated_def)
qed

text \<open>As the signer calls the gate (no zkTLS verifier, no proof required), zkTLS evidence is not
  authenticated at all: whoever knows the name of an accepted notary can state any claim.\<close>

theorem zktls_evidence_unverified:
  assumes "go_verifyZkTls opts = None" "\<not> go_requireZkTlsProof opts" "n \<in> set (go_acceptedNotaries opts)"
    and "\<not> vnonce_has nonce st" "\<not> jlt (jor (go_maxAgeMs opts) (Fin 60000)) (jsub (int_num now) ts)"
  shows "fst (verifyEvidence C now opts (JObj [(''kind'', JStr ''zktls''), (''notary'', JStr n),
      (''sessionTime'', JNum ts), (''nonce'', nonce), (''claim'', claim)]) st) = Inr ''ok''"
  using assms by (auto simp: verifyEvidence_def Let_def jopt_def evidence_use_def)

theorem zktls_evidence_unverified_witness:
  "fst (verifyEvidence toy_crypto 100 sample_opts (JObj [(''kind'', JStr ''zktls''), (''notary'', JStr ''n''),
      (''sessionTime'', JNum (Fin 50)), (''nonce'', JStr ''u2''), (''claim'', JObj [(''px'', JNum (Fin 1))])]) []) = Inr ''ok''"
  using fl_int [of 50]
  by (intro zktls_evidence_unverified)
     (simp_all add: sample_opts_def vnonce_has_def vnonce_get_def jor_def jtruthy_def jsub_def)

end
