(* ===== verification/Wire.thy ===== *)
theory Wire
  imports Crypto
begin

text \<open>
  The Solana wire format as signer/submit.js and signer/withdraw.js read and write it: base64,
  compact-u16 lengths (32-bit shifts, reads past the end give \<open>undefined\<close>, which the bitwise
  operators take as 0), \<open>subarray\<close> with its clamping. Positions are integers because a length
  read with a fifth byte can be negative. The records at the end are the structured view of the
  format; their encoding is what the parsers are compared with.
\<close>

unbundle bit_operations_syntax

section \<open>base64\<close>

definition B64 :: string where
  "B64 = ''ABCDEFGHIJKLMNOPQRSTUVWXYZabcdefghijklmnopqrstuvwxyz0123456789+/''"

fun b64_groups :: "nat list \<Rightarrow> string" where
  "b64_groups (a # b # c # r) =
     [B64 ! (a div 4), B64 ! (a mod 4 * 16 + b div 16), B64 ! (b mod 16 * 4 + c div 64), B64 ! (c mod 64)] @ b64_groups r"
| "b64_groups [a, b] = [B64 ! (a div 4), B64 ! (a mod 4 * 16 + b div 16), B64 ! (b mod 16 * 4), CHR ''='']"
| "b64_groups [a] = [B64 ! (a div 4), B64 ! (a mod 4 * 16), CHR ''='', CHR ''='']"
| "b64_groups [] = []"

text \<open>\<open>buf.toString('base64')\<close>.\<close>

definition base64_enc :: "bytes \<Rightarrow> string" where
  "base64_enc bs = b64_groups (map unat bs)"

text \<open>\<open>Buffer.from(s, 'base64')\<close>: up to the first \<open>=\<close>; other characters are skipped, both alphabets read.\<close>

definition b64_val :: "char \<Rightarrow> nat option" where
  "b64_val c = (if c = CHR ''-'' then Some 62 else if c = CHR ''_'' then Some 63 else index_of c B64)"

fun b64_vals :: "string \<Rightarrow> nat list" where
  "b64_vals [] = []"
| "b64_vals (c # s) = (if c = CHR ''='' then []
     else case b64_val c of None \<Rightarrow> b64_vals s | Some v \<Rightarrow> v # b64_vals s)"

fun b64_bytes :: "nat list \<Rightarrow> nat list" where
  "b64_bytes (a # b # c # d # r) = [a * 4 + b div 16, b mod 16 * 16 + c div 4, c mod 4 * 64 + d] @ b64_bytes r"
| "b64_bytes [a, b, c] = [a * 4 + b div 16, b mod 16 * 16 + c div 4]"
| "b64_bytes [a, b] = [a * 4 + b div 16]"
| "b64_bytes _ = []"

definition base64_dec :: "string \<Rightarrow> bytes" where
  "base64_dec s = map of_nat (b64_bytes (b64_vals s))"

section \<open>Buffers\<close>

definition byte_at :: "bytes \<Rightarrow> int \<Rightarrow> byte option" where
  "byte_at buf i = (if 0 \<le> i \<and> i < int (length buf) then Some (buf ! nat i) else None)"

text \<open>A position argument of \<open>subarray\<close>: negative ones count from the end, all are clamped.\<close>

definition clamp :: "bytes \<Rightarrow> int \<Rightarrow> nat" where
  "clamp buf i = (if i < 0 then nat (int (length buf) + i) else min (nat i) (length buf))"

definition subarray_from :: "bytes \<Rightarrow> int \<Rightarrow> bytes" where
  "subarray_from buf i = drop (clamp buf i) buf"

definition subarray :: "bytes \<Rightarrow> int \<Rightarrow> int \<Rightarrow> bytes" where
  "subarray buf i j = take (clamp buf j - clamp buf i) (drop (clamp buf i) buf)"

text \<open>\<open>src.copy(target, at)\<close>: what does not fit is dropped.\<close>

definition copy_into :: "bytes \<Rightarrow> nat \<Rightarrow> bytes \<Rightarrow> bytes" where
  "copy_into target start src = (if start \<le> length target
     then take (length target) (take start target @ src @ drop (start + length src) target) else target)"

section \<open>compact-u16\<close>

function read_loop :: "bytes \<Rightarrow> int \<Rightarrow> nat \<Rightarrow> 32 word \<Rightarrow> 32 word \<times> int" where
  "read_loop buf off shift val =
     (case byte_at buf off of
        None \<Rightarrow> (val, off + 1)
      | Some b \<Rightarrow> let val' = val OR push_bit (shift mod 32) (ucast (b AND 0x7f))
          in if b AND 0x80 = 0 then (val', off + 1) else read_loop buf (off + 1) (shift + 7) val')"
  by pat_completeness auto
termination
  by (relation "measure (\<lambda>(buf, off, shift, val). nat (int (length buf) - off))")
     (auto simp: byte_at_def split: if_splits)

declare read_loop.simps [simp del]

definition readCompactU16 :: "bytes \<Rightarrow> int \<Rightarrow> int \<times> int" where
  "readCompactU16 buf off = (case read_loop buf off 0 0 of (v, p) \<Rightarrow> (sint v, p))"

function compactU16 :: "nat \<Rightarrow> bytes" where
  "compactU16 n = (if n div 128 \<noteq> 0 then (of_nat (n mod 128) OR 0x80) # compactU16 (n div 128) else [of_nat (n mod 128)])"
  by pat_completeness auto
termination
  by (relation "measure id") auto

declare compactU16.simps [simp del]

section \<open>Transactions\<close>

record instruction =
  ix_program :: byte
  ix_accounts :: bytes
  ix_data :: bytes

text \<open>\<open>ms_version\<close> is the version byte of a versioned message; \<open>ms_rest\<close> what follows the instructions.\<close>

record message =
  ms_version :: "byte option"
  ms_numReqSig :: byte
  ms_roSigned :: byte
  ms_roUnsigned :: byte
  ms_keys :: "bytes list"
  ms_blockhash :: bytes
  ms_ixs :: "instruction list"
  ms_rest :: bytes

definition enc_ix :: "instruction \<Rightarrow> bytes" where
  "enc_ix ix = [ix_program ix] @ compactU16 (length (ix_accounts ix)) @ ix_accounts ix
     @ compactU16 (length (ix_data ix)) @ ix_data ix"

definition enc_message :: "message \<Rightarrow> bytes" where
  "enc_message m = (case ms_version m of None \<Rightarrow> [] | Some v \<Rightarrow> [v])
     @ [ms_numReqSig m, ms_roSigned m, ms_roUnsigned m]
     @ compactU16 (length (ms_keys m)) @ concat (ms_keys m) @ ms_blockhash m
     @ compactU16 (length (ms_ixs m)) @ concat (map enc_ix (ms_ixs m)) @ ms_rest m"

definition enc_tx :: "bytes list \<Rightarrow> bytes \<Rightarrow> bytes" where
  "enc_tx sigs msg = compactU16 (length sigs) @ concat sigs @ msg"

definition message_ok :: "message \<Rightarrow> bool" where
  "message_ok m = ((case ms_version m of None \<Rightarrow> ms_numReqSig m AND 0x80 = 0 | Some v \<Rightarrow> v AND 0x80 \<noteq> 0) \<and>
     length (ms_keys m) < 2 ^ 16 \<and> (\<forall>k \<in> set (ms_keys m). length k = 32) \<and> length (ms_blockhash m) = 32 \<and>
     length (ms_ixs m) < 2 ^ 16 \<and>
     (\<forall>ix \<in> set (ms_ixs m). length (ix_accounts ix) < 2 ^ 16 \<and> length (ix_data ix) < 2 ^ 16))"

section \<open>base64 round trip\<close>

lemma B64_distinct: "\<forall>i \<in> set [0..<64]. b64_val (B64 ! i) = Some i \<and> B64 ! i \<noteq> CHR ''=''"
  by code_simp

lemma b64_val_nth: "i < 64 \<Longrightarrow> b64_val (B64 ! i) = Some i \<and> B64 ! i \<noteq> CHR ''=''"
  using B64_distinct by simp

lemma b64_round: "\<forall>b \<in> set bs. b < 256 \<Longrightarrow> b64_bytes (b64_vals (b64_groups bs)) = bs"
proof (induction bs rule: b64_groups.induct)
  case (1 a b c r)
  have "a div 4 < 64" "a mod 4 * 16 + b div 16 < 64" "b mod 16 * 4 + c div 64 < 64" "c mod 64 < 64"
    "(a mod 4 * 16 + b div 16) div 16 = a mod 4" "(a mod 4 * 16 + b div 16) mod 16 = b div 16"
    "(b mod 16 * 4 + c div 64) div 4 = b mod 16" "(b mod 16 * 4 + c div 64) mod 4 = c div 64"
    using 1(2) by auto
  then show ?case using 1 by (simp add: b64_val_nth)
next
  case (2 a b)
  have "a div 4 < 64" "a mod 4 * 16 + b div 16 < 64" "b mod 16 * 4 < 64"
    "(a mod 4 * 16 + b div 16) div 16 = a mod 4" "(a mod 4 * 16 + b div 16) mod 16 = b div 16"
    using 2 by auto
  then show ?case using 2 by (simp add: b64_val_nth)
next
  case (3 a)
  have "a div 4 < 64" "a mod 4 * 16 < 64" using 3 by auto
  then show ?case by (simp add: b64_val_nth)
qed simp

lemma base64_dec_enc [simp]: "base64_dec (base64_enc bs) = bs"
proof -
  have "\<forall>b \<in> set (map unat bs). b < 256" using unat_byte by auto
  then show ?thesis by (simp add: base64_dec_def base64_enc_def b64_round map_idI)
qed

section \<open>compact-u16 round trip\<close>

lemma low_bits: "\<forall>d \<in> set [0..<128]. ((of_nat d OR 0x80) :: byte) AND 0x7f = of_nat d \<and>
    ((of_nat d OR 0x80) :: byte) AND 0x80 \<noteq> 0 \<and> (of_nat d :: byte) AND 0x7f = of_nat d \<and> (of_nat d :: byte) AND 0x80 = 0"
  by code_simp

lemma low_bitsD: "d < 128 \<Longrightarrow> ((of_nat d OR 0x80) :: byte) AND 0x7f = of_nat d"
  "d < 128 \<Longrightarrow> ((of_nat d OR 0x80) :: byte) AND 0x80 \<noteq> 0"
  "d < 128 \<Longrightarrow> (of_nat d :: byte) AND 0x7f = of_nat d" "d < 128 \<Longrightarrow> (of_nat d :: byte) AND 0x80 = 0"
  using low_bits by simp_all

lemma or_push:
  fixes v d s :: nat
  assumes "v < 2 ^ s" "s < 32"
  shows "(of_nat v :: 32 word) OR push_bit s (of_nat d) = of_nat (v + d * 2 ^ s)"
proof -
  have v: "take_bit s (of_nat v :: 32 word) = of_nat v"
    using assms(1) by (metis take_bit_nat_eq_self take_bit_of_nat)
  have "(of_nat v :: 32 word) AND push_bit s (of_nat d) = take_bit s (of_nat v) AND push_bit s (of_nat d)"
    by (simp only: v)
  also have "\<dots> = 0" by (rule bit_eqI) (auto simp: bit_simps)
  finally have "(of_nat v :: 32 word) OR push_bit s (of_nat d) = of_nat v + push_bit s (of_nat d)"
    by (rule disjunctive_add_eq_or [symmetric])
  then show ?thesis by (simp add: push_bit_eq_mult)
qed

lemma ucast_small_all: "\<forall>d \<in> set [0..<128]. (ucast (of_nat d :: byte) :: 32 word) = of_nat d"
  by code_simp

lemma ucast_small: "d < 128 \<Longrightarrow> (ucast (of_nat d :: byte) :: 32 word) = of_nat d"
  using ucast_small_all by simp

lemma byte_at_middle: "byte_at (pre @ b # post) (int (length pre)) = Some b"
  by (simp add: byte_at_def)

lemma read_loop_compact:
  assumes "v < 2 ^ s" "n < 2 ^ k" "s + k \<le> 31"
  shows "read_loop (pre @ compactU16 n @ post) (int (length pre)) s (of_nat v) =
    (of_nat (v + n * 2 ^ s), int (length pre + length (compactU16 n)))"
  using assms
proof (induction n arbitrary: pre s v k rule: compactU16.induct)
  case (1 n)
  have s: "s < 32" "s mod 32 = s" using 1(4) by auto
  show ?case
  proof (cases "n div 128 = 0")
    case True
    then have n: "n < 128" by simp
    then show ?thesis using or_push [OF 1(2) s(1), of n]
      by (subst read_loop.simps, simp add: compactU16.simps [of n] True byte_at_middle low_bitsD ucast_small s Let_def)
  next
    case False
    let ?d = "n mod 128" and ?b = "of_nat (n mod 128) OR 0x80 :: byte"
    have d: "?d < 128" by simp
    have c: "compactU16 n = ?b # compactU16 (n div 128)" using False by (simp add: compactU16.simps [of n])
    have k: "7 \<le> k"
    proof (rule ccontr)
      assume "\<not> 7 \<le> k"
      then have "(2::nat) ^ k \<le> 2 ^ 7" by (intro power_increasing) auto
      then show False using 1(3) False by simp
    qed
    then have p: "(2::nat) ^ k = 128 * 2 ^ (k - 7)" using power_add [of "2::nat" 7 "k - 7"] by simp
    have v': "v + ?d * 2 ^ s < 2 ^ (s + 7)"
    proof -
      have "?d * 2 ^ s \<le> 127 * 2 ^ s" using d by (intro mult_right_mono) auto
      then have "v + ?d * 2 ^ s < 128 * 2 ^ s" using 1(2) by linarith
      then show ?thesis by (simp add: power_add mult.commute)
    qed
    have n': "n div 128 < 2 ^ (k - 7)" using 1(3) p by (simp add: less_mult_imp_div_less mult.commute)
    have "read_loop (pre @ compactU16 n @ post) (int (length pre)) s (of_nat v) =
        read_loop ((pre @ [?b]) @ compactU16 (n div 128) @ post) (int (length (pre @ [?b]))) (s + 7) (of_nat (v + ?d * 2 ^ s))"
      using or_push [OF 1(2) s(1), of ?d]
      by (subst read_loop.simps) (simp add: c byte_at_middle low_bitsD ucast_small s Let_def add.commute [of 1 "int (length pre)"])
    also have "\<dots> = (of_nat (v + ?d * 2 ^ s + n div 128 * 2 ^ (s + 7)), int (length (pre @ [?b]) + length (compactU16 (n div 128))))"
      using 1(4) k by (intro 1(1) [OF False v' n']) auto
    also have "v + ?d * 2 ^ s + n div 128 * 2 ^ (s + 7) = v + n * 2 ^ s"
    proof -
      have "n * 2 ^ s = (n div 128 * 128 + ?d) * 2 ^ s" by (simp only: div_mult_mod_eq)
      also have "\<dots> = n div 128 * 2 ^ (s + 7) + ?d * 2 ^ s" by (simp only: add_mult_distrib power_add) simp
      finally show ?thesis by simp
    qed
    finally show ?thesis by (simp add: c)
  qed
qed

lemma readCompactU16_compact:
  assumes "n < 2 ^ 31"
  shows "readCompactU16 (pre @ compactU16 n @ post) (int (length pre)) = (int n, int (length pre + length (compactU16 n)))"
proof -
  have "sint (of_nat n :: 32 word) = int n"
    using assms by (simp add: sint_uint signed_take_bit_int_eq_self uint_nat unsigned_of_nat take_bit_nat_eq_self)
  then show ?thesis
    using read_loop_compact [of 0 0 n 31 pre post] assms by (simp add: readCompactU16_def)
qed

text \<open>The same at the front of a suffix, which is how the parsers use it.\<close>

lemma readCompactU16_at:
  assumes "n < 2 ^ 31" "buf = pre @ compactU16 n @ post" "p = int (length pre)"
  shows "readCompactU16 buf p = (int n, p + int (length (compactU16 n)))"
  using readCompactU16_compact [OF assms(1), of pre post] assms(2,3) by simp

section \<open>The length loop ends\<close>

text \<open>A byte with its top bit set is followed by another one.\<close>

definition continues :: "byte \<Rightarrow> bool" where
  "continues b = (b AND 0x80 \<noteq> 0)"

lemma read_loop_position:
  "0 \<le> off \<Longrightarrow> snd (read_loop buf off shift val) = off + 1 + int (length (takeWhile continues (drop (nat off) buf)))"
proof (induction buf off shift val rule: read_loop.induct)
  case (1 buf off shift val)
  show ?case
  proof (cases "byte_at buf off")
    case None
    then have "drop (nat off) buf = []" using 1(2) by (simp add: byte_at_def split: if_splits)
    then show ?thesis by (simp add: read_loop.simps [of buf off] None)
  next
    case (Some b)
    then have b: "nat off < length buf" "b = buf ! nat off" using 1(2) by (auto simp: byte_at_def split: if_splits)
    then have d: "drop (nat off) buf = b # drop (Suc (nat off)) buf" by (simp add: Cons_nth_drop_Suc)
    have n: "nat (off + 1) = Suc (nat off)" using 1(2) by simp
    show ?thesis
    proof (cases "b AND 0x80 = 0")
      case True
      moreover from this have "\<not> continues b" by (simp add: continues_def)
      ultimately show ?thesis by (simp add: read_loop.simps [of buf off] Some d)
    next
      case False
      from 1(1) [OF Some refl False] 1(2)
      have "snd (read_loop buf (off + 1) (shift + 7) (val OR push_bit (shift mod 32) (ucast (b AND 0x7f)))) =
          off + 1 + 1 + int (length (takeWhile continues (drop (nat (off + 1)) buf)))" by simp
      moreover have "continues b" using False by (simp add: continues_def)
      ultimately show ?thesis using False by (simp add: read_loop.simps [of buf off] Some d n)
    qed
  qed
qed

lemma low_seven: "take_bit 7 (ucast (b AND 0x7f :: byte) :: 32 word) = ucast (b AND 0x7f)"
proof -
  have "b AND 0x7f = take_bit 7 b" by (simp add: take_bit_eq_mask mask_eq_exp_minus_1)
  then show ?thesis by (simp add: unsigned_take_bit_eq)
qed

lemma or_push_bound:
  fixes v :: "32 word" and b :: byte
  assumes "take_bit s v = v" "s + 7 \<le> 28"
  shows "take_bit (s + 7) (v OR push_bit (s mod 32) (ucast (b AND 0x7f))) = v OR push_bit (s mod 32) (ucast (b AND 0x7f))"
proof -
  have s: "s mod 32 = s" using assms(2) by simp
  have v: "take_bit (s + 7) v = v" using take_bit_take_bit [of "s + 7" s v] assms(1) by simp
  have "take_bit (s + 7) (push_bit s (ucast (b AND 0x7f) :: 32 word)) = push_bit s (take_bit 7 (ucast (b AND 0x7f)))"
    by (simp add: take_bit_push_bit)
  then show ?thesis using v by (simp only: s take_bit_or low_seven)
qed

lemma read_loop_advances: "off < snd (read_loop buf off shift val)"
proof (induction buf off shift val rule: read_loop.induct)
  case (1 buf off shift val)
  show ?case
  proof (cases "byte_at buf off")
    case (Some b)
    show ?thesis
      using 1 [OF Some refl] by (cases "b AND 0x80 = 0") (force simp: read_loop.simps [of buf off] Some)+
  qed (simp add: read_loop.simps [of buf off])
qed

lemma read_loop_bound:
  assumes "take_bit shift val = val" "snd (read_loop buf off shift val) \<le> off + k" "shift + 7 * nat k \<le> 28"
  shows "take_bit 28 (fst (read_loop buf off shift val)) = fst (read_loop buf off shift val)"
  using assms
proof (induction buf off shift val arbitrary: k rule: read_loop.induct)
  case (1 buf off shift val)
  have mono: "take_bit 28 w = w" if "take_bit n w = w" "n \<le> 28" for n and w :: "32 word"
    using take_bit_take_bit [of 28 n w] that by simp
  show ?case
  proof (cases "byte_at buf off")
    case None
    then show ?thesis using 1(2,4) mono [of shift val] by (simp add: read_loop.simps [of buf off])
  next
    case (Some b)
    let ?v = "val OR push_bit (shift mod 32) (ucast (b AND 0x7f))"
    show ?thesis
    proof (cases "b AND 0x80 = 0")
      case True
      then have k: "1 \<le> k" using 1(3) by (simp add: read_loop.simps [of buf off] Some)
      then have "shift + 7 \<le> 28" using 1(4) by simp
      then have "take_bit 28 ?v = ?v" using or_push_bound [OF 1(2)] mono by blast
      then show ?thesis using True by (simp add: read_loop.simps [of buf off] Some)
    next
      case False
      have r: "read_loop buf off shift val = read_loop buf (off + 1) (shift + 7) ?v"
        using False by (simp add: read_loop.simps [of buf off] Some)
      have "off + 1 < snd (read_loop buf (off + 1) (shift + 7) ?v)" by (rule read_loop_advances)
      then have k: "2 \<le> k" using 1(3) by (simp add: r)
      then have n: "nat k = Suc (nat (k - 1))" by simp
      have "take_bit (shift + 7) ?v = ?v" using or_push_bound [OF 1(2)] 1(4) by (simp add: n)
      then show ?thesis unfolding r
        by (rule 1(1) [OF Some refl False, of "k - 1"]) (use 1(3,4) in \<open>simp_all add: r n\<close>)
    qed
  qed
qed


text \<open>C35. Reading a length always ends, on any bytes: the loop takes one round for each continuation byte at
  the position and one more, so it never reads further than one past the end; and what it
  returns fits 32 bits, and is a length below two to the 28 (so never negative) as long as it took at most four
  bytes.\<close>

theorem length_loop_ends:
  assumes "0 \<le> off" "readCompactU16 buf off = (v, p)"
  shows "p = off + 1 + int (length (takeWhile continues (drop (nat off) buf))) \<and> off < p \<and> p \<le> max (int (length buf)) off + 1 \<and>
    - (2 ^ 31) \<le> v \<and> v < 2 ^ 31 \<and> (off + 4 < p \<or> 0 \<le> v \<and> v < 2 ^ 28)"
proof -
  obtain w where w: "read_loop buf off 0 0 = (w, p)" "v = sint w" using assms(2) by (auto simp: readCompactU16_def split: prod.splits)
  have p: "p = off + 1 + int (length (takeWhile continues (drop (nat off) buf)))"
    using read_loop_position [OF assms(1), of buf 0 0] by (simp add: w(1))
  have "length (takeWhile continues (drop (nat off) buf)) \<le> length buf - nat off"
    using length_takeWhile_le [of continues "drop (nat off) buf"] by simp
  then have le: "p \<le> max (int (length buf)) off + 1" using assms(1) by (simp add: p)
  have r: "- (2 ^ 31) \<le> v" "v < 2 ^ 31" using sint_greater_eq [of w] sint_less [of w] by (simp_all add: w(2))
  have "0 \<le> v \<and> v < 2 ^ 28" if "\<not> off + 4 < p"
  proof -
    have "take_bit 28 w = w" using read_loop_bound [of 0 0 buf off 4] that by (simp add: w(1))
    then have "uint w = take_bit 28 (uint w)" by (metis unsigned_take_bit_eq)
    then have u: "uint w < 2 ^ 28" using take_bit_int_less_exp [of 28 "uint w"] by simp
    have "signed_take_bit 31 (uint w) = uint w" using u uint_ge_0 [of w] by (intro signed_take_bit_int_eq_self) (auto intro: order_trans [of _ 0])
    then have "sint w = uint w" by (simp add: sint_uint)
    then show ?thesis using u by (simp add: w(2))
  qed
  then show ?thesis using p le r by auto
qed

text \<open>Five bytes are enough for a count of two billion, and for a negative one.\<close>

lemma five_byte_lengths:
  "readCompactU16 [0xff, 0xff, 0xff, 0xff, 0x07] 0 = (2147483647, 5)" "readCompactU16 [0x80, 0x80, 0x80, 0x80, 0x08] 0 = (- 2147483648, 5)"
  by code_simp+

theorem length_loop_ends_witness:
  "\<exists>v p. readCompactU16 [0x85, 0x01, 0x07] 0 = (v, p) \<and> p = 2 \<and> 0 \<le> v \<and> v < 2 ^ 28"
proof -
  have "readCompactU16 [0x85, 0x01, 0x07] 0 = (133, 2)" by code_simp
  from length_loop_ends [OF _ this] this show ?thesis by (intro exI) auto
qed

end
