(* ===== verification/Submit.thy ===== *)
theory Submit
  imports Wire
begin

text \<open>
  signer/submit.js: reading a transaction before it is signed, signing it, and the live swap.
  \<open>extra\<close> are the programs of \<open>CIRCUIT_SIGNER_EXTRA_PROGRAMS\<close>. The HTTP replies of the swap service
  and the URL parser are parameters. \<open>executeUltraSwap\<close> returns, beside its result, the signed
  transaction it sent, if it sent one.
\<close>

section \<open>Reading a message\<close>

definition SOL_MINT :: string where
  "SOL_MINT = ''So11111111111111111111111111111111111111112''"

definition LAMPORTS :: jsnum where
  "LAMPORTS = Fin 1000000000"

definition BASE_PROGRAMS :: "string list" where
  "BASE_PROGRAMS = [''11111111111111111111111111111111'', ''ComputeBudget111111111111111111111111111111'',
     ''TokenkegQfeZyiNwAJbNbGKPFXCWuBvf9Ss623VQ5DA'', ''TokenzQdBNbLqP5VEhdkAS6EPFLC1PHnBqCXEpPxuEb'',
     ''ATokenGPvbdGVxr1b2hvZbsiqW5xWH25efTNsLJA8knL'', ''JUP6LkbZbjS1jKKwapdHNy74zcZ3tLUZoi5QNyVTaV4'',
     ''proVF4pMXVaYqmy4NjniPh4pqKNfMmsihgd4wdkCX3u'']"

definition allowed_programs :: "string list \<Rightarrow> string set" where
  "allowed_programs extra = set (BASE_PROGRAMS @ extra)"

text \<open>The header both parsers read: required signatures, key count and the position of the first key.\<close>

definition key_table :: "bytes \<Rightarrow> byte option \<times> int \<times> int" where
  "key_table m =
     (let versioned = (case byte_at m 0 of None \<Rightarrow> False | Some b \<Rightarrow> b AND 0x80 \<noteq> 0);
          p = (if versioned then 1 else 0);
          numReqSig = byte_at m p;
          (keyCount, pk) = readCompactU16 m (p + 3)
      in (numReqSig, keyCount, pk))"

definition key_at :: "bytes \<Rightarrow> int \<Rightarrow> nat \<Rightarrow> bytes" where
  "key_at m p i = subarray m (p + 32 * int i) (p + 32 * int i + 32)"

definition findSignerIndex :: "bytes \<Rightarrow> bytes \<Rightarrow> nat option \<times> byte option" where
  "findSignerIndex m pubkey =
     (case key_table m of (numReqSig, keyCount, p) \<Rightarrow>
        (fold (\<lambda>i idx. if key_at m p i = pubkey then Some i else idx) [0..<nat keyCount] None, numReqSig))"

text \<open>\<open>i >= n\<close> where \<open>n\<close> may be undefined (then false).\<close>

definition at_or_past :: "nat \<Rightarrow> byte option \<Rightarrow> bool" where
  "at_or_past i n = (case n of None \<Rightarrow> False | Some b \<Rightarrow> unat b \<le> i)"

definition signSerializedTx :: "crypto \<Rightarrow> bytes \<Rightarrow> bytes \<Rightarrow> jsval \<Rightarrow> string res" where
  "signSerializedTx C seed pubkey b64 = bindE (buffer_from base64_dec b64) (\<lambda>raw.
     case readCompactU16 raw 0 of (sigCount, sigArrayStart) \<Rightarrow>
       if sigCount < 1 then Inl (Err 0 ''transaction has no signature slots'')
       else let m = subarray_from raw (sigArrayStart + sigCount * 64)
         in case findSignerIndex m pubkey of
              (None, _) \<Rightarrow> Inl (Err 0 ''agent wallet is not in the transaction account list'')
            | (Some idx, numReqSig) \<Rightarrow>
                if at_or_past idx numReqSig \<or> sigCount \<le> int idx
                then Inl (Err 0 ''agent wallet is not a required signer of this transaction'')
                else bindE (fromSeed (exportSpki C) seed) (\<lambda>kp.
                  Inr (base64_enc (copy_into raw (nat (sigArrayStart + int idx * 64)) (sign C (kp_priv kp) m)))))"

section \<open>Inspecting a transaction\<close>

record inspection =
  un_resolved :: "byte option list"
  fee_payer :: "string option"
  signer_index :: nat

abbreviation tx_rejected :: err where
  "tx_rejected \<equiv> Err 403 ''tx-rejected''"

fun inspect_loop :: "bytes \<Rightarrow> string set \<Rightarrow> string list \<Rightarrow> nat \<Rightarrow> int \<Rightarrow> byte option list \<Rightarrow> byte option list res" where
  "inspect_loop m allowed staticKeys 0 p unresolved = Inr unresolved"
| "inspect_loop m allowed staticKeys (Suc n) p unresolved =
     (let programIdIndex = byte_at m p;
          (accLen, pa) = readCompactU16 m (p + 1);
          (dataLen, pd) = readCompactU16 m (pa + accLen);
          p' = pd + dataLen
      in if int (length m) < p' then Inl tx_rejected
         else case programIdIndex of
             None \<Rightarrow> inspect_loop m allowed staticKeys n p' (unresolved @ [None])
           | Some b \<Rightarrow>
               if unat b < length staticKeys
               then (if staticKeys ! unat b \<notin> allowed then Inl tx_rejected
                     else inspect_loop m allowed staticKeys n p' unresolved)
               else inspect_loop m allowed staticKeys n p' (unresolved @ [Some b]))"

definition inspectTransaction :: "string list \<Rightarrow> jsval \<Rightarrow> bytes \<Rightarrow> inspection res" where
  "inspectTransaction extra b64 pubkey = bindE (buffer_from base64_dec b64) (\<lambda>raw.
     case readCompactU16 raw 0 of (sigCount, sigStart) \<Rightarrow>
       let m = subarray_from raw (sigStart + sigCount * 64)
       in case key_table m of (numReqSig, keyCount, p) \<Rightarrow>
         let staticKeys = map (\<lambda>i. base58 (key_at m p i)) [0..<nat keyCount]
         in case index_of (base58 pubkey) staticKeys of
              None \<Rightarrow> Inl tx_rejected
            | Some myIdx \<Rightarrow>
                if at_or_past myIdx numReqSig then Inl tx_rejected
                else case readCompactU16 m (p + 32 * int (nat keyCount) + 32) of (ixCount, p2) \<Rightarrow>
                  bindE (inspect_loop m (allowed_programs extra) staticKeys (nat ixCount) p2 []) (\<lambda>unresolved.
                  Inr \<lparr> un_resolved = unresolved, fee_payer = elem_at staticKeys 0, signer_index = myIdx \<rparr>))"

section \<open>The live swap\<close>

record url =
  url_protocol :: string
  url_hostname :: string

definition strip_slash :: "string \<Rightarrow> string" where
  "strip_slash s = (if s \<noteq> [] \<and> last s = CHR ''/'' then butlast s else s)"

definition assertSafeBase :: "(string \<Rightarrow> url option) \<Rightarrow> string \<Rightarrow> string res" where
  "assertSafeBase parseUrl base =
     (case parseUrl base of
        None \<Rightarrow> Inl (Err 400 ''bad-config'')
      | Some u \<Rightarrow>
          let loopback = (url_hostname u \<in> {''localhost'', ''127.0.0.1'', ''::1''})
          in if url_protocol u \<noteq> ''https:'' \<and> \<not> loopback then Inl (Err 400 ''insecure-endpoint'')
             else Inr (strip_slash base))"

text \<open>
  What the swap service answers: a network error, or the status flag \<open>r.ok\<close> with the JSON body
  (\<open>None\<close> when it does not parse).
\<close>

type_synonym http_reply = "(bool \<times> jsval option) res"

record swap_env =
  se_parseUrl :: "string \<Rightarrow> url option"
  se_get :: "string \<Rightarrow> (string \<times> string) list \<Rightarrow> http_reply"
  se_post :: "string \<Rightarrow> (string \<times> jsval) list \<Rightarrow> http_reply"
  se_extra :: "string list"
  se_apiBase :: string

definition http_json :: "string \<Rightarrow> http_reply \<Rightarrow> jsval res" where
  "http_json tag r = bindE r (\<lambda>(ok, body).
     let j = (case body of Some v \<Rightarrow> v | None \<Rightarrow> JObj [])
     in if \<not> ok then Inl (Err 0 tag) else Inr j)"

record swap_intent =
  si_kind :: string
  si_token :: jsval
  si_sizeSol :: jsnum
  si_amount :: jsval
  si_maxSlippageBps :: jsval

record swap_result =
  sr_txid :: jsval
  sr_status :: jsval
  sr_solValue :: jsnum
  sr_altPrograms :: nat

definition cap_slack :: jsnum where
  "cap_slack = fl (1 / 1000000000)"

text \<open>Input mint, output mint and amount of the order.\<close>

definition swap_legs :: "swap_intent \<Rightarrow> (jsval \<times> jsval \<times> jsnum) res" where
  "swap_legs intent =
     (if \<not> truthy (si_token intent) then Inl (Err 400 ''bad-intent'')
      else bindE (if si_kind intent = ''buy''
                  then Inr (JStr SOL_MINT, si_token intent, jfloor (jmul (si_sizeSol intent) LAMPORTS))
                  else bindE (to_num (si_amount intent)) (\<lambda>a.
                    if \<not> jlt (Fin 0) (jfloor a) then Inl (Err 400 ''bad-intent'')
                    else Inr (si_token intent, JStr SOL_MINT, jfloor a))) (\<lambda>(i, out, amount).
           if \<not> jlt (Fin 0) amount then Inl (Err 400 ''bad-intent'') else Inr (i, out, amount)))"

definition order_params :: "string \<Rightarrow> swap_intent \<Rightarrow> jsval \<times> jsval \<times> jsnum \<Rightarrow> (string \<times> string) list res" where
  "order_params address intent legs = (case legs of (i, out, amount) \<Rightarrow>
     bindE (to_str i) (\<lambda>is. bindE (to_str out) (\<lambda>os.
     bindE (if truthy (si_maxSlippageBps intent)
            then bindE (to_str (si_maxSlippageBps intent)) (\<lambda>s. Inr [(''slippageBps'', s)]) else Inr []) (\<lambda>slip.
     Inr ([(''inputMint'', is), (''outputMint'', os), (''amount'', num_str amount), (''taker'', address)] @ slip)))))"

text \<open>The checks on the order, in the order of the code; the result is the SOL value of the swap.\<close>

definition check_order :: "swap_intent \<Rightarrow> jsnum \<Rightarrow> jsnum \<Rightarrow> jsval \<times> jsval \<times> jsnum \<Rightarrow> jsval \<Rightarrow> jsnum res" where
  "check_order intent maxNotionalSol remainingDailySol legs order = (case legs of (i, out, amount) \<Rightarrow>
     bindE (jget order ''transaction'') (\<lambda>tx.
       if \<not> truthy tx \<or> \<not> truthy (jopt order ''requestId'') then Inl (Err 502 ''no-route'')
       else if truthy (jopt order ''inputMint'') \<and> \<not> strict_eq (jopt order ''inputMint'') i then Inl (Err 403 ''order-mismatch'')
       else if truthy (jopt order ''outputMint'') \<and> \<not> strict_eq (jopt order ''outputMint'') out then Inl (Err 403 ''order-mismatch'')
       else bindE (if si_kind intent = ''buy''
                   then bindE (to_num (jopt order ''inAmount'')) (\<lambda>x. Inr (jdiv (jor x amount) LAMPORTS))
                   else bindE (to_num (jopt order ''outAmount'')) (\<lambda>x. Inr (jdiv x LAMPORTS))) (\<lambda>solValue.
         if \<not> jlt (Fin 0) solValue then Inl (Err 502 ''no-route'')
         else if jlt (jadd maxNotionalSol cap_slack) solValue then Inl (Err 403 ''over-trade-cap'')
         else if jlt (jadd remainingDailySol cap_slack) solValue then Inl (Err 403 ''over-daily-cap'')
         else Inr solValue)))"

text \<open>
  Up to the signature: the base URL, the order, its SOL value, the inspection and the signed
  transaction. Then the transaction is sent.
\<close>

definition prepare_swap ::
  "crypto \<Rightarrow> swap_env \<Rightarrow> bytes \<Rightarrow> string \<Rightarrow> swap_intent \<Rightarrow> jsnum \<Rightarrow> jsnum \<Rightarrow>
   (string \<times> jsval \<times> jsnum \<times> inspection \<times> string) res" where
  "prepare_swap C E seed address intent maxNotionalSol remainingDailySol =
     bindE (assertSafeBase (se_parseUrl E)
              (if se_apiBase E = [] then ''https://lite-api.jup.ag'' else se_apiBase E)) (\<lambda>base.
     bindE (base58decode address) (\<lambda>pubkey.
     bindE (swap_legs intent) (\<lambda>legs.
     bindE (order_params address intent legs) (\<lambda>params.
     bindE (http_json ''order'' (se_get E (base @ ''/ultra/v1/order'') params)) (\<lambda>order.
     bindE (check_order intent maxNotionalSol remainingDailySol legs order) (\<lambda>solValue.
     bindE (inspectTransaction (se_extra E) (jopt order ''transaction'') pubkey) (\<lambda>insp.
     bindE (signSerializedTx C seed pubkey (jopt order ''transaction'')) (\<lambda>stx.
     Inr (base, order, solValue, insp, stx)))))))))"

definition land_swap :: "swap_env \<Rightarrow> string \<times> jsval \<times> jsnum \<times> inspection \<times> string \<Rightarrow> swap_result res" where
  "land_swap E prep = (case prep of (base, order, solValue, insp, stx) \<Rightarrow>
     bindE (http_json ''execute'' (se_post E (base @ ''/ultra/v1/execute'')
       [(''signedTransaction'', JStr stx), (''requestId'', jopt order ''requestId'')])) (\<lambda>res.
     bindE (jget res ''status'') (\<lambda>status.
       if truthy status \<and> \<not> strict_eq status (JStr ''Success'') then Inl (Err 502 ''submit-failed'')
       else Inr \<lparr> sr_txid = (if truthy (jopt res ''signature'') then jopt res ''signature''
                             else if truthy (jopt res ''txid'') then jopt res ''txid'' else JNull),
                  sr_status = (if truthy status then status else JStr ''Success''),
                  sr_solValue = solValue, sr_altPrograms = length (un_resolved insp) \<rparr>)))"

definition executeUltraSwap ::
  "crypto \<Rightarrow> swap_env \<Rightarrow> bytes \<Rightarrow> string \<Rightarrow> swap_intent \<Rightarrow> jsnum \<Rightarrow> jsnum \<Rightarrow> swap_result res \<times> string option" where
  "executeUltraSwap C E seed address intent maxNotionalSol remainingDailySol =
     (case prepare_swap C E seed address intent maxNotionalSol remainingDailySol of
        Inl e \<Rightarrow> (Inl e, None)
      | Inr prep \<Rightarrow> (land_swap E prep, Some (snd (snd (snd (snd prep))))))"

section \<open>The parser on encoded messages\<close>

lemma concat_chunks_length: "\<forall>k \<in> set ks. length k = c \<Longrightarrow> length (concat ks) = c * length ks"
  by (induction ks) auto

lemma concat_chunk:
  assumes "\<forall>k \<in> set ks. length k = c" "i < length ks"
  shows "take c (drop (c * i) (concat ks)) = ks ! i"
proof -
  have "ks = take i ks @ ks ! i # drop (Suc i) ks" using assms(2) by (rule id_take_nth_drop)
  then have c: "concat ks = concat (take i ks) @ ks ! i @ concat (drop (Suc i) ks)"
    by (metis concat.simps(2) concat_append)
  have "length (concat (take i ks)) = c * length (take i ks)"
    using assms(1) by (intro concat_chunks_length) (auto dest: in_set_takeD)
  then have l: "length (concat (take i ks)) = c * i" using assms(2) by simp
  have "length (ks ! i) = c" using assms by simp
  then show ?thesis unfolding c using l by simp
qed

lemma subarray_from_append: "subarray_from (pre @ post) (int (length pre)) = post"
  by (simp add: subarray_from_def clamp_def)

lemma subarray_within: "i + n \<le> length buf \<Longrightarrow> subarray buf (int i) (int i + int n) = take n (drop i buf)"
  by (simp add: subarray_def clamp_def nat_add_distrib min_def)

definition ver_bytes :: "message \<Rightarrow> bytes" where
  "ver_bytes m = (case ms_version m of None \<Rightarrow> [] | Some v \<Rightarrow> [v])"

text \<open>The message cut at the keys and at the instructions.\<close>

definition pre_keys :: "message \<Rightarrow> bytes" where
  "pre_keys m = ver_bytes m @ [ms_numReqSig m, ms_roSigned m, ms_roUnsigned m] @ compactU16 (length (ms_keys m))"

definition post_keys :: "message \<Rightarrow> bytes" where
  "post_keys m = ms_blockhash m @ compactU16 (length (ms_ixs m)) @ concat (map enc_ix (ms_ixs m)) @ ms_rest m"

lemma enc_message_cut: "enc_message m = pre_keys m @ concat (ms_keys m) @ post_keys m"
  by (simp add: enc_message_def pre_keys_def post_keys_def ver_bytes_def)

lemma key_table_enc:
  assumes "message_ok m"
  shows "key_table (enc_message m) = (Some (ms_numReqSig m), int (length (ms_keys m)), int (length (pre_keys m)))"
proof -
  let ?h = "[ms_numReqSig m, ms_roSigned m, ms_roUnsigned m]"
  have l: "length (ms_keys m) < 2 ^ 31" using assms by (simp add: message_ok_def)
  have r: "readCompactU16 (enc_message m) (int (length (ver_bytes m)) + 3) =
      (int (length (ms_keys m)), int (length (pre_keys m)))"
    using readCompactU16_at [OF l, of "enc_message m" "ver_bytes m @ ?h" "concat (ms_keys m) @ post_keys m"
        "int (length (ver_bytes m)) + 3"]
    by (simp add: enc_message_cut pre_keys_def)
  show ?thesis
  proof (cases "ms_version m")
    case None
    have "byte_at (enc_message m) 0 = Some (ms_numReqSig m)"
      by (simp add: byte_at_def enc_message_def None)
    then show ?thesis using r None assms
      by (simp add: key_table_def Let_def message_ok_def ver_bytes_def)
  next
    case (Some v)
    have "byte_at (enc_message m) 0 = Some v" "byte_at (enc_message m) 1 = Some (ms_numReqSig m)"
      by (simp_all add: byte_at_def enc_message_def Some)
    then show ?thesis using r Some assms
      by (simp add: key_table_def Let_def message_ok_def ver_bytes_def)
  qed
qed

lemma key_at_enc:
  assumes "message_ok m" "i < length (ms_keys m)"
  shows "key_at (enc_message m) (int (length (pre_keys m))) i = ms_keys m ! i"
proof -
  have k: "\<forall>k \<in> set (ms_keys m). length k = 32" using assms by (simp add: message_ok_def)
  have l: "length (concat (ms_keys m)) = 32 * length (ms_keys m)" by (rule concat_chunks_length [OF k])
  have b: "length (pre_keys m) + 32 * i + 32 \<le> length (enc_message m)"
    using assms(2) l by (simp add: enc_message_cut)
  have i: "32 * i + 32 \<le> length (concat (ms_keys m))" using l assms(2) by simp
  have "key_at (enc_message m) (int (length (pre_keys m))) i =
      take 32 (drop (length (pre_keys m) + 32 * i) (enc_message m))"
    using subarray_within [OF b] by (simp add: key_at_def)
  also have "\<dots> = take 32 (drop (32 * i) (concat (ms_keys m)))"
    using i by (simp add: enc_message_cut)
  finally show ?thesis using concat_chunk [OF k assms(2)] by simp
qed

lemma static_keys_enc:
  assumes "message_ok m"
  shows "map (\<lambda>i. base58 (key_at (enc_message m) (int (length (pre_keys m))) i)) [0..<length (ms_keys m)] =
    map base58 (ms_keys m)"
  by (rule nth_equalityI) (simp_all add: key_at_enc [OF assms])

text \<open>What the instruction loop computes, on the structured instructions.\<close>

definition ixs_allowed :: "string set \<Rightarrow> string list \<Rightarrow> instruction list \<Rightarrow> bool" where
  "ixs_allowed allowed staticKeys ixs =
     (\<forall>ix \<in> set ixs. unat (ix_program ix) < length staticKeys \<longrightarrow> staticKeys ! unat (ix_program ix) \<in> allowed)"

definition ixs_unresolved :: "string list \<Rightarrow> instruction list \<Rightarrow> byte option list" where
  "ixs_unresolved staticKeys ixs =
     map (\<lambda>ix. Some (ix_program ix)) (filter (\<lambda>ix. length staticKeys \<le> unat (ix_program ix)) ixs)"

lemma inspect_loop_enc:
  assumes "\<forall>ix \<in> set ixs. length (ix_accounts ix) < 2 ^ 16 \<and> length (ix_data ix) < 2 ^ 16"
  shows "inspect_loop (pre @ concat (map enc_ix ixs) @ post) allowed ks (length ixs) (int (length pre)) u =
    (if ixs_allowed allowed ks ixs then Inr (u @ ixs_unresolved ks ixs) else Inl tx_rejected)"
  using assms
proof (induction ixs arbitrary: pre u)
  case Nil
  then show ?case by (simp add: ixs_allowed_def ixs_unresolved_def)
next
  case (Cons ix ixs)
  let ?na = "length (ix_accounts ix)" and ?nd = "length (ix_data ix)"
  let ?m = "pre @ concat (map enc_ix (ix # ixs)) @ post"
  let ?rest = "concat (map enc_ix ixs) @ post"
  have b: "byte_at ?m (int (length pre)) = Some (ix_program ix)"
    by (simp add: enc_ix_def byte_at_middle)
  have a: "readCompactU16 ?m (int (length pre) + 1) = (int ?na, int (length pre) + 1 + int (length (compactU16 ?na)))"
    using Cons.prems by (intro readCompactU16_at [where pre = "pre @ [ix_program ix]"
        and post = "ix_accounts ix @ compactU16 ?nd @ ix_data ix @ ?rest"]) (auto simp: enc_ix_def)
  have d: "readCompactU16 ?m (int (length pre) + 1 + int (length (compactU16 ?na)) + int ?na) =
      (int ?nd, int (length pre) + 1 + int (length (compactU16 ?na)) + int ?na + int (length (compactU16 ?nd)))"
    using Cons.prems by (intro readCompactU16_at [where pre = "pre @ [ix_program ix] @ compactU16 ?na @ ix_accounts ix"
        and post = "ix_data ix @ ?rest"]) (auto simp: enc_ix_def)
  have p: "int (length pre) + 1 + int (length (compactU16 ?na)) + int ?na + int (length (compactU16 ?nd)) + int ?nd
      = int (length (pre @ enc_ix ix))"
    by (simp add: enc_ix_def)
  have le: "\<not> int (length ?m) < int (length (pre @ enc_ix ix))" by simp
  have ih: "inspect_loop ((pre @ enc_ix ix) @ ?rest) allowed ks (length ixs) (int (length (pre @ enc_ix ix))) u' =
      (if ixs_allowed allowed ks ixs then Inr (u' @ ixs_unresolved ks ixs) else Inl tx_rejected)" for u'
    using Cons.prems by (intro Cons.IH) auto
  have m: "?m = (pre @ enc_ix ix) @ ?rest" by simp
  show ?case
    unfolding length_Cons inspect_loop.simps Let_def b a d prod.case p option.case
    using le ih unfolding m
    by (auto simp: ixs_allowed_def ixs_unresolved_def simp del: append_assoc)
qed

section \<open>Whole transactions\<close>

lemma index_of_map_inj: "inj f \<Longrightarrow> index_of (f x) (map f xs) = index_of x xs"
  by (induction xs) (auto simp: inj_eq)

lemma inj_base58: "inj base58"
  by (rule injI) (rule base58_inj)

definition sigs_ok :: "bytes list \<Rightarrow> bool" where
  "sigs_ok sigs = (length sigs < 2 ^ 16 \<and> (\<forall>s \<in> set sigs. length s = 64))"

definition tx_b64 :: "bytes list \<Rightarrow> message \<Rightarrow> jsval" where
  "tx_b64 sigs m = JStr (base64_enc (enc_tx sigs (enc_message m)))"

lemma enc_tx_read:
  assumes "sigs_ok sigs"
  shows "readCompactU16 (enc_tx sigs msg) 0 = (int (length sigs), int (length (compactU16 (length sigs))))"
    "subarray_from (enc_tx sigs msg) (int (length (compactU16 (length sigs))) + int (length sigs) * 64) = msg"
proof -
  show "readCompactU16 (enc_tx sigs msg) 0 = (int (length sigs), int (length (compactU16 (length sigs))))"
    using assms readCompactU16_at [of "length sigs" "enc_tx sigs msg" "[]" "concat sigs @ msg" 0]
    by (simp add: enc_tx_def sigs_ok_def)
  have "length (concat sigs) = 64 * length sigs"
    using assms by (intro concat_chunks_length) (simp add: sigs_ok_def)
  then show "subarray_from (enc_tx sigs msg) (int (length (compactU16 (length sigs))) + int (length sigs) * 64) = msg"
    using subarray_from_append [of "compactU16 (length sigs) @ concat sigs" msg] by (simp add: enc_tx_def algebra_simps)
qed

lemma inspect_enc:
  assumes "sigs_ok sigs" "message_ok m"
  shows "inspectTransaction extra (tx_b64 sigs m) pubkey =
    (case index_of pubkey (ms_keys m) of
       None \<Rightarrow> Inl tx_rejected
     | Some i \<Rightarrow>
         if unat (ms_numReqSig m) \<le> i \<or>
            \<not> ixs_allowed (allowed_programs extra) (map base58 (ms_keys m)) (ms_ixs m)
         then Inl tx_rejected
         else Inr \<lparr> un_resolved = ixs_unresolved (map base58 (ms_keys m)) (ms_ixs m),
                   fee_payer = elem_at (map base58 (ms_keys m)) 0, signer_index = i \<rparr>)"
proof -
  let ?msg = "enc_message m" and ?ks = "map base58 (ms_keys m)"
  let ?pk = "int (length (pre_keys m))"
  have lk: "length (concat (ms_keys m)) = 32 * length (ms_keys m)"
    using assms(2) by (intro concat_chunks_length) (simp add: message_ok_def)
  let ?pre = "pre_keys m @ concat (ms_keys m) @ ms_blockhash m"
  have p: "?pk + 32 * int (length (ms_keys m)) + 32 = int (length ?pre)"
    using lk assms(2) by (simp add: message_ok_def)
  have r: "readCompactU16 ?msg (int (length ?pre)) =
      (int (length (ms_ixs m)), int (length (?pre @ compactU16 (length (ms_ixs m)))))"
    using readCompactU16_at [of "length (ms_ixs m)" ?msg ?pre "concat (map enc_ix (ms_ixs m)) @ ms_rest m" "int (length ?pre)"]
      assms(2) by (simp add: enc_message_cut post_keys_def message_ok_def)
  have l: "inspect_loop ?msg (allowed_programs extra) ?ks (length (ms_ixs m))
      (int (length (?pre @ compactU16 (length (ms_ixs m))))) [] =
    (if ixs_allowed (allowed_programs extra) ?ks (ms_ixs m) then Inr (ixs_unresolved ?ks (ms_ixs m)) else Inl tx_rejected)"
    using inspect_loop_enc [of "ms_ixs m" "?pre @ compactU16 (length (ms_ixs m))" "ms_rest m" "allowed_programs extra" ?ks "[]"]
      assms(2) by (simp add: enc_message_cut post_keys_def message_ok_def)
  show ?thesis
    unfolding inspectTransaction_def tx_b64_def buffer_from.simps base64_dec_enc bindE_simps
      enc_tx_read [OF assms(1)] prod.case Let_def key_table_enc [OF assms(2)] nat_int static_keys_enc [OF assms(2)]
      index_of_map_inj [OF inj_base58] p r l at_or_past_def option.case
    by (auto split: option.split)
qed

fun last_index :: "'a \<Rightarrow> 'a list \<Rightarrow> nat option" where
  "last_index x [] = None"
| "last_index x (y # ys) = (case last_index x ys of Some i \<Rightarrow> Some (Suc i) | None \<Rightarrow> if y = x then Some 0 else None)"

lemma last_index_snoc: "last_index x (ys @ [y]) = (if y = x then Some (length ys) else last_index x ys)"
  by (induction ys) auto

lemma fold_last_index:
  "fold (\<lambda>i idx. if xs ! i = x then Some i else idx) [0..<length xs] None = last_index x xs"
proof (induction xs rule: rev_induct)
  case (snoc y ys)
  have "fold (\<lambda>i idx. if (ys @ [y]) ! i = x then Some i else idx) [0..<length ys] None =
      fold (\<lambda>i idx. if ys ! i = x then Some i else idx) [0..<length ys] None"
    by (rule fold_cong) (auto simp: nth_append)
  then show ?case using snoc by (simp add: last_index_snoc)
qed simp

lemma last_index_Some: "last_index x xs = Some i \<Longrightarrow> i < length xs \<and> xs ! i = x"
  by (induction xs arbitrary: i) (auto split: option.splits if_splits)

lemma last_index_distinct: "distinct xs \<Longrightarrow> last_index x xs = index_of x xs"
proof (induction xs)
  case (Cons y ys)
  have "last_index x ys = None \<longleftrightarrow> x \<notin> set ys" using Cons by (simp add: index_of_None_iff)
  then show ?case using Cons by (cases "last_index x ys"; cases "index_of x ys") auto
qed simp

lemma findSignerIndex_enc:
  assumes "message_ok m"
  shows "findSignerIndex (enc_message m) pubkey = (last_index pubkey (ms_keys m), Some (ms_numReqSig m))"
proof -
  have "fold (\<lambda>i idx. if key_at (enc_message m) (int (length (pre_keys m))) i = pubkey then Some i else idx)
      [0..<length (ms_keys m)] None =
    fold (\<lambda>i idx. if ms_keys m ! i = pubkey then Some i else idx) [0..<length (ms_keys m)] None"
    by (rule fold_cong) (auto simp: key_at_enc [OF assms])
  then show ?thesis
    by (simp add: findSignerIndex_def key_table_enc [OF assms] fold_last_index)
qed

lemma copy_into_middle: "length new = length old \<Longrightarrow> copy_into (pre @ old @ post) (length pre) new = pre @ new @ post"
  by (simp add: copy_into_def)

lemma concat_update:
  assumes "\<forall>s \<in> set ss. length s = c" "i < length ss" "length new = c"
  shows "copy_into (pre @ concat ss @ post) (length pre + c * i) new = pre @ concat (ss[i := new]) @ post"
proof -
  have s: "ss = take i ss @ ss ! i # drop (Suc i) ss" using assms(2) by (rule id_take_nth_drop)
  have c: "concat ss = concat (take i ss) @ ss ! i @ concat (drop (Suc i) ss)"
    by (metis concat.simps(2) concat_append s)
  have u: "concat (ss[i := new]) = concat (take i ss) @ new @ concat (drop (Suc i) ss)"
    using assms(2) by (simp add: upd_conv_take_nth_drop)
  have "length (concat (take i ss)) = c * length (take i ss)"
    using assms(1) by (intro concat_chunks_length) (auto dest: in_set_takeD)
  then have l: "length (pre @ concat (take i ss)) = length pre + c * i" using assms(2) by simp
  have "length new = length (ss ! i)" using assms by simp
  from copy_into_middle [OF this, of "pre @ concat (take i ss)" "concat (drop (Suc i) ss) @ post"]
  show ?thesis unfolding c u l by simp
qed

lemma sign_enc:
  assumes "sigs_ok sigs" "message_ok m" "last_index pubkey (ms_keys m) = Some i"
    and "i < unat (ms_numReqSig m)" "i < length sigs" "fromSeed (exportSpki C) seed = Inr kp"
    and "length (sign C (kp_priv kp) (enc_message m)) = 64"
  shows "signSerializedTx C seed pubkey (tx_b64 sigs m) =
    Inr (base64_enc (enc_tx (sigs[i := sign C (kp_priv kp) (enc_message m)]) (enc_message m)))"
proof -
  let ?c = "compactU16 (length sigs)"
  have n: "nat (int (length ?c) + int i * 64) = length ?c + 64 * i" by (simp add: nat_add_distrib nat_mult_distrib)
  have u: "copy_into (enc_tx sigs (enc_message m)) (length ?c + 64 * i) (sign C (kp_priv kp) (enc_message m)) =
      enc_tx (sigs[i := sign C (kp_priv kp) (enc_message m)]) (enc_message m)"
    unfolding enc_tx_def length_list_update using assms
    by (intro concat_update) (simp_all add: sigs_ok_def)
  show ?thesis
    unfolding signSerializedTx_def tx_b64_def buffer_from.simps base64_dec_enc bindE_simps
      enc_tx_read [OF assms(1)] prod.case Let_def findSignerIndex_enc [OF assms(2)] assms(3,6) n u option.case
    using assms(4,5) by (auto simp: at_or_past_def)
qed

lemma land_swap_value:
  assumes "land_swap E (base, order, v, insp, stx) = Inr r"
  shows "sr_solValue r = v"
proof -
  obtain res status where "jget res ''status'' = Inr status"
    and e: "(if truthy status \<and> \<not> strict_eq status (JStr ''Success'') then Inl (Err 502 ''submit-failed'')
       else Inr \<lparr> sr_txid = (if truthy (jopt res ''signature'') then jopt res ''signature''
                             else if truthy (jopt res ''txid'') then jopt res ''txid'' else JNull),
                  sr_status = (if truthy status then status else JStr ''Success''),
                  sr_solValue = v, sr_altPrograms = length (un_resolved insp) \<rparr>) = Inr r"
    using assms unfolding land_swap_def prod.case bindE_Inr_iff by blast
  then show ?thesis
    by (cases "truthy status \<and> \<not> strict_eq status (JStr ''Success'')") auto
qed

lemma check_order_Inr:
  assumes "check_order intent mx rem legs order = Inr v"
  shows "jlt (Fin 0) v \<and> \<not> jlt (jadd mx cap_slack) v \<and> \<not> jlt (jadd rem cap_slack) v \<and>
    (truthy (jopt order ''inputMint'') \<longrightarrow> strict_eq (jopt order ''inputMint'') (fst legs)) \<and>
    (truthy (jopt order ''outputMint'') \<longrightarrow> strict_eq (jopt order ''outputMint'') (fst (snd legs))) \<and>
    (if si_kind intent = ''buy''
     then \<exists>x. to_num (jopt order ''inAmount'') = Inr x \<and> v = jdiv (if jtruthy x then x else snd (snd legs)) (Fin 1000000000)
     else \<exists>x. to_num (jopt order ''outAmount'') = Inr x \<and> v = jdiv x (Fin 1000000000))"
  using assms by (auto simp: check_order_def bindE_Inr_iff LAMPORTS_def jor_def split: prod.splits if_splits)

text \<open>What is asked of the swap service.\<close>

lemma swap_legs_Inr:
  assumes "swap_legs intent = Inr legs"
  shows "truthy (si_token intent) \<and> jlt (Fin 0) (snd (snd legs)) \<and>
    (if si_kind intent = ''buy'' then legs = (JStr SOL_MINT, si_token intent, jfloor (jmul (si_sizeSol intent) (Fin 1000000000)))
     else \<exists>a. to_num (si_amount intent) = Inr a \<and> legs = (si_token intent, JStr SOL_MINT, jfloor a))"
  using assms by (auto simp: swap_legs_def bindE_Inr_iff LAMPORTS_def split: if_splits)

lemma order_params_Inr:
  assumes "order_params address intent legs = Inr params"
  shows "(''amount'', num_str (snd (snd legs))) \<in> set params \<and> (''taker'', address) \<in> set params"
  using assms by (auto simp: order_params_def bindE_Inr_iff split: prod.splits)

section \<open>Properties\<close>

text \<open>C22. On every well-formed transaction (legacy or versioned, any signatures, keys and instructions), the
  inspection accepts exactly when the wallet is one of the required signers and every instruction
  whose program is one of the message's own keys invokes an allowlisted program; it then reports
  the programs it could not resolve, the fee payer and the wallet's index. The byte parser thereby
  agrees with the structured view of the format.\<close>

theorem inspectTransaction_spec:
  assumes "sigs_ok sigs" "message_ok m"
  shows "inspectTransaction extra (tx_b64 sigs m) pubkey =
    (case index_of pubkey (ms_keys m) of
       None \<Rightarrow> Inl tx_rejected
     | Some i \<Rightarrow>
         if unat (ms_numReqSig m) \<le> i \<or>
            \<not> ixs_allowed (allowed_programs extra) (map base58 (ms_keys m)) (ms_ixs m)
         then Inl tx_rejected
         else Inr \<lparr> un_resolved = ixs_unresolved (map base58 (ms_keys m)) (ms_ixs m),
                   fee_payer = elem_at (map base58 (ms_keys m)) 0, signer_index = i \<rparr>)"
  by (rule inspect_enc [OF assms])

definition key_of :: "byte \<Rightarrow> bytes" where
  "key_of b = replicate 32 b"

lemma key_of_length [simp]: "length (key_of b) = 32"
  by (simp add: key_of_def)

lemma key_of_eq [simp]: "key_of a = key_of b \<longleftrightarrow> a = b"
  by (simp add: key_of_def)

definition blank_sig :: bytes where
  "blank_sig = replicate 64 0"

lemma blank_sig_length [simp]: "length blank_sig = 64"
  by (simp add: blank_sig_def)

definition sample_message :: message where
  "sample_message = \<lparr> ms_version = Some 0x80, ms_numReqSig = 2, ms_roSigned = 0, ms_roUnsigned = 1,
     ms_keys = [key_of 9, key_of 7, key_of 0], ms_blockhash = key_of 1,
     ms_ixs = [\<lparr> ix_program = 2, ix_accounts = [0, 1], ix_data = [3, 0, 0] \<rparr>,
               \<lparr> ix_program = 5, ix_accounts = [], ix_data = [] \<rparr>], ms_rest = [0] \<rparr>"

lemma sample_message_ok: "message_ok sample_message"
  by (simp add: message_ok_def sample_message_def)

lemma sample_sigs_ok: "sigs_ok [blank_sig, blank_sig]"
  by (simp add: sigs_ok_def)

lemma system_program: "base58 (key_of 0) = ''11111111111111111111111111111111''"
  unfolding key_of_def by code_simp

lemma sample_view:
  "index_of (key_of 7) (ms_keys sample_message) = Some 1" "unat (ms_numReqSig sample_message) = 2"
  "ixs_allowed (allowed_programs []) (map base58 (ms_keys sample_message)) (ms_ixs sample_message)"
  "ixs_unresolved (map base58 (ms_keys sample_message)) (ms_ixs sample_message) = [Some 5]"
  "elem_at (map base58 (ms_keys sample_message)) 0 = Some (base58 (key_of 9))"
  "distinct (ms_keys sample_message)"
  by (simp_all add: sample_message_def ixs_allowed_def ixs_unresolved_def allowed_programs_def BASE_PROGRAMS_def
      system_program)

theorem inspectTransaction_spec_witness:
  "inspectTransaction [] (tx_b64 [blank_sig, blank_sig] sample_message) (key_of 7) =
     Inr \<lparr> un_resolved = [Some 5], fee_payer = Some (base58 (key_of 9)), signer_index = 1 \<rparr>"
  using inspectTransaction_spec [OF sample_sigs_ok sample_message_ok, of "[]" "key_of 7"]
  by (simp add: sample_view del: One_nat_def)

text \<open>Signing fills the wallet's own signature slot with its signature over the message and leaves every
  other byte of the transaction, the message above all, as it was.\<close>

theorem signSerializedTx_spec:
  assumes "sigs_ok sigs" "message_ok m" "distinct (ms_keys m)" "index_of (kp_pubkey kp) (ms_keys m) = Some i"
    and "i < unat (ms_numReqSig m)" "i < length sigs" "fromSeed (exportSpki C) seed = Inr kp" "signs_verify C"
  shows "signSerializedTx C seed (kp_pubkey kp) (tx_b64 sigs m) =
      Inr (base64_enc (enc_tx (sigs[i := sign C (kp_priv kp) (enc_message m)]) (enc_message m))) \<and>
    verify C (kp_pubkey kp) (enc_message m) (sign C (kp_priv kp) (enc_message m)) = Inr True"
  using assms(7,8) sign_enc [OF assms(1,2), of "kp_pubkey kp" i C seed kp] assms(3-6)
  unfolding signs_verify_def by (metis last_index_distinct)

theorem signSerializedTx_spec_witness:
  "signSerializedTx toy_crypto (replicate 32 7) (kp_pubkey (toy_keypair 7)) (tx_b64 [blank_sig, blank_sig] sample_message) =
      Inr (base64_enc (enc_tx ([blank_sig, blank_sig]
         [1 := sign toy_crypto (kp_priv (toy_keypair 7)) (enc_message sample_message)]) (enc_message sample_message))) \<and>
   verify toy_crypto (kp_pubkey (toy_keypair 7)) (enc_message sample_message)
      (sign toy_crypto (kp_priv (toy_keypair 7)) (enc_message sample_message)) = Inr True"
proof -
  have "kp_pubkey (toy_keypair 7) = key_of 7" by (simp add: toy_keypair_def key_of_def)
  then show ?thesis
    by (intro signSerializedTx_spec [OF sample_sigs_ok sample_message_ok _ _ _ _ toy_fromSeed toy_signs_verify])
       (simp_all add: sample_view)
qed


definition sample_env :: swap_env where
  "sample_env = \<lparr> se_parseUrl = (\<lambda>_. Some \<lparr> url_protocol = ''https:'', url_hostname = ''lite-api.jup.ag'' \<rparr>),
     se_get = (\<lambda>_ _. Inr (True, Some (JObj [(''transaction'', tx_b64 [blank_sig, blank_sig] sample_message),
        (''requestId'', JStr ''q''), (''inAmount'', JNum (Fin 1000000000))]))),
     se_post = (\<lambda>_ _. Inr (True, Some (JObj [(''status'', JStr ''Success'')]))), se_extra = [], se_apiBase = [] \<rparr>"

definition sample_swap :: swap_intent where
  "sample_swap = \<lparr> si_kind = ''buy'', si_token = JStr ''T'', si_sizeSol = Fin 1, si_amount = JUndef, si_maxSlippageBps = JUndef \<rparr>"

lemma no_cap: "\<not> jlt (jadd PInf c) x"
  by (cases c; cases x) auto

lemma base64_enc_Nil: "base64_enc bs = [] \<longleftrightarrow> bs = []"
  by (cases "map unat bs" rule: b64_groups.cases) (auto simp: base64_enc_def)

lemma tx_b64_truthy: "truthy (tx_b64 sigs m)"
proof -
  have "enc_tx sigs (enc_message m) \<noteq> []" by (simp add: enc_tx_def enc_message_def)
  then show ?thesis by (simp add: tx_b64_def base64_enc_Nil)
qed

lemma sample_prepare:
  "prepare_swap toy_crypto sample_env (replicate 32 7) (base58 (key_of 7)) sample_swap PInf PInf =
     Inr (''https://lite-api.jup.ag'', JObj [(''transaction'', tx_b64 [blank_sig, blank_sig] sample_message),
        (''requestId'', JStr ''q''), (''inAmount'', JNum (Fin 1000000000))], Fin 1,
       \<lparr> un_resolved = [Some 5], fee_payer = Some (base58 (key_of 9)), signer_index = 1 \<rparr>,
       base64_enc (enc_tx [blank_sig, sign toy_crypto (kp_priv (toy_keypair 7)) (enc_message sample_message)]
         (enc_message sample_message)))"
proof -
  have base: "assertSafeBase (se_parseUrl sample_env) (if se_apiBase sample_env = [] then ''https://lite-api.jup.ag'' else se_apiBase sample_env)
      = Inr ''https://lite-api.jup.ag''"
    by (simp add: assertSafeBase_def sample_env_def strip_slash_def)
  have legs: "swap_legs sample_swap = Inr (JStr SOL_MINT, JStr ''T'', Fin 1000000000)"
    using fl_int [of 1000000000] by (simp add: swap_legs_def sample_swap_def LAMPORTS_def)
  have chk: "check_order sample_swap PInf PInf (JStr SOL_MINT, JStr ''T'', Fin 1000000000)
      (JObj [(''transaction'', tx_b64 [blank_sig, blank_sig] sample_message),
        (''requestId'', JStr ''q''), (''inAmount'', JNum (Fin 1000000000))]) = Inr (Fin 1)"
    using fl_int [of 1] no_cap
    by (simp add: check_order_def sample_swap_def jopt_def tx_b64_truthy inherited_def object_members_def jor_def jtruthy_def LAMPORTS_def)
  have insp: "inspectTransaction [] (tx_b64 [blank_sig, blank_sig] sample_message) (key_of 7) =
     Inr \<lparr> un_resolved = [Some 5], fee_payer = Some (base58 (key_of 9)), signer_index = 1 \<rparr>"
    unfolding inspect_enc [OF sample_sigs_ok sample_message_ok] by (simp add: sample_view del: One_nat_def)
  have sg: "signSerializedTx toy_crypto (replicate 32 7) (key_of 7) (tx_b64 [blank_sig, blank_sig] sample_message) =
      Inr (base64_enc (enc_tx [blank_sig, sign toy_crypto (kp_priv (toy_keypair 7)) (enc_message sample_message)]
         (enc_message sample_message)))"
    using sign_enc [OF sample_sigs_ok sample_message_ok _ _ _ toy_fromSeed, of "key_of 7" 1 7] toy_signs_verify toy_fromSeed [of 7]
    by (simp add: sample_view last_index_distinct signs_verify_def)
  show ?thesis
    unfolding prepare_swap_def base bindE_simps base58decode_base58 legs
    using chk insp sg
    by (simp add: order_params_def sample_swap_def [symmetric] http_json_def jopt_def)
       (simp add: sample_env_def sample_swap_def jopt_def)
qed


end
