(* ===== verification/Withdraw.thy ===== *)
theory Withdraw
  imports Submit
begin

text \<open>
  signer/withdraw.js: the owner-recovery transfer. The network is a parameter \<open>net\<close> that answers a
  call given the calls made before it; the operations thread the list of calls made, so what was
  sent is part of the result, also when it is an error. An RPC error carries the \<open>transient\<close> flag
  the failover reads. A block hash that is not a string is treated as an error.
\<close>

section \<open>The transfer transaction\<close>

definition SYS_PROGRAM :: bytes where
  "SYS_PROGRAM = replicate 32 0"

definition TOKEN_PID :: string where
  "TOKEN_PID = ''TokenkegQfeZyiNwAJbNbGKPFXCWuBvf9Ss623VQ5DA''"

definition TOKEN2022_PID :: string where
  "TOKEN2022_PID = ''TokenzQdBNbLqP5VEhdkAS6EPFLC1PHnBqCXEpPxuEb''"

definition FEE_RESERVE :: int where
  "FEE_RESERVE = 5000"

text \<open>\<open>writeUInt32LE\<close> and \<open>writeBigUInt64LE\<close>, which throws out of range.\<close>

fun le_bytes :: "nat \<Rightarrow> nat \<Rightarrow> bytes" where
  "le_bytes 0 n = []"
| "le_bytes (Suc k) n = of_nat (n mod 256) # le_bytes k (n div 256)"

definition write_u64 :: "int \<Rightarrow> bytes res" where
  "write_u64 n = (if 0 \<le> n \<and> n < 2 ^ 64 then Inr (le_bytes 8 (nat n)) else Inl (Err 0 ''ERR_OUT_OF_RANGE''))"

definition buildSolTransferMessage :: "bytes \<Rightarrow> bytes \<Rightarrow> int \<Rightarrow> string \<Rightarrow> bytes res" where
  "buildSolTransferMessage from to lamports blockhashB58 =
     bindE (base58decode blockhashB58) (\<lambda>bh.
       if length from \<noteq> 32 \<or> length to \<noteq> 32 \<or> length bh \<noteq> 32 then Inl (Err 0 ''bad pubkey/blockhash length'')
       else let header = [1, 0, 1]; keys = compactU16 3 @ from @ to @ SYS_PROGRAM
         in bindE (write_u64 lamports) (\<lambda>amount.
            let data = le_bytes 4 2 @ amount;
                ix = [2] @ compactU16 2 @ [0, 1] @ compactU16 (length data) @ data;
                ixs = compactU16 1 @ ix
            in Inr (header @ keys @ bh @ ixs)))"

definition signTransferTx :: "crypto \<Rightarrow> bytes \<Rightarrow> bytes \<Rightarrow> string res" where
  "signTransferTx C seed msg = bindE (fromSeed (exportSpki C) seed) (\<lambda>kp.
     Inr (base64_enc (compactU16 1 @ sign C (kp_priv kp) msg @ msg)))"

section \<open>RPC with failover\<close>

datatype rpc_reply = NetFail | Reply (rp_ok: bool) (rp_status: nat) (rp_body: "jsval option")

record rpc_call =
  rc_url :: string
  rc_method :: string
  rc_params :: jsval

type_synonym network = "rpc_call list \<Rightarrow> rpc_call \<Rightarrow> rpc_reply"

definition FAILOVER_HTTP :: "nat set" where
  "FAILOVER_HTTP = {403, 408, 409, 425, 429, 500, 502, 503, 504}"

definition FAILOVER_RPC_CODE :: "jsval set" where
  "FAILOVER_RPC_CODE = {JNum (Fin (- 32429)), JNum (Fin (- 32005)), JNum (Fin (- 32004))}"

type_synonym rpc_result = "(bool \<times> err) + jsval"

definition rpcOnce :: "rpc_reply \<Rightarrow> rpc_result" where
  "rpcOnce rep = (case rep of
       NetFail \<Rightarrow> Inl (True, Err 0 ''network'')
     | Reply ok status body \<Rightarrow>
         let j = (case body of Some v \<Rightarrow> v | None \<Rightarrow> JObj [])
         in if \<not> ok then Inl (status \<in> FAILOVER_HTTP, Err 0 ''http'')
            else case jget j ''error'' of
                Inl e \<Rightarrow> Inl (False, e)
              | Inr er \<Rightarrow> if truthy er then Inl (jopt er ''code'' \<in> FAILOVER_RPC_CODE, Err 0 ''rpc'')
                           else Inr (jopt j ''result''))"

fun rpc_loop :: "network \<Rightarrow> string \<Rightarrow> jsval \<Rightarrow> string list \<Rightarrow> rpc_call list \<Rightarrow> rpc_result \<times> rpc_call list" where
  "rpc_loop net meth params [] h = (Inl (True, Err 0 ''none''), h)"
| "rpc_loop net meth params (u # us) h =
     (let c = \<lparr> rc_url = u, rc_method = meth, rc_params = params \<rparr>; h' = h @ [c]
      in case rpcOnce (net h c) of
           Inr v \<Rightarrow> (Inr v, h')
         | Inl (transient, e) \<Rightarrow>
             if \<not> transient \<or> us = [] then (Inl (transient, e), h') else rpc_loop net meth params us h')"

definition rpc :: "network \<Rightarrow> string list \<Rightarrow> string \<Rightarrow> jsval \<Rightarrow> rpc_call list \<Rightarrow> jsval res \<times> rpc_call list" where
  "rpc net url meth params h =
     (let endpoints = filter (\<lambda>u. u \<noteq> []) (map trim url)
      in if endpoints = [] then (Inl (Err 503 ''rpc-unavailable''), h)
         else case rpc_loop net meth params endpoints h of
             (Inr v, h') \<Rightarrow> (Inr v, h')
           | (Inl (transient, e), h') \<Rightarrow>
               (Inl (if transient then Err 503 ''rpc-unavailable'' else e), h'))"

section \<open>Balances\<close>

text \<open>\<open>BigInt(v)\<close>.\<close>

definition str_bigint :: "string \<Rightarrow> int res" where
  "str_bigint s0 = (let s = trim s0;
       signed = (take 1 s = ''-'' \<or> take 1 s = ''+'');
       ds = (if signed then drop 1 s else s)
     in if s = [] then Inr 0
        else if take 2 s \<in> {''0x'', ''0X'', ''0o'', ''0O'', ''0b'', ''0B''} then
          (let b = (if take 2 s \<in> {''0x'', ''0X''} then 16 else if take 2 s \<in> {''0o'', ''0O''} then 8 else 2);
               r = drop 2 s
           in if r \<noteq> [] \<and> list_all (\<lambda>c. case hex_val c of None \<Rightarrow> False | Some d \<Rightarrow> d < b) r
              then Inr (int (digits_value b (map (\<lambda>c. the (hex_val c)) r))) else Inl (Err 0 ''SyntaxError''))
        else if ds \<noteq> [] \<and> list_all is_digit ds
        then Inr ((if take 1 s = ''-'' then - 1 else 1) * int (digits_value 10 (map digit_val ds)))
        else Inl (Err 0 ''SyntaxError''))"

fun num_bigint :: "jsnum \<Rightarrow> int res" where
  "num_bigint (Fin q) = (if of_int \<lfloor>q\<rfloor> = q then Inr \<lfloor>q\<rfloor> else Inl (Err 0 ''RangeError''))"
| "num_bigint _ = Inl (Err 0 ''RangeError'')"

fun to_bigint :: "jsval \<Rightarrow> int res" where
  "to_bigint JUndef = Inl type_error"
| "to_bigint JNull = Inl type_error"
| "to_bigint (JBool b) = Inr (if b then 1 else 0)"
| "to_bigint (JNum x) = num_bigint x"
| "to_bigint (JStr s) = str_bigint s"
| "to_bigint v = bindE (to_str v) str_bigint"

definition commitment_opt :: jsval where
  "commitment_opt = JObj [(''commitment'', JStr ''confirmed'')]"

definition getBalanceLamports :: "network \<Rightarrow> string list \<Rightarrow> string \<Rightarrow> rpc_call list \<Rightarrow> int res \<times> rpc_call list" where
  "getBalanceLamports net url address h =
     bindS (rpc net url ''getBalance'' (JArr [JStr address, commitment_opt]) h) (\<lambda>r h.
       (bindE (jget r ''value'') to_bigint, h))"

fun any_positive :: "jsval list \<Rightarrow> bool res" where
  "any_positive [] = Inr False"
| "any_positive (acc # accs) = bindE (jget acc ''account'') (\<lambda>a.
     let amt = jopt (jopt (jopt (jopt (jopt a ''data'') ''parsed'') ''info'') ''tokenAmount'') ''amount''
     in if truthy amt then bindE (to_bigint amt) (\<lambda>n. if 0 < n then Inr True else any_positive accs)
        else any_positive accs)"

definition token_accounts :: "jsval \<Rightarrow> jsval list res" where
  "token_accounts v = (if \<not> truthy v then Inr []
     else case v of JArr xs \<Rightarrow> Inr xs | JStr s \<Rightarrow> Inr (map (\<lambda>c. JStr [c]) s) | _ \<Rightarrow> Inl type_error)"

fun token_loop :: "network \<Rightarrow> string list \<Rightarrow> string \<Rightarrow> string list \<Rightarrow> rpc_call list \<Rightarrow> bool res \<times> rpc_call list" where
  "token_loop net url address [] h = (Inr False, h)"
| "token_loop net url address (pid # pids) h =
     bindS (rpc net url ''getTokenAccountsByOwner'' (JArr [JStr address, JObj [(''programId'', JStr pid)],
              JObj [(''encoding'', JStr ''jsonParsed''), (''commitment'', JStr ''confirmed'')]]) h) (\<lambda>r h.
     bindS (bindE (bindE (jget r ''value'') token_accounts) any_positive, h) (\<lambda>b h.
       if b then (Inr True, h) else token_loop net url address pids h))"

definition hasTokenBalance :: "network \<Rightarrow> string list \<Rightarrow> string \<Rightarrow> rpc_call list \<Rightarrow> bool res \<times> rpc_call list" where
  "hasTokenBalance net url address h = token_loop net url address [TOKEN_PID, TOKEN2022_PID] h"

section \<open>The withdrawal\<close>

record withdrawal =
  wd_signature :: jsval
  wd_lamports :: int
  wd_remaining :: int

text \<open>The polls: \<open>None\<close> when none of the \<open>n\<close> polls saw the transfer confirmed.\<close>

fun confirm_loop :: "network \<Rightarrow> string list \<Rightarrow> jsval \<Rightarrow> nat \<Rightarrow> rpc_call list \<Rightarrow> unit res \<times> rpc_call list" where
  "confirm_loop net url sig 0 h = (Inr (), h)"
| "confirm_loop net url sig (Suc n) h =
     bindS (rpc net url ''getSignatureStatuses'' (JArr [JArr [sig]]) h) (\<lambda>r h.
     bindS (bindE (jget r ''value'') (\<lambda>v. Inr (jopt v ''0'')), h) (\<lambda>st h.
       if truthy st \<and> (strict_eq (jopt st ''confirmationStatus'') (JStr ''confirmed'') \<or>
                       strict_eq (jopt st ''confirmationStatus'') (JStr ''finalized''))
       then if truthy (jopt st ''err'') then (Inl (Err 502 ''tx-failed''), h) else (Inr (), h)
       else confirm_loop net url sig n h))"

definition blockhash_of :: "jsval \<Rightarrow> string res" where
  "blockhash_of r = bindE (jget r ''value'') (\<lambda>v. bindE (jget v ''blockhash'') (\<lambda>b.
     case b of JStr s \<Rightarrow> Inr s | _ \<Rightarrow> Inl (Err 0 ''bad pubkey/blockhash length'')))"

definition withdrawSol ::
  "crypto \<Rightarrow> network \<Rightarrow> string list \<Rightarrow> bytes \<Rightarrow> string \<Rightarrow> string \<Rightarrow> jsnum option \<Rightarrow> rpc_call list \<Rightarrow>
   withdrawal res \<times> rpc_call list" where
  "withdrawSol C net url seed fromB58 ownerB58 lamports h =
     (if ownerB58 = [] then (Inl (Err 409 ''no-owner''), h)
      else bindS (bindE (base58decode fromB58) (\<lambda>a. bindE (base58decode ownerB58) (\<lambda>b. Inr (a, b))), h) (\<lambda>(fromPub, ownerPub) h.
      bindS (getBalanceLamports net url fromB58 h) (\<lambda>bal h.
      let spendable = bal - FEE_RESERVE
      in bindS (case lamports of Some x \<Rightarrow> num_bigint x | None \<Rightarrow> Inr spendable, h) (\<lambda>send h.
         if send \<le> 0 then (Inl (Err 400 ''empty''), h)
         else if spendable < send then (Inl (Err 400 ''insufficient''), h)
         else
           bindS (rpc net url ''getLatestBlockhash'' (JArr [commitment_opt]) h) (\<lambda>r h.
           bindS (bindE (blockhash_of r) (\<lambda>bh. bindE (buildSolTransferMessage fromPub ownerPub send bh)
                    (signTransferTx C seed)), h) (\<lambda>tx h.
           bindS (rpc net url ''sendTransaction'' (JArr [JStr tx, JObj [(''encoding'', JStr ''base64''),
                    (''skipPreflight'', JBool False), (''preflightCommitment'', JStr ''confirmed'')]]) h) (\<lambda>sig h.
           bindS (confirm_loop net url sig 15 h) (\<lambda>_ h.
           (Inr \<lparr> wd_signature = sig, wd_lamports = send, wd_remaining = bal - send - FEE_RESERVE \<rparr>, h)))))))))"

section \<open>The transfer as a structured transaction\<close>

definition transfer_message :: "bytes \<Rightarrow> bytes \<Rightarrow> int \<Rightarrow> bytes \<Rightarrow> message" where
  "transfer_message from to lamports bh = \<lparr> ms_version = None, ms_numReqSig = 1, ms_roSigned = 0, ms_roUnsigned = 1,
     ms_keys = [from, to, SYS_PROGRAM], ms_blockhash = bh,
     ms_ixs = [\<lparr> ix_program = 2, ix_accounts = [0, 1], ix_data = le_bytes 4 2 @ le_bytes 8 (nat lamports) \<rparr>],
     ms_rest = [] \<rparr>"

lemma le_bytes_length [simp]: "length (le_bytes k n) = k"
  by (induction k n rule: le_bytes.induct) auto

lemma le_bytes_value: "n < 256 ^ k \<Longrightarrow> le_val 256 (map unat (le_bytes k n)) = n"
proof (induction k n rule: le_bytes.induct)
  case (2 k n)
  have "n div 256 < 256 ^ k" using 2(2) by (simp add: less_mult_imp_div_less mult.commute)
  then have "le_val 256 (map unat (le_bytes k (n div 256))) = n div 256" by (rule 2(1))
  moreover have "unat (of_nat (n mod 256) :: byte) = n mod 256" by (simp add: unsigned_of_nat take_bit_nat_eq_self)
  ultimately show ?case by simp
qed simp

lemma transfer_message_ok: "length from = 32 \<Longrightarrow> length to = 32 \<Longrightarrow> length bh = 32 \<Longrightarrow>
   message_ok (transfer_message from to n bh)"
  by (auto simp: message_ok_def transfer_message_def SYS_PROGRAM_def)

lemma build_enc:
  assumes "base58decode b = Inr bh" "length from = 32" "length to = 32" "length bh = 32" "0 \<le> n" "n < 2 ^ 64"
  shows "buildSolTransferMessage from to n b = Inr (enc_message (transfer_message from to n bh))"
proof -
  have "compactU16 3 = compactU16 (Suc (Suc (Suc 0)))" "compactU16 2 = compactU16 (Suc (Suc 0))"
    by (simp_all add: numeral_3_eq_3 numeral_2_eq_2)
  then show ?thesis
    using assms by (simp add: buildSolTransferMessage_def write_u64_def Let_def enc_message_def transfer_message_def enc_ix_def)
qed

lemma build_Inr:
  assumes "buildSolTransferMessage from to n b = Inr msg"
  shows "\<exists>bh. base58decode b = Inr bh \<and> length from = 32 \<and> length to = 32 \<and> length bh = 32 \<and> 0 \<le> n \<and> n < 2 ^ 64 \<and>
    msg = enc_message (transfer_message from to n bh)"
proof -
  obtain bh where bh: "base58decode b = Inr bh" and l: "length from = 32" "length to = 32" "length bh = 32"
    and n: "0 \<le> n" "n < 2 ^ 64"
    using assms by (auto simp: buildSolTransferMessage_def bindE_Inr_iff write_u64_def split: if_splits)
  then show ?thesis using build_enc [OF bh l n] assms by auto
qed

lemma signTransferTx_enc:
  assumes "fromSeed (exportSpki C) seed = Inr kp"
  shows "signTransferTx C seed (enc_message m) =
    Inr (base64_enc (enc_tx [sign C (kp_priv kp) (enc_message m)] (enc_message m)))"
  by (simp add: signTransferTx_def assms enc_tx_def)

lemma system_allowed: "base58 SYS_PROGRAM \<in> allowed_programs extra"
  using system_program by (simp add: allowed_programs_def BASE_PROGRAMS_def SYS_PROGRAM_def key_of_def)

section \<open>Calls\<close>

definition call :: "string \<Rightarrow> jsval \<Rightarrow> string \<Rightarrow> rpc_call" where
  "call meth params u = \<lparr> rc_url = u, rc_method = meth, rc_params = params \<rparr>"

lemma rpc_loop_calls: "\<exists>us'. snd (rpc_loop net meth params us h) = h @ map (call meth params) us'"
proof (induction net meth params us h rule: rpc_loop.induct)
  case (2 net meth params u us h)
  let ?c = "\<lparr> rc_url = u, rc_method = meth, rc_params = params \<rparr>"
  show ?case
  proof (cases "rpcOnce (net h ?c)")
    case (Inr v)
    then show ?thesis by (intro exI [of _ "[u]"]) (simp add: Let_def call_def)
  next
    case (Inl te)
    obtain t e where te: "te = (t, e)" by (cases te)
    show ?thesis
    proof (cases "\<not> t \<or> us = []")
      case True
      then show ?thesis using Inl te by (intro exI [of _ "[u]"]) (auto simp: Let_def call_def)
    next
      case False
      then obtain us' where "snd (rpc_loop net meth params us (h @ [?c])) = (h @ [?c]) @ map (call meth params) us'"
        using 2 [OF refl refl Inl te [THEN sym] False] by blast
      then show ?thesis using Inl te False by (intro exI [of _ "u # us'"]) (auto simp: Let_def call_def)
    qed
  qed
qed (auto intro: exI [of _ "[]"])

lemma rpc_calls: "\<exists>us. snd (rpc net url meth params h) = h @ map (call meth params) us"
proof (cases "filter (\<lambda>u. u \<noteq> []) (map trim url) = []")
  case True
  then show ?thesis by (intro exI [of _ "[]"]) (simp add: rpc_def Let_def)
next
  case False
  have "snd (rpc net url meth params h) = snd (rpc_loop net meth params (filter (\<lambda>u. u \<noteq> []) (map trim url)) h)"
    using False by (auto simp: rpc_def Let_def split: prod.splits sum.splits)
  then show ?thesis using rpc_loop_calls by metis
qed

text \<open>Calls of other methods than \<open>sendTransaction\<close> only.\<close>

definition quiet :: "rpc_call list \<Rightarrow> rpc_call list \<Rightarrow> bool" where
  "quiet h h' = (\<exists>cs. h' = h @ cs \<and> (\<forall>c \<in> set cs. rc_method c \<noteq> ''sendTransaction''))"

lemma quiet_refl [simp]: "quiet h h"
  by (simp add: quiet_def)

lemma quiet_trans: "quiet h h1 \<Longrightarrow> quiet h1 h2 \<Longrightarrow> quiet h h2"
  by (auto simp: quiet_def)

lemma rpc_quiet: "rpc net url meth params h = (r, h') \<Longrightarrow> meth \<noteq> ''sendTransaction'' \<Longrightarrow> quiet h h'"
  using rpc_calls [of net url meth params h] by (auto simp: quiet_def call_def)

lemma bindS_quiet:
  "bindS r f = (x, h') \<Longrightarrow> quiet h (snd r) \<Longrightarrow> (\<And>y s. r = (Inr y, s) \<Longrightarrow> f y s = (x, h') \<Longrightarrow> quiet s h') \<Longrightarrow> quiet h h'"
  by (cases r; cases "fst r") (auto intro: quiet_trans)

lemma getBalance_quiet: "getBalanceLamports net url a h = (r, h') \<Longrightarrow> quiet h h'"
  unfolding getBalanceLamports_def
  by (erule bindS_quiet) (auto intro!: rpc_quiet [OF prod.collapse [symmetric]])

lemma confirm_quiet: "confirm_loop net url sig n h = (r, h') \<Longrightarrow> quiet h h'"
proof (induction net url sig n h arbitrary: r h' rule: confirm_loop.induct)
  case (2 net url sig n h)
  show ?case
    using 2(2) unfolding confirm_loop.simps
    apply (rule bindS_quiet)
     apply (rule rpc_quiet [OF prod.collapse [symmetric]])
     apply simp
    apply (erule bindS_quiet)
     apply simp
    using 2(1) apply (auto split: if_splits)
    done
qed simp

lemma bindS_cases:
  assumes "bindS r f = (x, h')"
  shows "(\<exists>e. r = (Inl e, h') \<and> x = Inl e) \<or> (\<exists>y s. r = (Inr y, s) \<and> f y s = (x, h'))"
  using assms by (cases r; cases "fst r") auto

definition send_params :: "string \<Rightarrow> jsval" where
  "send_params tx = JArr [JStr tx, JObj [(''encoding'', JStr ''base64''),
     (''skipPreflight'', JBool False), (''preflightCommitment'', JStr ''confirmed'')]]"

text \<open>Every transaction sent is \<open>tx\<close>.\<close>

definition sends_only :: "string \<Rightarrow> rpc_call list \<Rightarrow> rpc_call list \<Rightarrow> bool" where
  "sends_only tx h h' = (\<exists>cs. h' = h @ cs \<and> (\<forall>c \<in> set cs. rc_method c = ''sendTransaction'' \<longrightarrow> rc_params c = send_params tx))"

lemma quiet_sends: "quiet h h' \<Longrightarrow> sends_only tx h h'"
  by (auto simp: quiet_def sends_only_def)

lemma sends_trans: "sends_only tx h h1 \<Longrightarrow> sends_only tx h1 h2 \<Longrightarrow> sends_only tx h h2"
  by (fastforce simp: sends_only_def)

lemma send_tail:
  assumes "bindS (rpc net url ''sendTransaction'' (send_params tx) h) (\<lambda>sig h.
             bindS (confirm_loop net url sig 15 h) (\<lambda>_ h. (f sig, h))) = (res, h')"
  shows "sends_only tx h h'"
proof -
  obtain us where us: "snd (rpc net url ''sendTransaction'' (send_params tx) h) = h @ map (call ''sendTransaction'' (send_params tx)) us"
    using rpc_calls by blast
  have s: "sends_only tx h (h @ map (call ''sendTransaction'' (send_params tx)) us)"
    by (auto simp: sends_only_def call_def)
  from bindS_cases [OF assms] show ?thesis
  proof (elim disjE exE conjE)
    fix e assume "rpc net url ''sendTransaction'' (send_params tx) h = (Inl e, h')"
    then show ?thesis using us s by simp
  next
    fix sig h1 assume r: "rpc net url ''sendTransaction'' (send_params tx) h = (Inr sig, h1)"
      and c: "bindS (confirm_loop net url sig 15 h1) (\<lambda>_ h. (f sig, h)) = (res, h')"
    have "quiet h1 h'" using bindS_cases [OF c] confirm_quiet by fastforce
    then show ?thesis using us s r by (auto intro: sends_trans quiet_sends)
  qed
qed

text \<open>The transfer a withdrawal may send: from the wallet to the owner, a positive amount that leaves the fee.\<close>

definition owner_transfer :: "crypto \<Rightarrow> bytes \<Rightarrow> string \<Rightarrow> string \<Rightarrow> jsnum option \<Rightarrow> int \<Rightarrow> string \<Rightarrow> bool" where
  "owner_transfer C seed fromB58 ownerB58 lamports bal tx =
     (\<exists>fromPub ownerPub send bh msg. base58decode fromB58 = Inr fromPub \<and> base58decode ownerB58 = Inr ownerPub \<and>
        0 < send \<and> send \<le> bal - FEE_RESERVE \<and>
        (case lamports of None \<Rightarrow> send = bal - FEE_RESERVE | Some x \<Rightarrow> num_bigint x = Inr send) \<and>
        buildSolTransferMessage fromPub ownerPub send bh = Inr msg \<and> signTransferTx C seed msg = Inr tx)"

lemma bindS_step:
  assumes "bindS r f = (x, h')" "quiet h (snd r)"
    and "quiet h h' \<Longrightarrow> P" "\<And>y s. r = (Inr y, s) \<Longrightarrow> f y s = (x, h') \<Longrightarrow> quiet h s \<Longrightarrow> P"
  shows P
  using bindS_cases [OF assms(1)] assms(2-4) by auto

text \<open>From the block hash on, with the addresses decoded and the amount fixed.\<close>

lemma withdraw_transfer_sends:
  assumes "bindS (rpc net url ''getLatestBlockhash'' params h) (\<lambda>r h.
      bindS (bindE (blockhash_of r) (\<lambda>bh. bindE (buildSolTransferMessage a b send bh) (signTransferTx C seed)), h) (\<lambda>tx h.
      bindS (rpc net url ''sendTransaction'' (send_params tx) h) (\<lambda>sig h.
      bindS (confirm_loop net url sig 15 h) (\<lambda>_ h. (f sig, h))))) = (res, h')"
  shows "quiet h h' \<or> (\<exists>tx bh msg. buildSolTransferMessage a b send bh = Inr msg \<and> signTransferTx C seed msg = Inr tx \<and>
    sends_only tx h h')"
proof (rule bindS_step [OF assms, of h])
  show "quiet h (snd (rpc net url ''getLatestBlockhash'' params h))"
    by (rule rpc_quiet [OF prod.collapse [symmetric]]) simp
next
  fix r s assume q: "quiet h s" and t: "bindS (bindE (blockhash_of r) (\<lambda>bh. bindE (buildSolTransferMessage a b send bh)
      (signTransferTx C seed)), s) (\<lambda>tx h. bindS (rpc net url ''sendTransaction'' (send_params tx) h) (\<lambda>sig h.
      bindS (confirm_loop net url sig 15 h) (\<lambda>_ h. (f sig, h)))) = (res, h')"
  show ?thesis
  proof (rule bindS_step [OF t, of h])
    fix tx s' assume b: "(bindE (blockhash_of r) (\<lambda>bh. bindE (buildSolTransferMessage a b send bh)
        (signTransferTx C seed)), s) = (Inr tx, s')"
      and l: "bindS (rpc net url ''sendTransaction'' (send_params tx) s') (\<lambda>sig h.
        bindS (confirm_loop net url sig 15 h) (\<lambda>_ h. (f sig, h))) = (res, h')" and q': "quiet h s'"
    have "sends_only tx h h'" using send_tail [OF l] q' by (auto intro: sends_trans quiet_sends)
    then show ?thesis using b by (auto simp: bindE_Inr_iff)
  qed (use q in auto)
qed auto

lemma withdraw_sends:
  assumes "withdrawSol C net url seed fromB58 ownerB58 lamports h = (res, h')"
  shows "quiet h h' \<or> (\<exists>bal h1 tx. getBalanceLamports net url fromB58 h = (Inr bal, h1) \<and>
    owner_transfer C seed fromB58 ownerB58 lamports bal tx \<and> sends_only tx h h')"
proof (cases "ownerB58 = []")
  case True
  then show ?thesis using assms by (simp add: withdrawSol_def)
next
  case False
  let ?amount = "\<lambda>bal. case lamports of Some x \<Rightarrow> num_bigint x | None \<Rightarrow> Inr (bal - FEE_RESERVE)"
  have "quiet h h' \<or> (\<exists>a b bal h1 send. base58decode fromB58 = Inr a \<and> base58decode ownerB58 = Inr b \<and>
      getBalanceLamports net url fromB58 h = (Inr bal, h1) \<and> quiet h h1 \<and> ?amount bal = Inr send \<and>
      0 < send \<and> send \<le> bal - FEE_RESERVE \<and>
      bindS (rpc net url ''getLatestBlockhash'' (JArr [commitment_opt]) h1) (\<lambda>r h.
        bindS (bindE (blockhash_of r) (\<lambda>bh. bindE (buildSolTransferMessage a b send bh) (signTransferTx C seed)), h) (\<lambda>tx h.
        bindS (rpc net url ''sendTransaction'' (send_params tx) h) (\<lambda>sig h.
        bindS (confirm_loop net url sig 15 h) (\<lambda>_ h.
        (Inr \<lparr> wd_signature = sig, wd_lamports = send, wd_remaining = bal - send - FEE_RESERVE \<rparr>, h))))) = (res, h'))"
    using assms False unfolding withdrawSol_def send_params_def [symmetric]
    by (auto simp: Let_def bindE_Inr_iff dest: getBalance_quiet dest!: bindS_cases split: if_splits)
  then show ?thesis
  proof (elim disjE exE conjE)
    fix a b bal h1 send
    assume d: "base58decode fromB58 = Inr a" "base58decode ownerB58 = Inr b" "?amount bal = Inr send"
      "0 < send" "send \<le> bal - FEE_RESERVE"
      and g: "getBalanceLamports net url fromB58 h = (Inr bal, h1)" and q: "quiet h h1"
      and t: "bindS (rpc net url ''getLatestBlockhash'' (JArr [commitment_opt]) h1) (\<lambda>r h.
        bindS (bindE (blockhash_of r) (\<lambda>bh. bindE (buildSolTransferMessage a b send bh) (signTransferTx C seed)), h) (\<lambda>tx h.
        bindS (rpc net url ''sendTransaction'' (send_params tx) h) (\<lambda>sig h.
        bindS (confirm_loop net url sig 15 h) (\<lambda>_ h.
        (Inr \<lparr> wd_signature = sig, wd_lamports = send, wd_remaining = bal - send - FEE_RESERVE \<rparr>, h))))) = (res, h')"
    have am: "case lamports of None \<Rightarrow> send = bal - FEE_RESERVE | Some x \<Rightarrow> num_bigint x = Inr send"
      using d(3) by (cases lamports) auto
    from withdraw_transfer_sends [OF t] show ?thesis
    proof (elim disjE exE conjE)
      assume "quiet h1 h'" then show ?thesis using q quiet_trans by blast
    next
      fix tx bh msg assume "buildSolTransferMessage a b send bh = Inr msg" "signTransferTx C seed msg = Inr tx" "sends_only tx h1 h'"
      then have "owner_transfer C seed fromB58 ownerB58 lamports bal tx" "sends_only tx h h'"
        using d am q by (auto simp: owner_transfer_def intro: sends_trans quiet_sends)
      then show ?thesis using g by blast
    qed
  qed simp
qed

section \<open>Properties\<close>

text \<open>C36. The transfer the signer builds by hand, signed and serialised, is a well-formed transaction that the
  signer's own inspection accepts with the wallet as signer 0 and fee payer and no unresolved
  program; its only instruction is a System transfer whose amount field holds the lamports.\<close>

theorem transfer_passes_inspection:
  assumes "fromSeed (exportSpki C) seed = Inr kp" "signs_verify C" "base58decode b = Inr bh" "length bh = 32"
    and "length to = 32" "0 \<le> n" "n < 2 ^ 64"
  shows "\<exists>msg tx. buildSolTransferMessage (kp_pubkey kp) to n b = Inr msg \<and> signTransferTx C seed msg = Inr tx \<and>
    inspectTransaction extra (JStr tx) (kp_pubkey kp) =
      Inr \<lparr> un_resolved = [], fee_payer = Some (base58 (kp_pubkey kp)), signer_index = 0 \<rparr> \<and>
    msg = enc_message (transfer_message (kp_pubkey kp) to n bh) \<and>
    le_val 256 (map unat (drop 4 (ix_data (hd (ms_ixs (transfer_message (kp_pubkey kp) to n bh)))))) = nat n"
proof -
  let ?m = "transfer_message (kp_pubkey kp) to n bh" and ?sig = "sign C (kp_priv kp) (enc_message (transfer_message (kp_pubkey kp) to n bh))"
  have l: "length (kp_pubkey kp) = 32" "length ?sig = 64"
    using assms(1,2) unfolding signs_verify_def by blast+
  have b: "buildSolTransferMessage (kp_pubkey kp) to n b = Inr (enc_message ?m)"
    using assms l by (intro build_enc)
  have s: "signTransferTx C seed (enc_message ?m) = Inr (base64_enc (enc_tx [?sig] (enc_message ?m)))"
    by (rule signTransferTx_enc [OF assms(1)])
  have so: "sigs_ok [?sig]" using l by (simp add: sigs_ok_def)
  have mo: "message_ok ?m" using l assms by (intro transfer_message_ok)
  have i: "inspectTransaction extra (JStr (base64_enc (enc_tx [?sig] (enc_message ?m)))) (kp_pubkey kp) =
      Inr \<lparr> un_resolved = [], fee_payer = Some (base58 (kp_pubkey kp)), signer_index = 0 \<rparr>"
    using inspect_enc [OF so mo, of extra "kp_pubkey kp"] system_allowed
    by (simp add: tx_b64_def transfer_message_def ixs_allowed_def ixs_unresolved_def)
  have "nat n < 256 ^ 8" using assms(6,7) by (simp add: nat_less_iff)
  then have v: "le_val 256 (map unat (drop 4 (ix_data (hd (ms_ixs ?m))))) = nat n"
    using le_bytes_value [of "nat n" 8] by (simp add: transfer_message_def)
  show ?thesis
    using b s i v by (intro exI [of _ "enc_message ?m"] exI [of _ "base64_enc (enc_tx [?sig] (enc_message ?m))"] conjI refl)
qed

theorem transfer_passes_inspection_witness:
  "\<exists>msg tx. buildSolTransferMessage (kp_pubkey (toy_keypair 7)) (key_of 3) 1500 (base58 (key_of 1)) = Inr msg \<and>
    signTransferTx toy_crypto (replicate 32 7) msg = Inr tx \<and>
    inspectTransaction [] (JStr tx) (kp_pubkey (toy_keypair 7)) =
      Inr \<lparr> un_resolved = [], fee_payer = Some (base58 (kp_pubkey (toy_keypair 7))), signer_index = 0 \<rparr> \<and>
    msg = enc_message (transfer_message (kp_pubkey (toy_keypair 7)) (key_of 3) 1500 (key_of 1)) \<and>
    le_val 256 (map unat (drop 4 (ix_data (hd (ms_ixs (transfer_message (kp_pubkey (toy_keypair 7)) (key_of 3) 1500 (key_of 1))))))) = nat 1500"
  by (rule transfer_passes_inspection [OF toy_fromSeed toy_signs_verify base58decode_base58]) simp_all

lemma owner_transfer_message:
  assumes "owner_transfer C seed fromB58 ownerB58 lamports bal tx"
  shows "\<exists>fromPub ownerPub send bh sig. base58decode fromB58 = Inr fromPub \<and> base58decode ownerB58 = Inr ownerPub \<and>
    0 < send \<and> send \<le> bal - FEE_RESERVE \<and>
    tx = base64_enc (enc_tx [sig] (enc_message (transfer_message fromPub ownerPub send bh)))"
proof -
  obtain fromPub ownerPub send b msg where o: "base58decode fromB58 = Inr fromPub" "base58decode ownerB58 = Inr ownerPub"
    "0 < send" "send \<le> bal - FEE_RESERVE" and m: "buildSolTransferMessage fromPub ownerPub send b = Inr msg"
    and t: "signTransferTx C seed msg = Inr tx"
    using assms unfolding owner_transfer_def by blast
  obtain bh where bh: "msg = enc_message (transfer_message fromPub ownerPub send bh)" using build_Inr [OF m] by blast
  obtain kp where k: "fromSeed (exportSpki C) seed = Inr kp" using t by (auto simp: signTransferTx_def bindE_Inr_iff)
  show ?thesis using o t signTransferTx_enc [OF k] unfolding bh by auto
qed

text \<open>C11. A withdrawal, whatever the network answers and however it ends, sends at most one transaction (the
  same bytes again when an endpoint fails): a transfer from the wallet to the committed owner
  address of a positive amount that leaves the fee reserve of the balance read first.\<close>

theorem withdraw_sends_only_to_owner:
  assumes "withdrawSol C net url seed fromB58 ownerB58 lamports h = (res, h')"
  shows "\<exists>cs. h' = h @ cs \<and>
    ((\<forall>c \<in> set cs. rc_method c \<noteq> ''sendTransaction'') \<or>
     (\<exists>bal h1 fromPub ownerPub send bh sig tx. getBalanceLamports net url fromB58 h = (Inr bal, h1) \<and>
        base58decode fromB58 = Inr fromPub \<and> base58decode ownerB58 = Inr ownerPub \<and>
        0 < send \<and> send \<le> bal - 5000 \<and>
        tx = base64_enc (enc_tx [sig] (enc_message (transfer_message fromPub ownerPub send bh))) \<and>
        (\<forall>c \<in> set cs. rc_method c = ''sendTransaction'' \<longrightarrow> rc_params c = send_params tx)))"
  using withdraw_sends [OF assms]
proof (elim disjE exE conjE)
  assume "quiet h h'" then show ?thesis by (auto simp: quiet_def)
next
  fix bal h1 tx
  assume g: "getBalanceLamports net url fromB58 h = (Inr bal, h1)"
    and o: "owner_transfer C seed fromB58 ownerB58 lamports bal tx" and s: "sends_only tx h h'"
  obtain cs where "h' = h @ cs" "\<forall>c \<in> set cs. rc_method c = ''sendTransaction'' \<longrightarrow> rc_params c = send_params tx"
    using s by (auto simp: sends_only_def)
  moreover obtain fromPub ownerPub send bh sig where "base58decode fromB58 = Inr fromPub"
      "base58decode ownerB58 = Inr ownerPub" "0 < send" "send \<le> bal - 5000"
      "tx = base64_enc (enc_tx [sig] (enc_message (transfer_message fromPub ownerPub send bh)))"
    using owner_transfer_message [OF o] unfolding FEE_RESERVE_def by blast
  ultimately show ?thesis using g
    by (intro exI [of _ cs] conjI disjI2 exI [of _ bal] exI [of _ h1] exI [of _ fromPub] exI [of _ ownerPub]
        exI [of _ send] exI [of _ bh] exI [of _ sig] exI [of _ tx])
qed

text \<open>A network that answers every method, with the status of the transfer as a parameter.\<close>

definition sample_reply :: "jsval \<Rightarrow> rpc_reply" where
  "sample_reply v = Reply True 200 (Some (JObj [(''result'', v)]))"

definition sample_net :: "rpc_reply \<Rightarrow> network" where
  "sample_net st h c =
     (if rc_method c = ''getBalance'' then sample_reply (JObj [(''value'', JNum (Fin 1000000))])
      else if rc_method c = ''getLatestBlockhash'' then sample_reply (JObj [(''value'', JObj [(''blockhash'', JStr (base58 (key_of 1)))])])
      else if rc_method c = ''sendTransaction'' then sample_reply (JStr ''sig'') else st)"

definition sample_tx :: string where
  "sample_tx = base64_enc (enc_tx [sign toy_crypto (kp_priv (toy_keypair 7)) (enc_message (transfer_message (key_of 7) (key_of 3) 995000 (key_of 1)))]
     (enc_message (transfer_message (key_of 7) (key_of 3) 995000 (key_of 1))))"

definition sample_call :: "string \<Rightarrow> jsval \<Rightarrow> rpc_call" where
  "sample_call m p = \<lparr> rc_url = ''u'', rc_method = m, rc_params = p \<rparr>"

lemma sample_rpc:
  "rpcOnce (sample_net st h (sample_call meth params)) = Inr v \<Longrightarrow>
   rpc (sample_net st) [''u''] meth params h = (Inr v, h @ [sample_call meth params])"
  by (simp add: rpc_def trim_def is_space_def sample_call_def Let_def)

lemma sample_rpc_fail:
  "rpcOnce (sample_net st h (sample_call meth params)) = Inl (True, e) \<Longrightarrow>
   rpc (sample_net st) [''u''] meth params h = (Inl (Err 503 ''rpc-unavailable''), h @ [sample_call meth params])"
  by (simp add: rpc_def trim_def is_space_def sample_call_def Let_def)

lemma rpcOnce_reply: "rpcOnce (sample_reply v) = Inr v"
  by (simp add: sample_reply_def rpcOnce_def inherited_def object_members_def jopt_def)

definition sample_calls :: "rpc_call list" where
  "sample_calls = [sample_call ''getBalance'' (JArr [JStr (base58 (key_of 7)), commitment_opt]),
     sample_call ''getLatestBlockhash'' (JArr [commitment_opt]), sample_call ''sendTransaction'' (send_params sample_tx)]"

lemma sample_withdraw:
  "withdrawSol toy_crypto (sample_net st) [''u''] (replicate 32 7) (base58 (key_of 7)) (base58 (key_of 3)) None [] =
     bindS (confirm_loop (sample_net st) [''u''] (JStr ''sig'') 15 sample_calls) (\<lambda>_ h.
       (Inr \<lparr> wd_signature = JStr ''sig'', wd_lamports = 995000, wd_remaining = 0 \<rparr>, h))"
proof -
  have ne: "base58 (key_of 3) \<noteq> []"
    using base58decode_base58 [of "key_of 3"] by (auto simp: base58decode_def count_leading_def key_of_def)
  have bal: "getBalanceLamports (sample_net st) [''u''] (base58 (key_of 7)) [] =
      (Inr 1000000, [sample_call ''getBalance'' (JArr [JStr (base58 (key_of 7)), commitment_opt])])"
    unfolding getBalanceLamports_def
    by (subst sample_rpc [where v = "JObj [(''value'', JNum (Fin 1000000))]"])
       (simp_all add: sample_net_def sample_call_def rpcOnce_reply)
  have bh: "rpc (sample_net st) [''u''] ''getLatestBlockhash'' (JArr [commitment_opt]) h =
      (Inr (JObj [(''value'', JObj [(''blockhash'', JStr (base58 (key_of 1)))])]), h @ [sample_call ''getLatestBlockhash'' (JArr [commitment_opt])])" for h
    by (rule sample_rpc) (simp add: sample_net_def sample_call_def rpcOnce_reply)
  have snd: "rpc (sample_net st) [''u''] ''sendTransaction'' p h = (Inr (JStr ''sig''), h @ [sample_call ''sendTransaction'' p])" for p h
    by (rule sample_rpc) (simp add: sample_net_def sample_call_def rpcOnce_reply)
  have msg: "buildSolTransferMessage (key_of 7) (key_of 3) 995000 (base58 (key_of 1)) =
      Inr (enc_message (transfer_message (key_of 7) (key_of 3) 995000 (key_of 1)))"
    by (rule build_enc) (simp_all add: base58decode_base58)
  have tx: "signTransferTx toy_crypto (replicate 32 7) (enc_message (transfer_message (key_of 7) (key_of 3) 995000 (key_of 1))) = Inr sample_tx"
    unfolding sample_tx_def by (rule signTransferTx_enc [OF toy_fromSeed])
  show ?thesis
    unfolding withdrawSol_def
    by (simp add: ne base58decode_base58 bal bh snd msg tx Let_def FEE_RESERVE_def blockhash_of_def
        sample_calls_def send_params_def)
qed

lemma sample_withdraw_fails:
  "withdrawSol toy_crypto (sample_net NetFail) [''u''] (replicate 32 7) (base58 (key_of 7)) (base58 (key_of 3)) None [] =
     (Inl (Err 503 ''rpc-unavailable''), sample_calls @ [sample_call ''getSignatureStatuses'' (JArr [JArr [JStr ''sig'']])])"
proof -
  have "confirm_loop (sample_net NetFail) [''u''] sig (Suc n) h =
      (Inl (Err 503 ''rpc-unavailable''), h @ [sample_call ''getSignatureStatuses'' (JArr [JArr [sig]])])" for sig n h
    by (simp, subst sample_rpc_fail [where e = "Err 0 ''network''"])
       (simp_all add: sample_net_def sample_call_def rpcOnce_def)
  from this [of "JStr ''sig''" 14 sample_calls] show ?thesis by (simp add: sample_withdraw)
qed

theorem withdraw_sends_only_to_owner_witness:
  "\<exists>bal h1 fromPub ownerPub send bh sig tx. getBalanceLamports (sample_net NetFail) [''u''] (base58 (key_of 7)) [] = (Inr bal, h1) \<and>
     base58decode (base58 (key_of 3)) = Inr ownerPub \<and> 0 < send \<and> send \<le> bal - 5000 \<and>
     tx = base64_enc (enc_tx [sig] (enc_message (transfer_message fromPub ownerPub send bh))) \<and>
     send_params sample_tx = send_params tx"
proof -
  have c: "sample_call ''sendTransaction'' (send_params sample_tx) \<in> set (sample_calls @ [sample_call ''getSignatureStatuses'' (JArr [JArr [JStr ''sig'']])])"
    "rc_method (sample_call ''sendTransaction'' (send_params sample_tx)) = ''sendTransaction''"
    "rc_params (sample_call ''sendTransaction'' (send_params sample_tx)) = send_params sample_tx"
    by (simp_all add: sample_calls_def) (simp_all add: sample_call_def)
  show ?thesis
    using withdraw_sends_only_to_owner [OF sample_withdraw_fails] c unfolding append_Nil by metis
qed

text \<open>Failover: when the first endpoints of the list are unavailable and the next one answers, its answer is
  the result, and exactly the endpoints up to it were called, in order, with the same request.\<close>

theorem rpc_failover:
  assumes "filter (\<lambda>u. u \<noteq> []) (map trim url) = us @ v # ws"
    and "\<forall>i < length us. \<exists>e. rpcOnce (net (h @ map (call meth params) (take i us)) (call meth params (us ! i))) = Inl (True, e)"
    and "rpcOnce (net (h @ map (call meth params) us) (call meth params v)) = Inr r"
  shows "rpc net url meth params h = (Inr r, h @ map (call meth params) (us @ [v]))"
proof -
  have "rpc_loop net meth params (us @ v # ws) h = (Inr r, h @ map (call meth params) (us @ [v]))"
    using assms(2,3)
  proof (induction us arbitrary: h)
    case Nil
    then show ?case by (simp add: Let_def call_def)
  next
    case (Cons u us)
    obtain e where e: "rpcOnce (net h (call meth params u)) = Inl (True, e)"
      using Cons.prems(1) by force
    have "\<forall>i < length us. \<exists>e. rpcOnce (net ((h @ [call meth params u]) @ map (call meth params) (take i us)) (call meth params (us ! i))) = Inl (True, e)"
      using Cons.prems(1) by force
    from Cons.IH [OF this] Cons.prems(2) e show ?case
      by (simp add: Let_def call_def)
  qed
  then show ?thesis using assms(1) by (simp add: rpc_def Let_def)
qed

theorem rpc_failover_witness:
  "rpc (\<lambda>h c. if rc_url c = ''a'' then Reply False 429 None else sample_reply (JBool True)) ['' a '', [], ''b''] ''m'' JNull [] =
     (Inr (JBool True), [call ''m'' JNull ''a'', call ''m'' JNull ''b''])"
  using rpc_failover [of "['' a '', [], ''b'']" "[''a'']" "''b''" "[]"
     "\<lambda>h c. if rc_url c = ''a'' then Reply False 429 None else sample_reply (JBool True)" "[]" "''m''" JNull "JBool True"]
  by (simp add: trim_def is_space_def call_def rpcOnce_reply) (simp add: rpcOnce_def FAILOVER_HTTP_def)

text \<open>A status poll that cannot be answered turns a transfer that was sent and accepted into an error: the
  signature the network returned is lost to the caller, who may withdraw again.\<close>

theorem withdraw_loses_signature:
  "withdrawSol toy_crypto (sample_net NetFail) [''u''] (replicate 32 7) (base58 (key_of 7)) (base58 (key_of 3)) None [] =
     (Inl (Err 503 ''rpc-unavailable''), sample_calls @ [sample_call ''getSignatureStatuses'' (JArr [JArr [JStr ''sig'']])])"
  by (rule sample_withdraw_fails)

end
