(* ===== verification/Signer.thy ===== *)
theory Signer
  imports Verified_Intent Withdraw
begin

text \<open>
  signer/server.js: the custody service. The state is the table of agents, the table of sealed
  seeds and the used evidence nonces; every handler is a function from the state to a result and
  the new state, also when it fails (what was changed before an exception stays changed).
  \<open>now\<close> is the clock of the handler, random material is an argument.

  The live branch of an intent awaits the swap: it is two operations, \<open>intent_begin\<close> up to the
  await and \<open>intent_finish\<close> after it, between which other requests are served. The finish works
  on the very agent object the begin saw, so agents carry the identity of their object, and the
  objects a destroy took out of the table stay reachable for a pending swap (\<open>sn_detached\<close>).
  Agent ids that name members of \<open>Object.prototype\<close> are outside the model (the tables are plain
  objects). Days are day numbers of the UTC clock. The files are in theory \<open>Signer_Disk\<close>.
\<close>

section \<open>State\<close>

record session =
  ss_epoch :: nat
  ss_tokenHash :: string
  ss_node :: jsval
  ss_openedAt :: int

record agent =
  ag_ref :: nat
  ag_id :: jsval
  ag_address :: string
  ag_owner :: "string option"
  ag_policy :: policy
  ag_verified :: verified
  ag_day :: int
  ag_daySpentSol :: jsnum
  ag_lastTradeTs :: int
  ag_session :: "session option"
  ag_createdAt :: int

record signer =
  sn_next :: nat
  sn_agents :: "(string, agent) jmap"
  sn_detached :: "(nat, agent) jmap"
  sn_keys :: "(string, sealed) jmap"
  sn_vnonce :: evidence_store

record signer_cfg =
  cf_crypto :: crypto
  cf_KEY :: string
  cf_MASTER :: bytes
  cf_RPC :: "string list"
  cf_swap :: swap_env

definition empty_signer :: signer where
  "empty_signer = \<lparr> sn_next = 0, sn_agents = [], sn_detached = [], sn_keys = [], sn_vnonce = [] \<rparr>"

text \<open>The \<open>load\<close> fallbacks of an unreadable data directory give the empty signer.\<close>

definition utcDay :: "int \<Rightarrow> int" where
  "utcDay now = now div 86400000"

definition isPubkey :: "jsval \<Rightarrow> bool" where
  "isPubkey v = (case v of
       JStr s \<Rightarrow> (case base58decode s of Inl _ \<Rightarrow> False | Inr b \<Rightarrow> length b = 32)
     | _ \<Rightarrow> False)"

text \<open>The endpoint list of the configuration: trimmed, without blanks and duplicates.\<close>

definition rpc_endpoints :: "string \<Rightarrow> string \<Rightarrow> string \<Rightarrow> string \<Rightarrow> string list" where
  "rpc_endpoints urls url circuit_url fallback =
     rev (remdups (rev (filter (\<lambda>u. u \<noteq> []) (map trim (split_on (CHR '','') urls @ [url, circuit_url,
       if fallback = [] then ''https://api.mainnet-beta.solana.com'' else fallback])))))"

section \<open>Authentication and views\<close>

text \<open>\<open>s.replace(/^Bearer\s+/i, '')\<close>.\<close>

definition strip_bearer :: "string \<Rightarrow> string" where
  "strip_bearer s = (if map lower_char (take 6 s) = ''bearer'' \<and> drop 6 s \<noteq> [] \<and> is_space (hd (drop 6 s))
     then dropWhile is_space (drop 6 s) else s)"

definition bearer_auth :: "string \<Rightarrow> string \<Rightarrow> unit res" where
  "bearer_auth key authorization =
     (if key = [] then Inr ()
      else if strip_bearer authorization \<noteq> key then Inl (Err 401 ''unauthorized'') else Inr ())"

abbreviation str_or_null :: "string option \<Rightarrow> jsval" where
  "str_or_null s \<equiv> (case s of None \<Rightarrow> JNull | Some t \<Rightarrow> JStr t)"

definition publicView :: "int \<Rightarrow> agent \<Rightarrow> jsval" where
  "publicView now a = JObj [(''agentId'', ag_id a), (''address'', JStr (ag_address a)),
     (''policy'', policy_val (ag_policy a)), (''custody'', JStr ''offbox-signer''),
     (''daySpentSol'', JNum (if ag_day a = utcDay now then ag_daySpentSol a else Fin 0)),
     (''epoch'', JNum (nat_num (case ag_session a of None \<Rightarrow> 0 | Some s \<Rightarrow> ss_epoch s))),
     (''hasSession'', JBool (ag_session a \<noteq> None)),
     (''lastTradeTs'', JNum (int_num (ag_lastTradeTs a))), (''owner'', str_or_null (ag_owner a)),
     (''verified'', JObj [(''ruleId'', str_or_null (map_option ru_id (ve_rule (ag_verified a)))),
        (''acceptedKeys'', JNum (nat_num (length (ve_acceptedKeys (ag_verified a))))),
        (''requireVerifiedIntent'', JBool (po_requireVerifiedIntent (ag_policy a)))])]"

abbreviation no_agent :: err where
  "no_agent \<equiv> Err 404 ''no-agent''"

definition put_agent :: "string \<Rightarrow> agent \<Rightarrow> signer \<Rightarrow> signer" where
  "put_agent k a st = st\<lparr> sn_agents := map_set k a (sn_agents st) \<rparr>"

section \<open>Provisioning and configuration\<close>

definition get_agents :: "signer_cfg \<Rightarrow> string \<Rightarrow> int \<Rightarrow> string \<Rightarrow> signer \<Rightarrow> jsval res" where
  "get_agents cfg bearer now k st = bindE (bearer_auth (cf_KEY cfg) bearer) (\<lambda>_.
     case map_get k (sn_agents st) of None \<Rightarrow> Inl no_agent | Some a \<Rightarrow> Inr (publicView now a))"

definition fresh_agent :: "int \<Rightarrow> nat \<Rightarrow> jsval \<Rightarrow> string \<Rightarrow> string option \<Rightarrow> policy \<Rightarrow> verified \<Rightarrow> agent" where
  "fresh_agent now ref agentId address owner p v =
     \<lparr> ag_ref = ref, ag_id = agentId, ag_address = address, ag_owner = owner, ag_policy = p, ag_verified = v,
       ag_day = utcDay now, ag_daySpentSol = Fin 0, ag_lastTradeTs = 0, ag_session = None, ag_createdAt = now \<rparr>"

definition owner_of :: "jsval \<Rightarrow> string option" where
  "owner_of v = (case v of JStr s \<Rightarrow> if s = [] then None else Some s | _ \<Rightarrow> None)"

definition create_agent :: "signer_cfg \<Rightarrow> int \<Rightarrow> bytes \<Rightarrow> bytes \<Rightarrow> jsval \<Rightarrow> string \<Rightarrow> jsval \<Rightarrow> jsval \<Rightarrow> jsval \<Rightarrow> signer \<Rightarrow> jsval res \<times> signer" where
  "create_agent cfg now rnd iv agentId k policy verified owner st =
     (case newKeypair (cf_crypto cfg) rnd of
        Inl e \<Rightarrow> (Inl e, st)
      | Inr kp \<Rightarrow>
          let st1 = st\<lparr> sn_keys := map_set k (seal (cf_crypto cfg) (cf_MASTER cfg) iv (kp_seed kp)) (sn_keys st) \<rparr>
          in case bindE (normalizePolicy policy) (\<lambda>p. bindE (normalizeVerified verified) (\<lambda>v. Inr (p, v))) of
               Inl e \<Rightarrow> (Inl e, st1)
             | Inr (p, v) \<Rightarrow>
                 let a = fresh_agent now (sn_next st) agentId (kp_address kp) (owner_of owner) p v
                 in (Inr (publicView now a), put_agent k a (st1\<lparr> sn_next := Suc (sn_next st) \<rparr>)))"

definition update_agent :: "int \<Rightarrow> string \<Rightarrow> jsval \<Rightarrow> jsval \<Rightarrow> jsval \<Rightarrow> agent \<Rightarrow> signer \<Rightarrow> jsval res \<times> signer" where
  "update_agent now k policy verified owner a st =
     (case (if truthy policy then normalizePolicy policy else Inr (ag_policy a)) of
        Inl e \<Rightarrow> (Inl e, st)
      | Inr p \<Rightarrow>
          let a1 = a\<lparr> ag_policy := p \<rparr>
          in case (if truthy verified then normalizeVerified verified else Inr (ag_verified a)) of
               Inl e \<Rightarrow> (Inl e, put_agent k a1 st)
             | Inr v \<Rightarrow>
                 let a2 = a1\<lparr> ag_verified := v, ag_owner := (if truthy owner then owner_of owner else ag_owner a) \<rparr>
                 in (Inr (publicView now a2), put_agent k a2 st))"

text \<open>\<open>rnd\<close> are the 32 bytes of a new key, \<open>iv\<close> the 12 of its sealing.\<close>

definition post_agents :: "signer_cfg \<Rightarrow> string \<Rightarrow> int \<Rightarrow> bytes \<Rightarrow> bytes \<Rightarrow> jsval \<Rightarrow> signer \<Rightarrow> jsval res \<times> signer" where
  "post_agents cfg bearer now rnd iv body st =
     (case bindE (bearer_auth (cf_KEY cfg) bearer) (\<lambda>_. bindE (jget body ''agentId'') (\<lambda>agentId.
           if \<not> truthy agentId then Inl (Err 400 ''bad-request'')
           else if \<not> nullish (jopt body ''owner'') \<and> \<not> isPubkey (jopt body ''owner'') then Inl (Err 400 ''bad-owner'')
           else bindE (to_str agentId) (\<lambda>k. Inr (agentId, k)))) of
        Inl e \<Rightarrow> (Inl e, st)
      | Inr (agentId, k) \<Rightarrow>
          (case map_get k (sn_agents st) of
             None \<Rightarrow> create_agent cfg now rnd iv agentId k (jopt body ''policy'') (jopt body ''verified'') (jopt body ''owner'') st
           | Some a \<Rightarrow> update_agent now k (jopt body ''policy'') (jopt body ''verified'') (jopt body ''owner'') a st))"

definition put_policy :: "signer_cfg \<Rightarrow> string \<Rightarrow> int \<Rightarrow> string \<Rightarrow> jsval \<Rightarrow> signer \<Rightarrow> jsval res \<times> signer" where
  "put_policy cfg bearer now k body st =
     (case bearer_auth (cf_KEY cfg) bearer of
        Inl e \<Rightarrow> (Inl e, st)
      | Inr _ \<Rightarrow>
          (case map_get k (sn_agents st) of
             None \<Rightarrow> (Inl no_agent, st)
           | Some a \<Rightarrow>
               (case bindE (jget body ''policy'') normalizePolicy of
                  Inl e \<Rightarrow> (Inl e, st)
                | Inr p \<Rightarrow>
                    let a1 = a\<lparr> ag_policy := p \<rparr>
                    in if truthy (jopt body ''verified'')
                       then (case normalizeVerified (jopt body ''verified'') of
                               Inl e \<Rightarrow> (Inl e, put_agent k a1 st)
                             | Inr v \<Rightarrow> let a2 = a1\<lparr> ag_verified := v \<rparr> in (Inr (publicView now a2), put_agent k a2 st))
                       else (Inr (publicView now a1), put_agent k a1 st))))"

definition put_owner :: "signer_cfg \<Rightarrow> string \<Rightarrow> int \<Rightarrow> string \<Rightarrow> jsval \<Rightarrow> signer \<Rightarrow> jsval res \<times> signer" where
  "put_owner cfg bearer now k body st =
     (case bearer_auth (cf_KEY cfg) bearer of
        Inl e \<Rightarrow> (Inl e, st)
      | Inr _ \<Rightarrow>
          (case map_get k (sn_agents st) of
             None \<Rightarrow> (Inl no_agent, st)
           | Some a \<Rightarrow>
               (case jget body ''owner'' of
                  Inl e \<Rightarrow> (Inl e, st)
                | Inr owner \<Rightarrow>
                    if \<not> isPubkey owner then (Inl (Err 400 ''bad-owner''), st)
                    else let a1 = a\<lparr> ag_owner := owner_of owner \<rparr> in (Inr (publicView now a1), put_agent k a1 st))))"

section \<open>Custody operations\<close>

text \<open>The seed of an agent: unsealed with the master key.\<close>

definition unseal :: "signer_cfg \<Rightarrow> agent \<Rightarrow> signer \<Rightarrow> bytes res" where
  "unseal cfg a st = bindE (to_str (ag_id a)) (\<lambda>k.
     case map_get k (sn_keys st) of
       None \<Rightarrow> Inl type_error
     | Some rec \<Rightarrow> open_seal (cf_crypto cfg) (cf_MASTER cfg) rec)"

text \<open>The amount of a withdrawal: \<open>None\<close> for a sweep.\<close>

definition withdraw_lamports :: "jsval \<Rightarrow> jsnum option res" where
  "withdraw_lamports body = bindE (jget body ''amountSol'') (\<lambda>v.
     if nullish v then Inr None
     else bindE (to_num v) (\<lambda>x. let l = jround (jmul x LAMPORTS)
       in if \<not> jlt (Fin 0) l then Inl (Err 400 ''bad-amount'') else Inr (Some l)))"

definition post_withdraw ::
  "signer_cfg \<Rightarrow> string \<Rightarrow> network \<Rightarrow> string \<Rightarrow> jsval \<Rightarrow> signer \<Rightarrow> rpc_call list \<Rightarrow> jsval res \<times> rpc_call list" where
  "post_withdraw cfg bearer net k body st h =
     (case bindE (bearer_auth (cf_KEY cfg) bearer) (\<lambda>_.
           case map_get k (sn_agents st) of
             None \<Rightarrow> Inl no_agent
           | Some a \<Rightarrow> (case ag_owner a of
                None \<Rightarrow> Inl (Err 409 ''no-owner'')
              | Some owner \<Rightarrow> bindE (withdraw_lamports body) (\<lambda>lamports.
                  bindE (unseal cfg a st) (\<lambda>seed. Inr (a, owner, lamports, seed))))) of
        Inl e \<Rightarrow> (Inl e, h)
      | Inr (a, owner, lamports, seed) \<Rightarrow>
          (case withdrawSol (cf_crypto cfg) net (cf_RPC cfg) seed (ag_address a) owner lamports h of
             (Inl e, h') \<Rightarrow> (Inl (rethrow 502 ''withdraw-failed'' e), h')
           | (Inr r, h') \<Rightarrow> (Inr (JObj [(''ok'', JBool True), (''code'', JStr ''withdrawn''), (''signature'', wd_signature r),
                (''owner'', JStr owner), (''lamports'', JStr (num_str (int_num (wd_lamports r)))),
                (''remaining'', JStr (num_str (int_num (wd_remaining r))))]), h')))"

definition post_export :: "signer_cfg \<Rightarrow> string \<Rightarrow> string \<Rightarrow> signer \<Rightarrow> jsval res" where
  "post_export cfg bearer k st =
     bindE (bearer_auth (cf_KEY cfg) bearer) (\<lambda>_.
     case map_get k (sn_agents st) of
       None \<Rightarrow> Inl no_agent
     | Some a \<Rightarrow> bindE (unseal cfg a st) (\<lambda>seed. bindE (fromSeed (exportSpki (cf_crypto cfg)) seed) (\<lambda>kp.
         let secretKey = seed @ kp_pubkey kp
         in Inr (JObj [(''ok'', JBool True), (''address'', JStr (ag_address a)),
              (''seedHex'', JStr (hex_enc seed)), (''secretKeyBase58'', JStr (base58 secretKey))]))))"

text \<open>\<open>rtoken\<close> is the fresh random token of the session.\<close>

definition post_session ::
  "signer_cfg \<Rightarrow> string \<Rightarrow> int \<Rightarrow> string \<Rightarrow> string \<Rightarrow> jsval \<Rightarrow> signer \<Rightarrow> jsval res \<times> signer" where
  "post_session cfg bearer now rtoken k body st =
     (case bearer_auth (cf_KEY cfg) bearer of
        Inl e \<Rightarrow> (Inl e, st)
      | Inr _ \<Rightarrow>
          (case map_get k (sn_agents st) of
             None \<Rightarrow> (Inl no_agent, st)
           | Some a \<Rightarrow>
               (case jget body ''node'' of
                  Inl e \<Rightarrow> (Inl e, st)
                | Inr node \<Rightarrow>
                    let epoch = (case ag_session a of None \<Rightarrow> 0 | Some s \<Rightarrow> ss_epoch s) + 1;
                        s = \<lparr> ss_epoch = epoch, ss_tokenHash = sha256hex (cf_crypto cfg) rtoken,
                              ss_node = (if truthy node then node else JNull), ss_openedAt = now \<rparr>
                    in (Inr (JObj [(''agentId'', ag_id a), (''address'', JStr (ag_address a)),
                          (''epoch'', JNum (nat_num epoch)), (''token'', JStr rtoken),
                          (''paper'', JBool (po_paper (ag_policy a)))]),
                        put_agent k (a\<lparr> ag_session := Some s \<rparr>) st))))"

section \<open>Trade intents\<close>

text \<open>\<open>xs.includes(v)\<close>: an object or array from a request is never in a stored list.\<close>

definition js_includes :: "jsval list \<Rightarrow> jsval \<Rightarrow> bool" where
  "js_includes xs v = (\<not> is_ref v \<and> v \<in> set xs)"

text \<open>1. The fence.\<close>

definition fence :: "crypto \<Rightarrow> agent \<Rightarrow> jsval \<Rightarrow> unit res" where
  "fence C a body = bindE (jget body ''epoch'') (\<lambda>epoch.
     case ag_session a of
       None \<Rightarrow> Inl (Err 403 ''fenced'')
     | Some s \<Rightarrow>
         if \<not> strict_eq epoch (JNum (nat_num (ss_epoch s))) then Inl (Err 403 ''fenced'')
         else bindE (to_str (str_or (jopt body ''token'') (JStr []))) (\<lambda>t.
           if sha256hex C t \<noteq> ss_tokenHash s then Inl (Err 403 ''fenced'') else Inr ()))"

definition intent_of :: "jsval \<Rightarrow> jsval" where
  "intent_of body = (if jopt body ''intent'' = JUndef then JObj [] else jopt body ''intent'')"

text \<open>1b. The verified-intent gate, with the evidence nonces.\<close>

definition gate_opts_of :: "verified \<Rightarrow> rule \<Rightarrow> gate_opts" where
  "gate_opts_of v rl = \<lparr> go_rule = rl, go_acceptedKeys = ve_acceptedKeys v, go_acceptedNotaries = ve_acceptedNotaries v,
     go_maxAgeMs = ve_evidenceMaxAgeMs v, go_verifyZkTls = None, go_requireZkTlsProof = False \<rparr>"

definition intent_gate :: "crypto \<Rightarrow> int \<Rightarrow> agent \<Rightarrow> jsval \<Rightarrow> evidence_store \<Rightarrow> unit res \<times> evidence_store" where
  "intent_gate C now a body vs =
     (if \<not> po_requireVerifiedIntent (ag_policy a) then (Inr (), vs)
      else case ve_rule (ag_verified a) of
        None \<Rightarrow> (Inl (Err 409 ''no-rule''), vs)
      | Some rl \<Rightarrow>
          (case decisionGate C now (gate_opts_of (ag_verified a) rl)
                  \<lparr> vi_intent = intent_of body, vi_rule = jopt body ''rule'', vi_inputs = or_empty (jopt body ''inputs''),
                    vi_evidence = str_or (jopt body ''evidence'') (JArr []) \<rparr> vs of
             (Inl e, vs') \<Rightarrow> (Inl e, vs')
           | (Inr code, vs') \<Rightarrow> if code \<noteq> ''verified'' then (Inl (Err 403 code), vs') else (Inr (), vs')))"

text \<open>2. The policy: the verb, the token lists and the cooldown.\<close>

definition policy_check :: "int \<Rightarrow> agent \<Rightarrow> jsval \<Rightarrow> string res" where
  "policy_check now a intent = bindE (jget intent ''kind'') (\<lambda>kind.
     let p = ag_policy a; token = jopt intent ''token''
     in case kind of
          JStr k \<Rightarrow>
            if k \<noteq> ''buy'' \<and> k \<noteq> ''sell'' then Inl (Err 400 ''bad-intent'')
            else if k \<notin> set (po_allow p) then Inl (Err 403 ''action-not-allowed'')
            else if truthy token \<and> js_includes (po_denyTokens p) token then Inl (Err 403 ''token-denied'')
            else if truthy token \<and> (case po_allowTokens p of None \<Rightarrow> False | Some xs \<Rightarrow> \<not> js_includes xs token)
            then Inl (Err 403 ''token-not-allowed'')
            else if jlt (jsub (int_num now) (int_num (ag_lastTradeTs a))) (po_cooldownMs p) then Inl (Err 429 ''cooldown'')
            else Inr k
        | _ \<Rightarrow> Inl (Err 400 ''bad-intent''))"

text \<open>The daily budget starts again on a new day.\<close>

definition roll_day :: "int \<Rightarrow> agent \<Rightarrow> agent" where
  "roll_day now a = (if ag_day a \<noteq> utcDay now then a\<lparr> ag_day := utcDay now, ag_daySpentSol := Fin 0 \<rparr> else a)"

text \<open>The caps: the declared size, or for a live sell only that an amount is given.\<close>

definition cap_check :: "agent \<Rightarrow> string \<Rightarrow> jsval \<Rightarrow> jsnum res" where
  "cap_check a kind intent = bindE (to_num (jopt intent ''sizeSol'')) (\<lambda>sizeSol.
     let p = ag_policy a; liveSell = (kind = ''sell'' \<and> \<not> po_paper p)
     in if \<not> liveSell
        then (if \<not> jlt (Fin 0) sizeSol then Inl (Err 400 ''bad-intent'')
              else if jlt (po_maxNotionalSol p) sizeSol then Inl (Err 403 ''over-trade-cap'')
              else if jlt (po_maxDailySol p) (jadd (ag_daySpentSol a) sizeSol) then Inl (Err 403 ''over-daily-cap'')
              else Inr sizeSol)
        else bindE (to_num (jopt intent ''amount'')) (\<lambda>amt.
          if \<not> jlt (Fin 0) amt then Inl (Err 400 ''bad-intent'') else Inr sizeSol))"

text \<open>3. The attested text.\<close>

definition canonical_text :: "agent \<Rightarrow> jsval \<Rightarrow> string \<Rightarrow> jsval \<Rightarrow> jsnum \<Rightarrow> int \<Rightarrow> string" where
  "canonical_text a epoch kind intent sizeSol ts =
     (case json_stringify (JObj [(''agentId'', ag_id a), (''epoch'', epoch), (''kind'', JStr kind),
        (''token'', str_or (jopt intent ''token'') JNull),
        (''sizeSol'', if jtruthy sizeSol then JNum sizeSol else JNull), (''ts'', JNum (int_num ts))]) of
        Some t \<Rightarrow> t | None \<Rightarrow> [])"

text \<open>\<open>+x.toFixed(6)\<close>.\<close>

definition fixed6 :: "jsnum \<Rightarrow> jsnum" where
  "fixed6 x = (case x of Fin q \<Rightarrow> fl (of_int \<lfloor>q * 1000000 + 1 / 2\<rfloor> / 1000000) | _ \<Rightarrow> x)"

text \<open>
  What an intent comes to before the await: an answer (paper), or a live swap to perform. The
  pending swap keeps everything the code after the await uses.
\<close>

record pending =
  pd_key :: string
  pd_ref :: nat
  pd_seed :: bytes
  pd_address :: string
  pd_swap :: swap_intent
  pd_maxNotionalSol :: jsnum
  pd_remainingDailySol :: jsnum
  pd_ts :: int
  pd_attest :: string
  pd_canonical :: string

datatype intent_step = Answer jsval | Live pending

definition sign_intent :: "signer_cfg \<Rightarrow> int \<Rightarrow> string \<Rightarrow> agent \<Rightarrow> jsval \<Rightarrow> string \<Rightarrow> jsnum \<Rightarrow> signer \<Rightarrow> intent_step res \<times> signer" where
  "sign_intent cfg now k a body kind sizeSol st =
     (let C = cf_crypto cfg; intent = intent_of body
      in case bindE (unseal cfg a st) (\<lambda>seed. bindE (fromSeed (exportSpki C) seed) (\<lambda>kp. Inr (seed, kp))) of
           Inl e \<Rightarrow> (Inl e, st)
         | Inr (seed, kp) \<Rightarrow>
             let canonical = canonical_text a (jopt body ''epoch'') kind intent sizeSol now;
                 attest = base64_enc (sign C (kp_priv kp) (utf8 canonical))
             in if po_paper (ag_policy a)
                then let a' = a\<lparr> ag_daySpentSol := jadd (ag_daySpentSol a) sizeSol, ag_lastTradeTs := now \<rparr>
                  in (Inr (Answer (JObj [(''ok'', JBool True), (''code'', JStr ''signed''), (''address'', JStr (kp_address kp)),
                        (''signature'', JStr attest), (''paper'', JBool True), (''submitted'', JBool False),
                        (''attestation'', JObj [(''canonical'', JStr canonical)]),
                        (''daySpentSol'', JNum (fixed6 (ag_daySpentSol a')))])), put_agent k a' st)
                else (Inr (Live \<lparr> pd_key = k, pd_ref = ag_ref a, pd_seed = seed, pd_address = kp_address kp,
                        pd_swap = \<lparr> si_kind = kind, si_token = jopt intent ''token'', si_sizeSol = sizeSol,
                           si_amount = jopt intent ''amount'', si_maxSlippageBps = jopt intent ''maxSlippageBps'' \<rparr>,
                        pd_maxNotionalSol = po_maxNotionalSol (ag_policy a),
                        pd_remainingDailySol = jmax (Fin 0) (jsub (po_maxDailySol (ag_policy a)) (ag_daySpentSol a)),
                        pd_ts = now, pd_attest = attest, pd_canonical = canonical \<rparr>), st))"

definition intent_begin :: "signer_cfg \<Rightarrow> int \<Rightarrow> string \<Rightarrow> jsval \<Rightarrow> signer \<Rightarrow> intent_step res \<times> signer" where
  "intent_begin cfg now k body st =
     (case map_get k (sn_agents st) of
        None \<Rightarrow> (Inl no_agent, st)
      | Some a \<Rightarrow>
          (case fence (cf_crypto cfg) a body of
             Inl e \<Rightarrow> (Inl e, st)
           | Inr _ \<Rightarrow>
               (case intent_gate (cf_crypto cfg) now a body (sn_vnonce st) of
                  (Inl e, vs) \<Rightarrow> (Inl e, st\<lparr> sn_vnonce := vs \<rparr>)
                | (Inr _, vs) \<Rightarrow>
                    let st1 = st\<lparr> sn_vnonce := vs \<rparr>
                    in case policy_check now a (intent_of body) of
                         Inl e \<Rightarrow> (Inl e, st1)
                       | Inr kind \<Rightarrow>
                           let a1 = roll_day now a; st2 = put_agent k a1 st1
                           in case cap_check a1 kind (intent_of body) of
                                Inl e \<Rightarrow> (Inl e, st2)
                              | Inr sizeSol \<Rightarrow> sign_intent cfg now k a1 body kind sizeSol st2)))"

text \<open>After the await: the outcome of the swap, and the accounting on the agent object.\<close>

definition account_swap :: "pending \<Rightarrow> jsnum \<Rightarrow> agent \<Rightarrow> agent" where
  "account_swap p v a = a\<lparr> ag_daySpentSol := jadd (ag_daySpentSol a) v, ag_lastTradeTs := pd_ts p \<rparr>"

definition submitted_reply :: "pending \<Rightarrow> swap_result \<Rightarrow> agent \<Rightarrow> jsval" where
  "submitted_reply p s a = JObj [(''ok'', JBool True), (''code'', JStr ''submitted''), (''address'', JStr (pd_address p)),
     (''signature'', JStr (pd_attest p)), (''paper'', JBool False), (''submitted'', JBool True),
     (''txid'', sr_txid s), (''status'', sr_status s), (''solValue'', JNum (fixed6 (sr_solValue s))),
     (''attestation'', JObj [(''canonical'', JStr (pd_canonical p))]),
     (''daySpentSol'', JNum (fixed6 (ag_daySpentSol a)))]"

definition has_ref :: "nat \<Rightarrow> agent option \<Rightarrow> bool" where
  "has_ref r a = (case a of None \<Rightarrow> False | Some b \<Rightarrow> ag_ref b = r)"

text \<open>An object that is in neither table cannot be pending; the last case is never reached.\<close>

definition intent_finish :: "swap_result res \<Rightarrow> pending \<Rightarrow> signer \<Rightarrow> jsval res \<times> signer" where
  "intent_finish r p st =
     (case r of
        Inl e \<Rightarrow> (Inl (rethrow 502 ''submit-failed'' e), st)
      | Inr s \<Rightarrow>
          if has_ref (pd_ref p) (map_get (pd_key p) (sn_agents st))
          then let a' = account_swap p (sr_solValue s) (the (map_get (pd_key p) (sn_agents st)))
            in (Inr (submitted_reply p s a'), put_agent (pd_key p) a' st)
          else (case map_get (pd_ref p) (sn_detached st) of
                  Some a \<Rightarrow> let a' = account_swap p (sr_solValue s) a
                    in (Inr (submitted_reply p s a'), st\<lparr> sn_detached := map_set (pd_ref p) a' (sn_detached st) \<rparr>)
                | None \<Rightarrow> (Inl type_error, st)))"

definition live_swap :: "signer_cfg \<Rightarrow> pending \<Rightarrow> swap_result res \<times> string option" where
  "live_swap cfg p = executeUltraSwap (cf_crypto cfg) (cf_swap cfg) (pd_seed p) (pd_address p) (pd_swap p)
     (pd_maxNotionalSol p) (pd_remainingDailySol p)"

section \<open>Destroying\<close>

text \<open>The balance check of an unforced destroy, then (after the awaits) the removal.\<close>

definition destroy_check ::
  "signer_cfg \<Rightarrow> string \<Rightarrow> network \<Rightarrow> string \<Rightarrow> bool \<Rightarrow> signer \<Rightarrow> rpc_call list \<Rightarrow> unit res \<times> rpc_call list" where
  "destroy_check cfg bearer net k force st h =
     (case bearer_auth (cf_KEY cfg) bearer of
        Inl e \<Rightarrow> (Inl e, h)
      | Inr _ \<Rightarrow>
          (case map_get k (sn_agents st) of
             None \<Rightarrow> (Inl no_agent, h)
           | Some a \<Rightarrow>
               if force then (Inr (), h)
               else case bindS (getBalanceLamports net (cf_RPC cfg) (ag_address a) h) (\<lambda>bal h.
                         bindS (hasTokenBalance net (cf_RPC cfg) (ag_address a) h) (\<lambda>tokens h. (Inr (bal, tokens), h))) of
                      (Inl e, h') \<Rightarrow> (Inl (Err 503 ''balance-unreadable''), h')
                    | (Inr (bal, tokens), h') \<Rightarrow>
                        if 10000 < bal \<or> tokens then (Inl (Err 409 ''not-empty''), h') else (Inr (), h')))"

definition destroy_commit :: "string \<Rightarrow> signer \<Rightarrow> jsval \<times> signer" where
  "destroy_commit k st = (JObj [(''ok'', JBool True)],
     st\<lparr> sn_agents := map_delete k (sn_agents st), sn_keys := map_delete k (sn_keys st),
         sn_detached := (case map_get k (sn_agents st) of
            None \<Rightarrow> sn_detached st | Some a \<Rightarrow> map_set (ag_ref a) a (sn_detached st)) \<rparr>)"

text \<open>
  The handler awaits the reads of an unforced destroy, and other requests are served meanwhile: it starts in the tables
  \<open>st\<close> and finds \<open>later\<close> when it goes on, which is \<open>st\<close> itself when it awaits nothing (a refused
  caller, an unknown agent, a forced destroy).
\<close>

definition delete_agents ::
  "signer_cfg \<Rightarrow> string \<Rightarrow> network \<Rightarrow> string \<Rightarrow> bool \<Rightarrow> signer \<Rightarrow> signer \<Rightarrow> rpc_call list \<Rightarrow> jsval res \<times> signer \<times> rpc_call list" where
  "delete_agents cfg bearer net k force st later h =
     (case destroy_check cfg bearer net k force st h of
        (Inl e, h') \<Rightarrow> (Inl e, later, h')
      | (Inr _, h') \<Rightarrow> (case destroy_commit k later of (v, st') \<Rightarrow> (Inr v, st', h')))"

section \<open>Runs of the service\<close>

text \<open>
  The service serves requests one at a time between awaits; a live intent is pending from its
  \<open>Begin\<close> to its \<open>Finish\<close>, whose outcome \<open>r\<close> is whatever the swap came to. \<open>Destroy\<close> is the removal
  after a passed check.
\<close>

record sys =
  sy_signer :: signer
  sy_pending :: "pending list"

datatype sys_op =
    Provision string int bytes bytes jsval
  | SetPolicy string int string jsval
  | SetOwner string int string jsval
  | OpenSession string int string string jsval
  | Begin int string jsval
  | Finish nat "swap_result res"
  | Destroy string

definition drop_nth :: "nat \<Rightarrow> 'a list \<Rightarrow> 'a list" where
  "drop_nth i xs = take i xs @ drop (Suc i) xs"

fun sys_step :: "signer_cfg \<Rightarrow> sys \<Rightarrow> sys_op \<Rightarrow> sys" where
  "sys_step cfg s (Provision b now rnd iv body) = s\<lparr> sy_signer := snd (post_agents cfg b now rnd iv body (sy_signer s)) \<rparr>"
| "sys_step cfg s (SetPolicy b now k body) = s\<lparr> sy_signer := snd (put_policy cfg b now k body (sy_signer s)) \<rparr>"
| "sys_step cfg s (SetOwner b now k body) = s\<lparr> sy_signer := snd (put_owner cfg b now k body (sy_signer s)) \<rparr>"
| "sys_step cfg s (OpenSession b now t k body) = s\<lparr> sy_signer := snd (post_session cfg b now t k body (sy_signer s)) \<rparr>"
| "sys_step cfg s (Begin now k body) =
     (case intent_begin cfg now k body (sy_signer s) of
        (Inr (Live p), st) \<Rightarrow> \<lparr> sy_signer = st, sy_pending = sy_pending s @ [p] \<rparr>
      | (_, st) \<Rightarrow> s\<lparr> sy_signer := st \<rparr>)"
| "sys_step cfg s (Finish i r) =
     (if i < length (sy_pending s)
      then \<lparr> sy_signer = snd (intent_finish r (sy_pending s ! i) (sy_signer s)), sy_pending = drop_nth i (sy_pending s) \<rparr>
      else s)"
| "sys_step cfg s (Destroy k) = s\<lparr> sy_signer := snd (destroy_commit k (sy_signer s)) \<rparr>"

text \<open>Reachable states, as an inductive closure of the steps.\<close>

inductive sys_reach :: "signer_cfg \<Rightarrow> sys \<Rightarrow> bool" for cfg where
  start: "sys_reach cfg \<lparr> sy_signer = empty_signer, sy_pending = [] \<rparr>"
| step: "sys_reach cfg s \<Longrightarrow> sys_reach cfg (sys_step cfg s op)"

section \<open>How the handlers change an agent\<close>

text \<open>The part of an agent no handler changes.\<close>

definition same_identity :: "agent \<Rightarrow> agent \<Rightarrow> bool" where
  "same_identity a b = (ag_ref b = ag_ref a \<and> ag_id b = ag_id a \<and> ag_address b = ag_address a)"

text \<open>
  A change of one agent: its identity is kept, the policy and the owner are sound when they
  change, and a session is only replaced by one of a higher epoch.
\<close>

definition owner_ok :: "agent \<Rightarrow> bool" where
  "owner_ok a = (case ag_owner a of None \<Rightarrow> True | Some s \<Rightarrow> isPubkey (JStr s))"

definition epoch_of :: "agent \<Rightarrow> nat" where
  "epoch_of a = (case ag_session a of None \<Rightarrow> 0 | Some s \<Rightarrow> ss_epoch s)"

definition evolves :: "agent \<Rightarrow> agent \<Rightarrow> bool" where
  "evolves a b = (same_identity a b \<and> (policy_ok (ag_policy a) \<longrightarrow> policy_ok (ag_policy b)) \<and>
     (owner_ok a \<longrightarrow> owner_ok b) \<and> (ag_session b = ag_session a \<or> epoch_of a < epoch_of b) \<and>
     (ag_session a \<noteq> None \<longrightarrow> ag_session b \<noteq> None))"

lemma evolves_refl [simp]: "evolves a a"
  by (simp add: evolves_def same_identity_def)

text \<open>What an operation other than provisioning and destroying does to the state.\<close>

definition touches_agent :: "string \<Rightarrow> signer \<Rightarrow> signer \<Rightarrow> bool" where
  "touches_agent k st st' =
     (sn_keys st' = sn_keys st \<and> sn_next st' = sn_next st \<and>
      (sn_agents st' = sn_agents st \<or>
       (\<exists>a b. map_get k (sn_agents st) = Some a \<and> evolves a b \<and> sn_agents st' = map_set k b (sn_agents st))))"

lemma touches_refl [simp]: "touches_agent k st st"
  by (simp add: touches_agent_def)

lemma touches_put:
  "map_get k (sn_agents st) = Some a \<Longrightarrow> evolves a b \<Longrightarrow> touches_agent k st (put_agent k b st)"
  by (auto simp: touches_agent_def put_agent_def)

lemma touches_put_nonces:
  "map_get k (sn_agents st) = Some a \<Longrightarrow> evolves a b \<Longrightarrow> touches_agent k st (put_agent k b (st\<lparr> sn_vnonce := vs \<rparr>))"
  by (auto simp: touches_agent_def put_agent_def)

lemma evolves_account: "evolves a b \<Longrightarrow> evolves a (b\<lparr> ag_daySpentSol := x, ag_lastTradeTs := t \<rparr>)"
  by (simp add: evolves_def same_identity_def owner_ok_def epoch_of_def)

lemma owner_of_ok: "isPubkey v \<Longrightarrow> owner_of v = Some s \<Longrightarrow> isPubkey (JStr s)"
  by (cases v) (auto simp: owner_of_def split: if_splits)

lemma put_policy_touches: "touches_agent k st (snd (put_policy cfg b now k body st))"
  by (auto simp: put_policy_def Let_def evolves_def same_identity_def owner_ok_def epoch_of_def bindE_Inr_iff
      intro!: touches_put dest: normalizePolicy_ok split: sum.splits option.splits)

lemma put_owner_touches: "touches_agent k st (snd (put_owner cfg b now k body st))"
  by (auto simp: put_owner_def Let_def evolves_def same_identity_def owner_ok_def epoch_of_def
      intro!: touches_put dest: owner_of_ok split: sum.splits option.splits)

lemma post_session_touches: "touches_agent k st (snd (post_session cfg b now t k body st))"
  by (auto simp: post_session_def Let_def evolves_def same_identity_def owner_ok_def epoch_of_def
      intro!: touches_put split: sum.splits option.splits)

lemma update_agent_touches:
  assumes "map_get k (sn_agents st) = Some a" "nullish owner \<or> isPubkey owner"
  shows "touches_agent k st (snd (update_agent now k policy verified owner a st))"
proof -
  have o: "owner_of owner = None \<or> (\<exists>s. owner_of owner = Some s \<and> isPubkey (JStr s))"
    using assms(2) owner_of_ok [of owner] by (cases "owner_of owner") (auto simp: nullish_def owner_of_def)
  show ?thesis using assms(1) o
    by (auto simp: update_agent_def Let_def evolves_def same_identity_def owner_ok_def epoch_of_def
        intro!: touches_put dest: normalizePolicy_ok split: sum.splits if_splits)
qed

lemma roll_day_evolves: "evolves a (roll_day now a)"
  by (simp add: roll_day_def evolves_def same_identity_def owner_ok_def epoch_of_def)

lemma put_put_agent [simp]: "put_agent k b (put_agent k a st) = put_agent k b st"
proof -
  have "map_set k b (map_set k a m) = map_set k b m" for m :: "(string, agent) jmap"
    by (induction k a m rule: map_set.induct) auto
  then show ?thesis by (simp add: put_agent_def)
qed

lemma sign_intent_state:
  "snd (sign_intent cfg now k a body kind sizeSol st) = st \<or>
   (\<exists>x. snd (sign_intent cfg now k a body kind sizeSol st) =
      put_agent k (a\<lparr> ag_daySpentSol := x, ag_lastTradeTs := now \<rparr>) st)"
  by (auto simp: sign_intent_def Let_def split: sum.splits)

lemma intent_begin_touches: "touches_agent k st (snd (intent_begin cfg now k body st))"
proof (cases "map_get k (sn_agents st)")
  case None
  then show ?thesis by (simp add: intent_begin_def)
next
  case (Some a)
  let ?a = "roll_day now a"
  have p: "touches_agent k st (put_agent k ?a (st\<lparr> sn_vnonce := vs \<rparr>))"
    "touches_agent k st (put_agent k (?a\<lparr> ag_daySpentSol := x, ag_lastTradeTs := now \<rparr>) (st\<lparr> sn_vnonce := vs \<rparr>))"
    "touches_agent k st (st\<lparr> sn_vnonce := vs \<rparr>)" for vs x
    using touches_put_nonces [OF Some] evolves_account roll_day_evolves
    by (simp_all add: touches_agent_def)
  show ?thesis
    using Some p sign_intent_state [of cfg now k ?a body]
    by (simp add: intent_begin_def Let_def split: sum.split prod.split) (metis put_put_agent)
qed

lemma intent_finish_touches:
  "touches_agent (pd_key p) st (snd (intent_finish r p st))"
proof (cases "map_get (pd_key p) (sn_agents st)")
  case None
  then show ?thesis by (auto simp: intent_finish_def Let_def has_ref_def touches_agent_def split: sum.split option.split)
next
  case (Some a)
  have "evolves a (account_swap p v a)" for v
    by (simp add: account_swap_def evolves_def same_identity_def owner_ok_def epoch_of_def)
  then show ?thesis using Some
    by (auto simp: intent_finish_def Let_def has_ref_def touches_agent_def put_agent_def split: sum.split option.split)
qed

section \<open>The custody invariant\<close>

text \<open>The sealed seed of an agent opens to the key pair of the address the agent shows.\<close>

definition wallet_ok :: "signer_cfg \<Rightarrow> signer \<Rightarrow> string \<Rightarrow> agent \<Rightarrow> bool" where
  "wallet_ok cfg st k a = (to_str (ag_id a) = Inr k \<and>
     (\<exists>rec seed kp. map_get k (sn_keys st) = Some rec \<and> open_seal (cf_crypto cfg) (cf_MASTER cfg) rec = Inr seed \<and>
        fromSeed (exportSpki (cf_crypto cfg)) seed = Inr kp \<and> kp_address kp = ag_address a))"

definition agent_inv :: "signer_cfg \<Rightarrow> signer \<Rightarrow> string \<Rightarrow> agent \<Rightarrow> bool" where
  "agent_inv cfg st k a = (policy_ok (ag_policy a) \<and> owner_ok a \<and> wallet_ok cfg st k a \<and> ag_ref a < sn_next st)"

definition signer_inv :: "signer_cfg \<Rightarrow> signer \<Rightarrow> bool" where
  "signer_inv cfg st = (map_ok (sn_agents st) \<and> map_ok (sn_keys st) \<and>
     (\<forall>k a. map_get k (sn_agents st) = Some a \<longrightarrow> agent_inv cfg st k a) \<and>
     (\<forall>k a l b. map_get k (sn_agents st) = Some a \<longrightarrow> map_get l (sn_agents st) = Some b \<longrightarrow>
        ag_ref a = ag_ref b \<longrightarrow> k = l))"

lemma evolves_agent_inv:
  "evolves a b \<Longrightarrow> agent_inv cfg st k a \<Longrightarrow> sn_keys st' = sn_keys st \<Longrightarrow> sn_next st' = sn_next st \<Longrightarrow> agent_inv cfg st' k b"
  by (auto simp: evolves_def same_identity_def agent_inv_def wallet_ok_def)

lemma touches_signer_inv:
  assumes "signer_inv cfg st" "touches_agent k st st'"
  shows "signer_inv cfg st'"
proof -
  have ks: "sn_keys st' = sn_keys st" "sn_next st' = sn_next st" using assms(2) by (auto simp: touches_agent_def)
  have same: "agent_inv cfg st' l a" if "agent_inv cfg st l a" for l a
    using that ks evolves_agent_inv [OF evolves_refl] by blast
  consider "sn_agents st' = sn_agents st"
    | a b where "map_get k (sn_agents st) = Some a" "evolves a b" "sn_agents st' = map_set k b (sn_agents st)"
    using assms(2) by (auto simp: touches_agent_def)
  then show ?thesis
  proof cases
    case 1
    then show ?thesis using assms(1) same ks by (auto simp: signer_inv_def)
  next
    case 2
    have r: "ag_ref b = ag_ref a" using 2(2) by (simp add: evolves_def same_identity_def)
    have "agent_inv cfg st k a" using 2(1) assms(1) by (simp add: signer_inv_def)
    then have "agent_inv cfg st' k b" by (rule evolves_agent_inv [OF 2(2) _ ks])
    then show ?thesis using assms(1) 2 r same ks
      by (auto simp: signer_inv_def map_get_set)
  qed
qed

lemma newKeypair_seed: "newKeypair C rnd = Inr kp \<Longrightarrow> kp_seed kp = rnd \<and> fromSeed (exportSpki C) rnd = Inr kp"
  by (auto simp: newKeypair_def fromSeed_def Let_def split: if_splits)

text \<open>What a successful creation does to the state.\<close>

lemma create_agent_cases:
  fixes st :: signer
  defines "st' k rec a \<equiv> put_agent k a (st\<lparr> sn_keys := map_set k rec (sn_keys st), sn_next := Suc (sn_next st) \<rparr>)"
  assumes "gcm_opens (cf_crypto cfg)" "to_str agentId = Inr k"
    and "nullish owner \<or> isPubkey owner"
  shows "snd (create_agent cfg now rnd iv agentId k policy verified owner st) = st \<or>
    (\<exists>rec. snd (create_agent cfg now rnd iv agentId k policy verified owner st) = st\<lparr> sn_keys := map_set k rec (sn_keys st) \<rparr>) \<or>
    (\<exists>rec a. snd (create_agent cfg now rnd iv agentId k policy verified owner st) = st' k rec a \<and>
       agent_inv cfg (st' k rec a) k a \<and> ag_ref a = sn_next st)"
proof (cases "newKeypair (cf_crypto cfg) rnd")
  case (Inl e)
  then show ?thesis by (simp add: create_agent_def)
next
  case (Inr kp)
  let ?rec = "seal (cf_crypto cfg) (cf_MASTER cfg) iv (kp_seed kp)"
  let ?st = "st\<lparr> sn_keys := map_set k ?rec (sn_keys st) \<rparr>"
  show ?thesis
  proof (cases "bindE (normalizePolicy policy) (\<lambda>p. bindE (normalizeVerified verified) (\<lambda>v. Inr (p, v)))")
    case e: (Inl e)
    then show ?thesis using Inr by (simp add: create_agent_def Let_def) blast
  next
    case pv: (Inr pv)
    obtain p v where p: "normalizePolicy policy = Inr p" "normalizeVerified verified = Inr v" "pv = (p, v)"
      using pv by (auto simp: bindE_Inr_iff)
    let ?a = "fresh_agent now (sn_next st) agentId (kp_address kp) (owner_of owner) p v"
    have o: "owner_ok ?a" using assms(4) owner_of_ok [of owner]
      by (auto simp: owner_ok_def fresh_agent_def nullish_def owner_of_def split: option.split)
    have s: "open_seal (cf_crypto cfg) (cf_MASTER cfg) ?rec = Inr (kp_seed kp)"
      "fromSeed (exportSpki (cf_crypto cfg)) (kp_seed kp) = Inr kp"
      using open_seal_seal [OF assms(2)] newKeypair_seed [OF Inr] by auto
    have "agent_inv cfg (st' k ?rec ?a) k ?a"
      unfolding agent_inv_def wallet_ok_def
      using o s assms(3) normalizePolicy_ok [OF p(1)] by (simp add: st'_def fresh_agent_def put_agent_def)
    moreover have "snd (create_agent cfg now rnd iv agentId k policy verified owner st) = st' k ?rec ?a"
      using Inr pv p by (simp add: create_agent_def Let_def st'_def)
    moreover have "ag_ref ?a = sn_next st" by (simp add: fresh_agent_def)
    ultimately show ?thesis by blast
  qed
qed

lemma create_agent_inv:
  assumes "signer_inv cfg st" "gcm_opens (cf_crypto cfg)" "to_str agentId = Inr k" "map_get k (sn_agents st) = None"
    and "nullish owner \<or> isPubkey owner"
  shows "signer_inv cfg (snd (create_agent cfg now rnd iv agentId k policy verified owner st))"
proof -
  have keep: "agent_inv cfg (st\<lparr> sn_keys := map_set k rec (sn_keys st) \<rparr>) l b"
    "agent_inv cfg (put_agent k a (st\<lparr> sn_keys := map_set k rec (sn_keys st), sn_next := Suc (sn_next st) \<rparr>)) l b"
    "ag_ref b \<noteq> sn_next st" "l \<noteq> k"
    if g: "map_get l (sn_agents st) = Some b" for l b rec a
  proof -
    have i: "agent_inv cfg st l b" using g assms(1) by (simp add: signer_inv_def)
    show ne: "l \<noteq> k" using g assms(4) by auto
    show "agent_inv cfg (st\<lparr> sn_keys := map_set k rec (sn_keys st) \<rparr>) l b"
      "agent_inv cfg (put_agent k a (st\<lparr> sn_keys := map_set k rec (sn_keys st), sn_next := Suc (sn_next st) \<rparr>)) l b"
      "ag_ref b \<noteq> sn_next st"
      using i ne by (auto simp: agent_inv_def wallet_ok_def put_agent_def map_get_set)
  qed
  from create_agent_cases [OF assms(2,3,5), of now rnd iv policy verified st] show ?thesis
    using assms(1) keep by (auto simp: signer_inv_def put_agent_def map_get_set split: if_splits)
qed

lemma post_agents_inv:
  assumes "signer_inv cfg st" "gcm_opens (cf_crypto cfg)"
  shows "signer_inv cfg (snd (post_agents cfg b now rnd iv body st))"
proof -
  let ?pre = "bindE (bearer_auth (cf_KEY cfg) b) (\<lambda>_. bindE (jget body ''agentId'') (\<lambda>agentId.
           if \<not> truthy agentId then Inl (Err 400 ''bad-request'')
           else if \<not> nullish (jopt body ''owner'') \<and> \<not> isPubkey (jopt body ''owner'') then Inl (Err 400 ''bad-owner'')
           else bindE (to_str agentId) (\<lambda>k. Inr (agentId, k))))"
  show ?thesis
  proof (cases ?pre)
    case (Inl e)
    then show ?thesis using assms by (simp add: post_agents_def)
  next
    case (Inr ik)
    obtain i k where ik: "ik = (i, k)" by (cases ik)
    have k: "to_str i = Inr k" "nullish (jopt body ''owner'') \<or> isPubkey (jopt body ''owner'')"
      using Inr ik by (auto simp: bindE_Inr_iff split: if_splits)
    show ?thesis
    proof (cases "map_get k (sn_agents st)")
      case None
      then show ?thesis using Inr ik create_agent_inv [OF assms k(1) None k(2)] by (simp add: post_agents_def)
    next
      case (Some a)
      then show ?thesis using Inr ik touches_signer_inv [OF assms(1) update_agent_touches [OF Some k(2)]]
        by (simp add: post_agents_def)
    qed
  qed
qed

lemma destroy_inv: "signer_inv cfg st \<Longrightarrow> signer_inv cfg (snd (destroy_commit k st))"
  by (auto simp: signer_inv_def destroy_commit_def map_get_delete agent_inv_def wallet_ok_def split: if_splits)

lemma sys_step_begin:
  "sy_signer (sys_step cfg s (Begin now k body)) = snd (intent_begin cfg now k body (sy_signer s))"
  by (cases "intent_begin cfg now k body (sy_signer s)") (auto split: sum.split intent_step.split)

lemma sys_step_inv:
  assumes "signer_inv cfg (sy_signer s)" "gcm_opens (cf_crypto cfg)"
  shows "signer_inv cfg (sy_signer (sys_step cfg s op))"
proof (cases op)
  case (Begin now k body)
  then show ?thesis
    using touches_signer_inv [OF assms(1) intent_begin_touches] sys_step_begin by metis
next
  case (Finish i r)
  then show ?thesis using touches_signer_inv [OF assms(1) intent_finish_touches] assms(1) by simp
qed (use assms in \<open>auto intro: touches_signer_inv put_policy_touches put_owner_touches post_session_touches post_agents_inv destroy_inv\<close>)

interpretation custody: invariant_system "sys_step cfg" "\<lambda>_. True"
  "\<lambda>s. gcm_opens (cf_crypto cfg) \<longrightarrow> signer_inv cfg (sy_signer s)" for cfg
  by unfold_locales (simp add: sys_step_inv)

lemma empty_signer_inv: "signer_inv cfg empty_signer"
  by (simp add: signer_inv_def empty_signer_def)

section \<open>The fence\<close>

definition epoch_at_least :: "string \<Rightarrow> nat \<Rightarrow> sys \<Rightarrow> bool" where
  "epoch_at_least k n s = (\<exists>a. map_get k (sn_agents (sy_signer s)) = Some a \<and> n \<le> epoch_of a)"

lemma touches_epoch:
  assumes "touches_agent l (sy_signer s) st'" "epoch_at_least k n s"
  shows "\<exists>a. map_get k (sn_agents st') = Some a \<and> n \<le> epoch_of a"
  using assms by (fastforce simp: touches_agent_def epoch_at_least_def evolves_def epoch_of_def map_get_set)

lemma post_agents_epoch:
  assumes "epoch_at_least k n s"
  shows "\<exists>a. map_get k (sn_agents (snd (post_agents cfg b now rnd iv body (sy_signer s)))) = Some a \<and> n \<le> epoch_of a"
proof -
  have create: "map_get k (sn_agents (snd (create_agent cfg now rnd iv i l p v o' (sy_signer s)))) = map_get k (sn_agents (sy_signer s))"
    if "map_get l (sn_agents (sy_signer s)) = None" for i l p v o'
    using that assms
    by (auto simp: create_agent_def Let_def put_agent_def epoch_at_least_def map_get_set split: sum.split)
  have update: "\<exists>a. map_get k (sn_agents (snd (update_agent now l p v o' x (sy_signer s)))) = Some a \<and> n \<le> epoch_of a"
    if "map_get l (sn_agents (sy_signer s)) = Some x" for l p v o' x
    using that assms
    by (auto simp: update_agent_def Let_def put_agent_def epoch_at_least_def map_get_set epoch_of_def split: sum.split)
  show ?thesis
    using assms create update
    by (auto simp: post_agents_def epoch_at_least_def split: sum.split option.split)
qed

lemma sys_step_epoch:
  assumes "epoch_at_least k n s" "op \<noteq> Destroy k"
  shows "epoch_at_least k n (sys_step cfg s op)"
proof (cases op)
  case (Begin now l body)
  then show ?thesis
    using touches_epoch [OF intent_begin_touches assms(1)] sys_step_begin by (simp only: epoch_at_least_def)
next
  case (Finish i r)
  then show ?thesis using touches_epoch [OF intent_finish_touches assms(1)] assms(1) by (auto simp: epoch_at_least_def)
next
  case (Destroy l)
  then show ?thesis using assms by (auto simp: epoch_at_least_def destroy_commit_def map_get_delete)
qed (use assms(1) touches_epoch [OF put_policy_touches assms(1)] touches_epoch [OF put_owner_touches assms(1)]
      touches_epoch [OF post_session_touches assms(1)] post_agents_epoch [OF assms(1)] in \<open>auto simp: epoch_at_least_def\<close>)

interpretation fencing: invariant_system "sys_step cfg" "\<lambda>op. op \<noteq> Destroy k" "epoch_at_least k n" for cfg k n
  by unfold_locales (rule sys_step_epoch)

section \<open>Accepted intents\<close>

lemma sign_intent_Inr:
  assumes "sign_intent cfg now k a body kind sizeSol st = (Inr r, st')"
  shows "(case r of
      Answer v \<Rightarrow> po_paper (ag_policy a) \<and>
        st' = put_agent k (a\<lparr> ag_daySpentSol := jadd (ag_daySpentSol a) sizeSol, ag_lastTradeTs := now \<rparr>) st
    | Live p \<Rightarrow> \<not> po_paper (ag_policy a) \<and> st' = st \<and> pd_key p = k \<and> pd_ref p = ag_ref a \<and> pd_ts p = now \<and>
        pd_swap p = \<lparr> si_kind = kind, si_token = jopt (intent_of body) ''token'', si_sizeSol = sizeSol,
          si_amount = jopt (intent_of body) ''amount'', si_maxSlippageBps = jopt (intent_of body) ''maxSlippageBps'' \<rparr> \<and>
        pd_maxNotionalSol p = po_maxNotionalSol (ag_policy a) \<and>
        pd_remainingDailySol p = jmax (Fin 0) (jsub (po_maxDailySol (ag_policy a)) (ag_daySpentSol a)))"
  using assms by (auto simp: sign_intent_def Let_def split: sum.splits if_splits)

lemma policy_check_Inr:
  assumes "policy_check now a intent = Inr kind"
  shows "jopt intent ''kind'' = JStr kind \<and> (kind = ''buy'' \<or> kind = ''sell'') \<and> kind \<in> set (po_allow (ag_policy a)) \<and>
    (truthy (jopt intent ''token'') \<longrightarrow> \<not> js_includes (po_denyTokens (ag_policy a)) (jopt intent ''token'') \<and>
       (\<forall>xs. po_allowTokens (ag_policy a) = Some xs \<longrightarrow> js_includes xs (jopt intent ''token''))) \<and>
    \<not> jlt (jsub (int_num now) (int_num (ag_lastTradeTs a))) (po_cooldownMs (ag_policy a))"
proof -
  obtain v where v: "jget intent ''kind'' = Inr v" using assms by (auto simp: policy_check_def bindE_Inr_iff)
  obtain k where k: "v = JStr k" using assms v by (cases v) (simp_all add: policy_check_def)
  have kind: "jopt intent ''kind'' = JStr k" using v k by (simp add: jopt_def)
  show ?thesis
    using assms kind unfolding policy_check_def v k bindE_simps Let_def jsval.case
    by (auto split: if_splits option.splits)
qed

lemma fence_Inr:
  assumes "fence C a body = Inr u"
  shows "\<exists>s t. ag_session a = Some s \<and> strict_eq (jopt body ''epoch'') (JNum (nat_num (ss_epoch s))) \<and>
    to_str (str_or (jopt body ''token'') (JStr [])) = Inr t \<and> sha256hex C t = ss_tokenHash s"
  using assms by (auto simp: fence_def bindE_Inr_iff jopt_def split: option.splits if_splits)

lemma cap_check_Inr:
  assumes "cap_check a kind intent = Inr sz"
  shows "to_num (jopt intent ''sizeSol'') = Inr sz \<and> (if kind = ''sell'' \<and> \<not> po_paper (ag_policy a) then \<exists>amt. to_num (jopt intent ''amount'') = Inr amt \<and> jlt (Fin 0) amt
    else jlt (Fin 0) sz \<and> \<not> jlt (po_maxNotionalSol (ag_policy a)) sz \<and>
      \<not> jlt (po_maxDailySol (ag_policy a)) (jadd (ag_daySpentSol a) sz))"
  using assms by (auto simp: cap_check_def bindE_Inr_iff Let_def split: if_splits)

text \<open>An intent that gets past every check, with the pieces it went through.\<close>

lemma intent_begin_Inr:
  assumes "intent_begin cfg now k body st = (Inr r, st')"
  shows "\<exists>a vs kind sz. map_get k (sn_agents st) = Some a \<and> fence (cf_crypto cfg) a body = Inr () \<and>
    intent_gate (cf_crypto cfg) now a body (sn_vnonce st) = (Inr (), vs) \<and>
    policy_check now a (intent_of body) = Inr kind \<and> cap_check (roll_day now a) kind (intent_of body) = Inr sz \<and>
    sign_intent cfg now k (roll_day now a) body kind sz (put_agent k (roll_day now a) (st\<lparr> sn_vnonce := vs \<rparr>)) = (Inr r, st')"
  using assms by (auto simp: intent_begin_def Let_def split: option.splits sum.splits prod.splits)

definition intent_vi :: "jsval \<Rightarrow> verified_intent" where
  "intent_vi body = \<lparr> vi_intent = intent_of body, vi_rule = jopt body ''rule'',
     vi_inputs = or_empty (jopt body ''inputs''), vi_evidence = str_or (jopt body ''evidence'') (JArr []) \<rparr>"

lemma intent_gate_Inr:
  assumes "intent_gate C now a body vs = (Inr u, vs')" "po_requireVerifiedIntent (ag_policy a)"
  shows "\<exists>rl. ve_rule (ag_verified a) = Some rl \<and>
    decisionGate C now (gate_opts_of (ag_verified a) rl) (intent_vi body) vs = (Inr ''verified'', vs')"
  using assms
  by (auto simp: intent_gate_def intent_vi_def split: option.splits sum.splits prod.splits if_splits)

lemma roll_day_policy [simp]: "ag_policy (roll_day now a) = ag_policy a" "ag_ref (roll_day now a) = ag_ref a"
  by (simp_all add: roll_day_def)

section \<open>Properties\<close>

text \<open>C3. In every reachable state, whatever requests were served and however live swaps interleaved, each
  agent has a sound policy, a public key (or nothing) as owner, and a sealed seed that opens, under
  the master key, to the key pair of exactly the address the agent shows: the address is stable and
  its funds stay recoverable by the owner's export.\<close>

theorem custody_invariant:
  assumes "sys_reach cfg s" "gcm_opens (cf_crypto cfg)" "map_get k (sn_agents (sy_signer s)) = Some a"
  shows "policy_ok (ag_policy a) \<and> owner_ok a \<and>
    (\<exists>seed kp. unseal cfg a (sy_signer s) = Inr seed \<and> fromSeed (exportSpki (cf_crypto cfg)) seed = Inr kp \<and>
       kp_address kp = ag_address a)"
proof -
  have "gcm_opens (cf_crypto cfg) \<longrightarrow> signer_inv cfg (sy_signer s)"
    using assms(1)
  proof induction
    case start
    then show ?case by (simp add: empty_signer_inv)
  next
    case (step s op)
    show ?case using custody.step_inv [OF step.IH] by simp
  qed
  then have "agent_inv cfg (sy_signer s) k a" using assms(2,3) by (simp add: signer_inv_def)
  then show ?thesis by (auto simp: agent_inv_def wallet_ok_def unseal_def)
qed

text \<open>C5. The fence: opening a session gives the agent a strictly higher epoch, and from then on, in every later
  state in which the agent was not destroyed, an intent that carries an earlier epoch is refused
  as fenced and changes nothing. A superseded copy of an agent can never trade again.\<close>

theorem stale_session_fenced:
  assumes "map_get k (sn_agents st) = Some a0" "post_session cfg bearer now rtoken k body st = (Inr reply, st1)"
    and "\<forall>op \<in> set ops. op \<noteq> Destroy k" "m \<le> epoch_of a0"
    and "jget body' ''epoch'' = Inr (JNum (nat_num m))"
    and "s' = run_ops (sys_step cfg) ops \<lparr> sy_signer = st1, sy_pending = pend \<rparr>"
  shows "jopt reply ''epoch'' = JNum (nat_num (Suc (epoch_of a0))) \<and>
    intent_begin cfg now' k body' (sy_signer s') = (Inl (Err 403 ''fenced''), sy_signer s')"
proof
  obtain node where st1: "st1 = put_agent k (a0\<lparr> ag_session := Some \<lparr> ss_epoch = Suc (epoch_of a0),
      ss_tokenHash = sha256hex (cf_crypto cfg) rtoken, ss_node = node, ss_openedAt = now \<rparr> \<rparr>) st"
    and rep: "reply = JObj [(''agentId'', ag_id a0), (''address'', JStr (ag_address a0)),
       (''epoch'', JNum (nat_num (Suc (epoch_of a0)))), (''token'', JStr rtoken), (''paper'', JBool (po_paper (ag_policy a0)))]"
    using assms(1,2) by (auto simp: post_session_def Let_def epoch_of_def split: sum.splits)
  show "jopt reply ''epoch'' = JNum (nat_num (Suc (epoch_of a0)))" by (simp add: rep jopt_def)
  have "epoch_at_least k (Suc (epoch_of a0)) \<lparr> sy_signer = st1, sy_pending = pend \<rparr>"
    by (simp add: epoch_at_least_def st1 put_agent_def epoch_of_def)
  then have "epoch_at_least k (Suc (epoch_of a0)) s'"
    unfolding assms(6) by (rule fencing.run_inv) (use assms(3) in blast)
  then obtain a where a: "map_get k (sn_agents (sy_signer s')) = Some a" "Suc (epoch_of a0) \<le> epoch_of a"
    by (auto simp: epoch_at_least_def)
  then obtain ss where ss: "ag_session a = Some ss" "m < ss_epoch ss"
    using assms(4) by (auto simp: epoch_of_def split: option.splits)
  then have "fence (cf_crypto cfg) a body' = Inl (Err 403 ''fenced'')"
    using assms(5) by (simp add: fence_def jeq_def)
  then show "intent_begin cfg now' k body' (sy_signer s') = (Inl (Err 403 ''fenced''), sy_signer s')"
    using a by (simp add: intent_begin_def)
qed

text \<open>C1. An intent is signed only for the holder of the current session (its epoch and a token that hashes to
  the session's), for buy or sell as the policy allows, for a token that is not denied and, when the policy has a list of
  allowed tokens, is on it, after the cooldown, and, when the policy demands it, only if the decision gate verified it. On
  paper the size is positive and within the cap per trade, and the day's spending grows by it and stays within the daily
  cap. A live intent goes to the swap with its own kind, token, size and amount; the size of a buy is positive, within the cap
  per trade and within what is left of the day, a sell states a positive amount of the token, and the swap gets the cap per
  trade and the remaining budget as its limits for the SOL value of the order.\<close>

theorem signed_intent_permitted:
  assumes "intent_begin cfg now k body st = (Inr r, st')"
  shows "\<exists>a s t kind sz. map_get k (sn_agents st) = Some a \<and>
    ag_session a = Some s \<and> strict_eq (jopt body ''epoch'') (JNum (nat_num (ss_epoch s))) \<and>
    to_str (str_or (jopt body ''token'') (JStr [])) = Inr t \<and> sha256hex (cf_crypto cfg) t = ss_tokenHash s \<and>
    jopt (intent_of body) ''kind'' = JStr kind \<and> kind \<in> {''buy'', ''sell''} \<inter> set (po_allow (ag_policy a)) \<and>
    (truthy (jopt (intent_of body) ''token'') \<longrightarrow>
       \<not> js_includes (po_denyTokens (ag_policy a)) (jopt (intent_of body) ''token'') \<and>
       (\<forall>xs. po_allowTokens (ag_policy a) = Some xs \<longrightarrow> js_includes xs (jopt (intent_of body) ''token''))) \<and>
    \<not> jlt (jsub (int_num now) (int_num (ag_lastTradeTs a))) (po_cooldownMs (ag_policy a)) \<and>
    (po_requireVerifiedIntent (ag_policy a) \<longrightarrow> (\<exists>rl vs'. ve_rule (ag_verified a) = Some rl \<and>
       decisionGate (cf_crypto cfg) now (gate_opts_of (ag_verified a) rl) (intent_vi body) (sn_vnonce st) = (Inr ''verified'', vs'))) \<and>
    to_num (jopt (intent_of body) ''sizeSol'') = Inr sz \<and>
    (case r of
       Answer v \<Rightarrow> po_paper (ag_policy a) \<and> (\<exists>b. map_get k (sn_agents st') = Some b \<and> jlt (Fin 0) sz \<and> \<not> jlt (po_maxNotionalSol (ag_policy a)) sz \<and>
          ag_daySpentSol b = jadd (ag_daySpentSol (roll_day now a)) sz \<and>
          \<not> jlt (po_maxDailySol (ag_policy a)) (ag_daySpentSol b) \<and> ag_lastTradeTs b = now)
     | Live p \<Rightarrow> \<not> po_paper (ag_policy a) \<and>
          pd_swap p = \<lparr> si_kind = kind, si_token = jopt (intent_of body) ''token'', si_sizeSol = sz,
            si_amount = jopt (intent_of body) ''amount'', si_maxSlippageBps = jopt (intent_of body) ''maxSlippageBps'' \<rparr> \<and>
          (if kind = ''buy''
           then jlt (Fin 0) sz \<and> \<not> jlt (po_maxNotionalSol (ag_policy a)) sz \<and>
             \<not> jlt (po_maxDailySol (ag_policy a)) (jadd (ag_daySpentSol (roll_day now a)) sz)
           else \<exists>amt. to_num (jopt (intent_of body) ''amount'') = Inr amt \<and> jlt (Fin 0) amt) \<and>
          pd_maxNotionalSol p = po_maxNotionalSol (ag_policy a) \<and>
          pd_remainingDailySol p = jmax (Fin 0) (jsub (po_maxDailySol (ag_policy a)) (ag_daySpentSol (roll_day now a))))"
proof -
  obtain a vs kind sz where b: "map_get k (sn_agents st) = Some a" "fence (cf_crypto cfg) a body = Inr ()"
    "intent_gate (cf_crypto cfg) now a body (sn_vnonce st) = (Inr (), vs)"
    "policy_check now a (intent_of body) = Inr kind" "cap_check (roll_day now a) kind (intent_of body) = Inr sz"
    and sg: "sign_intent cfg now k (roll_day now a) body kind sz (put_agent k (roll_day now a) (st\<lparr> sn_vnonce := vs \<rparr>)) = (Inr r, st')"
    using intent_begin_Inr [OF assms] by blast
  obtain s t where f: "ag_session a = Some s" "strict_eq (jopt body ''epoch'') (JNum (nat_num (ss_epoch s)))"
    "to_str (str_or (jopt body ''token'') (JStr [])) = Inr t" "sha256hex (cf_crypto cfg) t = ss_tokenHash s"
    using fence_Inr [OF b(2)] by blast
  have g: "po_requireVerifiedIntent (ag_policy a) \<longrightarrow> (\<exists>rl vs'. ve_rule (ag_verified a) = Some rl \<and>
       decisionGate (cf_crypto cfg) now (gate_opts_of (ag_verified a) rl) (intent_vi body) (sn_vnonce st) = (Inr ''verified'', vs'))"
    using intent_gate_Inr [OF b(3)] by blast
  have c: "case r of
       Answer v \<Rightarrow> po_paper (ag_policy a) \<and> (\<exists>b. map_get k (sn_agents st') = Some b \<and> jlt (Fin 0) sz \<and> \<not> jlt (po_maxNotionalSol (ag_policy a)) sz \<and>
          ag_daySpentSol b = jadd (ag_daySpentSol (roll_day now a)) sz \<and>
          \<not> jlt (po_maxDailySol (ag_policy a)) (ag_daySpentSol b) \<and> ag_lastTradeTs b = now)
     | Live p \<Rightarrow> \<not> po_paper (ag_policy a) \<and>
          pd_swap p = \<lparr> si_kind = kind, si_token = jopt (intent_of body) ''token'', si_sizeSol = sz,
            si_amount = jopt (intent_of body) ''amount'', si_maxSlippageBps = jopt (intent_of body) ''maxSlippageBps'' \<rparr> \<and>
          (if kind = ''buy''
           then jlt (Fin 0) sz \<and> \<not> jlt (po_maxNotionalSol (ag_policy a)) sz \<and>
             \<not> jlt (po_maxDailySol (ag_policy a)) (jadd (ag_daySpentSol (roll_day now a)) sz)
           else \<exists>amt. to_num (jopt (intent_of body) ''amount'') = Inr amt \<and> jlt (Fin 0) amt) \<and>
          pd_maxNotionalSol p = po_maxNotionalSol (ag_policy a) \<and>
          pd_remainingDailySol p = jmax (Fin 0) (jsub (po_maxDailySol (ag_policy a)) (ag_daySpentSol (roll_day now a)))"
    using sign_intent_Inr [OF sg] cap_check_Inr [OF b(5)] policy_check_Inr [OF b(4)]
    by (cases r) (auto simp: put_agent_def split: if_splits)
  have z: "to_num (jopt (intent_of body) ''sizeSol'') = Inr sz" using cap_check_Inr [OF b(5)] by blast
  show ?thesis
    using b(1) f g c z policy_check_Inr [OF b(4)]
    by (intro exI [of _ a] exI [of _ s] exI [of _ t] exI [of _ kind] exI [of _ sz]) simp
qed

section \<open>A small service\<close>

definition toy_cfg :: signer_cfg where
  "toy_cfg = \<lparr> cf_crypto = toy_crypto, cf_KEY = [], cf_MASTER = [1], cf_RPC = [''u''], cf_swap = sample_env \<rparr>"

definition toy_policy :: "bool \<Rightarrow> jsval" where
  "toy_policy paper = JObj [(''maxNotionalSol'', JNum (Fin 2)), (''maxDailySol'', JNum (Fin 3)),
     (''cooldownMs'', JNum (Fin 0)), (''paper'', JBool paper)]"

definition toy_normal :: "bool \<Rightarrow> policy" where
  "toy_normal paper = \<lparr> po_maxNotionalSol = Fin 2, po_maxDailySol = Fin 3, po_cooldownMs = Fin 0,
     po_allow = [''buy'', ''sell''], po_denyTokens = [], po_allowTokens = None, po_paper = paper,
     po_requireVerifiedIntent = False, po_rest = [] \<rparr>"

lemma toy_policy_normal: "normalizePolicy (toy_policy paper) = Inr (toy_normal paper)"
  by (simp add: normalizePolicy_def toy_policy_def toy_normal_def DEFAULT_POLICY_def num_or_def
      jor_def jtruthy_def jmax_def jnan_def trade_kinds_def policy_keys_def Let_def)

definition plain_verified :: verified where
  "plain_verified = \<lparr> ve_rule = None, ve_acceptedKeys = [], ve_acceptedNotaries = [], ve_evidenceMaxAgeMs = Fin 60000 \<rparr>"

lemma verified_default: "normalizeVerified JUndef = Inr plain_verified"
  by (simp add: normalizeVerified_def plain_verified_def jopt_def inherited_def object_members_def num_or_def
      jor_def jtruthy_def jmax_def jnan_def Let_def)

definition toy_agent :: "bool \<Rightarrow> agent" where
  "toy_agent paper = fresh_agent 5 0 (JStr ''a'') (kp_address (toy_keypair 7)) None (toy_normal paper) plain_verified"

definition toy_signer :: "bool \<Rightarrow> signer" where
  "toy_signer paper = \<lparr> sn_next = 1, sn_agents = [(''a'', toy_agent paper)], sn_detached = [],
     sn_keys = [(''a'', seal toy_crypto [1] [] (replicate 32 7))], sn_vnonce = [] \<rparr>"

definition toy_provision :: "bool \<Rightarrow> jsval" where
  "toy_provision paper = JObj [(''agentId'', JStr ''a''), (''policy'', toy_policy paper)]"

lemma toy_provisioned: "post_agents toy_cfg [] 5 (replicate 32 7) [] (toy_provision paper) empty_signer =
   (Inr (publicView 5 (toy_agent paper)), toy_signer paper)"
proof -
  have kp: "newKeypair toy_crypto (replicate 32 7) = Inr (toy_keypair 7)"
    by (simp add: newKeypair_def toy_fromSeed)
  have sd: "kp_seed (toy_keypair 7) = replicate 32 7" by (simp add: toy_keypair_def)
  show ?thesis
    by (simp add: post_agents_def toy_provision_def toy_cfg_def bearer_auth_def jopt_def inherited_def object_members_def
        nullish_def empty_signer_def create_agent_def kp sd toy_policy_normal verified_default owner_of_def
        toy_agent_def toy_signer_def put_agent_def Let_def)
qed

definition toy_session :: "bool \<Rightarrow> nat \<Rightarrow> signer" where
  "toy_session paper n = put_agent ''a'' ((toy_agent paper)\<lparr> ag_session := Some \<lparr> ss_epoch = n,
     ss_tokenHash = sha256hex toy_crypto ''tok'', ss_node = JNull, ss_openedAt = 6 \<rparr> \<rparr>) (toy_signer paper)"

lemma toy_opened: "\<exists>reply. post_session toy_cfg [] 6 ''tok'' ''a'' (JObj []) (toy_signer paper) = (Inr reply, toy_session paper 1)"
  by (simp add: post_session_def toy_cfg_def bearer_auth_def toy_signer_def toy_agent_def fresh_agent_def
      inherited_def object_members_def Let_def toy_session_def map_get_def)

definition toy_intent :: "nat \<Rightarrow> jsval" where
  "toy_intent n = JObj [(''epoch'', JNum (nat_num n)), (''token'', JStr ''tok''),
     (''intent'', JObj [(''kind'', JStr ''buy''), (''sizeSol'', JNum (Fin 1)), (''token'', JStr ''T'')])]"

lemma toy_checks:
  assumes "a = (toy_agent paper)\<lparr> ag_session := Some \<lparr> ss_epoch = n,
     ss_tokenHash = sha256hex toy_crypto ''tok'', ss_node = JNull, ss_openedAt = 6 \<rparr> \<rparr>"
  shows "fence toy_crypto a (toy_intent n) = Inr ()"
    "intent_gate toy_crypto 9 a (toy_intent n) vs = (Inr (), vs)"
    "policy_check 9 a (intent_of (toy_intent n)) = Inr ''buy''"
    "roll_day 9 a = a"
    "cap_check a ''buy'' (intent_of (toy_intent n)) = Inr (Fin 1)"
    "unseal toy_cfg a (put_agent ''a'' b (toy_signer paper)) = Inr (replicate 32 7)"
  using fl_int [of 1] fl_int [of 9] toy_gcm_opens
  by (simp_all add: assms toy_agent_def fresh_agent_def toy_intent_def fence_def jopt_def inherited_def
      object_members_def str_or_def jeq_def intent_gate_def toy_normal_def intent_of_def policy_check_def js_includes_def
      roll_day_def utcDay_def cap_check_def jsub_def Let_def unseal_def put_agent_def toy_signer_def toy_cfg_def
      map_get_def open_seal_seal)

lemma toy_signed: "\<exists>v. intent_begin toy_cfg 9 ''a'' (toy_intent n) (toy_session True n) =
   (Inr (Answer v), put_agent ''a'' ((toy_agent True)\<lparr> ag_session := Some \<lparr> ss_epoch = n,
     ss_tokenHash = sha256hex toy_crypto ''tok'', ss_node = JNull, ss_openedAt = 6 \<rparr>,
     ag_daySpentSol := Fin 1, ag_lastTradeTs := 9 \<rparr>) (toy_signer True))"
proof -
  let ?a = "(toy_agent True)\<lparr> ag_session := Some \<lparr> ss_epoch = n,
     ss_tokenHash = sha256hex toy_crypto ''tok'', ss_node = JNull, ss_openedAt = 6 \<rparr> \<rparr>"
  note c = toy_checks [OF refl [of ?a]]
  have g: "map_get ''a'' (sn_agents (toy_session True n)) = Some ?a" by (simp add: toy_session_def put_agent_def)
  have f: "fence (cf_crypto toy_cfg) ?a (toy_intent n) = Inr ()"
    "intent_gate (cf_crypto toy_cfg) 9 ?a (toy_intent n) vs = (Inr (), vs)" for vs
    using c by (simp_all add: toy_cfg_def)
  have s: "put_agent ''a'' ?a (toy_session True n\<lparr> sn_vnonce := sn_vnonce (toy_session True n) \<rparr>) = toy_session True n"
    by (simp add: toy_session_def)
  have u: "unseal toy_cfg ?a (toy_session True n) = Inr (replicate 32 7)"
    using c(6) by (simp add: toy_session_def)
  have sg: "\<exists>v. sign_intent toy_cfg 9 ''a'' ?a (toy_intent n) ''buy'' (Fin 1) (toy_session True n) =
      (Inr (Answer v), put_agent ''a'' (?a\<lparr> ag_daySpentSol := jadd (ag_daySpentSol ?a) (Fin 1), ag_lastTradeTs := 9 \<rparr>) (toy_session True n))"
    using u toy_fromSeed [of 7]
    by (simp add: sign_intent_def Let_def toy_cfg_def toy_agent_def fresh_agent_def toy_normal_def)
  have "jadd (ag_daySpentSol ?a) (Fin 1) = Fin 1"
    using fl_int [of 1] by (simp add: toy_agent_def fresh_agent_def)
  then show ?thesis
    using sg unfolding intent_begin_def g option.case f prod.case sum.case Let_def c(3,4,5) s
    by (simp add: toy_session_def)
qed

section \<open>Witnesses\<close>

lemma toy_reach: "sys_reach toy_cfg \<lparr> sy_signer = toy_signer paper, sy_pending = [] \<rparr>"
  using sys_reach.step [OF sys_reach.start, of toy_cfg "Provision [] 5 (replicate 32 7) [] (toy_provision paper)"]
  by (simp add: toy_provisioned)

theorem custody_invariant_witness:
  "policy_ok (ag_policy (toy_agent True)) \<and> owner_ok (toy_agent True) \<and>
    (\<exists>seed kp. unseal toy_cfg (toy_agent True) (toy_signer True) = Inr seed \<and>
       fromSeed (exportSpki (cf_crypto toy_cfg)) seed = Inr kp \<and> kp_address kp = ag_address (toy_agent True))"
  using custody_invariant [OF toy_reach, where k = "''a''" and a = "toy_agent True"] toy_gcm_opens
  by (simp add: toy_cfg_def toy_signer_def map_get_def)

theorem stale_session_fenced_witness:
  "intent_begin toy_cfg 7 ''a'' (toy_intent 0) (toy_session True 1) = (Inl (Err 403 ''fenced''), toy_session True 1)"
proof -
  obtain reply where r: "post_session toy_cfg [] 6 ''tok'' ''a'' (JObj []) (toy_signer True) = (Inr reply, toy_session True 1)"
    using toy_opened by blast
  have "jget (toy_intent 0) ''epoch'' = Inr (JNum (nat_num 0))" by (simp add: toy_intent_def)
  then show ?thesis
    using stale_session_fenced [OF _ r, where ?a0.0 = "toy_agent True" and ops = "[]" and m = 0 and body' = "toy_intent 0"
        and s' = "\<lparr> sy_signer = toy_session True 1, sy_pending = [] \<rparr>" and pend = "[]" and now' = 7]
    by (simp add: toy_signer_def map_get_def run_ops_def)
qed

theorem signed_intent_permitted_witness:
  "\<exists>a s kind. map_get ''a'' (sn_agents (toy_session True 1)) = Some a \<and> ag_session a = Some s \<and>
     strict_eq (jopt (toy_intent 1) ''epoch'') (JNum (nat_num (ss_epoch s))) \<and>
     jopt (intent_of (toy_intent 1)) ''kind'' = JStr kind \<and> kind \<in> {''buy'', ''sell''} \<inter> set (po_allow (ag_policy a))"
proof -
  obtain v st' where "intent_begin toy_cfg 9 ''a'' (toy_intent 1) (toy_session True 1) = (Inr (Answer v), st')"
    using toy_signed by blast
  from signed_intent_permitted [OF this] show ?thesis by blast
qed

section \<open>The daily budget\<close>

text \<open>
  On paper the check and the accounting are one step, so the day's spending never passes the cap,
  whatever else the service does. The invariant: the agent is on paper under the policy \<open>p\<close>, its
  spending is within the cap, and no live swap pending works on its object.
\<close>

definition within_budget :: "policy \<Rightarrow> agent \<Rightarrow> bool" where
  "within_budget p a = (ag_policy a = p \<and> jle (Fin 0) (ag_daySpentSol a) \<and> jle (ag_daySpentSol a) (po_maxDailySol p))"

definition only_at :: "string \<Rightarrow> nat \<Rightarrow> (string, agent) jmap \<Rightarrow> bool" where
  "only_at k r m = (\<forall>l b. map_get l m = Some b \<longrightarrow> ag_ref b = r \<longrightarrow> l = k)"

definition sole_agent :: "string \<Rightarrow> nat \<Rightarrow> sys \<Rightarrow> bool" where
  "sole_agent k r s = (r < sn_next (sy_signer s) \<and> (\<forall>q \<in> set (sy_pending s). pd_ref q \<noteq> r) \<and>
     only_at k r (sn_agents (sy_signer s)))"

definition paper_budget :: "string \<Rightarrow> policy \<Rightarrow> sys \<Rightarrow> bool" where
  "paper_budget k p s = (\<exists>a. map_get k (sn_agents (sy_signer s)) = Some a \<and> within_budget p a \<and> sole_agent k (ag_ref a) s)"

text \<open>The requests that leave the policy of agent \<open>k\<close> and its place in the table alone.\<close>

fun keeps_policy :: "string \<Rightarrow> sys_op \<Rightarrow> bool" where
  "keeps_policy k (Provision b now rnd iv body) = (to_str (jopt body ''agentId'') \<noteq> Inr k)"
| "keeps_policy k (SetPolicy b now l body) = (l \<noteq> k)"
| "keeps_policy k (Destroy l) = (l \<noteq> k)"
| "keeps_policy k _ = True"

text \<open>A step that rewrites another agent, or this one within its budget, keeps the invariant.\<close>

lemma paper_budgetE:
  assumes "paper_budget k p s"
  obtains a where "map_get k (sn_agents (sy_signer s)) = Some a" "within_budget p a" "sole_agent k (ag_ref a) s"
  using assms unfolding paper_budget_def by blast

lemma paper_budgetI:
  "map_get k (sn_agents (sy_signer s)) = Some a \<Longrightarrow> within_budget p a \<Longrightarrow> sole_agent k (ag_ref a) s \<Longrightarrow> paper_budget k p s"
  unfolding paper_budget_def by blast

lemma only_atD: "only_at k r m \<Longrightarrow> map_get l m = Some b \<Longrightarrow> l \<noteq> k \<Longrightarrow> ag_ref b \<noteq> r"
  unfolding only_at_def by blast

lemma only_at_new: "only_at k r m \<Longrightarrow> ag_ref b \<noteq> r \<or> l = k \<Longrightarrow> only_at k r (map_set l b m)"
  unfolding only_at_def map_get_set by (metis option.inject)

lemma only_at_set: "only_at k r m \<Longrightarrow> map_get l m = Some a \<Longrightarrow> ag_ref b = ag_ref a \<Longrightarrow> only_at k r (map_set l b m)"
  by (rule only_at_new) (auto dest: only_atD)

lemma only_at_delete: "only_at k r m \<Longrightarrow> only_at k r (map_delete l m)"
  unfolding only_at_def map_get_delete by (metis option.distinct(1))

lemma sole_agent_put:
  assumes "sole_agent k r s" "map_get l (sn_agents (sy_signer s)) = Some a" "ag_ref b = ag_ref a"
  shows "sole_agent k r (s\<lparr> sy_signer := put_agent l b (sy_signer s) \<rparr>)"
  using assms by (simp add: sole_agent_def put_agent_def only_at_set)

lemma sole_agent_frame:
  "sole_agent k r s \<Longrightarrow> sn_agents st = sn_agents (sy_signer s) \<Longrightarrow> sn_next st = sn_next (sy_signer s) \<Longrightarrow>
   sole_agent k r (s\<lparr> sy_signer := st \<rparr>)"
  by (simp add: sole_agent_def)

lemma paper_budget_frame:
  assumes "paper_budget k p s" "sn_agents st = sn_agents (sy_signer s)" "sn_next st = sn_next (sy_signer s)"
  shows "paper_budget k p (s\<lparr> sy_signer := st \<rparr>)"
  using assms(1) by (rule paper_budgetE) (auto intro!: paper_budgetI sole_agent_frame simp: assms(2,3))

lemma paper_budget_put:
  assumes "paper_budget k p s" "map_get l (sn_agents (sy_signer s)) = Some a" "ag_ref b = ag_ref a"
    and "l = k \<Longrightarrow> within_budget p a \<Longrightarrow> within_budget p b"
  shows "paper_budget k p (s\<lparr> sy_signer := put_agent l b (sy_signer s) \<rparr>)"
proof -
  obtain a0 where a0: "map_get k (sn_agents (sy_signer s)) = Some a0" "within_budget p a0" "sole_agent k (ag_ref a0) s"
    by (rule paper_budgetE [OF assms(1)])
  note s = sole_agent_put [OF a0(3) assms(2,3)]
  show ?thesis
  proof (cases "l = k")
    case True
    then show ?thesis using a0 s assms by (intro paper_budgetI [of _ _ b]) (simp_all add: put_agent_def)
  next
    case False
    then show ?thesis using a0 s by (intro paper_budgetI [of _ _ a0]) (simp_all add: put_agent_def)
  qed
qed

lemma paper_budget_pending:
  assumes "paper_budget k p s" "map_get l (sn_agents (sy_signer s)) = Some b" "l \<noteq> k" "pd_ref q = ag_ref b"
  shows "paper_budget k p (s\<lparr> sy_pending := sy_pending s @ [q] \<rparr>)"
proof -
  obtain a where a: "map_get k (sn_agents (sy_signer s)) = Some a" "within_budget p a" "sole_agent k (ag_ref a) s"
    by (rule paper_budgetE [OF assms(1)])
  moreover have "ag_ref b \<noteq> ag_ref a" using only_atD [OF _ assms(2,3)] a(3) by (simp add: sole_agent_def)
  ultimately show ?thesis using assms(4) by (intro paper_budgetI [of _ _ a]) (simp_all add: sole_agent_def)
qed

lemma paper_budget_less:
  assumes "paper_budget k p s" "set qs \<subseteq> set (sy_pending s)"
  shows "paper_budget k p (s\<lparr> sy_pending := qs \<rparr>)"
proof -
  obtain a where a: "map_get k (sn_agents (sy_signer s)) = Some a" "within_budget p a" "sole_agent k (ag_ref a) s"
    by (rule paper_budgetE [OF assms(1)])
  then show ?thesis using assms(2) by (intro paper_budgetI [of _ _ a]) (auto simp: sole_agent_def)
qed

lemma paper_budget_new:
  assumes "paper_budget k p s" "l \<noteq> k" "ag_ref b = sn_next (sy_signer s)"
  shows "paper_budget k p (s\<lparr> sy_signer := put_agent l b ((sy_signer s)\<lparr> sn_keys := ks, sn_next := Suc (sn_next (sy_signer s)) \<rparr>) \<rparr>)"
proof -
  obtain a where a: "map_get k (sn_agents (sy_signer s)) = Some a" "within_budget p a" "sole_agent k (ag_ref a) s"
    by (rule paper_budgetE [OF assms(1)])
  then show ?thesis using assms(2,3)
    by (intro paper_budgetI [of _ _ a]) (auto simp: sole_agent_def put_agent_def intro: only_at_new)
qed

lemma roll_day_budget:
  assumes "policy_ok p" "within_budget p a"
  shows "within_budget p (roll_day now a)"
proof -
  have "jle (Fin 0) (po_maxDailySol p)"
    using assms(1) by (auto simp: policy_ok_def intro: jle_trans)
  then show ?thesis using assms by (simp add: roll_day_def within_budget_def)
qed

text \<open>An intent past the cap check stays within the budget when its size is added.\<close>

lemma cap_check_budget:
  assumes "cap_check a kind intent = Inr sz" "po_paper p" "policy_ok p" "within_budget p a"
  shows "within_budget p (a\<lparr> ag_daySpentSol := jadd (ag_daySpentSol a) sz, ag_lastTradeTs := t \<rparr>)"
proof -
  have c: "jlt (Fin 0) sz" "\<not> jlt (po_maxDailySol p) (jadd (ag_daySpentSol a) sz)"
    using cap_check_Inr [OF assms(1)] assms(2,4) by (auto simp: within_budget_def)
  have "jle (Fin 0) sz" using c(1) by (cases sz) (auto simp: jle_def jnan_def)
  then have n: "jle (Fin 0) (jadd (ag_daySpentSol a) sz)"
    using jadd_nonneg assms(4) by (simp add: within_budget_def)
  moreover have "jle (jadd (ag_daySpentSol a) sz) (po_maxDailySol p)"
  proof (rule iffD1 [OF not_jlt_jle c(2)])
    show "\<not> jnan (jadd (ag_daySpentSol a) sz)" using n by (simp add: jle_def)
    show "\<not> jnan (po_maxDailySol p)" using assms(3) by (auto simp: policy_ok_def jle_def)
  qed
  ultimately show ?thesis using assms(4) by (simp add: within_budget_def)
qed

text \<open>Signing on a state in which the agent's object is \<open>a\<close>.\<close>

lemma sign_budget:
  assumes "paper_budget k p s" "map_get l (sn_agents (sy_signer s)) = Some a" "cap_check a kind intent = Inr sz"
    and "po_paper p" "policy_ok p" "sign_intent cfg now l a body kind sz (sy_signer s) = (r, st)"
  shows "paper_budget k p (case r of Inr (Live q) \<Rightarrow> \<lparr> sy_signer = st, sy_pending = sy_pending s @ [q] \<rparr>
    | _ \<Rightarrow> s\<lparr> sy_signer := st \<rparr>)"
proof (cases r)
  case (Inl e)
  then have "st = sy_signer s"
    using assms(6) by (auto simp: sign_intent_def Let_def split: sum.splits if_splits)
  then show ?thesis using Inl assms(1) by simp
next
  case (Inr stp)
  note si = sign_intent_Inr [OF assms(6) [unfolded Inr]]
  show ?thesis
  proof (cases stp)
    case (Answer v)
    then show ?thesis
      using si Inr paper_budget_put [OF assms(1,2)] cap_check_budget [OF assms(3,4,5)] by simp
  next
    case (Live q)
    have q: "st = sy_signer s" "pd_ref q = ag_ref a" "\<not> po_paper (ag_policy a)" using si Live by simp_all
    have "within_budget p a" if "l = k" using assms(1,2) that by (auto elim!: paper_budgetE)
    then have "l \<noteq> k" using q(3) assms(4) by (auto simp: within_budget_def)
    moreover have "\<lparr> sy_signer = st, sy_pending = sy_pending s @ [q] \<rparr> = s\<lparr> sy_pending := sy_pending s @ [q] \<rparr>"
      using q(1) by (cases s) simp
    ultimately show ?thesis using paper_budget_pending [OF assms(1,2) _ q(2)] Live Inr by simp
  qed
qed

lemma begin_budget:
  assumes "paper_budget k p s" "po_paper p" "policy_ok p"
  shows "paper_budget k p (sys_step cfg s (Begin now l body))"
proof (cases "map_get l (sn_agents (sy_signer s))")
  case None
  then show ?thesis using assms(1) by (simp add: intent_begin_def)
next
  case (Some a)
  let ?a = "roll_day now a"
  obtain r1 vs where g: "intent_gate (cf_crypto cfg) now a body (sn_vnonce (sy_signer s)) = (r1, vs)" by force
  let ?s = "s\<lparr> sy_signer := (sy_signer s)\<lparr> sn_vnonce := vs \<rparr> \<rparr>"
  let ?s2 = "?s\<lparr> sy_signer := put_agent l ?a (sy_signer ?s) \<rparr>"
  have s1: "paper_budget k p ?s" by (rule paper_budget_frame [OF assms(1)]) simp_all
  have s2: "paper_budget k p ?s2"
    by (rule paper_budget_put [OF s1, of l a]) (use Some roll_day_budget [OF assms(3)] in simp_all)
  have a2: "map_get l (sn_agents (sy_signer ?s2)) = Some ?a" by (simp add: put_agent_def)
  show ?thesis
  proof (cases "fence (cf_crypto cfg) a body")
    case (Inl e)
    then show ?thesis using Some assms(1) by (simp add: intent_begin_def)
  next
    case f: (Inr u)
    show ?thesis
    proof (cases "\<exists>u kind sz. r1 = Inr u \<and> policy_check now a (intent_of body) = Inr kind \<and>
        cap_check ?a kind (intent_of body) = Inr sz")
      case True
      then obtain u kind sz where c: "r1 = Inr u" "policy_check now a (intent_of body) = Inr kind"
        "cap_check ?a kind (intent_of body) = Inr sz" by blast
      obtain r2 st where sg: "sign_intent cfg now l ?a body kind sz (sy_signer ?s2) = (r2, st)" by force
      have "intent_begin cfg now l body (sy_signer s) = (r2, st)"
        using Some f g c sg by (simp add: intent_begin_def Let_def)
      then show ?thesis using sign_budget [OF s2 a2 c(3) assms(2,3) sg]
        by (auto split: sum.split intent_step.split)
    next
      case False
      then show ?thesis using Some f g s1 s2
        by (auto simp: intent_begin_def Let_def split: sum.split)
    qed
  qed
qed

lemma finish_budget:
  assumes "paper_budget k p s"
  shows "paper_budget k p (sys_step cfg s (Finish i r))"
proof (cases "i < length (sy_pending s)")
  case False
  then show ?thesis using assms by simp
next
  case True
  let ?q = "sy_pending s ! i" and ?s = "s\<lparr> sy_pending := drop_nth i (sy_pending s) \<rparr>"
  have "set (drop_nth i (sy_pending s)) \<subseteq> set (sy_pending s)"
    by (auto simp: drop_nth_def dest: in_set_takeD in_set_dropD)
  then have less: "paper_budget k p ?s" by (rule paper_budget_less [OF assms])
  obtain a where a: "map_get k (sn_agents (sy_signer s)) = Some a" "sole_agent k (ag_ref a) s"
    by (rule paper_budgetE [OF assms])
  have ref: "pd_ref ?q \<noteq> ag_ref a" using a(2) True by (simp add: sole_agent_def)
  have "paper_budget k p (?s\<lparr> sy_signer := snd (intent_finish r ?q (sy_signer ?s)) \<rparr>)"
  proof (cases "\<exists>sw. r = Inr sw \<and> has_ref (pd_ref ?q) (map_get (pd_key ?q) (sn_agents (sy_signer s)))")
    case True
    then obtain sw b where b: "r = Inr sw" "map_get (pd_key ?q) (sn_agents (sy_signer ?s)) = Some b" "ag_ref b = pd_ref ?q"
      by (auto simp: has_ref_def split: option.splits)
    then have ne: "pd_key ?q \<noteq> k" using a ref by auto
    have "ag_ref (account_swap ?q (sr_solValue sw) b) = ag_ref b" by (simp add: account_swap_def)
    from paper_budget_put [OF less b(2) this] show ?thesis
      using b ne by (simp add: intent_finish_def Let_def has_ref_def)
  next
    case False
    show ?thesis
      by (rule paper_budget_frame [OF less]; use False in \<open>auto simp: intent_finish_def Let_def split: sum.split option.split\<close>)
  qed
  then show ?thesis using True by (cases s) simp
qed

lemma provision_budget:
  assumes "paper_budget k p s" "to_str (jopt body ''agentId'') \<noteq> Inr k"
  shows "paper_budget k p (s\<lparr> sy_signer := snd (post_agents cfg b now rnd iv body (sy_signer s)) \<rparr>)"
proof -
  let ?t = "sy_signer s"
  have self: "s\<lparr> sy_signer := ?t \<rparr> = s" by simp
  have create: "paper_budget k p (s\<lparr> sy_signer := snd (create_agent cfg now rnd iv i l po v o' ?t) \<rparr>)"
    if "l \<noteq> k" for i l po v o'
    using assms(1) paper_budget_frame [OF assms(1)] paper_budget_new [OF assms(1) that]
    by (simp add: create_agent_def Let_def fresh_agent_def split: sum.split prod.split)
  have update: "paper_budget k p (s\<lparr> sy_signer := snd (update_agent now l po v o' x ?t) \<rparr>)"
    if "l \<noteq> k" "map_get l (sn_agents ?t) = Some x" for l po v o' x
    using assms(1) paper_budget_put [OF assms(1) that(2)] that(1)
    by (simp add: update_agent_def Let_def split: sum.split)
  show ?thesis
  proof (cases "\<exists>v l. jget body ''agentId'' = Inr v \<and> to_str v = Inr l")
    case True
    then obtain v l where v: "jget body ''agentId'' = Inr v" "to_str v = Inr l" by blast
    then have "l \<noteq> k" using assms(2) by (auto simp: jopt_def)
    then show ?thesis using v assms(1) create update
      by (simp add: post_agents_def bindE_def split: sum.split option.split)
  next
    case False
    then show ?thesis using assms(1) by (auto simp: post_agents_def bindE_def split: sum.split)
  qed
qed

lemma config_budget:
  assumes "paper_budget k p s"
  shows "l \<noteq> k \<Longrightarrow> paper_budget k p (s\<lparr> sy_signer := snd (put_policy cfg b now l body (sy_signer s)) \<rparr>)"
    "paper_budget k p (s\<lparr> sy_signer := snd (put_owner cfg b now l body (sy_signer s)) \<rparr>)"
    "paper_budget k p (s\<lparr> sy_signer := snd (post_session cfg b now t l body (sy_signer s)) \<rparr>)"
proof -
  have put: "paper_budget k p (s\<lparr> sy_signer := put_agent l (a\<lparr> ag_owner := x \<rparr>) (sy_signer s) \<rparr>)"
    "paper_budget k p (s\<lparr> sy_signer := put_agent l (a\<lparr> ag_session := y \<rparr>) (sy_signer s) \<rparr>)"
    "l \<noteq> k \<Longrightarrow> paper_budget k p (s\<lparr> sy_signer := put_agent l (a\<lparr> ag_policy := q \<rparr>) (sy_signer s) \<rparr>)"
    "l \<noteq> k \<Longrightarrow> paper_budget k p (s\<lparr> sy_signer := put_agent l (a\<lparr> ag_policy := q, ag_verified := v \<rparr>) (sy_signer s) \<rparr>)"
    if "map_get l (sn_agents (sy_signer s)) = Some a" for a x y q v
    by (rule paper_budget_put [OF assms that]; simp add: within_budget_def)+
  show "l \<noteq> k \<Longrightarrow> paper_budget k p (s\<lparr> sy_signer := snd (put_policy cfg b now l body (sy_signer s)) \<rparr>)"
    "paper_budget k p (s\<lparr> sy_signer := snd (put_owner cfg b now l body (sy_signer s)) \<rparr>)"
    "paper_budget k p (s\<lparr> sy_signer := snd (post_session cfg b now t l body (sy_signer s)) \<rparr>)"
    using assms put
    by (simp_all add: put_policy_def put_owner_def post_session_def Let_def split: sum.split option.split)
qed

lemma destroy_budget:
  assumes "paper_budget k p s" "l \<noteq> k"
  shows "paper_budget k p (s\<lparr> sy_signer := snd (destroy_commit l (sy_signer s)) \<rparr>)"
proof -
  obtain a where a: "map_get k (sn_agents (sy_signer s)) = Some a" "within_budget p a" "sole_agent k (ag_ref a) s"
    by (rule paper_budgetE [OF assms(1)])
  then show ?thesis using assms(2)
    by (intro paper_budgetI [of _ _ a]) (simp_all add: sole_agent_def destroy_commit_def only_at_delete)
qed

lemma sys_step_budget:
  assumes "po_paper p" "policy_ok p" "paper_budget k p s" "keeps_policy k op"
  shows "paper_budget k p (sys_step cfg s op)"
proof (cases op)
  case (Begin now l body)
  show ?thesis unfolding Begin by (rule begin_budget [OF assms(3,1,2)])
next
  case (Finish i r)
  show ?thesis unfolding Finish by (rule finish_budget [OF assms(3)])
qed (use assms(3,4) provision_budget config_budget destroy_budget in simp_all)

interpretation budget: invariant_system "sys_step cfg" "keeps_policy k"
  "\<lambda>s. po_paper p \<longrightarrow> policy_ok p \<longrightarrow> paper_budget k p s" for cfg k p
  by unfold_locales (use sys_step_budget in blast)

text \<open>Object identities: those in the table and those pending were handed out before.\<close>

definition refs_ok :: "sys \<Rightarrow> bool" where
  "refs_ok s = ((\<forall>x \<in> set (map_values (sn_agents (sy_signer s))). ag_ref x < sn_next (sy_signer s)) \<and>
     (\<forall>q \<in> set (sy_pending s). pd_ref q < sn_next (sy_signer s)))"

lemma refs_ok_touch:
  assumes "refs_ok s" "touches_agent k (sy_signer s) st"
  shows "refs_ok (s\<lparr> sy_signer := st \<rparr>)"
proof -
  have n: "sn_next st = sn_next (sy_signer s)" using assms(2) by (simp add: touches_agent_def)
  have "ag_ref x < sn_next (sy_signer s)" if x: "x \<in> set (map_values (sn_agents st))" for x
  proof -
    have old: "ag_ref y < sn_next (sy_signer s)" if "y \<in> set (map_values (sn_agents (sy_signer s)))" for y
      using assms(1) that unfolding refs_ok_def by blast
    from assms(2) consider "sn_agents st = sn_agents (sy_signer s)"
      | a b where "map_get k (sn_agents (sy_signer s)) = Some a" "evolves a b" "sn_agents st = map_set k b (sn_agents (sy_signer s))"
      unfolding touches_agent_def by blast
    then show ?thesis
    proof cases
      case 1
      then show ?thesis using x old by simp
    next
      case 2
      have "ag_ref b < sn_next (sy_signer s)"
        using old [OF map_values_get [OF 2(1)]] 2(2) by (simp add: evolves_def same_identity_def)
      then show ?thesis using x map_values_set [of x k b] old unfolding 2(3) by blast
    qed
  qed
  then show ?thesis using assms(1) by (simp add: refs_ok_def n)
qed

lemma refs_ok_new:
  assumes "refs_ok s" "ag_ref b = sn_next (sy_signer s)"
  shows "refs_ok (s\<lparr> sy_signer := put_agent k b ((sy_signer s)\<lparr> sn_keys := ks, sn_next := Suc (sn_next (sy_signer s)) \<rparr>) \<rparr>)"
proof -
  have "ag_ref x < Suc (sn_next (sy_signer s))" if "x \<in> set (map_values (map_set k b (sn_agents (sy_signer s))))" for x
    using map_values_set [OF that] assms by (auto simp: refs_ok_def less_Suc_eq)
  then show ?thesis using assms by (auto simp: refs_ok_def put_agent_def less_Suc_eq)
qed

text \<open>The two ways of provisioning, as seen by the table.\<close>

lemma create_agent_table:
  "(\<exists>ks. snd (create_agent cfg now rnd iv i k po v o' st) = st\<lparr> sn_keys := ks \<rparr>) \<or>
   (\<exists>ks p w. normalizePolicy po = Inr p \<and> snd (create_agent cfg now rnd iv i k po v o' st) =
      put_agent k (fresh_agent now (sn_next st) i w (owner_of o') p (case normalizeVerified v of Inr x \<Rightarrow> x))
        (st\<lparr> sn_keys := ks, sn_next := Suc (sn_next st) \<rparr>))"
proof (cases "newKeypair (cf_crypto cfg) rnd")
  case (Inl e)
  then show ?thesis by (intro disjI1 exI [of _ "sn_keys st"]) (simp add: create_agent_def)
next
  case (Inr kp)
  then show ?thesis
    by (cases "normalizePolicy po"; cases "normalizeVerified v")
      (auto simp: create_agent_def Let_def intro: exI [of _ "map_set k _ _"])
qed

lemma refs_ok_provision:
  assumes "refs_ok s"
  shows "refs_ok (s\<lparr> sy_signer := snd (post_agents cfg b now rnd iv body (sy_signer s)) \<rparr>)"
proof -
  have create: "refs_ok (s\<lparr> sy_signer := snd (create_agent cfg now rnd iv i k po v o' (sy_signer s)) \<rparr>)" for i k po v o'
    using create_agent_table [of cfg now rnd iv i k po v o' "sy_signer s"]
  proof (elim disjE exE conjE)
    fix ks assume "snd (create_agent cfg now rnd iv i k po v o' (sy_signer s)) = (sy_signer s)\<lparr> sn_keys := ks \<rparr>"
    then show ?thesis using assms by (simp add: refs_ok_def)
  qed (simp add: refs_ok_new [OF assms] fresh_agent_def)
  have update: "refs_ok (s\<lparr> sy_signer := snd (update_agent now k po v o' a (sy_signer s)) \<rparr>)"
    if "map_get k (sn_agents (sy_signer s)) = Some a" "nullish o' \<or> isPubkey o'" for k po v o' a
    by (rule refs_ok_touch [OF assms update_agent_touches [OF that]])
  let ?pre = "bindE (bearer_auth (cf_KEY cfg) b) (\<lambda>_. bindE (jget body ''agentId'') (\<lambda>agentId.
           if \<not> truthy agentId then Inl (Err 400 ''bad-request'')
           else if \<not> nullish (jopt body ''owner'') \<and> \<not> isPubkey (jopt body ''owner'') then Inl (Err 400 ''bad-owner'')
           else bindE (to_str agentId) (\<lambda>k. Inr (agentId, k))))"
  show ?thesis
  proof (cases ?pre)
    case (Inl e)
    then show ?thesis using assms by (simp add: post_agents_def)
  next
    case (Inr ik)
    then have "nullish (jopt body ''owner'') \<or> isPubkey (jopt body ''owner'')"
      by (auto simp: bindE_Inr_iff split: if_splits)
    then show ?thesis using Inr create update
      by (cases ik) (simp add: post_agents_def split: option.split)
  qed
qed

lemma refs_ok_begin:
  assumes "refs_ok s"
  shows "refs_ok (sys_step cfg s (Begin now k body))"
proof -
  obtain r st where b: "intent_begin cfg now k body (sy_signer s) = (r, st)" by force
  have t: "refs_ok (s\<lparr> sy_signer := st \<rparr>)"
    using refs_ok_touch [OF assms intent_begin_touches [of k _ cfg now body]] b by (metis snd_conv)
  show ?thesis
  proof (cases "\<exists>q. r = Inr (Live q)")
    case True
    then obtain q where q: "r = Inr (Live q)" by blast
    obtain a where a: "map_get k (sn_agents (sy_signer s)) = Some a" "pd_ref q = ag_ref a"
      using intent_begin_Inr [OF b [unfolded q]] sign_intent_Inr by fastforce
    have "pd_ref q < sn_next (sy_signer s)" "sn_next st = sn_next (sy_signer s)"
      using map_values_get [OF a(1)] a(2) assms intent_begin_touches [of k "sy_signer s" cfg now body] b
      by (auto simp: refs_ok_def touches_agent_def)
    then have "refs_ok \<lparr> sy_signer = st, sy_pending = sy_pending s @ [q] \<rparr>" using t by (simp add: refs_ok_def)
    then show ?thesis using b q by simp
  next
    case False
    then show ?thesis using b t by (auto split: sum.split intent_step.split)
  qed
qed

lemma refs_ok_finish:
  assumes "refs_ok s"
  shows "refs_ok (sys_step cfg s (Finish i r))"
proof (cases "i < length (sy_pending s)")
  case True
  have "set (drop_nth i (sy_pending s)) \<subseteq> set (sy_pending s)"
    by (auto simp: drop_nth_def dest: in_set_takeD in_set_dropD)
  then have "refs_ok (s\<lparr> sy_pending := drop_nth i (sy_pending s) \<rparr>)"
    using assms by (auto simp: refs_ok_def)
  from refs_ok_touch [OF this, of "pd_key (sy_pending s ! i)"] intent_finish_touches show ?thesis
    using True by (cases s) simp
qed (use assms in simp)

lemma sys_step_refs:
  assumes "refs_ok s"
  shows "refs_ok (sys_step cfg s op)"
proof (cases op)
  case (Begin now k body)
  show ?thesis unfolding Begin by (rule refs_ok_begin [OF assms])
next
  case (Finish i r)
  show ?thesis unfolding Finish by (rule refs_ok_finish [OF assms])
next
  case (Destroy k)
  then show ?thesis using assms by (auto simp: refs_ok_def destroy_commit_def map_delete_def)
qed (use refs_ok_touch [OF assms put_policy_touches] refs_ok_touch [OF assms put_owner_touches]
      refs_ok_touch [OF assms post_session_touches] refs_ok_provision [OF assms] in simp_all)

interpretation identities: invariant_system "sys_step cfg" "\<lambda>_. True" refs_ok for cfg
  by unfold_locales (rule sys_step_refs)

lemma reach_refs: "sys_reach cfg s \<Longrightarrow> refs_ok s"
  by (induction rule: sys_reach.induct) (simp add: refs_ok_def empty_signer_def, rule identities.step_inv, simp_all)

text \<open>A fresh agent is alone on its object.\<close>

lemma fresh_budget:
  assumes "refs_ok s" "map_get k (sn_agents (sy_signer s)) = None"
    and "map_get k (sn_agents (snd (post_agents cfg b now rnd iv body (sy_signer s)))) = Some a"
  shows "policy_ok (ag_policy a) \<and>
    paper_budget k (ag_policy a) (s\<lparr> sy_signer := snd (post_agents cfg b now rnd iv body (sy_signer s)) \<rparr>)"
proof -
  let ?t = "sy_signer s"
  have only: "only_at k (sn_next ?t) (sn_agents ?t)"
    using assms(1) map_values_get unfolding only_at_def refs_ok_def by fastforce
  have here: "snd (post_agents cfg b now rnd iv body ?t) = snd (create_agent cfg now rnd iv i l po v o' ?t) \<Longrightarrow> ?thesis" for i l po v o'
    using create_agent_table [of cfg now rnd iv i l po v o' ?t]
  proof (elim disjE exE conjE)
    fix ks assume "snd (create_agent cfg now rnd iv i l po v o' ?t) = ?t\<lparr> sn_keys := ks \<rparr>"
      "snd (post_agents cfg b now rnd iv body ?t) = snd (create_agent cfg now rnd iv i l po v o' ?t)"
    then show ?thesis using assms(2,3) by simp
  next
    fix ks p w
    let ?a = "fresh_agent now (sn_next ?t) i w (owner_of o') p (case normalizeVerified v of Inr x \<Rightarrow> x)"
    assume p: "normalizePolicy po = Inr p" and eq: "snd (post_agents cfg b now rnd iv body ?t) = snd (create_agent cfg now rnd iv i l po v o' ?t)"
      "snd (create_agent cfg now rnd iv i l po v o' ?t) = put_agent l ?a (?t\<lparr> sn_keys := ks, sn_next := Suc (sn_next ?t) \<rparr>)"
    have a: "l = k" "a = ?a"
      using assms(2,3) by (auto simp: eq put_agent_def map_get_set split: if_splits)
    note pol = normalizePolicy_ok [OF p]
    have "jle (Fin 0) (po_maxDailySol p)" using pol by (auto simp: policy_ok_def intro: jle_trans)
    then have w: "within_budget p ?a" by (simp add: within_budget_def fresh_agent_def)
    have sa: "sole_agent k (ag_ref ?a) (s\<lparr> sy_signer := put_agent l ?a (?t\<lparr> sn_keys := ks, sn_next := Suc (sn_next ?t) \<rparr>) \<rparr>)"
      using assms(1) only_at_new [OF only, of ?a l] a(1)
      by (auto simp: sole_agent_def put_agent_def fresh_agent_def refs_ok_def)
    have "paper_budget k p (s\<lparr> sy_signer := put_agent l ?a (?t\<lparr> sn_keys := ks, sn_next := Suc (sn_next ?t) \<rparr>) \<rparr>)"
      by (rule paper_budgetI [OF _ w sa]) (simp add: a(1) put_agent_def)
    moreover have "ag_policy a = p" by (simp add: a(2) fresh_agent_def)
    ultimately show ?thesis using pol eq by simp
  qed
  have there: "map_get k (sn_agents (snd (update_agent now l po v o' x ?t))) = None" if "map_get l (sn_agents ?t) = Some x" for l po v o' x
    using that assms(2) by (auto simp: update_agent_def Let_def put_agent_def map_get_set split: sum.split)
  show ?thesis
    using assms(2,3) there here unfolding post_agents_def
    by (fastforce split: sum.splits option.splits prod.splits)
qed

text \<open>C25. The daily cap on paper: from the moment an agent is provisioned with a paper policy, in every later
  state its spending of the day is within the cap of that policy, whatever the service does in
  between (other agents, sessions, owners, live swaps), until its policy is set anew or it is
  destroyed.\<close>

theorem paper_spending_capped:
  assumes "sys_reach cfg s" "map_get k (sn_agents (sy_signer s)) = None"
    and "s1 = sys_step cfg s (Provision b now rnd iv body)"
    and "map_get k (sn_agents (sy_signer s1)) = Some a" "po_paper (ag_policy a)"
    and "\<forall>op \<in> set ops. keeps_policy k op"
  shows "\<exists>a'. map_get k (sn_agents (sy_signer (run_ops (sys_step cfg) ops s1))) = Some a' \<and>
    ag_policy a' = ag_policy a \<and> jle (ag_daySpentSol a') (po_maxDailySol (ag_policy a))"
proof -
  have "policy_ok (ag_policy a) \<and> paper_budget k (ag_policy a) s1"
    using fresh_budget [OF reach_refs [OF assms(1)] assms(2), of cfg b now rnd iv body a] assms(3,4) by simp
  then have "paper_budget k (ag_policy a) (run_ops (sys_step cfg) ops s1)"
    using budget.run_inv [of "ag_policy a" k s1 ops cfg] assms(5,6) by blast
  then show ?thesis by (auto elim: paper_budgetE simp: within_budget_def)
qed

lemma toy_provisioned_step: "sys_step toy_cfg \<lparr> sy_signer = empty_signer, sy_pending = [] \<rparr>
    (Provision [] 5 (replicate 32 7) [] (toy_provision paper)) = \<lparr> sy_signer = toy_signer paper, sy_pending = [] \<rparr>"
  by (simp add: toy_provisioned)

lemma toy_session_step: "sys_step toy_cfg \<lparr> sy_signer = toy_signer paper, sy_pending = [] \<rparr>
    (OpenSession [] 6 ''tok'' ''a'' (JObj [])) = \<lparr> sy_signer = toy_session paper 1, sy_pending = [] \<rparr>"
  using toy_opened [of paper] by auto

theorem paper_spending_capped_witness:
  "\<exists>a'. map_get ''a'' (sn_agents (sy_signer (run_ops (sys_step toy_cfg)
      [OpenSession [] 6 ''tok'' ''a'' (JObj []), Begin 9 ''a'' (toy_intent 1)] \<lparr> sy_signer = toy_signer True, sy_pending = [] \<rparr>))) = Some a' \<and>
    ag_policy a' = toy_normal True \<and> jle (ag_daySpentSol a') (Fin 3)"
  using paper_spending_capped [OF sys_reach.start _ toy_provisioned_step [of True, symmetric], where k = "''a''"
      and a = "toy_agent True" and ops = "[OpenSession [] 6 ''tok'' ''a'' (JObj []), Begin 9 ''a'' (toy_intent 1)]"]
  by (simp add: empty_signer_def toy_signer_def map_get_def toy_agent_def fresh_agent_def toy_normal_def)

text \<open>Live, the cap is checked before the swap is awaited and accounted after it: two intents accepted before
  either of them is finished see the same remaining budget, and both amounts are then added. So
  concurrent live intents of one session can together pass the daily cap.\<close>

theorem live_budget_checked_before_spent:
  assumes "intent_begin cfg now k b1 st = (Inr (Live p1), st1)" "intent_begin cfg now k b2 st1 = (Inr (Live p2), st2)"
    and "intent_finish (Inr s1) p1 st2 = (r1, st3)" "intent_finish (Inr s2) p2 st3 = (r2, st4)"
  shows "pd_remainingDailySol p2 = pd_remainingDailySol p1 \<and> isOk r1 \<and> isOk r2 \<and>
    (\<exists>a a4. map_get k (sn_agents st) = Some a \<and> map_get k (sn_agents st4) = Some a4 \<and> ag_policy a4 = ag_policy a \<and>
       ag_daySpentSol a4 = jadd (jadd (ag_daySpentSol (roll_day now a)) (sr_solValue s1)) (sr_solValue s2))"
proof -
  obtain a vs where a: "map_get k (sn_agents st) = Some a" and st1: "st1 = put_agent k (roll_day now a) (st\<lparr> sn_vnonce := vs \<rparr>)"
    and p1: "pd_key p1 = k" "pd_ref p1 = ag_ref a"
    "pd_remainingDailySol p1 = jmax (Fin 0) (jsub (po_maxDailySol (ag_policy a)) (ag_daySpentSol (roll_day now a)))"
    using intent_begin_Inr [OF assms(1)] sign_intent_Inr by fastforce
  have g1: "map_get k (sn_agents st1) = Some (roll_day now a)" by (simp add: st1 put_agent_def)
  have roll: "roll_day now (roll_day now a) = roll_day now a" by (simp add: roll_day_def)
  obtain vs2 where st2: "st2 = put_agent k (roll_day now a) (st1\<lparr> sn_vnonce := vs2 \<rparr>)"
    and p2: "pd_key p2 = k" "pd_ref p2 = ag_ref a" "pd_remainingDailySol p2 = pd_remainingDailySol p1"
    using intent_begin_Inr [OF assms(2)] sign_intent_Inr g1 roll p1(3) by fastforce
  define a3 where "a3 = account_swap p1 (sr_solValue s1) (roll_day now a)"
  have g2: "map_get k (sn_agents st2) = Some (roll_day now a)" by (simp add: st2 put_agent_def)
  have f1: "r1 = Inr (submitted_reply p1 s1 a3)" "st3 = put_agent k a3 st2"
    using assms(3) g2 p1 by (auto simp: intent_finish_def has_ref_def Let_def a3_def)
  have r3: "ag_ref a3 = ag_ref a" "ag_policy a3 = ag_policy a"
    "ag_daySpentSol a3 = jadd (ag_daySpentSol (roll_day now a)) (sr_solValue s1)"
    by (simp_all add: a3_def account_swap_def)
  have g3: "map_get k (sn_agents st3) = Some a3" by (simp add: f1 put_agent_def)
  have f2: "r2 = Inr (submitted_reply p2 s2 (account_swap p2 (sr_solValue s2) a3))"
    "st4 = put_agent k (account_swap p2 (sr_solValue s2) a3) st3"
    using assms(4) g3 p2 r3 by (auto simp: intent_finish_def has_ref_def Let_def)
  show ?thesis
    using a p2(3) r3 by (auto simp: f1 f2 put_agent_def account_swap_def)
qed

lemma toy_begun: "\<exists>p. intent_begin toy_cfg 9 ''a'' (toy_intent n) (toy_session False n) = (Inr (Live p), toy_session False n)"
proof -
  let ?a = "(toy_agent False)\<lparr> ag_session := Some \<lparr> ss_epoch = n,
     ss_tokenHash = sha256hex toy_crypto ''tok'', ss_node = JNull, ss_openedAt = 6 \<rparr> \<rparr>"
  note c = toy_checks [OF refl [of ?a]]
  have g: "map_get ''a'' (sn_agents (toy_session False n)) = Some ?a" by (simp add: toy_session_def put_agent_def)
  have f: "fence (cf_crypto toy_cfg) ?a (toy_intent n) = Inr ()"
    "intent_gate (cf_crypto toy_cfg) 9 ?a (toy_intent n) vs = (Inr (), vs)" for vs
    using c by (simp_all add: toy_cfg_def)
  have s: "put_agent ''a'' ?a (toy_session False n\<lparr> sn_vnonce := sn_vnonce (toy_session False n) \<rparr>) = toy_session False n"
    by (simp add: toy_session_def)
  have u: "unseal toy_cfg ?a (toy_session False n) = Inr (replicate 32 7)"
    using c(6) by (simp add: toy_session_def)
  have "\<exists>p. sign_intent toy_cfg 9 ''a'' ?a (toy_intent n) ''buy'' (Fin 1) (toy_session False n) = (Inr (Live p), toy_session False n)"
    using u toy_fromSeed [of 7]
    by (simp add: sign_intent_def Let_def toy_cfg_def toy_agent_def fresh_agent_def toy_normal_def)
  then show ?thesis
    unfolding intent_begin_def g option.case f prod.case sum.case Let_def c(3,4,5) s by simp
qed

definition toy_swapped :: swap_result where
  "toy_swapped = \<lparr> sr_txid = JStr ''t'', sr_status = JStr ''Success'', sr_solValue = Fin 2, sr_altPrograms = 0 \<rparr>"

theorem live_budget_checked_before_spent_witness:
  "\<exists>p1 p2 r1 r2 st3 st4 a4. intent_begin toy_cfg 9 ''a'' (toy_intent 1) (toy_session False 1) = (Inr (Live p1), toy_session False 1) \<and>
     intent_begin toy_cfg 9 ''a'' (toy_intent 1) (toy_session False 1) = (Inr (Live p2), toy_session False 1) \<and>
     intent_finish (Inr toy_swapped) p1 (toy_session False 1) = (r1, st3) \<and> intent_finish (Inr toy_swapped) p2 st3 = (r2, st4) \<and>
     map_get ''a'' (sn_agents st4) = Some a4 \<and> po_maxDailySol (ag_policy a4) = Fin 3 \<and> ag_daySpentSol a4 = Fin 4"
proof -
  obtain p where p: "intent_begin toy_cfg 9 ''a'' (toy_intent 1) (toy_session False 1) = (Inr (Live p), toy_session False 1)"
    using toy_begun by blast
  obtain r1 st3 where f1: "intent_finish (Inr toy_swapped) p (toy_session False 1) = (r1, st3)" by force
  obtain r2 st4 where f2: "intent_finish (Inr toy_swapped) p st3 = (r2, st4)" by force
  have g: "map_get ''a'' (sn_agents (toy_session False 1)) = Some ((toy_agent False)\<lparr> ag_session := Some \<lparr> ss_epoch = 1,
     ss_tokenHash = sha256hex toy_crypto ''tok'', ss_node = JNull, ss_openedAt = 6 \<rparr> \<rparr>)"
    by (simp add: toy_session_def put_agent_def)
  obtain a4 where a4: "map_get ''a'' (sn_agents st4) = Some a4" "po_maxDailySol (ag_policy a4) = Fin 3" "ag_daySpentSol a4 = Fin 4"
    using live_budget_checked_before_spent [OF p p f1 f2] g fl_int [of 2] fl_int [of 4]
    by (auto simp: roll_day_def utcDay_def toy_agent_def fresh_agent_def toy_normal_def toy_swapped_def)
  show ?thesis
    by (rule exI [of _ p], rule exI [of _ p], rule exI [of _ r1], rule exI [of _ r2], rule exI [of _ st3],
        rule exI [of _ st4], rule exI [of _ a4]) (use p f1 f2 a4 in blast)
qed

text \<open>C34. An unforced destroy wipes a wallet only when its balance was read as at most 10000 lamports and every
  token account was read as empty; when anything cannot be read, or something is left, the request
  fails and leaves the tables as it finds them. The wiped agent is gone with its key, and every other agent and
  key of the tables the handler finds after its reads stays, whatever was served meanwhile.\<close>

theorem destroy_fails_closed:
  "case delete_agents cfg bearer net k False st later h of
     (Inl e, st', h') \<Rightarrow> st' = later
   | (Inr v, st', h') \<Rightarrow> (\<exists>a bal h1. map_get k (sn_agents st) = Some a \<and>
       getBalanceLamports net (cf_RPC cfg) (ag_address a) h = (Inr bal, h1) \<and> bal \<le> 10000 \<and>
       hasTokenBalance net (cf_RPC cfg) (ag_address a) h1 = (Inr False, h') \<and>
       map_get k (sn_agents st') = None \<and> map_get k (sn_keys st') = None \<and>
       sn_agents st' = map_delete k (sn_agents later) \<and> sn_keys st' = map_delete k (sn_keys later))"
proof (cases "destroy_check cfg bearer net k False st h")
  case (Pair r h')
  show ?thesis
  proof (cases r)
    case (Inl e)
    then show ?thesis using Pair by (simp add: delete_agents_def)
  next
    case (Inr u)
    then obtain a bal h1 where "map_get k (sn_agents st) = Some a"
      "getBalanceLamports net (cf_RPC cfg) (ag_address a) h = (Inr bal, h1)" "bal \<le> 10000"
      "hasTokenBalance net (cf_RPC cfg) (ag_address a) h1 = (Inr False, h')"
      using Pair unfolding destroy_check_def bindS_def
      by (fastforce split: sum.splits option.splits prod.splits if_splits)
    then show ?thesis using Pair Inr by (simp add: delete_agents_def destroy_commit_def map_get_delete)
  qed
qed

end
