(* ===== verification/Store.thy ===== *)
theory Store
  imports Proto Js_Map
begin

text \<open>
  lib/store.js: the state of the control plane. Nodes and agents are records in insertion-ordered
  maps; an agent's owner, spec, health and the like are the JSON values the requests carried. The
  log ring is kept per agent. A snapshot is what \<open>persist\<close> writes: the lists of nodes and agents.
  Ids of nodes are whatever primitive JSON value the node sent.
\<close>

record node =
  nd_id :: jsval
  nd_pubkey :: "string option"
  nd_caps :: jsval
  nd_budget :: jsval
  nd_up :: bool
  nd_lastSeen :: int
  nd_registeredAt :: int
  nd_usage :: jsval
  nd_available :: "jsnum option"
  nd_trusted :: bool

record lease =
  le_epoch :: jsval
  le_token :: jsval
  le_node :: jsval

record cagent =
  ca_id :: string
  ca_name :: jsval
  ca_owner :: jsval
  ca_spec :: jsval
  ca_policy :: policy
  ca_verified :: "verified option"
  ca_address :: jsval
  ca_paper :: jsval
  ca_running :: bool
  ca_state :: lifecycle
  ca_nodeId :: jsval
  ca_session :: "lease option"
  ca_health :: jsval
  ca_createdAt :: int
  ca_placedAt :: int
  ca_failedNodes :: "jsval list"
  ca_placeAttempts :: nat
  ca_lastReport :: int

record store =
  st_nodes :: "(jsval, node) jmap"
  st_agents :: "(string, cagent) jmap"
  st_logs :: "(string, jsval list) jmap"

definition LOG_RING :: nat where
  "LOG_RING = 500"

definition empty_state :: store where
  "empty_state = \<lparr> st_nodes = [], st_agents = [], st_logs = [] \<rparr>"

section \<open>Persistence\<close>

definition persist :: "store \<Rightarrow> node list \<times> cagent list" where
  "persist s = (map_values (st_nodes s), map_values (st_agents s))"

text \<open>\<open>None\<close> when the file cannot be read or parsed.\<close>

definition load :: "(node list \<times> cagent list) option \<Rightarrow> store" where
  "load raw = (case raw of
       None \<Rightarrow> empty_state
     | Some (ns, as) \<Rightarrow> \<lparr> st_nodes = fold (\<lambda>n m. map_set (nd_id n) n m) ns [],
         st_agents = fold (\<lambda>a m. map_set (ca_id a) a m) as [], st_logs = [] \<rparr>)"

section \<open>Nodes\<close>

text \<open>The fields of a registration; the merge keeps the others of a node already known.\<close>

record registration =
  rg_id :: jsval
  rg_pubkey :: "string option"
  rg_caps :: jsval
  rg_budget :: jsval
  rg_lastSeen :: int
  rg_registeredAt :: int

definition upsertNode :: "registration \<Rightarrow> store \<Rightarrow> store" where
  "upsertNode g s =
     (let old = (case map_get (rg_id g) (st_nodes s) of
            Some n \<Rightarrow> n
          | None \<Rightarrow> \<lparr> nd_id = rg_id g, nd_pubkey = None, nd_caps = JUndef, nd_budget = JUndef, nd_up = False, nd_lastSeen = 0,
              nd_registeredAt = 0, nd_usage = JUndef, nd_available = None, nd_trusted = False \<rparr>);
          n = old\<lparr> nd_id := rg_id g, nd_pubkey := rg_pubkey g, nd_caps := rg_caps g, nd_budget := rg_budget g, nd_up := True,
              nd_lastSeen := rg_lastSeen g, nd_registeredAt := rg_registeredAt g \<rparr>
      in s\<lparr> st_nodes := map_set (rg_id g) n (st_nodes s) \<rparr>)"

definition getNode :: "jsval \<Rightarrow> store \<Rightarrow> node option" where
  "getNode k s = map_get k (st_nodes s)"

definition listNodes :: "store \<Rightarrow> node list" where
  "listNodes s = map_values (st_nodes s)"

section \<open>Agents\<close>

definition putAgent :: "cagent \<Rightarrow> store \<Rightarrow> store" where
  "putAgent a s = s\<lparr> st_agents := map_set (ca_id a) a (st_agents s) \<rparr>"

definition getAgent :: "string \<Rightarrow> store \<Rightarrow> cagent option" where
  "getAgent k s = map_get k (st_agents s)"

definition updateAgent :: "string \<Rightarrow> (cagent \<Rightarrow> cagent) \<Rightarrow> store \<Rightarrow> cagent option \<times> store" where
  "updateAgent k patch s = (case getAgent k s of
       None \<Rightarrow> (None, s)
     | Some a \<Rightarrow> (Some (patch a), s\<lparr> st_agents := map_set k (patch a) (st_agents s) \<rparr>))"

definition deleteAgent :: "string \<Rightarrow> store \<Rightarrow> store" where
  "deleteAgent k s = s\<lparr> st_agents := map_delete k (st_agents s), st_logs := map_delete k (st_logs s) \<rparr>"

definition listAgents :: "(cagent \<Rightarrow> bool) \<Rightarrow> store \<Rightarrow> cagent list" where
  "listAgents P s = filter P (map_values (st_agents s))"

section \<open>Logs\<close>

text \<open>\<open>for (const l of lines)\<close> over a JSON value.\<close>

fun iterate :: "jsval \<Rightarrow> jsval list res" where
  "iterate (JArr xs) = Inr xs"
| "iterate (JStr s) = Inr (map (\<lambda>c. JStr [c]) s)"
| "iterate v = Inl type_error"

definition log_lines :: "string \<Rightarrow> store \<Rightarrow> jsval list" where
  "log_lines k s = (case map_get k (st_logs s) of Some ls \<Rightarrow> ls | None \<Rightarrow> [])"

definition appendLogs :: "string \<Rightarrow> jsval \<Rightarrow> store \<Rightarrow> unit res \<times> store" where
  "appendLogs k lines s =
     (let s1 = (if map_has k (st_logs s) then s else s\<lparr> st_logs := map_set k [] (st_logs s) \<rparr>)
      in case iterate lines of
           Inl e \<Rightarrow> (Inl e, s1)
         | Inr ls \<Rightarrow>
             let buf = log_lines k s1 @ ls
             in (Inr (), s1\<lparr> st_logs := map_set k (drop (length buf - LOG_RING) buf) (st_logs s1) \<rparr>))"

text \<open>\<open>l.ts > since\<close> for every line; a line that is null throws.\<close>

definition getLogs :: "string \<Rightarrow> jsnum \<Rightarrow> store \<Rightarrow> jsval list res" where
  "getLogs k since s =
     (let ls = log_lines k s
      in bindE (mapE (\<lambda>l. bindE (jget l ''ts'') to_num) ls) (\<lambda>ts.
         Inr (map snd (filter (\<lambda>(t, l). jlt since t) (zip ts ls)))))"

section \<open>Laws\<close>

definition store_ok :: "store \<Rightarrow> bool" where
  "store_ok s = (map_ok (st_nodes s) \<and> map_ok (st_agents s) \<and> map_ok (st_logs s) \<and>
     (\<forall>(k, n) \<in> set (st_nodes s). nd_id n = k) \<and> (\<forall>(k, a) \<in> set (st_agents s). ca_id a = k) \<and>
     (\<forall>(k, ls) \<in> set (st_logs s). length ls \<le> LOG_RING))"

lemma map_set_new: "k \<notin> set (map_keys m) \<Longrightarrow> map_set k v m = m @ [(k, v)]"
  by (induction k v m rule: map_set.induct) auto

lemma fold_map_set:
  "map_ok (m @ kvs) \<Longrightarrow> (\<forall>(k, v) \<in> set kvs. key v = k) \<Longrightarrow> fold (\<lambda>v m. map_set (key v) v m) (map snd kvs) m = m @ kvs"
proof (induction kvs arbitrary: m)
  case (Cons kv kvs)
  obtain k v where kv: "kv = (k, v)" by (cases kv)
  have "map_set k v m = m @ [(k, v)]"
    using Cons.prems(1) by (intro map_set_new) (auto simp: kv map_ok_def)
  then show ?case using Cons.IH [of "m @ [(k, v)]"] Cons.prems by (simp add: kv)
qed simp

text \<open>Persistence round trip: loading what was persisted restores every node and agent, in order; only the
  logs are lost. An unreadable file gives the empty state.\<close>

theorem load_persist:
  assumes "store_ok s"
  shows "load (Some (persist s)) = s\<lparr> st_logs := [] \<rparr> \<and> store_ok (load (Some (persist s))) \<and> load None = empty_state"
proof -
  have n: "fold (\<lambda>n m. map_set (nd_id n) n m) (map_values (st_nodes s)) [] = st_nodes s"
    using fold_map_set [of "[]" "st_nodes s" nd_id] assms by (simp add: store_ok_def)
  have a: "fold (\<lambda>a m. map_set (ca_id a) a m) (map_values (st_agents s)) [] = st_agents s"
    using fold_map_set [of "[]" "st_agents s" ca_id] assms by (simp add: store_ok_def)
  have l: "load (Some (persist s)) = s\<lparr> st_logs := [] \<rparr>"
    by (simp add: load_def persist_def n a)
  then show ?thesis using assms by (simp add: store_ok_def load_def)
qed

definition sample_node :: "jsval \<Rightarrow> jsval \<Rightarrow> int \<Rightarrow> node" where
  "sample_node k budget seen = \<lparr> nd_id = k, nd_pubkey = Some ''p'', nd_caps = JObj [(''sandbox'', JStr ''oci'')],
     nd_budget = JObj [(''maxAgents'', budget)], nd_up = True, nd_lastSeen = seen, nd_registeredAt = 1, nd_usage = JUndef,
     nd_available = None, nd_trusted = False \<rparr>"

definition sample_store :: store where
  "sample_store = \<lparr> st_nodes = [(JStr ''n'', sample_node (JStr ''n'') (JNum (Fin 2)) 1)], st_agents = [], st_logs = [(''a'', [JNull])] \<rparr>"

theorem load_persist_witness:
  "load (Some (persist sample_store)) = sample_store\<lparr> st_logs := [] \<rparr>"
  using load_persist [of sample_store]
  by (simp add: store_ok_def sample_store_def sample_node_def map_ok_def LOG_RING_def)

lemma ring_facts:
  "length (drop (length b - n) b) \<le> n" "suffix (drop (length b - n) b) b" "length b \<le> n \<longleftrightarrow> drop (length b - n) b = b"
  by (auto simp: suffix_drop dest: arg_cong [where f = length])

text \<open>The log ring: appending keeps at most 500 lines of an agent, the most recent ones, and touches the
  lines of no other agent.\<close>

theorem appendLogs_ring:
  "case appendLogs k lines s of
     (Inl e, s') \<Rightarrow> iterate lines = Inl e \<and> log_lines k s' = log_lines k s
   | (Inr _, s') \<Rightarrow> (\<exists>ls kept. iterate lines = Inr ls \<and> log_lines k s' = kept \<and> length kept \<le> 500 \<and>
       suffix kept (log_lines k s @ ls) \<and> (length (log_lines k s @ ls) \<le> 500 \<longleftrightarrow> kept = log_lines k s @ ls) \<and>
       log_lines l s' = (if l = k then kept else log_lines l s))"
proof (cases "iterate lines")
  case (Inl e)
  then show ?thesis
    by (auto simp: appendLogs_def Let_def log_lines_def map_has_def map_get_set split: option.split)
next
  case (Inr ls)
  let ?s1 = "if map_has k (st_logs s) then s else s\<lparr> st_logs := map_set k [] (st_logs s) \<rparr>"
  have s1: "log_lines j ?s1 = log_lines j s" for j
    by (auto simp: log_lines_def map_has_def map_get_set split: option.split)
  define buf kept where "buf = log_lines k s @ ls" and "kept = drop (length buf - 500) buf"
  have app: "appendLogs k lines s = (Inr (), ?s1\<lparr> st_logs := map_set k kept (st_logs ?s1) \<rparr>)"
    using s1 [of k] by (simp add: appendLogs_def Inr LOG_RING_def Let_def buf_def kept_def del: drop_append)
  have g: "log_lines j (?s1\<lparr> st_logs := map_set k kept (st_logs ?s1) \<rparr>) = (if j = k then kept else log_lines j s)" for j
    using s1 [of j] by (simp add: log_lines_def map_get_set)
  have "length kept \<le> 500 \<and> suffix kept buf \<and> (length buf \<le> 500 \<longleftrightarrow> kept = buf)"
    unfolding kept_def using ring_facts by blast
  then show ?thesis unfolding app prod.case sum.case g buf_def using Inr by simp
qed

end
