(* ===== verification/Placement.thy ===== *)
theory Placement
  imports Store
begin

text \<open>
  control-plane/server.js, the scheduler: where an agent is placed, and the sweep that fails over
  from silent nodes and bounces agents that never start. Agents live in the store and are changed in
  place; the scheduler may throw (a coercion of a node's budget or of an agent's required tier), which
  in the sweep, a timer callback, ends the process. Clock readings are integers; the limits of
  the configuration are whatever number the environment variables hold.
\<close>

record place_cfg =
  pc_NODE_TIMEOUT_MS :: jsnum
  pc_STUCK_MS :: jsnum

definition countAssigned :: "store \<Rightarrow> jsval \<Rightarrow> nat" where
  "countAssigned s nodeId = length (listAgents (\<lambda>a. strict_eq (ca_nodeId a) nodeId \<and> ca_running a) s)"

text \<open>\<open>n.budget?.maxAgents ?? 0\<close> as a number.\<close>

definition maxAgents :: "node \<Rightarrow> jsnum res" where
  "maxAgents n = (let v = jopt (nd_budget n) ''maxAgents'' in if nullish v then Inr (Fin 0) else to_num v)"

fun filterE :: "('a \<Rightarrow> bool res) \<Rightarrow> 'a list \<Rightarrow> 'a list res" where
  "filterE p [] = Inr []"
| "filterE p (x # xs) = bindE (p x) (\<lambda>b. bindE (filterE p xs) (\<lambda>ys. Inr (if b then x # ys else ys)))"

text \<open>
  The first entry of the list sorted by free capacity, largest first: the sort is stable, and
  only positive numbers are sorted.
\<close>

fun best_free :: "(node \<times> jsnum) list \<Rightarrow> (node \<times> jsnum) option" where
  "best_free [] = None"
| "best_free (x # xs) = (case best_free xs of
     None \<Rightarrow> Some x | Some y \<Rightarrow> if jlt (snd x) (snd y) then Some y else Some x)"

definition eligible :: "cagent \<Rightarrow> jsval list \<Rightarrow> node \<Rightarrow> bool res" where
  "eligible a avoid n = (if nd_up n \<and> nd_id n \<notin> set avoid then nodeSatisfies (nd_caps n) (nd_trusted n) (ca_spec a) else Inr False)"

definition free_slots :: "store \<Rightarrow> node \<Rightarrow> (node \<times> jsnum) res" where
  "free_slots s n = bindE (maxAgents n) (\<lambda>mx. Inr (n, jsub mx (nat_num (countAssigned s (nd_id n)))))"

definition pickNode :: "store \<Rightarrow> cagent \<Rightarrow> jsval list \<Rightarrow> node option res" where
  "pickNode s a avoid =
     bindE (filterE (eligible a avoid) (listNodes s)) (\<lambda>ns.
     bindE (mapE (free_slots s) ns) (\<lambda>xs.
     Inr (map_option fst (best_free (filter (\<lambda>x. jlt (Fin 0) (snd x)) xs)))))"

text \<open>\<open>s\<close> is the store that holds the agent already; the agent as it is left, also when picking throws.\<close>

definition placed :: "int \<Rightarrow> node option \<Rightarrow> cagent \<Rightarrow> cagent" where
  "placed now n a = (case n of
       None \<Rightarrow> a\<lparr> ca_nodeId := JNull, ca_state := PENDING \<rparr>
     | Some m \<Rightarrow> a\<lparr> ca_nodeId := nd_id m, ca_state := SCHEDULED, ca_placedAt := now \<rparr>)"

definition schedule :: "int \<Rightarrow> store \<Rightarrow> cagent \<Rightarrow> unit res \<times> cagent" where
  "schedule now s a =
     (if \<not> ca_running a then (Inr (), a)
      else if truthy (ca_nodeId a) \<and> (case getNode (ca_nodeId a) s of Some n \<Rightarrow> nd_up n | None \<Rightarrow> False) then (Inr (), a)
      else (case pickNode s a (ca_failedNodes a) of
          Inl e \<Rightarrow> (Inl e, a)
        | Inr (Some n) \<Rightarrow> (Inr (), placed now (Some n) a)
        | Inr None \<Rightarrow>
            if ca_failedNodes a = [] then (Inr (), placed now None a)
            else let a1 = a\<lparr> ca_failedNodes := [] \<rparr>
              in (case pickNode s a1 [] of
                    Inl e \<Rightarrow> (Inl e, a1)
                  | Inr n \<Rightarrow> (Inr (), placed now n a1))))"

section \<open>The sweep\<close>

definition map_agents :: "(cagent \<Rightarrow> cagent) \<Rightarrow> store \<Rightarrow> store" where
  "map_agents f s = s\<lparr> st_agents := map (\<lambda>(k, a). (k, f a)) (st_agents s) \<rparr>"

text \<open>A silent node goes down and its running agents lose their place.\<close>

definition down_node :: "place_cfg \<Rightarrow> int \<Rightarrow> node \<Rightarrow> store \<Rightarrow> store" where
  "down_node cfg t n s =
     (if nd_up n \<and> jlt (pc_NODE_TIMEOUT_MS cfg) (int_num (t - nd_lastSeen n))
      then map_agents (\<lambda>a. if strict_eq (ca_nodeId a) (nd_id n) \<and> ca_running a then a\<lparr> ca_state := FAILED, ca_nodeId := JNull \<rparr> else a)
             (s\<lparr> st_nodes := map_set (nd_id n) (n\<lparr> nd_up := False \<rparr>) (st_nodes s) \<rparr>)
      else s)"

definition down_sweep :: "place_cfg \<Rightarrow> int \<Rightarrow> store \<Rightarrow> store" where
  "down_sweep cfg t s = fold (down_node cfg t) (listNodes s) s"

text \<open>An agent that was scheduled too long ago is taken off its node, which it remembers.\<close>

definition stuck :: "place_cfg \<Rightarrow> int \<Rightarrow> cagent \<Rightarrow> bool" where
  "stuck cfg t a = (ca_running a \<and> ca_state a = SCHEDULED \<and> truthy (ca_nodeId a) \<and>
     jlt (pc_STUCK_MS cfg) (int_num (t - ca_placedAt a)))"

definition bounce :: "cagent \<Rightarrow> cagent" where
  "bounce a = a\<lparr> ca_failedNodes := (if ca_nodeId a \<in> set (ca_failedNodes a) then ca_failedNodes a else ca_failedNodes a @ [ca_nodeId a]),
     ca_placeAttempts := Suc (ca_placeAttempts a), ca_nodeId := JNull, ca_state := PENDING \<rparr>"

definition watchdog :: "place_cfg \<Rightarrow> int \<Rightarrow> store \<Rightarrow> store" where
  "watchdog cfg t s = map_agents (\<lambda>a. if stuck cfg t a then bounce a else a) s"

definition homeless :: "cagent \<Rightarrow> bool" where
  "homeless a = (ca_running a \<and> (\<not> truthy (ca_nodeId a) \<or> ca_state a = PENDING \<or> ca_state a = FAILED))"

text \<open>The agents listed are scheduled one after the other, each seeing the placements before it.\<close>

fun reschedule :: "int \<Rightarrow> string list \<Rightarrow> store \<Rightarrow> unit res \<times> store" where
  "reschedule t [] s = (Inr (), s)"
| "reschedule t (k # ks) s = (case getAgent k s of
     None \<Rightarrow> reschedule t ks s
   | Some a \<Rightarrow> (case schedule t s a of
         (Inl e, a') \<Rightarrow> (Inl e, putAgent a' s)
       | (Inr _, a') \<Rightarrow> reschedule t ks (putAgent a' s)))"

definition sweep :: "place_cfg \<Rightarrow> int \<Rightarrow> store \<Rightarrow> unit res \<times> store" where
  "sweep cfg t s = (let s2 = watchdog cfg t (down_sweep cfg t s)
     in reschedule t (map ca_id (listAgents homeless s2)) s2)"

section \<open>Picking a node\<close>

lemma filterE_Inr: "filterE p xs = Inr ys \<Longrightarrow> ys = filter (\<lambda>x. p x = Inr True) xs \<and> (\<forall>x \<in> set xs. isOk (p x))"
  by (induction xs arbitrary: ys) (auto simp: bindE_Inr_iff split: if_splits)

lemma filterE_Inl: "x \<in> set xs \<Longrightarrow> p x = Inl e \<Longrightarrow> \<exists>e'. filterE p xs = Inl e'"
proof (induction xs)
  case (Cons y ys)
  then show ?case by (cases "p y"; cases "filterE p ys") auto
qed simp

lemma mapE_Inr_map: "mapE f xs = Inr ys \<Longrightarrow> map f xs = map Inr ys"
  by (induction xs arbitrary: ys) (auto simp: bindE_Inr_iff)

lemma jlt_le_trans: "jlt x z \<Longrightarrow> \<not> jlt y z \<Longrightarrow> \<not> jnan y \<Longrightarrow> jlt x y"
  by (cases x; cases y; cases z) (auto simp: jnan_def)

lemma jlt_asym: "jlt x y \<Longrightarrow> \<not> jlt y x"
  by (cases x; cases y) auto

lemma best_free_None: "best_free xs = None \<longleftrightarrow> xs = []"
  by (cases xs) (auto split: option.splits)

lemma best_free_Some:
  "best_free xs = Some b \<Longrightarrow> \<forall>x \<in> set xs. \<not> jnan (snd x) \<Longrightarrow> b \<in> set xs \<and> (\<forall>x \<in> set xs. \<not> jlt (snd b) (snd x))"
proof (induction xs arbitrary: b)
  case (Cons x xs)
  show ?case
  proof (cases "best_free xs")
    case None
    then show ?thesis using Cons.prems by (simp add: best_free_None)
  next
    case (Some y)
    have y: "y \<in> set xs" "\<forall>z \<in> set xs. \<not> jlt (snd y) (snd z)" using Cons.IH [OF Some] Cons.prems(2) by auto
    show ?thesis
    proof (cases "jlt (snd x) (snd y)")
      case True
      then show ?thesis using Cons.prems(1) Some y jlt_asym by auto
    next
      case False
      have "\<not> jlt (snd x) (snd z)" if "z \<in> set xs" for z
        using jlt_le_trans [of "snd x" "snd z" "snd y"] y that False Cons.prems(2) by auto
      then show ?thesis using Cons.prems(1) Some False by auto
    qed
  qed
qed simp

text \<open>The candidates of a placement with their free capacity.\<close>

definition candidate :: "store \<Rightarrow> cagent \<Rightarrow> jsval list \<Rightarrow> node \<Rightarrow> jsnum \<Rightarrow> bool" where
  "candidate s a avoid n free = (n \<in> set (listNodes s) \<and> nd_up n \<and> nd_id n \<notin> set avoid \<and>
     nodeSatisfies (nd_caps n) (nd_trusted n) (ca_spec a) = Inr True \<and>
     (\<exists>mx. maxAgents n = Inr mx \<and> free = jsub mx (nat_num (countAssigned s (nd_id n)))) \<and> jlt (Fin 0) free)"

lemma pickNode_pool:
  assumes "pickNode s a avoid = Inr r"
  shows "\<exists>xs. map_option fst (best_free xs) = r \<and> (\<forall>n free. (n, free) \<in> set xs \<longleftrightarrow> candidate s a avoid n free)"
proof -
  obtain ns xs where ns: "filterE (eligible a avoid) (listNodes s) = Inr ns" and xs: "mapE (free_slots s) ns = Inr xs"
    and r: "r = map_option fst (best_free (filter (\<lambda>x. jlt (Fin 0) (snd x)) xs))"
    using assms by (auto simp: pickNode_def bindE_Inr_iff)
  have n: "n \<in> set ns \<longleftrightarrow> n \<in> set (listNodes s) \<and> nd_up n \<and> nd_id n \<notin> set avoid \<and>
      nodeSatisfies (nd_caps n) (nd_trusted n) (ca_spec a) = Inr True" for n
    using filterE_Inr [OF ns] by (auto simp: eligible_def)
  have f: "free_slots s n = Inr (n', free) \<longleftrightarrow> n' = n \<and> (\<exists>mx. maxAgents n = Inr mx \<and> free = jsub mx (nat_num (countAssigned s (nd_id n))))" for n n' free
    by (auto simp: free_slots_def bindE_Inr_iff)
  have "x \<in> set xs \<longleftrightarrow> (\<exists>n \<in> set ns. free_slots s n = Inr x)" for x
  proof -
    have "x \<in> set xs \<longleftrightarrow> Inr x \<in> set (map (Inr :: _ \<Rightarrow> (node \<times> jsnum) res) xs)" by auto
    also have "\<dots> \<longleftrightarrow> Inr x \<in> set (map (free_slots s) ns)" by (simp only: mapE_Inr_map [OF xs])
    also have "\<dots> \<longleftrightarrow> (\<exists>n \<in> set ns. free_slots s n = Inr x)" by (auto simp: image_iff) metis
    finally show ?thesis .
  qed
  then have "(n, free) \<in> set (filter (\<lambda>x. jlt (Fin 0) (snd x)) xs) \<longleftrightarrow> candidate s a avoid n free" for n free
    using n f by (auto simp: candidate_def)
  then show ?thesis using r by blast
qed

lemma candidate_not_nan: "candidate s a avoid n free \<Longrightarrow> \<not> jnan free"
  using jlt_not_nan by (auto simp: candidate_def)

lemma pickNode_Some:
  assumes "pickNode s a avoid = Inr (Some n)"
  shows "\<exists>free. candidate s a avoid n free \<and> (\<forall>m f. candidate s a avoid m f \<longrightarrow> \<not> jlt free f)"
proof -
  obtain xs b where xs: "best_free xs = Some b" "fst b = n" "\<forall>n free. (n, free) \<in> set xs \<longleftrightarrow> candidate s a avoid n free"
    using pickNode_pool [OF assms] by auto
  have "\<forall>x \<in> set xs. \<not> jnan (snd x)"
  proof
    fix x assume "x \<in> set xs"
    then have "candidate s a avoid (fst x) (snd x)" using xs(3) by (metis prod.collapse)
    then show "\<not> jnan (snd x)" by (rule candidate_not_nan)
  qed
  from best_free_Some [OF xs(1) this] have b: "b \<in> set xs" "\<forall>x \<in> set xs. \<not> jlt (snd b) (snd x)" by auto
  have "candidate s a avoid n (snd b)" using b(1) xs(2,3) by (metis prod.collapse)
  moreover have "\<not> jlt (snd b) f" if "candidate s a avoid m f" for m f
    using b(2) xs(3) that by fastforce
  ultimately show ?thesis by blast
qed

lemma pickNode_None:
  assumes "pickNode s a avoid = Inr None"
  shows "\<not> candidate s a avoid n free"
proof -
  obtain xs where "best_free xs = None" "\<forall>n free. (n, free) \<in> set xs \<longleftrightarrow> candidate s a avoid n free"
    using pickNode_pool [OF assms] by auto
  then show ?thesis by (simp add: best_free_None)
qed

text \<open>C33. A placement goes to a live node that satisfies the agent's requirements, is not one it already failed
  on, has a free slot, and has the most free capacity of all such nodes; the agent is turned
  away only when there is no such node.\<close>

theorem pickNode_picks_best:
  assumes "pickNode s a avoid = Inr r"
  shows "case r of
      Some n \<Rightarrow> (\<exists>free. candidate s a avoid n free \<and> (\<forall>m f. candidate s a avoid m f \<longrightarrow> \<not> jlt free f))
    | None \<Rightarrow> (\<forall>n free. \<not> candidate s a avoid n free)"
  using assms pickNode_Some pickNode_None by (cases r) auto

lemma candidate_room:
  assumes "candidate s a avoid n free" "maxAgents n = Inr (nat_num m)" "m < 2 ^ 53" "countAssigned s (nd_id n) < 2 ^ 53"
  shows "countAssigned s (nd_id n) < m"
proof -
  have "free = jsub (int_num (int m)) (int_num (int (countAssigned s (nd_id n))))"
    using assms(1,2) by (auto simp: candidate_def)
  also have "\<dots> = int_num (int m - int (countAssigned s (nd_id n)))"
    using assms(3,4) by (intro jsub_int) auto
  finally show ?thesis using assms(1) by (auto simp: candidate_def)
qed

section \<open>Scheduling\<close>

lemma schedule_keeps: "schedule t s a = (r, a') \<Longrightarrow> ca_id a' = ca_id a \<and> ca_running a' = ca_running a \<and> ca_spec a' = ca_spec a"
  by (auto simp: schedule_def placed_def Let_def split: if_splits sum.splits option.splits)

lemma candidate_spec: "ca_spec a = ca_spec b \<Longrightarrow> candidate s a = candidate s b"
  by (simp add: candidate_def fun_eq_iff)

lemma schedule_homeless:
  assumes "schedule t s a = (Inr u, a')" "ca_running a" "\<not> truthy (ca_nodeId a)"
  shows "(\<exists>n avoid free. candidate s a avoid n free \<and> ca_nodeId a' = nd_id n \<and> ca_state a' = SCHEDULED \<and> ca_placedAt a' = t) \<or>
    (ca_nodeId a' = JNull \<and> ca_state a' = PENDING \<and> (\<forall>n free. \<not> candidate s a [] n free))"
proof (cases "pickNode s a (ca_failedNodes a)")
  case (Inl e)
  then show ?thesis using assms by (simp add: schedule_def)
next
  case (Inr r)
  show ?thesis
  proof (cases r)
    case (Some n)
    then obtain free where "candidate s a (ca_failedNodes a) n free"
      using Inr pickNode_Some [of s a "ca_failedNodes a" n] by auto
    moreover have "a' = placed t (Some n) a" using Some assms Inr by (simp add: schedule_def)
    ultimately show ?thesis by (intro disjI1 exI [of _ n] exI [of _ "ca_failedNodes a"] exI [of _ free]) (simp add: placed_def)
  next
    case None
    show ?thesis
    proof (cases "ca_failedNodes a = []")
      case True
      then show ?thesis using assms Inr None pickNode_None [of s a "[]"] by (auto simp: schedule_def placed_def)
    next
      case False
      let ?a = "a\<lparr> ca_failedNodes := [] \<rparr>"
      have c: "candidate s ?a = candidate s a" by (rule candidate_spec) simp
      obtain r2 where p: "pickNode s ?a [] = Inr r2" "a' = placed t r2 ?a"
        using assms Inr None False by (auto simp: schedule_def Let_def split: sum.splits)
      show ?thesis
      proof (cases r2)
        case (Some n)
        then obtain free where "candidate s a [] n free" using p(1) pickNode_Some [of s ?a "[]" n] unfolding c by auto
        then show ?thesis using Some p(2)
          by (intro disjI1 exI [of _ n] exI [of _ "[]"] exI [of _ free]) (simp add: placed_def)
      next
        case None
        then show ?thesis using p pickNode_None [of s ?a "[]"] unfolding c by (simp add: placed_def)
      qed
    qed
  qed
qed

lemma getAgent_put: "getAgent k (putAgent a s) = (if k = ca_id a then Some a else getAgent k s)"
  by (simp add: getAgent_def putAgent_def map_get_set)

lemma putAgent_nodes [simp]: "st_nodes (putAgent a s) = st_nodes s"
  by (simp add: putAgent_def)

lemma reschedule_nodes: "reschedule t ks s = (r, s') \<Longrightarrow> st_nodes s' = st_nodes s"
  by (induction t ks s rule: reschedule.induct) (auto split: option.splits prod.splits sum.splits)

lemma reschedule_other: "reschedule t ks s = (r, s') \<Longrightarrow> k \<notin> set ks \<Longrightarrow> (\<And>l a. getAgent l s = Some a \<Longrightarrow> ca_id a = l) \<Longrightarrow> getAgent k s' = getAgent k s"
proof (induction t ks s rule: reschedule.induct)
  case (2 t l ks s)
  show ?case
  proof (cases "getAgent l s")
    case None
    then show ?thesis using 2 by auto
  next
    case (Some a)
    obtain r1 a' where sc: "schedule t s a = (r1, a')" by force
    have id: "ca_id a' = l" using schedule_keeps [OF sc] 2(5) [OF Some] by simp
    show ?thesis
    proof (cases r1)
      case (Inl e)
      then show ?thesis using 2(3,4) Some sc id by (auto simp: getAgent_put)
    next
      case (Inr u)
      have rest: "reschedule t ks (putAgent a' s) = (r, s')" using 2(3) Some sc Inr by simp
      have ids: "\<And>j c. getAgent j (putAgent a' s) = Some c \<Longrightarrow> ca_id c = j"
        using 2(5) id by (auto simp: getAgent_put split: if_splits)
      have "getAgent k s' = getAgent k (putAgent a' s)"
        using 2(2) [OF Some sc [symmetric] Inr rest _ ids] 2(4) by simp
      then show ?thesis using 2(4) id by (simp add: getAgent_put)
    qed
  qed
qed auto

text \<open>Each listed agent has its turn, in the store that the agents listed before it have left, with the nodes as they were.\<close>

lemma reschedule_append:
  "reschedule t (ks @ ls) s = (case reschedule t ks s of (Inl e, s1) \<Rightarrow> (Inl e, s1) | (Inr _, s1) \<Rightarrow> reschedule t ls s1)"
  by (induction t ks s rule: reschedule.induct) (auto split: option.splits prod.splits sum.splits)

lemma reschedule_ids:
  "reschedule t ks s = (r, s') \<Longrightarrow> (\<And>l a. getAgent l s = Some a \<Longrightarrow> ca_id a = l) \<Longrightarrow> getAgent l s' = Some a \<Longrightarrow> ca_id a = l"
proof (induction t ks s rule: reschedule.induct)
  case (2 t k ks s)
  show ?case
  proof (cases "getAgent k s")
    case None
    then show ?thesis using 2 by auto
  next
    case (Some b)
    obtain r1 b' where sc: "schedule t s b = (r1, b')" by force
    have ids: "\<And>j c. getAgent j (putAgent b' s) = Some c \<Longrightarrow> ca_id c = j"
      using 2(4) schedule_keeps [OF sc] by (auto simp: getAgent_put split: if_splits)
    show ?thesis
    proof (cases r1)
      case (Inl e)
      then show ?thesis using 2(3,5) Some sc ids by auto
    next
      case (Inr u)
      then show ?thesis using 2(2) [OF Some sc [symmetric] Inr _ ids 2(5)] 2(3) Some sc by simp
    qed
  qed
qed auto

lemma reschedule_turn:
  assumes "reschedule t ks s = (Inr u, s')" "distinct ks" "k \<in> set ks" "getAgent k s = Some a"
    and ids: "\<And>l b. getAgent l s = Some b \<Longrightarrow> ca_id b = l"
  shows "\<exists>ks1 ks2 s1 a'. ks = ks1 @ k # ks2 \<and> reschedule t ks1 s = (Inr (), s1) \<and> getAgent k s1 = Some a \<and>
    st_nodes s1 = st_nodes s' \<and> schedule t s1 a = (Inr (), a') \<and> getAgent k s' = Some a'"
proof -
  obtain ks1 ks2 where ks: "ks = ks1 @ k # ks2" using assms(3) by (meson split_list)
  then have k: "k \<notin> set ks1" "k \<notin> set ks2" using assms(2) by auto
  obtain r1 s1 where r1: "reschedule t ks1 s = (r1, s1)" by force
  have ok1: "r1 = Inr ()" and rest: "reschedule t (k # ks2) s1 = (Inr u, s')"
    using assms(1) r1 unfolding ks reschedule_append by (auto split: sum.splits)
  have a1: "getAgent k s1 = Some a" using reschedule_other [OF r1 k(1) ids] assms(4) by simp
  have ids1: "\<And>l b. getAgent l s1 = Some b \<Longrightarrow> ca_id b = l" using reschedule_ids [OF r1 ids] by blast
  obtain r2 a' where sc: "schedule t s1 a = (r2, a')" by force
  have ok2: "r2 = Inr ()" and rest2: "reschedule t ks2 (putAgent a' s1) = (Inr u, s')"
    using rest a1 sc by (auto split: sum.splits)
  have id: "ca_id a' = k" using schedule_keeps [OF sc] ids1 [OF a1] by simp
  have "\<And>l b. getAgent l (putAgent a' s1) = Some b \<Longrightarrow> ca_id b = l" using ids1 id by (auto simp: getAgent_put split: if_splits)
  from reschedule_other [OF rest2 k(2) this] have "getAgent k s' = Some a'" using id by (simp add: getAgent_put)
  moreover have "st_nodes s1 = st_nodes s'" using reschedule_nodes [OF rest] by simp
  ultimately show ?thesis using ks r1 ok1 a1 sc ok2 by blast
qed

section \<open>Silent nodes\<close>

definition silent :: "place_cfg \<Rightarrow> int \<Rightarrow> node \<Rightarrow> bool" where
  "silent cfg t n = (nd_up n \<and> jlt (pc_NODE_TIMEOUT_MS cfg) (int_num (t - nd_lastSeen n)))"

definition displaced :: "cagent \<Rightarrow> cagent" where
  "displaced a = a\<lparr> ca_state := FAILED, ca_nodeId := JNull \<rparr>"

lemma getAgent_map: "getAgent k (map_agents f s) = map_option f (getAgent k s)"
  unfolding getAgent_def map_agents_def map_get_def by (induction "st_agents s") (simp_all add: map_of_map)

lemma down_node_agent:
  "getAgent k (down_node cfg t n s) = map_option (\<lambda>a. if silent cfg t n \<and> strict_eq (ca_nodeId a) (nd_id n) \<and> ca_running a
     then displaced a else a) (getAgent k s)"
  by (cases "getAgent k s") (auto simp: down_node_def silent_def displaced_def getAgent_map getAgent_def map_agents_def map_get_def map_of_map)

lemma down_sweep_agent:
  "getAgent k (fold (down_node cfg t) ns s) = map_option (\<lambda>a. if (\<exists>n \<in> set ns. silent cfg t n \<and> strict_eq (ca_nodeId a) (nd_id n)) \<and> ca_running a
     then displaced a else a) (getAgent k s)"
proof (induction ns arbitrary: s)
  case Nil
  then show ?case by (cases "getAgent k s") auto
next
  case (Cons n ns)
  have off: "\<not> strict_eq (ca_nodeId (displaced a)) (nd_id m) \<or> displaced (displaced a) = displaced a" for a m
    by (simp add: displaced_def)
  show ?case
  proof (cases "getAgent k s")
    case None
    then show ?thesis unfolding fold_simps(2) Cons down_node_agent by simp
  next
    case (Some a)
    have run: "ca_running (displaced a) = ca_running a" by (simp add: displaced_def)
    show ?thesis unfolding fold_simps(2) Cons down_node_agent Some option.map
      using off [of a] run by (cases "silent cfg t n \<and> strict_eq (ca_nodeId a) (nd_id n) \<and> ca_running a") auto
  qed
qed

lemma down_sweep_node:
  assumes "distinct (map nd_id ns)"
  shows "getNode j (fold (down_node cfg t) ns s) =
    (case find (\<lambda>n. nd_id n = j \<and> silent cfg t n) ns of Some n \<Rightarrow> Some (n\<lparr> nd_up := False \<rparr>) | None \<Rightarrow> getNode j s)"
  using assms
proof (induction ns arbitrary: s)
  case (Cons n ns)
  have one: "getNode j (down_node cfg t n s) = (if nd_id n = j \<and> silent cfg t n then Some (n\<lparr> nd_up := False \<rparr>) else getNode j s)"
    by (auto simp: down_node_def silent_def getNode_def map_agents_def map_get_set)
  have "nd_id n \<notin> nd_id ` set ns" and d: "distinct (map nd_id ns)" using Cons.prems by simp_all
  then have none: "find (\<lambda>m. nd_id m = nd_id n \<and> silent cfg t m) ns = None"
    unfolding find_None_iff by (metis imageI)
  show ?case
  proof (cases "nd_id n = j \<and> silent cfg t n")
    case True
    then show ?thesis unfolding fold_simps(2) find.simps(2) using Cons.IH [OF d, of "down_node cfg t n s"] none one by auto
  next
    case False
    then have "getNode j (down_node cfg t n s) = getNode j s" using one by auto
    then show ?thesis unfolding fold_simps(2) Cons.IH [OF d, of "down_node cfg t n s"] using False by (simp only: find.simps(2) if_False)
  qed
qed simp

lemma store_agent_id: "store_ok s \<Longrightarrow> getAgent k s = Some a \<Longrightarrow> ca_id a = k"
  by (auto simp: store_ok_def getAgent_def dest: map_get_in)

lemma store_node_id: "store_ok s \<Longrightarrow> getNode k s = Some n \<Longrightarrow> nd_id n = k"
  by (auto simp: store_ok_def getNode_def dest: map_get_in)

lemma listed_node: "store_ok s \<Longrightarrow> n \<in> set (listNodes s) \<Longrightarrow> getNode (nd_id n) s = Some n"
  by (auto simp: listNodes_def getNode_def store_ok_def map_get_iff)

lemma listed_distinct: "store_ok s \<Longrightarrow> distinct (map nd_id (listNodes s))"
proof -
  assume s: "store_ok s"
  then have "map nd_id (listNodes s) = map_keys (st_nodes s)"
    by (auto simp: listNodes_def store_ok_def)
  then show ?thesis using s by (simp add: store_ok_def map_ok_def)
qed

lemma map_agents_ok: "store_ok s \<Longrightarrow> (\<And>a. ca_id (f a) = ca_id a) \<Longrightarrow> store_ok (map_agents f s)"
  by (auto simp: store_ok_def map_agents_def map_ok_def o_def split_beta)

lemma down_node_ok: "store_ok s \<Longrightarrow> store_ok (down_node cfg t n s)"
proof -
  assume s: "store_ok s"
  have "store_ok (s\<lparr> st_nodes := map_set (nd_id n) (n\<lparr> nd_up := False \<rparr>) (st_nodes s) \<rparr>)"
    using s set_map_set [of "st_nodes s"] by (auto simp: store_ok_def)
  then show ?thesis using s by (auto simp: down_node_def intro: map_agents_ok)
qed

lemma down_sweep_ok: "store_ok s \<Longrightarrow> store_ok (down_sweep cfg t s)"
proof -
  have "store_ok s \<Longrightarrow> store_ok (fold (down_node cfg t) ns s)" for ns
    by (induction ns arbitrary: s) (auto intro: down_node_ok)
  then show "store_ok s \<Longrightarrow> ?thesis" by (simp add: down_sweep_def)
qed

lemma watchdog_ok: "store_ok s \<Longrightarrow> store_ok (watchdog cfg t s)"
  unfolding watchdog_def by (rule map_agents_ok) (auto simp: bounce_def)

lemma watchdog_nodes [simp]: "st_nodes (watchdog cfg t s) = st_nodes s"
  by (simp add: watchdog_def map_agents_def)

lemma homeless_listed:
  assumes "store_ok s" "getAgent k s = Some a" "homeless a"
  shows "k \<in> set (map ca_id (listAgents homeless s))" "distinct (map ca_id (listAgents homeless s))"
proof -
  have "(k, a) \<in> set (st_agents s)" using assms(2) by (auto simp: getAgent_def dest: map_get_in)
  then have "a \<in> set (map_values (st_agents s))" by force
  then show "k \<in> set (map ca_id (listAgents homeless s))"
    using assms store_agent_id [OF assms(1,2)] by (auto simp: listAgents_def)
  have "map ca_id (map_values (st_agents s)) = map_keys (st_agents s)" using assms(1) by (auto simp: store_ok_def)
  then have "distinct (map ca_id (map_values (st_agents s)))" using assms(1) by (metis store_ok_def map_ok_def)
  then show "distinct (map ca_id (listAgents homeless s))" by (simp add: listAgents_def distinct_map_filter)
qed

text \<open>C21. Failover: a sweep that completes moves every running agent off a node that fell silent. The agent ends
  up either scheduled on another live node that satisfies it and had a free slot, or pending because
  no live node does; both are judged in the store \<open>s1\<close> in which the agent's turn came: the one after the silent nodes
  went down, the stuck agents were bounced and the homeless agents listed before it were placed.\<close>

theorem sweep_fails_over:
  assumes "store_ok s" "n \<in> set (listNodes s)" "silent cfg t n"
    and "getAgent k s = Some a" "ca_running a" "strict_eq (ca_nodeId a) (nd_id n)"
    and "sweep cfg t s = (Inr u, s')"
  shows "\<exists>a' ks1 ks2 s1. let s2 = watchdog cfg t (down_sweep cfg t s)
    in map ca_id (listAgents homeless s2) = ks1 @ k # ks2 \<and> reschedule t ks1 s2 = (Inr (), s1) \<and>
    getAgent k s' = Some a' \<and> ca_running a' \<and> listNodes s1 = listNodes s' \<and>
    ((ca_state a' = SCHEDULED \<and> ca_placedAt a' = t \<and>
      (\<exists>m avoid free. candidate s1 a avoid m free \<and> ca_nodeId a' = nd_id m \<and> nd_id m \<noteq> nd_id n)) \<or>
     (ca_state a' = PENDING \<and> ca_nodeId a' = JNull \<and> (\<forall>m free. \<not> candidate s1 a [] m free)))"
proof -
  define s2 where "s2 = watchdog cfg t (down_sweep cfg t s)"
  have ok: "store_ok s2" unfolding s2_def by (intro watchdog_ok down_sweep_ok assms(1))
  have d: "getAgent k (down_sweep cfg t s) = Some (displaced a)"
    unfolding down_sweep_def down_sweep_agent using assms by auto
  have a2: "getAgent k s2 = Some (displaced a)"
    unfolding s2_def watchdog_def getAgent_map d by (simp add: stuck_def displaced_def)
  have h: "homeless (displaced a)" using assms(5) by (simp add: homeless_def displaced_def)
  have "reschedule t (map ca_id (listAgents homeless s2)) s2 = (Inr u, s')"
    using assms(7) by (simp add: sweep_def s2_def Let_def)
  from reschedule_turn [OF this homeless_listed(2,1) [OF ok a2 h] a2] store_agent_id [OF ok]
  obtain ks1 ks2 s1 a' where at: "map ca_id (listAgents homeless s2) = ks1 @ k # ks2" "reschedule t ks1 s2 = (Inr (), s1)"
    and turn: "st_nodes s1 = st_nodes s'" "schedule t s1 (displaced a) = (Inr (), a')" "getAgent k s' = Some a'"
    by blast
  have nodes: "st_nodes s' = st_nodes s2"
    using reschedule_nodes \<open>reschedule t (map ca_id (listAgents homeless s2)) s2 = (Inr u, s')\<close> by blast
  have "find (\<lambda>m. nd_id m = nd_id n \<and> silent cfg t m) (listNodes s) \<noteq> None"
    using assms(2,3) by (auto simp: find_None_iff)
  then have down: "\<exists>m. getNode (nd_id n) s2 = Some m \<and> \<not> nd_up m"
    using down_sweep_node [OF listed_distinct [OF assms(1)], of "nd_id n" cfg t s]
    by (auto simp: s2_def getNode_def down_sweep_def split: option.splits)
  have other: "nd_id m \<noteq> nd_id n" if "candidate s1 b avoid m free" for b avoid m free
  proof -
    have "m \<in> set (listNodes s2)" "nd_up m" using that turn(1) nodes by (auto simp: candidate_def listNodes_def)
    then show ?thesis using listed_node [OF ok, of m] down by auto
  qed
  have run: "ca_running a'" using schedule_keeps [OF turn(2)] assms(5) by (simp add: displaced_def)
  have c: "candidate s1 (displaced a) = candidate s1 a" by (rule candidate_spec) (simp add: displaced_def)
  have "(\<exists>m avoid free. candidate s1 a avoid m free \<and> ca_nodeId a' = nd_id m \<and> ca_state a' = SCHEDULED \<and> ca_placedAt a' = t) \<or>
    (ca_nodeId a' = JNull \<and> ca_state a' = PENDING \<and> (\<forall>m free. \<not> candidate s1 a [] m free))"
    using schedule_homeless [OF turn(2)] assms(5) unfolding c by (simp add: displaced_def)
  then have "(ca_state a' = SCHEDULED \<and> ca_placedAt a' = t \<and>
      (\<exists>m avoid free. candidate s1 a avoid m free \<and> ca_nodeId a' = nd_id m \<and> nd_id m \<noteq> nd_id n)) \<or>
     (ca_state a' = PENDING \<and> ca_nodeId a' = JNull \<and> (\<forall>m free. \<not> candidate s1 a [] m free))"
    using other by blast
  then show ?thesis unfolding Let_def s2_def [symmetric] using at turn(1,3) run
    by (intro exI [of _ a'] exI [of _ ks1] exI [of _ ks2] exI [of _ s1]) (simp add: listNodes_def)
qed

text \<open>A small cloud: two nodes with two slots each, the first silent for a minute, and an agent on it.\<close>

definition toy_place :: place_cfg where
  "toy_place = \<lparr> pc_NODE_TIMEOUT_MS = Fin 30000, pc_STUCK_MS = Fin 45000 \<rparr>"

definition toy_run :: "jsval \<Rightarrow> jsval \<Rightarrow> lifecycle \<Rightarrow> cagent" where
  "toy_run spec nodeId state = \<lparr> ca_id = ''a'', ca_name = JStr ''bot'', ca_owner = JNull, ca_spec = spec, ca_policy = sample_normal,
     ca_verified = None, ca_address = JNull, ca_paper = JUndef, ca_running = True, ca_state = state, ca_nodeId = nodeId,
     ca_session = None, ca_health = JNull, ca_createdAt = 1, ca_placedAt = 0, ca_failedNodes = [], ca_placeAttempts = 0,
     ca_lastReport = 0 \<rparr>"

definition toy_cloud :: "jsval \<Rightarrow> lifecycle \<Rightarrow> jsval \<Rightarrow> store" where
  "toy_cloud spec state nodeId = \<lparr> st_nodes = [(JStr ''n'', sample_node (JStr ''n'') (JNum (Fin 2)) 0),
      (JStr ''m'', sample_node (JStr ''m'') (JNum (Fin 2)) 50000)],
     st_agents = [(''a'', toy_run spec nodeId state)], st_logs = [] \<rparr>"

lemma toy_cloud_ok: "store_ok (toy_cloud spec state nodeId)"
  by (simp add: store_ok_def toy_cloud_def map_ok_def sample_node_def toy_run_def)

lemma toy_silent: "silent toy_place 60000 (sample_node (JStr ''n'') b 0)" "\<not> silent toy_place 60000 (sample_node (JStr ''m'') b 50000)"
  by (simp_all add: silent_def toy_place_def sample_node_def)

lemma toy_down: "down_sweep toy_place 60000 (toy_cloud spec RUNNING (JStr ''n'')) =
   \<lparr> st_nodes = [(JStr ''n'', (sample_node (JStr ''n'') (JNum (Fin 2)) 0)\<lparr> nd_up := False \<rparr>), (JStr ''m'', sample_node (JStr ''m'') (JNum (Fin 2)) 50000)],
     st_agents = [(''a'', toy_run spec JNull FAILED)], st_logs = [] \<rparr>"
  by (simp add: down_sweep_def toy_cloud_def listNodes_def down_node_def sample_node_def toy_place_def map_agents_def toy_run_def)

lemma toy_sweep: "\<exists>s'. sweep toy_place 60000 (toy_cloud (JObj []) RUNNING (JStr ''n'')) = (Inr (), s')"
  using fl_int [of 2]
  by (simp add: sweep_def toy_down watchdog_def map_agents_def stuck_def toy_run_def listAgents_def homeless_def getAgent_def map_get_def
      schedule_def pickNode_def listNodes_def eligible_def sample_node_def nodeSatisfies_def jopt_def inherited_def object_members_def
      free_slots_def maxAgents_def nullish_def countAssigned_def jsub_def Let_def)

theorem sweep_fails_over_witness:
  "\<exists>s' a'. sweep toy_place 60000 (toy_cloud (JObj []) RUNNING (JStr ''n'')) = (Inr (), s') \<and> getAgent ''a'' s' = Some a' \<and>
     ca_running a' \<and> ca_state a' \<in> {SCHEDULED, PENDING}"
proof -
  obtain s' where s': "sweep toy_place 60000 (toy_cloud (JObj []) RUNNING (JStr ''n'')) = (Inr (), s')" using toy_sweep by blast
  have n: "sample_node (JStr ''n'') (JNum (Fin 2)) 0 \<in> set (listNodes (toy_cloud (JObj []) RUNNING (JStr ''n'')))"
    by (simp add: listNodes_def toy_cloud_def)
  have a: "getAgent ''a'' (toy_cloud (JObj []) RUNNING (JStr ''n'')) = Some (toy_run (JObj []) (JStr ''n'') RUNNING)"
    by (simp add: getAgent_def toy_cloud_def map_get_def)
  have r: "ca_running (toy_run (JObj []) (JStr ''n'') RUNNING)"
    "strict_eq (ca_nodeId (toy_run (JObj []) (JStr ''n'') RUNNING)) (nd_id (sample_node (JStr ''n'') (JNum (Fin 2)) 0))"
    by (simp_all add: toy_run_def sample_node_def)
  from sweep_fails_over [OF toy_cloud_ok n toy_silent(1) a r s', unfolded Let_def] show ?thesis using s' by (elim exE conjE) auto
qed

text \<open>A tenant can stop the control plane: an agent that has no node and whose spec requires a sandbox given
  as an object that hides its \<open>toString\<close> makes the placement throw as soon as any other node is up.
  The sweep, a timer callback, then ends with the exception (and the process with it), whatever else
  is to be scheduled, and leaves the agent as it was for the next start.\<close>

theorem required_sandbox_crashes_sweep:
  assumes "store_ok s" "s2 = watchdog cfg t (down_sweep cfg t s)" "getAgent k s2 = Some a"
    and "ca_running a" "\<not> truthy (ca_nodeId a)" "truthy (jopt (ca_spec a) ''bundle'')"
    and "jopt (ca_spec a) ''requireSandbox'' = JObj fs" "''toString'' \<in> fst ` set fs"
    and "m \<in> set (listNodes s2)" "nd_up m" "nd_id m \<notin> set (ca_failedNodes a)"
  shows "\<exists>e s'. sweep cfg t s = (Inl e, s') \<and> getAgent k s' = Some a"
proof -
  have ok: "store_ok s2" unfolding assms(2) by (intro watchdog_ok down_sweep_ok assms(1))
  have h: "homeless a" using assms(4,5) by (simp add: homeless_def)
  have thrown: "\<exists>e. schedule t s1 a = (Inl e, a)" if "st_nodes s1 = st_nodes s2" for s1
  proof -
    have "eligible a (ca_failedNodes a) m = Inl type_error"
      using assms(6-8,10,11) by (simp add: eligible_def nodeSatisfies_def sandbox_rank_def Let_def)
    moreover have "m \<in> set (listNodes s1)" using assms(9) that by (simp add: listNodes_def)
    ultimately obtain e where "filterE (eligible a (ca_failedNodes a)) (listNodes s1) = Inl e" using filterE_Inl by metis
    then have "pickNode s1 a (ca_failedNodes a) = Inl e" by (simp add: pickNode_def)
    then show ?thesis using assms(4,5) by (simp add: schedule_def)
  qed
  have run: "\<exists>e s'. reschedule t ks s1 = (Inl e, s') \<and> getAgent k s' = Some a"
    if "k \<in> set ks" "st_nodes s1 = st_nodes s2" "getAgent k s1 = Some a" "\<And>l b. getAgent l s1 = Some b \<Longrightarrow> ca_id b = l" for ks s1
    using that
  proof (induction ks arbitrary: s1)
    case (Cons l ks)
    show ?case
    proof (cases "getAgent l s1")
      case None
      then show ?thesis using Cons by auto
    next
      case (Some b)
      obtain r b' where sc: "schedule t s1 b = (r, b')" by force
      have id: "ca_id b' = l" using schedule_keeps [OF sc] Cons.prems(4) [OF Some] by simp
      have a': "getAgent k (putAgent b' s1) = Some a"
        using thrown [OF Cons.prems(2)] Cons.prems(3) Some sc id by (auto simp: getAgent_put)
      show ?thesis
      proof (cases r)
        case (Inl e)
        then show ?thesis using Some sc a' by simp
      next
        case (Inr u)
        then have "k \<noteq> l" using thrown [OF Cons.prems(2)] Cons.prems(3) Some sc by auto
        then have "k \<in> set ks" using Cons.prems(1) by simp
        moreover have "ca_id c = j" if "getAgent j (putAgent b' s1) = Some c" for j c
          using that Cons.prems(4) id by (auto simp: getAgent_put split: if_splits)
        ultimately show ?thesis using Cons.IH [of "putAgent b' s1"] Cons.prems(2) a' Some sc Inr by simp
      qed
    qed
  qed simp
  have "k \<in> set (map ca_id (listAgents homeless s2))" by (rule homeless_listed(1) [OF ok assms(3) h])
  from run [OF this refl assms(3) store_agent_id [OF ok]] show ?thesis
    by (simp add: sweep_def assms(2) Let_def)
qed

definition poison :: jsval where
  "poison = JObj [(''bundle'', JObj [(''runtime'', JStr ''node'')]), (''requireSandbox'', JObj [(''toString'', JNum (Fin 1))])]"

theorem required_sandbox_crashes_sweep_witness:
  "\<exists>e s'. sweep toy_place 60000 (toy_cloud poison PENDING JNull) = (Inl e, s') \<and> getAgent ''a'' s' = Some (toy_run poison JNull PENDING)"
proof (rule required_sandbox_crashes_sweep [OF toy_cloud_ok refl, where fs = "[(''toString'', JNum (Fin 1))]"
    and m = "sample_node (JStr ''m'') (JNum (Fin 2)) 50000"])
  have d: "down_sweep toy_place 60000 (toy_cloud poison PENDING JNull) =
     \<lparr> st_nodes = [(JStr ''n'', (sample_node (JStr ''n'') (JNum (Fin 2)) 0)\<lparr> nd_up := False \<rparr>), (JStr ''m'', sample_node (JStr ''m'') (JNum (Fin 2)) 50000)],
       st_agents = [(''a'', toy_run poison JNull PENDING)], st_logs = [] \<rparr>"
    by (simp add: down_sweep_def toy_cloud_def listNodes_def down_node_def sample_node_def toy_place_def map_agents_def toy_run_def)
  show "getAgent ''a'' (watchdog toy_place 60000 (down_sweep toy_place 60000 (toy_cloud poison PENDING JNull))) = Some (toy_run poison JNull PENDING)"
    by (simp add: d watchdog_def map_agents_def getAgent_def map_get_def stuck_def toy_run_def)
  show "sample_node (JStr ''m'') (JNum (Fin 2)) 50000 \<in> set (listNodes (watchdog toy_place 60000 (down_sweep toy_place 60000 (toy_cloud poison PENDING JNull))))"
    by (simp add: d watchdog_def map_agents_def listNodes_def)
qed (simp_all add: toy_run_def sample_node_def poison_def jopt_def)

theorem pickNode_picks_best_witness:
  "\<exists>n. pickNode (toy_cloud (JObj []) PENDING JNull) (toy_run (JObj []) JNull PENDING) [JStr ''n''] = Inr (Some n) \<and>
     (\<exists>free. candidate (toy_cloud (JObj []) PENDING JNull) (toy_run (JObj []) JNull PENDING) [JStr ''n''] n free)"
proof -
  obtain r where r: "pickNode (toy_cloud (JObj []) PENDING JNull) (toy_run (JObj []) JNull PENDING) [JStr ''n''] = Inr r" "r \<noteq> None"
    using fl_int [of 2]
    by (simp add: toy_cloud_def toy_run_def pickNode_def listNodes_def eligible_def sample_node_def nodeSatisfies_def jopt_def
      inherited_def object_members_def free_slots_def maxAgents_def nullish_def countAssigned_def jsub_def Let_def listAgents_def)
  from pickNode_picks_best [OF r(1)] r show ?thesis by (auto split: option.splits)
qed

end
