(* ===== verification/Access.thy ===== *)
theory Access
  imports Request_Auth Signer Placement
begin

text \<open>
  control-plane/server.js, who may do what: the shared bearer key, owner and node signatures, the
  checks on an agent's owner and on a node's key, and the rate limit on creations. An error thrown with a
  status and no code has the empty code here. A request carries its method, path and parsed body, its
  headers (lower-case names, as Node delivers them) and its query. One clock reading serves
  a synchronous stretch of a handler.
\<close>

record cp_cfg =
  cc_crypto :: crypto
  cc_KEY :: string
  cc_SIGNER_URL :: string
  cc_SIGNER_PUBLIC_URL :: string
  cc_REQUIRE_OWNER_AUTH :: bool
  cc_REQUIRE_NODE_AUTH :: bool
  cc_OWNER_RATE_PER_MIN :: jsnum
  cc_place :: place_cfg

record cp =
  cp_store :: store
  cp_ownerNonces :: nonce_store
  cp_nodeNonces :: nonce_store
  cp_ownerHits :: "(jsval, int list) jmap"

record call =
  cl_req :: request
  cl_headers :: headers
  cl_query :: jsval

abbreviation cl_body :: "call \<Rightarrow> jsval" where
  "cl_body c \<equiv> rq_body (cl_req c)"

definition empty_cp :: "store \<Rightarrow> cp" where
  "empty_cp s = \<lparr> cp_store = s, cp_ownerNonces = [], cp_nodeNonces = [], cp_ownerHits = [] \<rparr>"

abbreviation deny :: "nat \<Rightarrow> err" where
  "deny status \<equiv> Err status []"

abbreviation no_such_agent :: err where
  "no_such_agent \<equiv> Err 0 ''no-such-agent''"

section \<open>The gates\<close>

definition cp_auth :: "cp_cfg \<Rightarrow> call \<Rightarrow> unit res" where
  "cp_auth cfg c =
     (if cc_KEY cfg = [] then Inr ()
      else if strip_bearer (case map_of (cl_headers c) ''authorization'' of Some v \<Rightarrow> v | None \<Rightarrow> []) \<noteq> cc_KEY cfg
      then Inl (deny 401) else Inr ())"

definition rateLimitOwner :: "cp_cfg \<Rightarrow> int \<Rightarrow> jsval \<Rightarrow> cp \<Rightarrow> unit res \<times> cp" where
  "rateLimitOwner cfg t owner st =
     (if \<not> jtruthy (cc_OWNER_RATE_PER_MIN cfg) \<or> \<not> truthy owner then (Inr (), st)
      else let hits = filter (\<lambda>x. t - x < 60000) (case map_get owner (cp_ownerHits st) of Some xs \<Rightarrow> xs | None \<Rightarrow> [])
        in if jle (cc_OWNER_RATE_PER_MIN cfg) (nat_num (length hits)) then (Inl (deny 429), st)
           else (Inr (), st\<lparr> cp_ownerHits := map_set owner (hits @ [t]) (cp_ownerHits st) \<rparr>))"

definition requireOwner :: "cp_cfg \<Rightarrow> int \<Rightarrow> call \<Rightarrow> cp \<Rightarrow> string option res \<times> cp" where
  "requireOwner cfg t c st =
     (case verifyOwnerRequest (cc_crypto cfg) (Fin 30000) t t (cl_req c) (cl_headers c) (cp_ownerNonces st) of
        (r, ns) \<Rightarrow> (bindE r (\<lambda>owner. if owner = None \<and> cc_REQUIRE_OWNER_AUTH cfg then Inl (deny 401) else Inr owner),
                    st\<lparr> cp_ownerNonces := ns \<rparr>))"

definition assertOwns :: "cp_cfg \<Rightarrow> cagent \<Rightarrow> string option \<Rightarrow> unit res" where
  "assertOwns cfg a owner =
     (let mine = (case owner of Some k \<Rightarrow> strict_eq (ca_owner a) (JStr k) | None \<Rightarrow> False)
      in if owner \<noteq> None \<and> truthy (ca_owner a) \<and> \<not> mine then Inl (deny 403)
         else if cc_REQUIRE_OWNER_AUTH cfg \<and> truthy (ca_owner a) \<and> \<not> mine then Inl (deny 403)
         else Inr ())"

definition requireNode :: "cp_cfg \<Rightarrow> int \<Rightarrow> call \<Rightarrow> cp \<Rightarrow> string option res \<times> cp" where
  "requireNode cfg t c st =
     (case verifyNodeRequest (cc_crypto cfg) (Fin 30000) t t (cl_req c) (cl_headers c) (cp_nodeNonces st) of
        (r, ns) \<Rightarrow> (bindE r (\<lambda>node. if node = None \<and> cc_REQUIRE_NODE_AUTH cfg then Inl (deny 401) else Inr node),
                    st\<lparr> cp_nodeNonces := ns \<rparr>))"

definition assertNodeIdentity :: "jsval \<Rightarrow> string option \<Rightarrow> store \<Rightarrow> unit res" where
  "assertNodeIdentity nodeId authed s =
     (case authed of
        None \<Rightarrow> Inr ()
      | Some k \<Rightarrow> (case getNode nodeId s of
            None \<Rightarrow> Inr ()
          | Some n \<Rightarrow> (case nd_pubkey n of
                None \<Rightarrow> Inr ()
              | Some p \<Rightarrow> if p \<noteq> [] \<and> p \<noteq> k then Inl (deny 403) else Inr ())))"

text \<open>A signature stands in for the shared key; without one the key is asked for.\<close>

definition authNode :: "cp_cfg \<Rightarrow> int \<Rightarrow> call \<Rightarrow> cp \<Rightarrow> string option res \<times> cp" where
  "authNode cfg t c st = bindS (requireNode cfg t c st) (\<lambda>node st.
     if node = None then (bindE (cp_auth cfg c) (\<lambda>_. Inr None), st) else (Inr node, st))"

definition authOwner :: "cp_cfg \<Rightarrow> int \<Rightarrow> call \<Rightarrow> cp \<Rightarrow> string option res \<times> cp" where
  "authOwner cfg t c st = bindS (requireOwner cfg t c st) (\<lambda>owner st.
     if owner = None then (bindE (cp_auth cfg c) (\<lambda>_. Inr None), st) else (Inr owner, st))"

section \<open>The signer as the control plane calls it\<close>

text \<open>
  A request to the signer, and what comes back: no answer (the connection failed or the timeout passed), or a
  status with a body, \<open>None\<close> when it is not JSON.
\<close>

record scall =
  sc_method :: string
  sc_path :: string
  sc_body :: jsval

datatype signer_reply = No_Reply | Signer_Reply nat "jsval option"

definition signerApi :: "signer_reply \<Rightarrow> jsval res" where
  "signerApi r = (case r of
       No_Reply \<Rightarrow> Inl (Err 0 ''fetch-failed'')
     | Signer_Reply status body \<Rightarrow>
         let j = (case body of Some v \<Rightarrow> v | None \<Rightarrow> JObj [])
         in if 200 \<le> status \<and> status < 300 then Inr j
            else bindE (jget j ''error'') (\<lambda>_. Inl (Err status (case jopt j ''code'' of JStr s \<Rightarrow> s | _ \<Rightarrow> []))))"

section \<open>The rate limit\<close>

text \<open>A run of limit checks of one owner; the times that were let through.\<close>

fun limited :: "cp_cfg \<Rightarrow> jsval \<Rightarrow> int list \<Rightarrow> cp \<Rightarrow> int list" where
  "limited cfg owner [] st = []"
| "limited cfg owner (t # ts) st = (case rateLimitOwner cfg t owner st of
     (Inl _, st') \<Rightarrow> limited cfg owner ts st'
   | (Inr _, st') \<Rightarrow> t # limited cfg owner ts st')"

definition hits_of :: "jsval \<Rightarrow> cp \<Rightarrow> int list" where
  "hits_of owner st = (case map_get owner (cp_ownerHits st) of Some xs \<Rightarrow> xs | None \<Rightarrow> [])"

abbreviation recent :: "int \<Rightarrow> int list \<Rightarrow> int list" where
  "recent t \<equiv> filter (\<lambda>x. t - x < 60000)"

abbreviation window :: "int \<Rightarrow> int list \<Rightarrow> int list" where
  "window t \<equiv> filter (\<lambda>x. t - 60000 < x \<and> x \<le> t)"

lemma rateLimit_cases:
  assumes "truthy owner" "cc_OWNER_RATE_PER_MIN cfg = nat_num m" "0 < m"
  shows "rateLimitOwner cfg t owner st =
    (if m \<le> length (recent t (hits_of owner st)) then (Inl (deny 429), st)
     else (Inr (), st\<lparr> cp_ownerHits := map_set owner (recent t (hits_of owner st) @ [t]) (cp_ownerHits st) \<rparr>))"
proof -
  have "jtruthy (nat_num m)" using assms(3) by (simp add: jtruthy_def)
  then show ?thesis using assms(1,2) by (simp add: rateLimitOwner_def hits_of_def Let_def jle_Fin)
qed

lemma length_filter_mono: "(\<And>x. P x \<Longrightarrow> Q x) \<Longrightarrow> length (filter P xs) \<le> length (filter Q xs)"
  by (induction xs) auto

text \<open>The accepted times so far and the hits kept agree on what is recent, now and later.\<close>

lemma limited_window:
  assumes "truthy owner" "cc_OWNER_RATE_PER_MIN cfg = nat_num m" "0 < m"
    and "sorted ts" "\<And>u. u \<in> set ts \<Longrightarrow> t0 \<le> u"
    and "\<And>t. t0 \<le> t \<Longrightarrow> recent t acc = recent t (hits_of owner st)"
    and "\<And>t. length (window t acc) \<le> m" "length (recent t0 acc) \<le> m"
  shows "length (window t (acc @ limited cfg owner ts st)) \<le> m"
  using assms(4-8)
proof (induction ts arbitrary: acc st t0)
  case (Cons u ts)
  have u: "t0 \<le> u" "\<And>v. v \<in> set ts \<Longrightarrow> u \<le> v" "sorted ts" using Cons.prems(1,2) by auto
  have "length (recent u acc) \<le> length (recent t0 acc)" using u(1) by (intro length_filter_mono) simp
  then have le: "length (recent u acc) \<le> m" using Cons.prems(5) by simp
  have same: "recent u acc = recent u (hits_of owner st)" using Cons.prems(3) u(1) by simp
  note lim = rateLimit_cases [OF assms(1-3), of u st, folded same]
  show ?case
  proof (cases "m \<le> length (recent u acc)")
    case True
    have "length (window t (acc @ limited cfg owner ts st)) \<le> m"
      using u Cons.prems(3,4) le by (intro Cons.IH [of u]) auto
    then show ?thesis using lim True by simp
  next
    case False
    define st' where "st' = st\<lparr> cp_ownerHits := map_set owner (recent u acc @ [u]) (cp_ownerHits st) \<rparr>"
    have h: "hits_of owner st' = recent u acc @ [u]" by (simp add: st'_def hits_of_def)
    have "length (window t ((acc @ [u]) @ limited cfg owner ts st')) \<le> m"
    proof (rule Cons.IH [of u])
      show "recent t (acc @ [u]) = recent t (hits_of owner st')" if "u \<le> t" for t
      proof -
        have "recent t acc = recent t (recent u acc)" using that by (auto intro!: filter_cong)
        then show ?thesis by (simp add: h)
      qed
      show "length (window t (acc @ [u])) \<le> m" for t
      proof (cases "u \<le> t")
        case True
        have "length (window t acc) \<le> length (recent u acc)" using True by (intro length_filter_mono) simp
        then show ?thesis using False by simp
      qed (use Cons.prems(4) [of t] in simp)
      show "length (recent u (acc @ [u])) \<le> m" using False by simp
    qed (use u in auto)
    then show ?thesis using lim False by (simp add: st'_def)
  qed
qed simp

text \<open>The rate limit: whatever the times at which an owner's creations are checked (in order), in every window of
  sixty seconds at most the configured number passes.\<close>

theorem rate_limit_window:
  assumes "truthy owner" "cc_OWNER_RATE_PER_MIN cfg = nat_num m" "0 < m"
    and "sorted ts" "hits_of owner st = []"
  shows "length (filter (\<lambda>x. t - 60000 < x \<and> x \<le> t) (limited cfg owner ts st)) \<le> m"
proof -
  obtain t0 where "\<And>u. u \<in> set ts \<Longrightarrow> t0 \<le> u"
  proof (cases ts)
    case Nil
    then show ?thesis using that by simp
  next
    case (Cons v vs)
    then show ?thesis using that [of v] assms(4) by auto
  qed
  from limited_window [OF assms(1-4) this, of "[]" st t] assms(3,5) show ?thesis by simp
qed

definition toy_cp_cfg :: cp_cfg where
  "toy_cp_cfg = \<lparr> cc_crypto = toy_crypto, cc_KEY = ''k'', cc_SIGNER_URL = ''s'', cc_SIGNER_PUBLIC_URL = ''s'',
     cc_REQUIRE_OWNER_AUTH = False, cc_REQUIRE_NODE_AUTH = False, cc_OWNER_RATE_PER_MIN = Fin 2, cc_place = toy_place \<rparr>"

theorem rate_limit_window_witness:
  "length (filter (\<lambda>x. (60001::int) - 60000 < x \<and> x \<le> 60001)
     (limited toy_cp_cfg (JStr ''o'') [1, 2, 3, 60001] (empty_cp empty_state))) \<le> 2"
  by (rule rate_limit_window) (simp_all add: toy_cp_cfg_def hits_of_def empty_cp_def)

end
