(* ===== verification/Bundle.thy ===== *)
theory Bundle
  imports Canonical Crypto Js_Map
begin

text \<open>
  lib/bundle.js: signed, content-addressed bundles. A manifest is the JSON value a publisher sends;
  the bytes of a tarball are a list of bytes (packing and unpacking run the \<open>tar\<close> program and are
  not modelled, \<open>createBundle\<close> takes the packed bytes). \<open>bytes\<close> and the digest use \<open>Crypto\<close>. A key or
  signature given as an array or object instead of a text is outside the model.
\<close>

definition BUNDLE_SCHEMA :: nat where
  "BUNDLE_SCHEMA = 1"

text \<open>\<open>x ?? null\<close>.\<close>

definition or_null :: "jsval \<Rightarrow> jsval" where
  "or_null v = (if nullish v then JNull else v)"

definition canonResources :: "jsval \<Rightarrow> jsval" where
  "canonResources r = (if truthy r
     then JObj [(''maxCpu'', or_null (jopt r ''maxCpu'')), (''maxMemoryMb'', or_null (jopt r ''maxMemoryMb''))]
     else JNull)"

text \<open>\<open>[...xs].sort()\<close>: by the texts of the elements, a stable sort.\<close>

definition sort_texts :: "jsval list \<Rightarrow> jsval list res" where
  "sort_texts xs = bindE (mapE to_str xs) (\<lambda>ks. Inr (map snd (sort_key fst (zip ks xs))))"

definition canonical_manifest :: "jsval \<Rightarrow> jsval res" where
  "canonical_manifest m =
     bindE (case jopt m ''egress'' of JArr xs \<Rightarrow> sort_texts xs | _ \<Rightarrow> Inr []) (\<lambda>egress.
     Inr (JObj [(''agentId'', jopt m ''agentId''), (''egress'', JArr egress), (''entry'', jopt m ''entry''),
       (''resources'', canonResources (jopt m ''resources'')), (''runtime'', jopt m ''runtime''),
       (''schema'', JNum (nat_num BUNDLE_SCHEMA)), (''sdk'', or_null (jopt m ''sdk'')), (''sha256'', jopt m ''sha256'')]))"

definition manifestSigningBytes :: "jsval \<Rightarrow> bytes res" where
  "manifestSigningBytes m = bindE (canonical_manifest m) (\<lambda>c.
     case json_stringify c of Some t \<Rightarrow> Inr (utf8 t) | None \<Rightarrow> Inl type_error)"

definition signManifest :: "crypto \<Rightarrow> jsval \<Rightarrow> bytes \<Rightarrow> string res" where
  "signManifest C m priv = bindE (manifestSigningBytes m) (\<lambda>b. Inr (base58 (sign C priv b)))"

definition decode_text :: "jsval \<Rightarrow> bytes res" where
  "decode_text v = (case v of JStr s \<Rightarrow> base58decode s | JNum x \<Rightarrow> Inr [] | JBool b \<Rightarrow> Inr [] | _ \<Rightarrow> Inl type_error)"

definition verifyManifest :: "crypto \<Rightarrow> jsval \<Rightarrow> bool" where
  "verifyManifest C m =
     (if \<not> truthy m \<or> \<not> truthy (jopt m ''sig'') \<or> \<not> truthy (jopt m ''publisherPubkey'') then False
      else case bindE (decode_text (jopt m ''publisherPubkey'')) (\<lambda>pub. bindE (manifestSigningBytes m) (\<lambda>msg.
             bindE (decode_text (jopt m ''sig'')) (\<lambda>sig. verify C pub msg sig))) of
        Inl _ \<Rightarrow> False
      | Inr ok \<Rightarrow> ok)"

text \<open>\<open>/^[\w][\w.-]*$/\<close> and the tests that follow it.\<close>

definition word_char :: "char \<Rightarrow> bool" where
  "word_char c = (is_digit c \<or> is_lower c \<or> is_upper c \<or> c = CHR ''_'')"

definition isSafeEntry :: "jsval \<Rightarrow> bool" where
  "isSafeEntry entry = (case entry of
       JStr s \<Rightarrow> s \<noteq> [] \<and> word_char (hd s) \<and> list_all (\<lambda>c. word_char c \<or> c = CHR ''.'' \<or> c = CHR ''-'') (tl s) \<and>
                 s \<noteq> ''.'' \<and> s \<noteq> ''..'' \<and> CHR ''/'' \<notin> set s
     | _ \<Rightarrow> False)"

text \<open>\<open>exists\<close> tells whether the entry is in the directory, \<open>packed\<close> are the bytes \<open>packDir\<close> makes.\<close>

record bundle_spec =
  bs_agentId :: jsval
  bs_runtime :: string
  bs_entry :: string
  bs_sdk :: jsval
  bs_egress :: jsval
  bs_resources :: jsval

definition unsigned_manifest :: "bundle_spec \<Rightarrow> string \<Rightarrow> jsval \<Rightarrow> (string \<times> jsval) list" where
  "unsigned_manifest b sha pub = [(''schema'', JNum (nat_num BUNDLE_SCHEMA)), (''agentId'', bs_agentId b),
     (''runtime'', JStr (bs_runtime b)), (''entry'', JStr (bs_entry b)), (''sdk'', bs_sdk b), (''egress'', bs_egress b),
     (''resources'', bs_resources b), (''sha256'', JStr sha), (''publisherPubkey'', pub)]"

definition createBundle ::
  "crypto \<Rightarrow> (string \<Rightarrow> bool) \<Rightarrow> bytes \<Rightarrow> bundle_spec \<Rightarrow> bytes \<Rightarrow> jsval \<Rightarrow> (bytes \<times> string \<times> jsval) res" where
  "createBundle C exists packed b priv pub =
     (if bs_runtime b \<noteq> ''node'' \<and> bs_runtime b \<noteq> ''oci'' then Inl (Err 0 ''unknown-runtime'')
      else if \<not> isSafeEntry (JStr (bs_entry b)) then Inl (Err 0 ''unsafe-entry'')
      else if \<not> exists (bs_entry b) then Inl (Err 0 ''entry-not-found'')
      else let sha = sha256hex_bytes C packed; m = unsigned_manifest b sha pub
        in bindE (signManifest C (JObj m) priv) (\<lambda>sig. Inr (packed, sha, JObj (m @ [(''sig'', JStr sig)]))))"

text \<open>The verdict: \<open>ok\<close>, or the code of the first check that fails.\<close>

definition verifyBundle :: "crypto \<Rightarrow> bytes \<Rightarrow> jsval \<Rightarrow> jsval \<Rightarrow> jsval \<Rightarrow> string res" where
  "verifyBundle C bs manifest expectedOwner expectedAgentId =
     bindE (jget manifest ''sha256'') (\<lambda>sha.
       if \<not> strict_eq (JStr (sha256hex_bytes C bs)) sha then Inr ''sha256-mismatch''
       else if \<not> verifyManifest C manifest then Inr ''bad-manifest-sig''
       else if truthy expectedOwner \<and> \<not> strict_eq (jopt manifest ''publisherPubkey'') expectedOwner then Inr ''publisher-not-owner''
       else if truthy expectedAgentId \<and> \<not> strict_eq (jopt manifest ''agentId'') expectedAgentId then Inr ''agent-id-mismatch''
       else if \<not> isSafeEntry (jopt manifest ''entry'') then Inr ''bad-entry''
       else Inr ''ok'')"

section \<open>Publishing and checking\<close>

lemma canonical_manifest_cong:
  "(\<And>k. k \<in> {''agentId'', ''egress'', ''entry'', ''resources'', ''runtime'', ''sdk'', ''sha256''} \<Longrightarrow> jopt m k = jopt m' k) \<Longrightarrow>
   canonical_manifest m = canonical_manifest m'"
  by (simp add: canonical_manifest_def)

lemma signed_manifest_bytes:
  "manifestSigningBytes (JObj (unsigned_manifest b sha pub @ [(''sig'', s)])) = manifestSigningBytes (JObj (unsigned_manifest b sha pub))"
  by (simp add: manifestSigningBytes_def)
     (intro arg_cong [where f = "\<lambda>c. bindE c _"] canonical_manifest_cong, auto simp: jopt_def unsigned_manifest_def)

lemma created_manifest:
  assumes "signs_verify C" "fromSeed (exportSpki C) seed = Inr kp" "bs_agentId b = JStr a"
    and "createBundle C exists packed b (kp_priv kp) (JStr (kp_address kp)) = Inr (bs, sha, m)"
  shows "bs = packed \<and> truthy m \<and> verifyManifest C m \<and> isSafeEntry (jopt m ''entry'') \<and>
    jget m ''sha256'' = Inr (JStr (sha256hex_bytes C packed)) \<and> jopt m ''publisherPubkey'' = JStr (kp_address kp) \<and>
    jopt m ''agentId'' = JStr a \<and> jopt m ''runtime'' = JStr (bs_runtime b) \<and> kp_address kp \<noteq> []"
proof -
  let ?u = "unsigned_manifest b (sha256hex_bytes C packed) (JStr (kp_address kp))"
  obtain msg where msg: "manifestSigningBytes (JObj ?u) = Inr msg"
    and safe: "isSafeEntry (JStr (bs_entry b))" and bs: "bs = packed"
    and m: "m = JObj (?u @ [(''sig'', JStr (base58 (sign C (kp_priv kp) msg)))])"
    using assms(4) by (auto simp: createBundle_def signManifest_def Let_def bindE_Inr_iff split: if_splits)
  have kp: "length (kp_pubkey kp) = 32" "length (sign C (kp_priv kp) msg) = 64"
    "verify C (kp_pubkey kp) msg (sign C (kp_priv kp) msg) = Inr True"
    using assms(1,2) by (auto simp: signs_verify_def)
  have addr: "kp_address kp = base58 (kp_pubkey kp)"
    using assms(2) by (auto simp: fromSeed_def Let_def split: if_splits)
  have f: "jget m ''sha256'' = Inr (JStr (sha256hex_bytes C packed))"
    "jopt m ''publisherPubkey'' = JStr (kp_address kp)" "jopt m ''agentId'' = JStr a" "jopt m ''entry'' = JStr (bs_entry b)"
    "jopt m ''runtime'' = JStr (bs_runtime b)" "jopt m ''sig'' = JStr (base58 (sign C (kp_priv kp) msg))" "truthy m"
    by (simp_all add: m jopt_def unsigned_manifest_def assms(3))
  have b: "manifestSigningBytes m = Inr msg" unfolding m signed_manifest_bytes by (rule msg)
  have ne: "base58 (kp_pubkey kp) \<noteq> []" "base58 (sign C (kp_priv kp) msg) \<noteq> []"
    using kp by (intro base58_nonempty; force)+
  then have "verifyManifest C m"
    by (simp add: verifyManifest_def f b addr decode_text_def base58decode_base58 kp(3))
  then show ?thesis using f safe bs ne addr by simp
qed

text \<open>C40. What a publisher creates passes every check of the node that runs it: the bytes hash to the
  manifest, the signature verifies under the publisher's own key, the publisher is the owner, the
  manifest is bound to the agent and its entry is safe.\<close>

theorem created_bundle_verifies:
  assumes "signs_verify C" "fromSeed (exportSpki C) seed = Inr kp" "bs_agentId b = JStr a"
    and "createBundle C exists packed b (kp_priv kp) (JStr (kp_address kp)) = Inr (bs, sha, m)"
  shows "bs = packed \<and> verifyBundle C bs m (JStr (kp_address kp)) (JStr a) = Inr ''ok''"
  using created_manifest [OF assms] by (simp add: verifyBundle_def)

definition sample_bundle :: bundle_spec where
  "sample_bundle = \<lparr> bs_agentId = JStr ''a1'', bs_runtime = ''node'', bs_entry = ''agent.js'', bs_sdk = JNull,
     bs_egress = JArr [JStr ''rpc'', JStr ''llm''], bs_resources = JNull \<rparr>"

lemma sample_entry: "isSafeEntry (JStr ''agent.js'')"
  by (simp add: isSafeEntry_def word_char_def is_lower_def less_eq_char_def)

lemma sample_bytes: "\<exists>msg. manifestSigningBytes (JObj (unsigned_manifest sample_bundle sha pub)) = Inr msg"
  by (simp add: manifestSigningBytes_def canonical_manifest_def unsigned_manifest_def jopt_def sample_bundle_def sort_texts_def)

lemma sample_created:
  "\<exists>m. createBundle toy_crypto (\<lambda>e. True) packed sample_bundle (kp_priv (toy_keypair 7)) (JStr (kp_address (toy_keypair 7))) =
       Inr (packed, sha256hex_bytes toy_crypto packed, m)"
proof -
  obtain msg where msg: "manifestSigningBytes (JObj (unsigned_manifest sample_bundle (sha256hex_bytes toy_crypto packed) (JStr (kp_address (toy_keypair 7))))) = Inr msg"
    using sample_bytes by blast
  have s: "bs_runtime sample_bundle = ''node''" "bs_entry sample_bundle = ''agent.js''"
    by (simp_all add: sample_bundle_def)
  show ?thesis by (simp add: createBundle_def s sample_entry signManifest_def msg Let_def)
qed

lemma sample_agent: "bs_agentId sample_bundle = JStr ''a1''" "bs_runtime sample_bundle = ''node''"
  by (simp_all add: sample_bundle_def)

lemmas sample_manifest = created_manifest [OF toy_signs_verify toy_fromSeed sample_agent(1)]

theorem created_bundle_verifies_witness:
  "\<exists>m. createBundle toy_crypto (\<lambda>e. True) [1, 2] sample_bundle (kp_priv (toy_keypair 7)) (JStr (kp_address (toy_keypair 7))) =
       Inr ([1, 2], sha256hex_bytes toy_crypto [1, 2], m) \<and>
     verifyBundle toy_crypto [1, 2] m (JStr (kp_address (toy_keypair 7))) (JStr ''a1'') = Inr ''ok''"
proof -
  obtain m where m: "createBundle toy_crypto (\<lambda>e. True) [1, 2] sample_bundle (kp_priv (toy_keypair 7)) (JStr (kp_address (toy_keypair 7))) =
       Inr ([1, 2], sha256hex_bytes toy_crypto [1, 2], m)"
    using sample_created by blast
  show ?thesis
    using created_bundle_verifies [OF toy_signs_verify toy_fromSeed sample_agent(1) m] m by blast
qed

section \<open>What a signature covers\<close>

text \<open>Values that print the same under \<open>JSON.stringify\<close> and under the canonical serializer.\<close>

fun plain :: "jsval \<Rightarrow> bool" where
  "plain JNull = True"
| "plain (JBool b) = True"
| "plain (JNum x) = (case x of Fin q \<Rightarrow> f64 q | _ \<Rightarrow> False)"
| "plain (JStr s) = True"
| "plain (JArr xs) = list_all plain xs"
| "plain (JObj fs) = (sorted (map fst fs) \<and> list_all (\<lambda>(k, v). plain v) fs)"
| "plain _ = False"

lemma concat_map_single: "(\<And>x. x \<in> set xs \<Longrightarrow> F x = [G x]) \<Longrightarrow> concat (map F xs) = map G xs"
  by (induction xs) auto

lemma plain_facts: "plain v \<Longrightarrow> json_value v \<and> canon v = v \<and> json_stringify v = Some (stable_stringify v) \<and> v \<noteq> JUndef"
proof (induction v rule: plain.induct)
  case (3 x)
  then show ?case by (cases x) auto
next
  case (5 xs)
  then show ?case by (auto simp: list_all_iff map_idI intro!: arg_cong [where f = "join_on '',''"])
next
  case (6 fs)
  have mem: "json_value v \<and> canon v = v \<and> json_stringify v = Some (stable_stringify v) \<and> v \<noteq> JUndef" if "(k, v) \<in> set fs" for k v
    using 6 that by (fastforce simp: list_all_iff)
  have f: "filter (\<lambda>(k, v). v \<noteq> JUndef) fs = fs" using mem by (auto simp: filter_id_conv)
  have s: "sort_key fst fs = fs" using 6(2) by (simp add: sorted_sort_id sort_key_id_if_sorted)
  have c: "map (\<lambda>(k, v). (k, canon v)) fs = fs" using mem by (auto intro!: map_idI)
  have t: "concat (map (\<lambda>(k, v). case json_stringify v of None \<Rightarrow> [] | Some t \<Rightarrow> [json_str k @ '':'' @ t]) fs) =
      map (\<lambda>(k, v). json_str k @ '':'' @ stable_stringify v) fs"
    by (rule concat_map_single) (use mem in auto)
  show ?case using mem by (auto simp: f s c t list_all_iff)
qed auto

text \<open>A publisher's signature covers the whole plan: two manifests of the usual form with the same signing
  bytes agree on the agent, the entry, the runtime, the sdk, the content hash, the resources and
  (up to order) the egress classes, so none of them can be changed under a valid signature.\<close>

theorem manifest_signature_commits:
  assumes "manifestSigningBytes m = Inr b" "manifestSigningBytes m' = Inr b"
    and "canonical_manifest m = Inr c" "canonical_manifest m' = Inr c'" "plain c" "plain c'"
  shows "c = c' \<and> jopt m ''agentId'' = jopt m' ''agentId'' \<and> jopt m ''entry'' = jopt m' ''entry'' \<and>
    jopt m ''runtime'' = jopt m' ''runtime'' \<and> jopt m ''sha256'' = jopt m' ''sha256'' \<and>
    or_null (jopt m ''sdk'') = or_null (jopt m' ''sdk'') \<and>
    canonResources (jopt m ''resources'') = canonResources (jopt m' ''resources'')"
proof -
  have "stable_stringify c = stable_stringify c'"
    using assms plain_facts [OF assms(5)] plain_facts [OF assms(6)] by (auto simp: manifestSigningBytes_def utf8_inj)
  then have "canon c = canon c'" using plain_facts [OF assms(5)] plain_facts [OF assms(6)] stable_stringify_inj by blast
  then have "c = c'" using plain_facts [OF assms(5)] plain_facts [OF assms(6)] by simp
  then show ?thesis using assms(3,4) by (auto simp: canonical_manifest_def bindE_Inr_iff)
qed

lemma sample_canonical: "canonical_manifest (JObj (unsigned_manifest sample_bundle sha pub)) = Inr (JObj [(''agentId'', JStr ''a1''),
    (''egress'', JArr [JStr ''llm'', JStr ''rpc'']), (''entry'', JStr ''agent.js''), (''resources'', JNull), (''runtime'', JStr ''node''),
    (''schema'', JNum (Fin 1)), (''sdk'', JNull), (''sha256'', JStr sha)])"
  by (simp add: canonical_manifest_def unsigned_manifest_def jopt_def sample_bundle_def sort_texts_def less_char_def less_eq_char_def
      or_null_def nullish_def canonResources_def BUNDLE_SCHEMA_def)

definition reordered_bundle :: bundle_spec where
  "reordered_bundle = sample_bundle\<lparr> bs_egress := JArr [JStr ''llm'', JStr ''rpc''] \<rparr>"

lemma reordered_canonical: "canonical_manifest (JObj (unsigned_manifest reordered_bundle sha pub)) =
    canonical_manifest (JObj (unsigned_manifest sample_bundle sha pub'))"
  unfolding sample_canonical
  by (simp add: canonical_manifest_def unsigned_manifest_def jopt_def sample_bundle_def reordered_bundle_def sort_texts_def
      less_char_def less_eq_char_def or_null_def nullish_def canonResources_def BUNDLE_SCHEMA_def)

theorem manifest_signature_commits_witness:
  "\<exists>b c. manifestSigningBytes (JObj (unsigned_manifest sample_bundle ''ff'' (JStr ''p''))) = Inr b \<and>
     manifestSigningBytes (JObj (unsigned_manifest reordered_bundle ''ff'' (JStr ''q''))) = Inr b \<and>
     canonical_manifest (JObj (unsigned_manifest sample_bundle ''ff'' (JStr ''p''))) = Inr c \<and>
     canonical_manifest (JObj (unsigned_manifest reordered_bundle ''ff'' (JStr ''q''))) = Inr c"
proof -
  let ?m = "JObj (unsigned_manifest sample_bundle ''ff'' (JStr ''p''))"
    and ?m' = "JObj (unsigned_manifest reordered_bundle ''ff'' (JStr ''q''))"
  obtain b where b: "manifestSigningBytes ?m = Inr b" using sample_bytes by blast
  have b': "manifestSigningBytes ?m' = Inr b"
    using b unfolding manifestSigningBytes_def reordered_canonical [of "''ff''" "JStr ''q''" "JStr ''p''"] .
  obtain c where c: "canonical_manifest ?m = Inr c" "plain c"
    using f64_int [of 1] by (simp add: sample_canonical less_char_def less_eq_char_def)
  obtain c' where c': "canonical_manifest ?m' = Inr c'" "plain c'"
    using c unfolding reordered_canonical [of "''ff''" "JStr ''q''" "JStr ''p''"] by blast
  show ?thesis
    using manifest_signature_commits [OF b b' c(1) c'(1) c(2) c'(2)] b b' c(1) c'(1) by blast
qed

end
