(* ===== verification/Control_Plane.thy ===== *)
theory Control_Plane
  imports Access Bundle
begin

text \<open>
  control-plane/server.js, the handlers of the API: nodes register, beat and report; agents are created,
  started, stopped, destroyed, handed to another owner. A handler that waits for the signer is two
  definitions, the part before the request and the part after its answer, so that other handlers
  may run in between; only the session requests inside one heartbeat are answered without
  interleaving. \<open>t\<close> is the clock.
\<close>

definition cp_put :: "cagent \<Rightarrow> cp \<Rightarrow> cp" where
  "cp_put a st = st\<lparr> cp_store := putAgent a (cp_store st) \<rparr>"

section \<open>What the node is given\<close>

definition signerBlockFor :: "cp_cfg \<Rightarrow> cagent \<Rightarrow> jsval" where
  "signerBlockFor cfg a =
     (case ca_session a of
        None \<Rightarrow> JUndef
      | Some l \<Rightarrow>
          if cc_SIGNER_PUBLIC_URL cfg = [] then JUndef
          else JObj [(''url'', JStr (cc_SIGNER_PUBLIC_URL cfg)), (''agentId'', JStr (ca_id a)), (''epoch'', le_epoch l),
            (''token'', le_token l), (''address'', if truthy (ca_address a) then ca_address a else JNull),
            (''paper'', JBool (\<not> strict_eq (ca_paper a) (JBool False)))])"

definition bundleBlockFor :: "cagent \<Rightarrow> jsval" where
  "bundleBlockFor a =
     (let b = jopt (ca_spec a) ''bundle''
      in if \<not> truthy b then JUndef
         else JObj [(''url'', jopt b ''url''), (''sha256'', jopt b ''sha256''),
           (''runtime'', str_or (str_or (jopt b ''runtime'') (jopt (jopt b ''manifest'') ''runtime'')) (JStr ''node'')),
           (''manifest'', jopt b ''manifest'')])"

definition assertBundleOwnerBinding :: "crypto \<Rightarrow> jsval \<Rightarrow> jsval \<Rightarrow> string \<Rightarrow> unit res" where
  "assertBundleOwnerBinding C spec owner agentId =
     (let b = jopt spec ''bundle''; m = jopt b ''manifest''
      in if \<not> truthy b then Inr ()
         else if \<not> truthy m then Inl (Err 0 ''manifest-required'')
         else if \<not> truthy owner then Inl (Err 0 ''owner-required'')
         else if \<not> verifyManifest C m then Inl (Err 0 ''bad-manifest-sig'')
         else if \<not> strict_eq (jopt m ''publisherPubkey'') owner then Inl (Err 0 ''publisher-not-owner'')
         else if agentId \<noteq> [] \<and> \<not> strict_eq (jopt m ''agentId'') (JStr agentId) then Inl (Err 0 ''not-bound-to-agent'')
         else if \<not> strict_eq (jopt m ''sha256'') (jopt b ''sha256'') then Inl (Err 0 ''sha256-mismatch'')
         else if \<not> strict_eq (jopt m ''runtime'') (str_or (jopt b ''runtime'') (jopt m ''runtime'')) then Inl (Err 0 ''runtime-mismatch'')
         else Inr ())"

section \<open>Nodes\<close>

text \<open>\<open>const { nodeId, caps = {}, budget = {} } = ctx.body\<close>.\<close>

definition default_obj :: "jsval \<Rightarrow> jsval" where
  "default_obj v = (if v = JUndef then JObj [] else v)"

definition register :: "cp_cfg \<Rightarrow> int \<Rightarrow> call \<Rightarrow> cp \<Rightarrow> jsval res \<times> cp" where
  "register cfg t c st =
     (case jget (cl_body c) ''nodeId'' of
        Inl e \<Rightarrow> (Inl e, st)
      | Inr nodeId \<Rightarrow>
          if \<not> truthy nodeId then (Inl (Err 0 ''nodeId-required''), st)
          else bindS (authNode cfg t c st) (\<lambda>authed st.
            case assertNodeIdentity nodeId authed (cp_store st) of
              Inl e \<Rightarrow> (Inl e, st)
            | Inr _ \<Rightarrow>
                let old = getNode nodeId (cp_store st);
                    g = \<lparr> rg_id = nodeId,
                      rg_pubkey = (case authed of Some k \<Rightarrow> Some k | None \<Rightarrow> (case old of Some n \<Rightarrow> nd_pubkey n | None \<Rightarrow> None)),
                      rg_caps = default_obj (jopt (cl_body c) ''caps''), rg_budget = default_obj (jopt (cl_body c) ''budget''),
                      rg_lastSeen = t,
                      rg_registeredAt = (case old of Some n \<Rightarrow> if nd_registeredAt n \<noteq> 0 then nd_registeredAt n else t | None \<Rightarrow> t) \<rparr>
                in (Inr (JObj [(''ok'', JBool True), (''node'', JObj [(''nodeId'', nodeId)])]),
                    st\<lparr> cp_store := upsertNode g (cp_store st) \<rparr>)))"

text \<open>
  The session of a placement: \<open>net\<close> is the signer's answer to a request. A failure of any kind is
  logged and leaves the agent as it is.
\<close>

definition session_call :: "cagent \<Rightarrow> scall" where
  "session_call a = \<lparr> sc_method = ''POST'', sc_path = ''/v1/agents/'' @ ca_id a @ ''/session'',
     sc_body = JObj [(''node'', ca_nodeId a)] \<rparr>"

definition ensureSession :: "cp_cfg \<Rightarrow> (scall \<Rightarrow> signer_reply) \<Rightarrow> cagent \<Rightarrow> cagent" where
  "ensureSession cfg net a =
     (if cc_SIGNER_URL cfg = [] \<or> \<not> truthy (ca_nodeId a) then a
      else if (case ca_session a of Some l \<Rightarrow> strict_eq (le_node l) (ca_nodeId a) | None \<Rightarrow> False) then a
      else case bindE (signerApi (net (session_call a))) (\<lambda>s. bindE (jget s ''epoch'') (\<lambda>epoch. Inr (s, epoch))) of
             Inl _ \<Rightarrow> a
           | Inr (s, epoch) \<Rightarrow>
               a\<lparr> ca_session := Some \<lparr> le_epoch = epoch, le_token = jopt s ''token'', le_node = ca_nodeId a \<rparr>,
                  ca_paper := jopt s ''paper'' \<rparr>)"

definition start_assignment :: "cp_cfg \<Rightarrow> cagent \<Rightarrow> jsval" where
  "start_assignment cfg a = JObj [(''action'', JStr ''start''), (''agent'', JObj [(''id'', JStr (ca_id a)), (''name'', ca_name a),
     (''owner'', ca_owner a), (''spec'', ca_spec a), (''bundle'', bundleBlockFor a), (''signer'', signerBlockFor cfg a)])]"

definition stop_assignment :: "jsval \<Rightarrow> jsval" where
  "stop_assignment k = JObj [(''action'', JStr ''stop''), (''agentId'', k)]"

text \<open>\<open>running.length\<close> and \<open>running.includes(id)\<close>: an array or a text have them, anything else throws.\<close>

fun run_length :: "jsval \<Rightarrow> nat res" where
  "run_length (JArr xs) = Inr (length xs)"
| "run_length (JStr s) = Inr (length s)"
| "run_length v = Inl type_error"

fun run_has :: "jsval \<Rightarrow> string \<Rightarrow> bool" where
  "run_has (JArr xs) k = (JStr k \<in> set xs)"
| "run_has (JStr s) k = sublist k s"
| "run_has v k = False"

text \<open>One agent of the node: the agent after it, the slots left and the assignments.\<close>

definition beat_agent :: "cp_cfg \<Rightarrow> (scall \<Rightarrow> signer_reply) \<Rightarrow> jsval \<Rightarrow> jsnum \<Rightarrow> cagent \<Rightarrow> cagent \<times> jsnum \<times> jsval list" where
  "beat_agent cfg net running free a =
     (let isRunning = run_has running (ca_id a)
      in if ca_running a \<and> \<not> isRunning then
           (if jle free (Fin 0) then (a\<lparr> ca_nodeId := JNull, ca_state := PENDING \<rparr>, free, [])
            else let a1 = ensureSession cfg net a in (a1, jsub free (Fin 1), [start_assignment cfg a1]))
         else if ca_running a then (a\<lparr> ca_state := RUNNING, ca_placeAttempts := 0, ca_failedNodes := [] \<rparr>, free, [])
         else if isRunning then (a\<lparr> ca_state := STOPPING \<rparr>, free, [stop_assignment (JStr (ca_id a))])
         else (a\<lparr> ca_state := STOPPED \<rparr>, free, []))"

fun beat_agents :: "cp_cfg \<Rightarrow> (scall \<Rightarrow> signer_reply) \<Rightarrow> jsval \<Rightarrow> jsnum \<Rightarrow> cagent list \<Rightarrow> store \<Rightarrow> store \<times> jsval list" where
  "beat_agents cfg net running free [] s = (s, [])"
| "beat_agents cfg net running free (a # as) s = (case beat_agent cfg net running free a of (a', free', xs) \<Rightarrow>
     (case beat_agents cfg net running free' as (putAgent a' s) of (s', ys) \<Rightarrow> (s', xs @ ys)))"

definition orphan :: "jsval \<Rightarrow> store \<Rightarrow> jsval \<Rightarrow> bool" where
  "orphan nodeId s k = (case k of
       JStr i \<Rightarrow> (case getAgent i s of None \<Rightarrow> True | Some a \<Rightarrow> \<not> strict_eq (ca_nodeId a) nodeId)
     | _ \<Rightarrow> True)"

definition beat_node :: "jsval \<Rightarrow> (node \<Rightarrow> node) \<Rightarrow> store \<Rightarrow> store" where
  "beat_node nodeId f s = (case getNode nodeId s of None \<Rightarrow> s | Some n \<Rightarrow> s\<lparr> st_nodes := map_set nodeId (f n) (st_nodes s) \<rparr>)"

definition reconcile :: "cp_cfg \<Rightarrow> (scall \<Rightarrow> signer_reply) \<Rightarrow> int \<Rightarrow> jsval \<Rightarrow> jsval \<Rightarrow> jsval \<Rightarrow> node \<Rightarrow> store \<Rightarrow> jsval res \<times> store" where
  "reconcile cfg net t nodeId running usage n s =
     (let s1 = beat_node nodeId (\<lambda>n. n\<lparr> nd_up := True, nd_lastSeen := t, nd_usage := usage \<rparr>) s
      in case bindE (maxAgents n) (\<lambda>mx. bindE (run_length running) (\<lambda>r. Inr (mx, r))) of
           Inl e \<Rightarrow> (Inl e, s1)
         | Inr (mx, r) \<Rightarrow>
             (case beat_agents cfg net running (jsub mx (nat_num r)) (listAgents (\<lambda>a. strict_eq (ca_nodeId a) nodeId) s1) s1 of
                (s2, xs) \<Rightarrow>
                  (case iterate running of
                     Inl e \<Rightarrow> (Inl e, s2)
                   | Inr ks \<Rightarrow>
                       (Inr (JObj [(''assignments'', JArr (xs @ map stop_assignment (filter (orphan nodeId s2) ks)))]),
                        beat_node nodeId (\<lambda>n. n\<lparr> nd_available := Some (jsub mx (nat_num (countAssigned s2 nodeId))) \<rparr>) s2))))"

definition heartbeat :: "cp_cfg \<Rightarrow> (scall \<Rightarrow> signer_reply) \<Rightarrow> int \<Rightarrow> call \<Rightarrow> cp \<Rightarrow> jsval res \<times> cp" where
  "heartbeat cfg net t c st =
     (case jget (cl_body c) ''nodeId'' of
        Inl e \<Rightarrow> (Inl e, st)
      | Inr nodeId \<Rightarrow>
          bindS (authNode cfg t c st) (\<lambda>authed st.
            case assertNodeIdentity nodeId authed (cp_store st) of
              Inl e \<Rightarrow> (Inl e, st)
            | Inr _ \<Rightarrow>
                (case getNode nodeId (cp_store st) of
                   None \<Rightarrow> (Inl (deny 409), st)
                 | Some n \<Rightarrow>
                     let running = (if jopt (cl_body c) ''running'' = JUndef then JArr [] else jopt (cl_body c) ''running'')
                     in (case reconcile cfg net t nodeId running (default_obj (jopt (cl_body c) ''usage'')) n (cp_store st) of
                           (r, s) \<Rightarrow> (r, st\<lparr> cp_store := s \<rparr>)))))"

definition report :: "cp_cfg \<Rightarrow> int \<Rightarrow> string \<Rightarrow> call \<Rightarrow> cp \<Rightarrow> jsval res \<times> cp" where
  "report cfg t k c st =
     (case getAgent k (cp_store st) of
        None \<Rightarrow> (Inl no_such_agent, st)
      | Some a \<Rightarrow>
          bindS (authNode cfg t c st) (\<lambda>authed st.
            if authed \<noteq> None \<and> \<not> (truthy (ca_nodeId a) \<and> (case getNode (ca_nodeId a) (cp_store st) of
                 Some n \<Rightarrow> nd_pubkey n = authed | None \<Rightarrow> False))
            then (Inl (deny 403), st)
            else (case jget (cl_body c) ''health'' of
                 Inl e \<Rightarrow> (Inl e, st)
               | Inr h \<Rightarrow>
                   let a1 = a\<lparr> ca_health := (if truthy h then h else ca_health a), ca_lastReport := t \<rparr>;
                       st1 = cp_put a1 st; ls = jopt (cl_body c) ''lines''
                   in if truthy (jopt ls ''length'')
                      then (case appendLogs (ca_id a) ls (cp_store st1) of
                          (r, s) \<Rightarrow> (bindE r (\<lambda>_. Inr (JObj [(''ok'', JBool True)])), st1\<lparr> cp_store := s \<rparr>))
                      else (Inr (JObj [(''ok'', JBool True)]), st1))))"

section \<open>Agents\<close>

fun state_text :: "lifecycle \<Rightarrow> string" where
  "state_text PENDING = ''pending''"
| "state_text SCHEDULED = ''scheduled''"
| "state_text RUNNING = ''running''"
| "state_text STOPPING = ''stopping''"
| "state_text STOPPED = ''stopped''"
| "state_text FAILED = ''failed''"

definition condition_val :: "condition \<Rightarrow> jsval" where
  "condition_val x = JObj [(''input'', JStr (co_input x)), (''op'', JStr (co_op x)), (''value'', co_value x)]"

definition rule_val :: "rule \<Rightarrow> jsval" where
  "rule_val r = JObj [(''id'', JStr (ru_id r)), (''when'', JArr (map condition_val (ru_when r))), (''then'', JObj (ru_then r)),
     (''requires'', JArr (map JStr (ru_requires r)))]"

definition verified_val :: "verified \<Rightarrow> jsval" where
  "verified_val v = JObj [(''rule'', case ve_rule v of None \<Rightarrow> JNull | Some r \<Rightarrow> rule_val r), (''acceptedKeys'', JObj (ve_acceptedKeys v)),
     (''acceptedNotaries'', JArr (map JStr (ve_acceptedNotaries v))), (''evidenceMaxAgeMs'', JNum (ve_evidenceMaxAgeMs v))]"

definition lease_val :: "lease \<Rightarrow> jsval" where
  "lease_val l = JObj [(''epoch'', le_epoch l), (''token'', le_token l), (''node'', le_node l)]"

definition agent_val :: "cagent \<Rightarrow> jsval" where
  "agent_val a = JObj [(''id'', JStr (ca_id a)), (''name'', ca_name a), (''owner'', ca_owner a), (''spec'', ca_spec a),
     (''custody'', JStr ''offbox-signer''), (''policy'', policy_val (ca_policy a)),
     (''verified'', case ca_verified a of None \<Rightarrow> JNull | Some v \<Rightarrow> verified_val v), (''address'', ca_address a),
     (''desired'', JStr (if ca_running a then ''running'' else ''stopped'')), (''state'', JStr (state_text (ca_state a))),
     (''nodeId'', ca_nodeId a), (''session'', case ca_session a of None \<Rightarrow> JNull | Some l \<Rightarrow> lease_val l),
     (''health'', ca_health a), (''createdAt'', JNum (int_num (ca_createdAt a)))]"

abbreviation agent_reply :: "cagent \<Rightarrow> jsval" where
  "agent_reply a \<equiv> JObj [(''agent'', agent_val a)]"

text \<open>The part of a handler before its request to the signer ends with a reply, or with that request and the agent.\<close>

datatype awaiting = Reply_Now jsval | Await scall cagent

text \<open>\<open>/^[a-zA-Z0-9][a-zA-Z0-9_-]{0,63}$/\<close>.\<close>

definition agent_id_ok :: "string \<Rightarrow> bool" where
  "agent_id_ok s = (let an = (\<lambda>c. is_digit c \<or> is_lower c \<or> is_upper c)
     in s \<noteq> [] \<and> length s \<le> 64 \<and> an (hd s) \<and> list_all (\<lambda>c. an c \<or> c = CHR ''_'' \<or> c = CHR ''-'') (tl s))"

text \<open>\<open>rid\<close> is what \<open>newId('agt')\<close> returns.\<close>

definition choose_id :: "string \<Rightarrow> jsval \<Rightarrow> store \<Rightarrow> string res" where
  "choose_id rid spec s =
     (let k = jopt (jopt (jopt spec ''bundle'') ''manifest'') ''agentId''
      in if truthy k then bindE (to_str k) (\<lambda>i.
             if \<not> agent_id_ok i then Inl (Err 0 ''bad-agent-id'')
             else if getAgent i s \<noteq> None then Inl (Err 0 ''id-exists'') else Inr i)
         else Inr rid)"

definition new_cagent :: "int \<Rightarrow> string \<Rightarrow> jsval \<Rightarrow> jsval \<Rightarrow> jsval \<Rightarrow> policy \<Rightarrow> verified option \<Rightarrow> cagent" where
  "new_cagent t i name owner spec p v =
     \<lparr> ca_id = i, ca_name = name, ca_owner = owner, ca_spec = spec, ca_policy = p, ca_verified = v, ca_address = JNull,
       ca_paper = JUndef, ca_running = False, ca_state = PENDING, ca_nodeId = JNull, ca_session = None, ca_health = JNull,
       ca_createdAt = t, ca_placedAt = 0, ca_failedNodes = [], ca_placeAttempts = 0, ca_lastReport = 0 \<rparr>"

definition provision_call :: "cagent \<Rightarrow> scall" where
  "provision_call a = \<lparr> sc_method = ''POST'', sc_path = ''/v1/agents'',
     sc_body = JObj ([(''agentId'', JStr (ca_id a)), (''policy'', policy_val (ca_policy a))]
       @ (case ca_verified a of None \<Rightarrow> [] | Some v \<Rightarrow> [(''verified'', verified_val v)])
       @ (if truthy (ca_owner a) then [(''owner'', ca_owner a)] else [])) \<rparr>"

definition build_agent :: "cp_cfg \<Rightarrow> int \<Rightarrow> string \<Rightarrow> jsval \<Rightarrow> jsval \<Rightarrow> jsval \<Rightarrow> store \<Rightarrow> cagent res" where
  "build_agent cfg t rid name owner body s =
     (let spec = default_obj (jopt body ''spec''); v = jopt body ''verified''
      in bindE (choose_id rid spec s) (\<lambda>i.
         bindE (assertBundleOwnerBinding (cc_crypto cfg) spec owner i) (\<lambda>_.
         bindE (normalizePolicy (jopt body ''policy'')) (\<lambda>p.
         bindE (if truthy v then bindE (normalizeVerified v) (\<lambda>x. Inr (Some x)) else Inr None) (\<lambda>v.
         Inr (new_cagent t i name owner spec p v))))))"

definition create_begin :: "cp_cfg \<Rightarrow> int \<Rightarrow> string \<Rightarrow> call \<Rightarrow> cp \<Rightarrow> awaiting res \<times> cp" where
  "create_begin cfg t rid c st =
     (case jget (cl_body c) ''name'' of
        Inl e \<Rightarrow> (Inl e, st)
      | Inr name \<Rightarrow>
          if \<not> truthy name then (Inl (Err 0 ''name-required''), st)
          else bindS (authOwner cfg t c st) (\<lambda>authed st.
            let owner = (case authed of Some k \<Rightarrow> JStr k
                         | None \<Rightarrow> if truthy (jopt (cl_body c) ''owner'') then jopt (cl_body c) ''owner'' else JNull)
            in bindS (rateLimitOwner cfg t owner st) (\<lambda>_ st.
               case build_agent cfg t rid name owner (cl_body c) (cp_store st) of
                 Inl e \<Rightarrow> (Inl e, st)
               | Inr a \<Rightarrow>
                   if cc_SIGNER_URL cfg = [] then (Inr (Reply_Now (agent_reply a)), cp_put a st)
                   else (Inr (Await (provision_call a) a), st))))"

definition create_finish :: "signer_reply \<Rightarrow> cagent \<Rightarrow> cp \<Rightarrow> jsval res \<times> cp" where
  "create_finish r a st =
     (case bindE (signerApi r) (\<lambda>s. bindE (jget s ''address'') (\<lambda>address. Inr (s, address))) of
        Inl e \<Rightarrow> (Inl (deny 503), st)
      | Inr (s, address) \<Rightarrow>
          let a1 = a\<lparr> ca_address := address, ca_paper := JBool (\<not> strict_eq (jopt (jopt s ''policy'') ''paper'') (JBool False)) \<rparr>
          in (Inr (agent_reply a1), cp_put a1 st))"

text \<open>What every handler on one agent starts with: the agent, the caller, and that it is the caller's.\<close>

definition owned :: "cp_cfg \<Rightarrow> int \<Rightarrow> string \<Rightarrow> call \<Rightarrow> (cagent \<Rightarrow> cp \<Rightarrow> 'a res \<times> cp) \<Rightarrow> cp \<Rightarrow> 'a res \<times> cp" where
  "owned cfg t k c f st =
     (case getAgent k (cp_store st) of
        None \<Rightarrow> (Inl no_such_agent, st)
      | Some a \<Rightarrow> bindS (authOwner cfg t c st) (\<lambda>owner st.
          case assertOwns cfg a owner of Inl e \<Rightarrow> (Inl e, st) | Inr _ \<Rightarrow> f a st))"

definition start_agent :: "cp_cfg \<Rightarrow> int \<Rightarrow> string \<Rightarrow> call \<Rightarrow> cp \<Rightarrow> jsval res \<times> cp" where
  "start_agent cfg t k c = owned cfg t k c (\<lambda>a st.
     let a1 = a\<lparr> ca_running := True, ca_state := (if ca_state a = STOPPED \<or> ca_state a = FAILED then PENDING else ca_state a) \<rparr>;
         st1 = cp_put a1 st
     in (case schedule t (cp_store st1) a1 of (r, a2) \<Rightarrow> (bindE r (\<lambda>_. Inr (agent_reply a2)), cp_put a2 st1)))"

definition stop_agent :: "cp_cfg \<Rightarrow> int \<Rightarrow> string \<Rightarrow> call \<Rightarrow> cp \<Rightarrow> jsval res \<times> cp" where
  "stop_agent cfg t k c = owned cfg t k c (\<lambda>a st.
     let a1 = a\<lparr> ca_running := False, ca_state := (if ca_state a = RUNNING then STOPPING else STOPPED) \<rparr>
     in (Inr (agent_reply a1), cp_put a1 st))"

definition cp_delete :: "string \<Rightarrow> cp \<Rightarrow> cp" where
  "cp_delete k st = st\<lparr> cp_store := deleteAgent k (cp_store st) \<rparr>"

definition delete_begin :: "cp_cfg \<Rightarrow> int \<Rightarrow> string \<Rightarrow> call \<Rightarrow> cp \<Rightarrow> awaiting res \<times> cp" where
  "delete_begin cfg t k c = owned cfg t k c (\<lambda>a st.
     if cc_SIGNER_URL cfg = [] then (Inr (Reply_Now (JObj [(''ok'', JBool True)])), cp_delete (ca_id a) st)
     else (Inr (Await \<lparr> sc_method = ''DELETE'',
         sc_path = ''/v1/agents/'' @ ca_id a @ (if jopt (cl_query c) ''force'' = JStr ''1'' then ''?force=1'' else []), sc_body = JUndef \<rparr> a), st))"

definition delete_finish :: "signer_reply \<Rightarrow> cagent \<Rightarrow> cp \<Rightarrow> jsval res \<times> cp" where
  "delete_finish r a st = (case signerApi r of
       Inl e \<Rightarrow> (Inl e, st)
     | Inr _ \<Rightarrow> (Inr (JObj [(''ok'', JBool True)]), cp_delete (ca_id a) st))"

text \<open>
  The owner is replaced before the signer is asked. When the answer comes the handler puts the agent, as
  it then is, back into the store.
\<close>

definition owner_begin :: "cp_cfg \<Rightarrow> int \<Rightarrow> string \<Rightarrow> call \<Rightarrow> cp \<Rightarrow> awaiting res \<times> cp" where
  "owner_begin cfg t k c = owned cfg t k c (\<lambda>a st.
     case bindE (jget (cl_body c) ''owner'') (\<lambda>owner.
          bindE (assertBundleOwnerBinding (cc_crypto cfg) (ca_spec a) owner (ca_id a)) (\<lambda>_. Inr owner)) of
       Inl e \<Rightarrow> (Inl e, st)
     | Inr owner \<Rightarrow>
         let a1 = a\<lparr> ca_owner := owner \<rparr>
         in (Inr (Await \<lparr> sc_method = ''PUT'', sc_path = ''/v1/agents/'' @ ca_id a @ ''/owner'', sc_body = JObj [(''owner'', owner)] \<rparr> a1),
             cp_put a1 st))"

definition owner_finish :: "signer_reply \<Rightarrow> cagent \<Rightarrow> cp \<Rightarrow> jsval res \<times> cp" where
  "owner_finish r a st = (case signerApi r of
       Inl e \<Rightarrow> (Inl e, st)
     | Inr s \<Rightarrow> (Inr (JObj [(''agent'', agent_val a), (''signer'', s)]), cp_put a st))"

text \<open>Both are passed on to the signer, whose answer is the reply.\<close>

definition withdraw_begin :: "cp_cfg \<Rightarrow> int \<Rightarrow> string \<Rightarrow> call \<Rightarrow> cp \<Rightarrow> awaiting res \<times> cp" where
  "withdraw_begin cfg t k c = owned cfg t k c (\<lambda>a st.
     case jget (cl_body c) ''amountSol'' of
       Inl e \<Rightarrow> (Inl e, st)
     | Inr x \<Rightarrow> (Inr (Await \<lparr> sc_method = ''POST'', sc_path = ''/v1/agents/'' @ ca_id a @ ''/withdraw'',
         sc_body = JObj [(''amountSol'', x)] \<rparr> a), st))"

definition export_begin :: "cp_cfg \<Rightarrow> int \<Rightarrow> string \<Rightarrow> call \<Rightarrow> cp \<Rightarrow> awaiting res \<times> cp" where
  "export_begin cfg t k c = owned cfg t k c (\<lambda>a st.
     (Inr (Await \<lparr> sc_method = ''POST'', sc_path = ''/v1/agents/'' @ ca_id a @ ''/export'', sc_body = JObj [] \<rparr> a), st))"

section \<open>Reading\<close>

definition show_agent :: "cp_cfg \<Rightarrow> int \<Rightarrow> string \<Rightarrow> call \<Rightarrow> cp \<Rightarrow> jsval res \<times> cp" where
  "show_agent cfg t k c = owned cfg t k c (\<lambda>a st. (Inr (agent_reply a), st))"

definition list_agents :: "cp_cfg \<Rightarrow> int \<Rightarrow> call \<Rightarrow> cp \<Rightarrow> jsval res \<times> cp" where
  "list_agents cfg t c st = bindS (authOwner cfg t c st) (\<lambda>owner st.
     let all = sort_key ca_createdAt (listAgents (\<lambda>_. True) (cp_store st))
     in (Inr (JObj [(''agents'', JArr (map agent_val (case owner of
           Some k \<Rightarrow> filter (\<lambda>a. strict_eq (ca_owner a) (JStr k)) all | None \<Rightarrow> all)))]), st))"

definition agent_logs :: "cp_cfg \<Rightarrow> int \<Rightarrow> string \<Rightarrow> call \<Rightarrow> cp \<Rightarrow> jsval list res \<times> cp" where
  "agent_logs cfg t k c st = bindS (authOwner cfg t c st) (\<lambda>owner st.
     (bindE (case getAgent k (cp_store st) of Some a \<Rightarrow> assertOwns cfg a owner | None \<Rightarrow> Inr ()) (\<lambda>_.
      bindE (to_num (str_or (jopt (cl_query c) ''since'') (JNum (Fin 0)))) (\<lambda>since.
      getLogs k since (cp_store st))), st))"

definition list_nodes :: "cp_cfg \<Rightarrow> call \<Rightarrow> cp \<Rightarrow> node list res" where
  "list_nodes cfg c st = bindE (cp_auth cfg c) (\<lambda>_. Inr (listNodes (cp_store st)))"

definition cloudCounts :: "store \<Rightarrow> (string \<times> jsval) list" where
  "cloudCounts s = [(''nodes'', JNum (nat_num (length (listNodes s)))),
     (''nodesUp'', JNum (nat_num (length (filter nd_up (listNodes s))))),
     (''agents'', JNum (nat_num (length (st_agents s)))),
     (''agentsRunning'', JNum (nat_num (length (listAgents (\<lambda>a. ca_state a = RUNNING) s))))]"

definition cp_health :: "store \<Rightarrow> jsval" where
  "cp_health s = JObj ([(''ok'', JBool True), (''service'', JStr ''circuit-control-plane'')] @ cloudCounts s)"

section \<open>Trust\<close>

definition trust_node :: "cp_cfg \<Rightarrow> jsval \<Rightarrow> call \<Rightarrow> cp \<Rightarrow> jsval res \<times> cp" where
  "trust_node cfg k c st =
     (if cc_KEY cfg = [] then (Inl (deny 403), st)
      else case cp_auth cfg c of
        Inl e \<Rightarrow> (Inl e, st)
      | Inr _ \<Rightarrow>
          (case getNode k (cp_store st) of
             None \<Rightarrow> (Inl (Err 0 ''no-such-node''), st)
           | Some n \<Rightarrow>
               (case jget (cl_body c) ''trusted'' of
                  Inl e \<Rightarrow> (Inl e, st)
                | Inr v \<Rightarrow>
                    let trusted = (v = JBool True)
                    in (Inr (JObj [(''node'', JObj [(''nodeId'', nd_id n), (''trusted'', JBool trusted)])]),
                        st\<lparr> cp_store := beat_node k (\<lambda>n. n\<lparr> nd_trusted := trusted \<rparr>) (cp_store st) \<rparr>))))"

definition cp_sweep :: "cp_cfg \<Rightarrow> int \<Rightarrow> cp \<Rightarrow> unit res \<times> cp" where
  "cp_sweep cfg t st = (case sweep (cc_place cfg) t (cp_store st) of (r, s) \<Rightarrow> (r, st\<lparr> cp_store := s \<rparr>))"

end
