(* ===== verification/Cp_System.thy ===== *)
theory Cp_System
  imports Control_Plane
begin

text \<open>
  The control plane as a transition system: the handlers, the answers of the signer to requests that are
  waiting, and the sweep, in any order. What the operations keep: the keys of the store are the ids of
  its records, a node's id stays bound to the key that registered it, a stored bundle belongs to
  its agent and owner.
\<close>

datatype waiting = W_Create cagent | W_Delete cagent | W_Owner cagent

record cp_sys =
  cs_cp :: cp
  cs_waiting :: "waiting list"

datatype cp_op =
    Op_Register int call
  | Op_Heartbeat "scall \<Rightarrow> signer_reply" int call
  | Op_Report int string call
  | Op_Create int string call
  | Op_Start int string call
  | Op_Stop int string call
  | Op_Delete int string call
  | Op_Owner int string call
  | Op_Withdraw int string call
  | Op_Export int string call
  | Op_Show int string call
  | Op_List int call
  | Op_Logs int string call
  | Op_Trust jsval call
  | Op_Sweep int
  | Op_Answer nat signer_reply bool

text \<open>
  A handler that awaits the signer is added to the list of those waiting; \<open>Op_Answer i\<close> resumes the
  \<open>i\<close>th. The agent a resumed change of owner holds is the stored one, or, when the store has
  lost it in between, its own.
\<close>

definition suspend :: "(cagent \<Rightarrow> waiting) \<Rightarrow> awaiting res \<times> cp \<Rightarrow> cp_sys \<Rightarrow> cp_sys" where
  "suspend w rs s = (case rs of
       (Inr (Await _ a), st) \<Rightarrow> \<lparr> cs_cp = st, cs_waiting = cs_waiting s @ [w a] \<rparr>
     | (_, st) \<Rightarrow> s\<lparr> cs_cp := st \<rparr>)"

definition resume :: "signer_reply \<Rightarrow> bool \<Rightarrow> waiting \<Rightarrow> cp \<Rightarrow> cp" where
  "resume r own w st = (case w of
       W_Create a \<Rightarrow> snd (create_finish r a st)
     | W_Delete a \<Rightarrow> snd (delete_finish r a st)
     | W_Owner a \<Rightarrow> snd (owner_finish r (case getAgent (ca_id a) (cp_store st) of Some b \<Rightarrow> if own then a else b | None \<Rightarrow> a) st))"

fun cp_step :: "cp_cfg \<Rightarrow> cp_sys \<Rightarrow> cp_op \<Rightarrow> cp_sys" where
  "cp_step cfg s (Op_Register t c) = s\<lparr> cs_cp := snd (register cfg t c (cs_cp s)) \<rparr>"
| "cp_step cfg s (Op_Heartbeat net t c) = s\<lparr> cs_cp := snd (heartbeat cfg net t c (cs_cp s)) \<rparr>"
| "cp_step cfg s (Op_Report t k c) = s\<lparr> cs_cp := snd (report cfg t k c (cs_cp s)) \<rparr>"
| "cp_step cfg s (Op_Create t rid c) = suspend W_Create (create_begin cfg t rid c (cs_cp s)) s"
| "cp_step cfg s (Op_Start t k c) = s\<lparr> cs_cp := snd (start_agent cfg t k c (cs_cp s)) \<rparr>"
| "cp_step cfg s (Op_Stop t k c) = s\<lparr> cs_cp := snd (stop_agent cfg t k c (cs_cp s)) \<rparr>"
| "cp_step cfg s (Op_Delete t k c) = suspend W_Delete (delete_begin cfg t k c (cs_cp s)) s"
| "cp_step cfg s (Op_Owner t k c) = suspend W_Owner (owner_begin cfg t k c (cs_cp s)) s"
| "cp_step cfg s (Op_Withdraw t k c) = s\<lparr> cs_cp := snd (withdraw_begin cfg t k c (cs_cp s)) \<rparr>"
| "cp_step cfg s (Op_Export t k c) = s\<lparr> cs_cp := snd (export_begin cfg t k c (cs_cp s)) \<rparr>"
| "cp_step cfg s (Op_Show t k c) = s\<lparr> cs_cp := snd (show_agent cfg t k c (cs_cp s)) \<rparr>"
| "cp_step cfg s (Op_List t c) = s\<lparr> cs_cp := snd (list_agents cfg t c (cs_cp s)) \<rparr>"
| "cp_step cfg s (Op_Logs t k c) = s\<lparr> cs_cp := snd (agent_logs cfg t k c (cs_cp s)) \<rparr>"
| "cp_step cfg s (Op_Trust k c) = s\<lparr> cs_cp := snd (trust_node cfg k c (cs_cp s)) \<rparr>"
| "cp_step cfg s (Op_Sweep t) = s\<lparr> cs_cp := snd (cp_sweep cfg t (cs_cp s)) \<rparr>"
| "cp_step cfg s (Op_Answer i r own) =
     (if i < length (cs_waiting s)
      then \<lparr> cs_cp = resume r own (cs_waiting s ! i) (cs_cp s), cs_waiting = take i (cs_waiting s) @ drop (Suc i) (cs_waiting s) \<rparr>
      else s)"

definition cs_store :: "cp_sys \<Rightarrow> store" where
  "cs_store s = cp_store (cs_cp s)"

section \<open>What the gates leave alone\<close>

lemma requireOwner_store: "requireOwner cfg t c st = (r, st') \<Longrightarrow> cp_store st' = cp_store st"
  by (auto simp: requireOwner_def split: prod.splits)

lemma requireNode_store: "requireNode cfg t c st = (r, st') \<Longrightarrow> cp_store st' = cp_store st"
  by (auto simp: requireNode_def split: prod.splits)

lemma bindS_out: "bindS x f = (r, s) \<Longrightarrow> (\<exists>e. x = (Inl e, s) \<and> r = Inl e) \<or> (\<exists>y s1. x = (Inr y, s1) \<and> f y s1 = (r, s))"
  by (auto simp: bindS_def split: prod.splits sum.splits)

lemma authOwner_store: "authOwner cfg t c st = (r, st') \<Longrightarrow> cp_store st' = cp_store st"
  unfolding authOwner_def by (drule bindS_out) (auto dest: requireOwner_store split: if_splits)

lemma authNode_store: "authNode cfg t c st = (r, st') \<Longrightarrow> cp_store st' = cp_store st"
  unfolding authNode_def by (drule bindS_out) (auto dest: requireNode_store split: if_splits)

lemma rateLimit_store: "rateLimitOwner cfg t owner st = (r, st') \<Longrightarrow> cp_store st' = cp_store st"
  by (auto simp: rateLimitOwner_def Let_def split: if_splits)

text \<open>A handler on one agent either stops at its gates or runs on the stored agent.\<close>

lemma owned_cases:
  assumes "owned cfg t k c f st = (r, st')"
  obtains (refused) e where "r = Inl e" "cp_store st' = cp_store st"
  | (admitted) a owner st1 where "getAgent k (cp_store st) = Some a" "authOwner cfg t c st = (Inr owner, st1)"
      "cp_store st1 = cp_store st" "assertOwns cfg a owner = Inr ()" "f a st1 = (r, st')"
proof (cases "getAgent k (cp_store st)")
  case None
  then show ?thesis using assms refused [of no_such_agent] by (auto simp: owned_def)
next
  case (Some a)
  obtain r1 st1 where au: "authOwner cfg t c st = (r1, st1)" by force
  note same = authOwner_store [OF au]
  show ?thesis
  proof (cases r1)
    case (Inl e)
    then show ?thesis using assms Some au same refused [of e] by (simp add: owned_def)
  next
    case (Inr owner)
    show ?thesis
    proof (cases "assertOwns cfg a owner")
      case (Inl e)
      then show ?thesis using assms Some au same refused [of e] \<open>r1 = Inr owner\<close> by (simp add: owned_def)
    next
      case (Inr u)
      then show ?thesis using assms Some au same admitted \<open>r1 = Inr owner\<close> by (simp add: owned_def)
    qed
  qed
qed

section \<open>Operations keep the identity of agents\<close>

definition core :: "cagent \<Rightarrow> string \<times> jsval \<times> jsval" where
  "core a = (ca_id a, ca_spec a, ca_owner a)"

definition cores :: "store \<Rightarrow> (string \<times> jsval \<times> jsval) set" where
  "cores s = core ` set (map_values (st_agents s))"

lemma values_put: "b \<in> set (map_values (st_agents (putAgent a s))) \<Longrightarrow> b = a \<or> b \<in> set (map_values (st_agents s))"
  using map_values_set [of b "ca_id a" a "st_agents s"] by (simp add: putAgent_def)

lemma values_delete: "b \<in> set (map_values (st_agents (deleteAgent k s))) \<Longrightarrow> b \<in> set (map_values (st_agents s))"
  using map_values_delete [of b k "st_agents s"] by (simp add: deleteAgent_def)

lemma cores_put: "cores (putAgent a s) \<subseteq> insert (core a) (cores s)"
  unfolding cores_def using values_put by blast

lemma cores_delete: "cores (deleteAgent k s) \<subseteq> cores s"
  unfolding cores_def using values_delete by blast

lemma cores_get: "getAgent k s = Some a \<Longrightarrow> core a \<in> cores s"
  by (auto simp: cores_def getAgent_def dest: map_values_get)

lemma cores_same_agents: "st_agents s' = st_agents s \<Longrightarrow> cores s' = cores s"
  by (simp add: cores_def)

lemma cores_put_same: "core a \<in> cores s \<Longrightarrow> cores (putAgent a s) \<subseteq> cores s"
  using cores_put by fastforce

lemma cores_map: "(\<And>a. core (f a) = core a) \<Longrightarrow> cores (map_agents f s) = cores s"
  by (auto simp: cores_def map_agents_def image_iff o_def split_beta) force+

lemma schedule_core: "schedule t s a = (r, a') \<Longrightarrow> core a' = core a"
  by (auto simp: core_def schedule_def placed_def Let_def split: if_splits sum.splits option.splits)

lemma reschedule_cores: "reschedule t ks s = (r, s') \<Longrightarrow> cores s' \<subseteq> cores s"
proof (induction t ks s rule: reschedule.induct)
  case (2 t k ks s)
  show ?case
  proof (cases "getAgent k s")
    case None
    then show ?thesis using 2 by simp
  next
    case (Some a)
    obtain r1 a' where sc: "schedule t s a = (r1, a')" by force
    have put: "cores (putAgent a' s) \<subseteq> cores s"
      using cores_put_same schedule_core [OF sc] cores_get [OF Some] by simp
    show ?thesis
    proof (cases r1)
      case (Inl e)
      then show ?thesis using 2(3) Some sc put by simp
    next
      case (Inr u)
      then have "reschedule t ks (putAgent a' s) = (r, s')" using 2(3) Some sc by simp
      from 2(2) [OF Some sc [symmetric] Inr this] put show ?thesis by blast
    qed
  qed
qed simp

lemma down_node_cores: "cores (down_node cfg t n s) = cores s"
proof -
  have "cores (map_agents (\<lambda>a. if strict_eq (ca_nodeId a) (nd_id n) \<and> ca_running a then a\<lparr> ca_state := FAILED, ca_nodeId := JNull \<rparr> else a) s1)
      = cores s1" for s1
    by (rule cores_map) (simp add: core_def)
  then show ?thesis by (simp add: down_node_def cores_def)
qed

lemma sweep_cores: "sweep cfg t s = (r, s') \<Longrightarrow> cores s' \<subseteq> cores s"
proof -
  assume sw: "sweep cfg t s = (r, s')"
  have "cores (fold (down_node cfg t) ns s1) = cores s1" for ns s1
    by (induction ns arbitrary: s1) (simp_all add: down_node_cores)
  moreover have "cores (watchdog cfg t s1) = cores s1" for s1
    unfolding watchdog_def by (rule cores_map) (simp add: bounce_def core_def)
  ultimately have "cores (watchdog cfg t (down_sweep cfg t s)) = cores s" by (simp add: down_sweep_def)
  then show ?thesis using reschedule_cores sw unfolding sweep_def Let_def by metis
qed

lemma ensureSession_core: "core (ensureSession cfg net a) = core a"
  by (auto simp: ensureSession_def core_def split: sum.splits option.splits)

lemma beat_agent_core: "beat_agent cfg net running free a = (a', free', xs) \<Longrightarrow> core a' = core a"
  by (auto simp: beat_agent_def Let_def core_def [of "_\<lparr> ca_nodeId := _, ca_state := _ \<rparr>"] ensureSession_core split: if_splits)
     (simp_all add: core_def)

lemma beat_agents_cores:
  "beat_agents cfg net running free as s = (s', xs) \<Longrightarrow> cores s' \<subseteq> cores s \<union> core ` set as"
proof (induction as arbitrary: free s xs)
  case (Cons a as)
  obtain a' free' ys where b: "beat_agent cfg net running free a = (a', free', ys)" by (metis prod.exhaust)
  obtain zs where rest: "beat_agents cfg net running free' as (putAgent a' s) = (s', zs)"
    using Cons.prems b by (auto split: prod.splits)
  from Cons.IH [OF rest] cores_put [of a' s] beat_agent_core [OF b] show ?case by auto
qed simp

lemma beat_node_cores [simp]: "cores (beat_node k f s) = cores s"
  by (auto simp: cores_def beat_node_def split: option.splits)

lemma reconcile_cases:
  assumes "reconcile cfg net t nodeId running usage n s = (r, s')"
  obtains (stopped) e where "r = Inl e" "s' = beat_node nodeId (\<lambda>n. n\<lparr> nd_up := True, nd_lastSeen := t, nd_usage := usage \<rparr>) s"
  | (beaten) mx m s1 s2 xs where "maxAgents n = Inr mx" "run_length running = Inr m"
      "s1 = beat_node nodeId (\<lambda>n. n\<lparr> nd_up := True, nd_lastSeen := t, nd_usage := usage \<rparr>) s"
      "beat_agents cfg net running (jsub mx (nat_num m)) (listAgents (\<lambda>a. strict_eq (ca_nodeId a) nodeId) s1) s1 = (s2, xs)"
      "(\<exists>e. r = Inl e \<and> s' = s2) \<or> (\<exists>ks. iterate running = Inr ks \<and>
         r = Inr (JObj [(''assignments'', JArr (xs @ map stop_assignment (filter (orphan nodeId s2) ks)))]) \<and>
         s' = beat_node nodeId (\<lambda>n. n\<lparr> nd_available := Some (jsub mx (nat_num (countAssigned s2 nodeId))) \<rparr>) s2)"
proof -
  define s1 where "s1 = beat_node nodeId (\<lambda>n. n\<lparr> nd_up := True, nd_lastSeen := t, nd_usage := usage \<rparr>) s"
  note r = assms [unfolded reconcile_def Let_def, folded s1_def]
  show ?thesis
  proof (cases "bindE (maxAgents n) (\<lambda>mx. bindE (run_length running) (\<lambda>r. Inr (mx, r)))")
    case (Inl e)
    then show ?thesis using r stopped by (auto simp: s1_def)
  next
    case (Inr p)
    obtain mx m where p: "p = (mx, m)" "maxAgents n = Inr mx" "run_length running = Inr m"
      using Inr by (auto simp: bindE_Inr_iff)
    obtain s2 xs where b: "beat_agents cfg net running (jsub mx (nat_num m)) (listAgents (\<lambda>a. strict_eq (ca_nodeId a) nodeId) s1) s1 = (s2, xs)"
      by force
    show ?thesis by (rule beaten [OF p(2,3) s1_def b]) (use r Inr p(1) b in \<open>auto split: sum.splits\<close>)
  qed
qed

lemma reconcile_cores: "reconcile cfg net t nodeId running usage n s = (r, s') \<Longrightarrow> cores s' \<subseteq> cores s"
proof (erule reconcile_cases)
  fix mx m s1 s2 xs
  assume b: "beat_agents cfg net running (jsub mx (nat_num m)) (listAgents (\<lambda>a. strict_eq (ca_nodeId a) nodeId) s1) s1 = (s2, xs)"
    and s1: "s1 = beat_node nodeId (\<lambda>n. n\<lparr> nd_up := True, nd_lastSeen := t, nd_usage := usage \<rparr>) s"
    and s': "(\<exists>e. r = Inl e \<and> s' = s2) \<or> (\<exists>ks. iterate running = Inr ks \<and>
         r = Inr (JObj [(''assignments'', JArr (xs @ map stop_assignment (filter (orphan nodeId s2) ks)))]) \<and>
         s' = beat_node nodeId (\<lambda>n. n\<lparr> nd_available := Some (jsub mx (nat_num (countAssigned s2 nodeId))) \<rparr>) s2)"
  have "core ` set (listAgents P s1) \<subseteq> cores s1" for P by (auto simp: listAgents_def cores_def)
  then have "cores s2 \<subseteq> cores s1" using beat_agents_cores [OF b] by blast
  then show ?thesis using s' by (auto simp: s1)
qed simp

section \<open>Operations keep the store well-formed and the nodes' keys and trust\<close>

definition ident :: "store \<Rightarrow> jsval \<Rightarrow> (string option \<times> bool) option" where
  "ident s j = map_option (\<lambda>n. (nd_pubkey n, nd_trusted n)) (getNode j s)"

definition tame :: "store \<Rightarrow> store \<Rightarrow> bool" where
  "tame s s' = (store_ok s \<longrightarrow> store_ok s' \<and> (\<forall>j. ident s' j = ident s j))"

lemma tame_refl [simp]: "tame s s"
  by (simp add: tame_def)

lemma tame_trans: "tame s1 s2 \<Longrightarrow> tame s2 s3 \<Longrightarrow> tame s1 s3"
  by (auto simp: tame_def)

lemma tame_put: "tame s (putAgent a s)"
  using set_map_set [of "st_agents s"]
  by (auto simp: tame_def store_ok_def putAgent_def ident_def getNode_def)

lemma tame_delete: "tame s (deleteAgent k s)"
  by (auto simp: tame_def store_ok_def deleteAgent_def ident_def getNode_def map_delete_def map_ok_filter [unfolded])

lemma tame_map: "(\<And>a. ca_id (f a) = ca_id a) \<Longrightarrow> tame s (map_agents f s)"
  by (auto simp: tame_def ident_def getNode_def map_agents_def intro: map_agents_ok [unfolded map_agents_def])

lemma tame_logs: "appendLogs k ls s = (r, s') \<Longrightarrow> tame s s'"
proof -
  assume a: "appendLogs k ls s = (r, s')"
  have nodes: "st_nodes s' = st_nodes s" "st_agents s' = st_agents s" using a
    by (auto simp: appendLogs_def Let_def split: sum.splits if_splits)
  have one: "store_ok (s1\<lparr> st_logs := map_set k xs (st_logs s1) \<rparr>)" if "store_ok s1" "length xs \<le> LOG_RING" for s1 xs
    using that set_map_set [of "st_logs s1"] by (auto simp: store_ok_def)
  have "store_ok s'" if s: "store_ok s"
  proof -
    let ?s1 = "if map_has k (st_logs s) then s else s\<lparr> st_logs := map_set k [] (st_logs s) \<rparr>"
    have s1: "store_ok ?s1" using s one [of s "[]"] by simp
    show ?thesis
    proof (cases "iterate ls")
      case (Inl e)
      then show ?thesis using a s1 by (simp add: appendLogs_def Let_def split: if_splits)
    next
      case (Inr xs)
      let ?buf = "log_lines k ?s1 @ xs"
      have "s' = ?s1\<lparr> st_logs := map_set k (drop (length ?buf - LOG_RING) ?buf) (st_logs ?s1) \<rparr>"
        using a Inr by (simp add: appendLogs_def Let_def del: drop_append split del: if_split)
      then show ?thesis using one [OF s1 ring_facts(1)] by (simp only:)
    qed
  qed
  then show ?thesis using nodes by (simp add: tame_def ident_def getNode_def)
qed

lemma ident_set: "getNode (nd_id n) s = Some m \<Longrightarrow> nd_pubkey n = nd_pubkey m \<Longrightarrow> nd_trusted n = nd_trusted m \<Longrightarrow>
    ident (s\<lparr> st_nodes := map_set (nd_id n) n (st_nodes s) \<rparr>) j = ident s j"
  by (simp add: ident_def getNode_def map_get_set)

lemma down_node_ident: "getNode (nd_id n) s = Some n \<Longrightarrow> ident (down_node cfg t n s) j = ident s j"
  using ident_set [of "n\<lparr> nd_up := False \<rparr>" s n j] by (simp add: down_node_def ident_def getNode_def map_agents_def)

lemma down_node_get: "nd_id n \<noteq> j \<Longrightarrow> getNode j (down_node cfg t n s) = getNode j s"
  by (simp add: down_node_def getNode_def map_agents_def map_get_set)

lemma down_sweep_tame: "tame s (down_sweep cfg t s)"
proof -
  have "distinct (map nd_id ns) \<Longrightarrow> (\<And>n. n \<in> set ns \<Longrightarrow> getNode (nd_id n) s1 = Some n) \<Longrightarrow>
      ident (fold (down_node cfg t) ns s1) j = ident s1 j" for ns s1 j
  proof (induction ns arbitrary: s1)
    case (Cons n ns)
    have "getNode (nd_id m) (down_node cfg t n s1) = Some m" if m: "m \<in> set ns" for m
    proof -
      have "nd_id n \<noteq> nd_id m" using Cons.prems(1) m by force
      then show ?thesis using down_node_get Cons.prems(2) m by simp
    qed
    then show ?case using Cons.IH [of "down_node cfg t n s1"] Cons.prems down_node_ident by simp
  qed simp
  from this [OF listed_distinct listed_node, of s] show ?thesis
    using down_sweep_ok by (simp add: tame_def down_sweep_def)
qed

lemma reschedule_tame: "reschedule t ks s = (r, s') \<Longrightarrow> tame s s'"
proof (induction t ks s rule: reschedule.induct)
  case (2 t k ks s)
  then show ?case using tame_put tame_trans by (fastforce split: option.splits prod.splits sum.splits)
qed simp

lemma sweep_tame: "sweep cfg t s = (r, s') \<Longrightarrow> tame s s'"
proof -
  have "tame s1 (watchdog cfg t s1)" for s1 unfolding watchdog_def by (rule tame_map) (simp add: bounce_def)
  then show "sweep cfg t s = (r, s') \<Longrightarrow> ?thesis"
    unfolding sweep_def Let_def by (meson down_sweep_tame reschedule_tame tame_trans)
qed

lemma beat_agents_tame: "beat_agents cfg net running free as s = (s', xs) \<Longrightarrow> tame s s'"
proof (induction as arbitrary: free s xs)
  case (Cons a as)
  then show ?case using tame_put tame_trans by (fastforce split: prod.splits)
qed simp

lemma beat_node_tame:
  assumes "\<And>n. nd_id (f n) = nd_id n" "\<And>n. nd_pubkey (f n) = nd_pubkey n" "\<And>n. nd_trusted (f n) = nd_trusted n"
  shows "tame s (beat_node k f s)"
proof (cases "getNode k s")
  case (Some n)
  have "store_ok (s\<lparr> st_nodes := map_set k (f n) (st_nodes s) \<rparr>)" if "store_ok s"
    using that store_node_id [OF that Some] assms(1) set_map_set [of "st_nodes s"] by (auto simp: store_ok_def)
  moreover have "ident (s\<lparr> st_nodes := map_set k (f n) (st_nodes s) \<rparr>) j = ident s j" for j
    using Some assms(2,3) by (simp add: ident_def getNode_def map_get_set)
  ultimately show ?thesis using Some by (simp add: tame_def beat_node_def)
qed (simp add: beat_node_def)

lemma reconcile_tame: "reconcile cfg net t nodeId running usage n s = (r, s') \<Longrightarrow> tame s s'"
proof (erule reconcile_cases)
  fix e
  assume "s' = beat_node nodeId (\<lambda>n. n\<lparr> nd_up := True, nd_lastSeen := t, nd_usage := usage \<rparr>) s"
  then show ?thesis by (simp add: beat_node_tame)
next
  fix mx m s1 s2 xs
  assume b: "beat_agents cfg net running (jsub mx (nat_num m)) (listAgents (\<lambda>a. strict_eq (ca_nodeId a) nodeId) s1) s1 = (s2, xs)"
    and s1: "s1 = beat_node nodeId (\<lambda>n. n\<lparr> nd_up := True, nd_lastSeen := t, nd_usage := usage \<rparr>) s"
    and s': "(\<exists>e. r = Inl e \<and> s' = s2) \<or> (\<exists>ks. iterate running = Inr ks \<and>
         r = Inr (JObj [(''assignments'', JArr (xs @ map stop_assignment (filter (orphan nodeId s2) ks)))]) \<and>
         s' = beat_node nodeId (\<lambda>n. n\<lparr> nd_available := Some (jsub mx (nat_num (countAssigned s2 nodeId))) \<rparr>) s2)"
  have "tame s s1" unfolding s1 by (rule beat_node_tame) simp_all
  moreover have "tame s1 s2" by (rule beat_agents_tame [OF b])
  moreover have "tame s2 s'" using s' by (auto simp: beat_node_tame)
  ultimately show ?thesis using tame_trans by blast
qed

section \<open>The handlers\<close>

definition calm :: "store \<Rightarrow> store \<Rightarrow> bool" where
  "calm s s' = (cores s' \<subseteq> cores s \<and> tame s s')"

lemma calm_refl [simp]: "calm s s"
  by (simp add: calm_def)

lemma calm_trans: "calm s1 s2 \<Longrightarrow> calm s2 s3 \<Longrightarrow> calm s1 s3"
  unfolding calm_def using tame_trans by blast

lemma calm_put: "core a \<in> cores s \<Longrightarrow> calm s (putAgent a s)"
  by (simp add: calm_def cores_put_same tame_put)

lemma reconcile_calm: "reconcile cfg net t nodeId running usage n s = (r, s') \<Longrightarrow> calm s s'"
  by (simp add: calm_def reconcile_cores reconcile_tame)

lemma heartbeat_calm: "heartbeat cfg net t c st = (r, st') \<Longrightarrow> calm (cp_store st) (cp_store st')"
  unfolding heartbeat_def Let_def
  by (auto dest!: bindS_out authNode_store reconcile_calm split: sum.splits option.splits prod.splits)

lemma report_calm: "report cfg t k c st = (r, st') \<Longrightarrow> calm (cp_store st) (cp_store st')"
proof -
  assume rep: "report cfg t k c st = (r, st')"
  show ?thesis
  proof (cases "getAgent k (cp_store st)")
    case None
    then show ?thesis using rep by (simp add: report_def)
  next
    case (Some a)
    have put: "calm (cp_store st) (putAgent (a\<lparr> ca_health := h, ca_lastReport := t \<rparr>) (cp_store st))" for h
      by (rule calm_put) (use cores_get [OF Some] in \<open>simp add: core_def\<close>)
    have put': "calm (cp_store st) (putAgent (a\<lparr> ca_lastReport := t \<rparr>) (cp_store st))"
      by (rule calm_put) (use cores_get [OF Some] in \<open>simp add: core_def\<close>)
    have logs: "calm s s'" if "appendLogs i ls s = (u, s')" for i ls s u s'
      using tame_logs [OF that] that
      by (auto simp: calm_def appendLogs_def Let_def intro!: equalityD1 [OF cores_same_agents] split: sum.splits if_splits)
    have after: "calm (cp_store st) s'" if "appendLogs i ls (putAgent (a\<lparr> ca_health := h, ca_lastReport := t \<rparr>) (cp_store st)) = (u, s')"
      for i ls h u s' using calm_trans [OF put logs [OF that]] .
    have after': "calm (cp_store st) s'" if "appendLogs i ls (putAgent (a\<lparr> ca_lastReport := t \<rparr>) (cp_store st)) = (u, s')"
      for i ls u s' using calm_trans [OF put' logs [OF that]] .
    show ?thesis using rep Some
      by (auto simp: report_def cp_put_def Let_def dest!: bindS_out authNode_store split: sum.splits if_splits prod.splits)
         (metis after after' put put')+
  qed
qed

lemma owned_calm:
  assumes "owned cfg t k c f st = (r, st')"
    and "\<And>a st1 r st'. core a \<in> cores (cp_store st1) \<Longrightarrow> f a st1 = (r, st') \<Longrightarrow> calm (cp_store st1) (cp_store st')"
  shows "calm (cp_store st) (cp_store st')"
  using assms(1)
proof (cases rule: owned_cases)
  case (admitted a owner st1)
  then show ?thesis using assms(2) cores_get [of k "cp_store st" a] by metis
qed simp

lemma start_calm: "start_agent cfg t k c st = (r, st') \<Longrightarrow> calm (cp_store st) (cp_store st')"
proof -
  have two: "calm s (putAgent a2 (putAgent a1 s))" if "core a1 \<in> cores s" "core a2 = core a1" for a1 a2 s
    using that cores_put [of a2 "putAgent a1 s"] cores_put_same [of a1 s] tame_trans [OF tame_put tame_put]
    by (auto simp: calm_def)
  show "start_agent cfg t k c st = (r, st') \<Longrightarrow> ?thesis"
    unfolding start_agent_def
    by (erule owned_calm) (auto simp: cp_put_def Let_def core_def dest: schedule_core intro!: two split: prod.splits)
qed

lemma stop_calm: "stop_agent cfg t k c st = (r, st') \<Longrightarrow> calm (cp_store st) (cp_store st')"
  unfolding stop_agent_def by (erule owned_calm) (auto simp: cp_put_def Let_def core_def intro!: calm_put)

lemma delete_calm: "calm s (deleteAgent k s)"
  by (simp add: calm_def cores_delete tame_delete)

lemma delete_begin_calm: "delete_begin cfg t k c st = (r, st') \<Longrightarrow> calm (cp_store st) (cp_store st')"
  unfolding delete_begin_def by (erule owned_calm) (auto simp: cp_delete_def delete_calm split: if_splits)

lemma withdraw_calm: "withdraw_begin cfg t k c st = (r, st') \<Longrightarrow> calm (cp_store st) (cp_store st')"
  unfolding withdraw_begin_def by (erule owned_calm) (auto split: sum.splits)

lemma export_calm: "export_begin cfg t k c st = (r, st') \<Longrightarrow> calm (cp_store st) (cp_store st')"
  unfolding export_begin_def by (erule owned_calm) auto

lemma show_calm: "show_agent cfg t k c st = (r, st') \<Longrightarrow> calm (cp_store st) (cp_store st')"
  unfolding show_agent_def by (erule owned_calm) auto

lemma list_calm: "list_agents cfg t c st = (r, st') \<Longrightarrow> calm (cp_store st) (cp_store st')"
  unfolding list_agents_def by (auto dest!: bindS_out authOwner_store simp: Let_def)

lemma logs_calm: "agent_logs cfg t k c st = (r, st') \<Longrightarrow> calm (cp_store st) (cp_store st')"
  unfolding agent_logs_def by (auto dest!: bindS_out authOwner_store)

lemma sweep_calm: "cp_sweep cfg t st = (r, st') \<Longrightarrow> calm (cp_store st) (cp_store st')"
  using sweep_cores sweep_tame by (fastforce simp: cp_sweep_def calm_def split: prod.splits)

section \<open>A stored bundle belongs to its agent and owner\<close>

definition sound_core :: "crypto \<Rightarrow> string \<times> jsval \<times> jsval \<Rightarrow> bool" where
  "sound_core C x = (case x of (i, spec, owner) \<Rightarrow> assertBundleOwnerBinding C spec owner i = Inr ())"

fun waiting_agent :: "waiting \<Rightarrow> cagent" where
  "waiting_agent (W_Create a) = a"
| "waiting_agent (W_Delete a) = a"
| "waiting_agent (W_Owner a) = a"

definition all_cores :: "cp_sys \<Rightarrow> (string \<times> jsval \<times> jsval) set" where
  "all_cores s = cores (cs_store s) \<union> (core \<circ> waiting_agent) ` set (cs_waiting s)"

definition bound_inv :: "crypto \<Rightarrow> cp_sys \<Rightarrow> bool" where
  "bound_inv C s = (\<forall>x \<in> all_cores s. sound_core C x)"

lemma build_sound: "build_agent cfg t rid name owner body s = Inr a \<Longrightarrow> sound_core (cc_crypto cfg) (core a)"
  by (auto simp: build_agent_def bindE_Inr_iff Let_def sound_core_def core_def new_cagent_def)

lemma create_begin_cases:
  assumes "create_begin cfg t rid c st = (r, st')"
  shows "(cp_store st' = cp_store st \<and> (\<forall>call a. r = Inr (Await call a) \<longrightarrow> sound_core (cc_crypto cfg) (core a))) \<or>
    (\<exists>a. sound_core (cc_crypto cfg) (core a) \<and> cp_store st' = putAgent a (cp_store st) \<and> (\<forall>call b. r \<noteq> Inr (Await call b)))"
proof (cases "jget (cl_body c) ''name''")
  case (Inl e)
  then show ?thesis using assms by (auto simp: create_begin_def)
next
  case (Inr name)
  show ?thesis
  proof (cases "truthy name")
    case False
    then show ?thesis using assms Inr by (auto simp: create_begin_def)
  next
    case True
    show ?thesis using assms Inr True unfolding create_begin_def Let_def
      by (auto dest!: bindS_out authOwner_store rateLimit_store dest: build_sound simp: cp_put_def split: sum.splits if_splits)
         (metis build_sound)+
  qed
qed

lemma owner_begin_cases:
  assumes "owner_begin cfg t k c st = (r, st')"
  shows "(cp_store st' = cp_store st \<and> (\<forall>call a. r \<noteq> Inr (Await call a))) \<or>
    (\<exists>call a. r = Inr (Await call a) \<and> cp_store st' = putAgent a (cp_store st) \<and> sound_core (cc_crypto cfg) (core a))"
  using assms unfolding owner_begin_def
proof (cases rule: owned_cases)
  case (admitted a owner st1)
  then show ?thesis
    by (auto simp: bindE_Inr_iff Let_def cp_put_def sound_core_def core_def split: sum.splits)
qed simp

lemma delete_begin_await:
  assumes "delete_begin cfg t k c st = (Inr (Await sc a), st')"
  shows "core a \<in> cores (cp_store st)"
  using assms unfolding delete_begin_def
  by (cases rule: owned_cases) (auto split: if_splits intro: cores_get)

lemma resume_cores: "cores (cp_store (resume r own w st)) \<subseteq> insert (core (waiting_agent w)) (cores (cp_store st))"
proof (cases w)
  case (W_Create a)
  have "core (a\<lparr> ca_address := x, ca_paper := y \<rparr>) = core a" for x y by (simp add: core_def)
  then show ?thesis using W_Create cores_put
    by (fastforce simp: resume_def create_finish_def cp_put_def Let_def split: sum.splits prod.splits)
next
  case (W_Delete a)
  then show ?thesis using cores_delete by (fastforce simp: resume_def delete_finish_def cp_delete_def split: sum.splits)
next
  case (W_Owner a)
  define b where "b = (case getAgent (ca_id a) (cp_store st) of Some b \<Rightarrow> if own then a else b | None \<Rightarrow> a)"
  have "core b \<in> insert (core a) (cores (cp_store st))" by (auto simp: b_def cores_get split: option.split)
  then show ?thesis using cores_put [of b "cp_store st"]
    by (auto simp: resume_def W_Owner owner_finish_def cp_put_def b_def [symmetric] split: sum.splits)
qed

lemma resume_tame: "tame (cp_store st) (cp_store (resume r own w st))"
  by (auto simp: resume_def create_finish_def delete_finish_def owner_finish_def cp_put_def cp_delete_def Let_def tame_put tame_delete
      split: waiting.splits sum.splits)

lemma suspend_cores:
  assumes "suspend w (r, st') s = s'" "\<And>a. waiting_agent (w a) = a"
    and "cores (cp_store st') \<subseteq> all_cores s \<union> {x. sound_core C x}"
    and "\<And>sc a. r = Inr (Await sc a) \<Longrightarrow> core a \<in> all_cores s \<or> sound_core C (core a)"
  shows "all_cores s' \<subseteq> all_cores s \<union> {x. sound_core C x}"
  using assms by (auto simp: suspend_def all_cores_def cs_store_def split: sum.splits awaiting.splits)

lemma calm_step: "calm (cs_store s) (cp_store st') \<Longrightarrow> all_cores (s\<lparr> cs_cp := st' \<rparr>) \<subseteq> all_cores s"
  by (auto simp: calm_def all_cores_def cs_store_def)

lemma trust_cores: "trust_node cfg k c st = (r, st') \<Longrightarrow> cores (cp_store st') = cores (cp_store st)"
  by (auto simp: trust_node_def Let_def split: if_splits sum.splits option.splits)

lemma register_cores: "register cfg t c st = (r, st') \<Longrightarrow> cores (cp_store st') = cores (cp_store st)"
  by (rule cores_same_agents)
     (auto simp: register_def Let_def upsertNode_def dest!: bindS_out authNode_store split: if_splits sum.splits)

lemma cores_put_sound: "sound_core C (core a) \<Longrightarrow> cores (putAgent a s) \<subseteq> cores s \<union> {x. sound_core C x}"
  using cores_put [of a s] by blast

lemma step_cores: "all_cores (cp_step cfg s op) \<subseteq> all_cores s \<union> {x. sound_core (cc_crypto cfg) x}"
proof (cases op)
  case (Op_Register t c)
  obtain r st' where "register cfg t c (cs_cp s) = (r, st')" by force
  with register_cores [OF this] show ?thesis by (simp add: Op_Register all_cores_def cs_store_def)
next
  case (Op_Heartbeat net t c)
  obtain r st' where "heartbeat cfg net t c (cs_cp s) = (r, st')" by force
  with calm_step [of s st'] heartbeat_calm [OF this] show ?thesis by (auto simp: Op_Heartbeat cs_store_def)
next
  case (Op_Report t k c)
  obtain r st' where "report cfg t k c (cs_cp s) = (r, st')" by force
  with calm_step [of s st'] report_calm [OF this] show ?thesis by (auto simp: Op_Report cs_store_def)
next
  case (Op_Create t rid c)
  obtain r st' where b: "create_begin cfg t rid c (cs_cp s) = (r, st')" by force
  have c: "cores (cp_store st') \<subseteq> cores (cp_store (cs_cp s)) \<union> {x. sound_core (cc_crypto cfg) x}"
    using create_begin_cases [OF b] by (elim disjE exE conjE) (simp_all add: cores_put_sound)
  have "all_cores (suspend W_Create (r, st') s) \<subseteq> all_cores s \<union> {x. sound_core (cc_crypto cfg) x}"
    by (rule suspend_cores [OF refl]) (use create_begin_cases [OF b] c in \<open>auto simp: all_cores_def cs_store_def\<close>)
  then show ?thesis by (simp add: Op_Create b)
next
  case (Op_Start t k c)
  obtain r st' where "start_agent cfg t k c (cs_cp s) = (r, st')" by force
  with calm_step [of s st'] start_calm [OF this] show ?thesis by (auto simp: Op_Start cs_store_def)
next
  case (Op_Stop t k c)
  obtain r st' where "stop_agent cfg t k c (cs_cp s) = (r, st')" by force
  with calm_step [of s st'] stop_calm [OF this] show ?thesis by (auto simp: Op_Stop cs_store_def)
next
  case (Op_Delete t k c)
  obtain r st' where b: "delete_begin cfg t k c (cs_cp s) = (r, st')" by force
  have "all_cores (suspend W_Delete (r, st') s) \<subseteq> all_cores s \<union> {x. sound_core (cc_crypto cfg) x}"
    by (rule suspend_cores [OF refl])
       (use delete_begin_calm [OF b] delete_begin_await [of cfg t k c "cs_cp s"] b in \<open>auto simp: all_cores_def cs_store_def calm_def\<close>)
  then show ?thesis by (simp add: Op_Delete b)
next
  case (Op_Owner t k c)
  obtain r st' where b: "owner_begin cfg t k c (cs_cp s) = (r, st')" by force
  have c: "cores (cp_store st') \<subseteq> cores (cp_store (cs_cp s)) \<union> {x. sound_core (cc_crypto cfg) x}"
    using owner_begin_cases [OF b] by (elim disjE exE conjE) (simp_all add: cores_put_sound)
  have "all_cores (suspend W_Owner (r, st') s) \<subseteq> all_cores s \<union> {x. sound_core (cc_crypto cfg) x}"
    by (rule suspend_cores [OF refl]) (use owner_begin_cases [OF b] c in \<open>auto simp: all_cores_def cs_store_def\<close>)
  then show ?thesis by (simp add: Op_Owner b)
next
  case (Op_Withdraw t k c)
  obtain r st' where "withdraw_begin cfg t k c (cs_cp s) = (r, st')" by force
  with calm_step [of s st'] withdraw_calm [OF this] show ?thesis by (auto simp: Op_Withdraw cs_store_def)
next
  case (Op_Export t k c)
  obtain r st' where "export_begin cfg t k c (cs_cp s) = (r, st')" by force
  with calm_step [of s st'] export_calm [OF this] show ?thesis by (auto simp: Op_Export cs_store_def)
next
  case (Op_Show t k c)
  obtain r st' where "show_agent cfg t k c (cs_cp s) = (r, st')" by force
  with calm_step [of s st'] show_calm [OF this] show ?thesis by (auto simp: Op_Show cs_store_def)
next
  case (Op_List t c)
  obtain r st' where "list_agents cfg t c (cs_cp s) = (r, st')" by force
  with calm_step [of s st'] list_calm [OF this] show ?thesis by (auto simp: Op_List cs_store_def)
next
  case (Op_Logs t k c)
  obtain r st' where "agent_logs cfg t k c (cs_cp s) = (r, st')" by force
  with calm_step [of s st'] logs_calm [OF this] show ?thesis by (auto simp: Op_Logs cs_store_def)
next
  case (Op_Trust k c)
  obtain r st' where "trust_node cfg k c (cs_cp s) = (r, st')" by force
  with trust_cores [OF this] show ?thesis by (simp add: Op_Trust all_cores_def cs_store_def)
next
  case (Op_Sweep t)
  obtain r st' where "cp_sweep cfg t (cs_cp s) = (r, st')" by force
  with calm_step [of s st'] sweep_calm [OF this] show ?thesis by (auto simp: Op_Sweep cs_store_def)
next
  case (Op_Answer i r own)
  have w: "set (take i (cs_waiting s) @ drop (Suc i) (cs_waiting s)) \<subseteq> set (cs_waiting s)"
    using set_take_subset set_drop_subset by fastforce
  show ?thesis
  proof (cases "i < length (cs_waiting s)")
    case True
    then have "core (waiting_agent (cs_waiting s ! i)) \<in> all_cores s" by (auto simp: all_cores_def)
    with resume_cores [of r own "cs_waiting s ! i" "cs_cp s"] w True show ?thesis
      by (auto simp: Op_Answer all_cores_def cs_store_def)
  qed (simp add: Op_Answer)
qed

interpretation binding: invariant_system "cp_step cfg" "\<lambda>_. True" "bound_inv (cc_crypto cfg)" for cfg
  by unfold_locales (use step_cores in \<open>unfold bound_inv_def, blast\<close>)

lemma stored_sound:
  assumes "a \<in> set (map_values (st_agents (cs_store (run_ops (cp_step cfg) ops \<lparr> cs_cp = empty_cp empty_state, cs_waiting = [] \<rparr>))))"
  shows "assertBundleOwnerBinding (cc_crypto cfg) (ca_spec a) (ca_owner a) (ca_id a) = Inr ()"
proof -
  let ?s = "run_ops (cp_step cfg) ops \<lparr> cs_cp = empty_cp empty_state, cs_waiting = [] \<rparr>"
  have "bound_inv (cc_crypto cfg) \<lparr> cs_cp = empty_cp empty_state, cs_waiting = [] \<rparr>"
    by (simp add: bound_inv_def all_cores_def cs_store_def empty_cp_def empty_state_def cores_def)
  then have "bound_inv (cc_crypto cfg) ?s" by (rule binding.run_inv) simp
  moreover have "core a \<in> all_cores ?s" using assms by (simp add: all_cores_def cores_def)
  ultimately show ?thesis by (auto simp: bound_inv_def sound_core_def core_def)
qed

lemma stored_binding:
  assumes "getAgent k (cs_store (run_ops (cp_step cfg) ops \<lparr> cs_cp = empty_cp empty_state, cs_waiting = [] \<rparr>)) = Some a"
  shows "assertBundleOwnerBinding (cc_crypto cfg) (ca_spec a) (ca_owner a) (ca_id a) = Inr ()"
  by (rule stored_sound [where ops = ops]) (use assms in \<open>auto simp: getAgent_def dest: map_values_get\<close>)

text \<open>C9. Bundles stay bound: whatever requests arrive, in whatever order and however the signer answers those that wait for
  it, an agent of the store that runs a bundle has a manifest that verifies, published by the agent's
  owner, bound to the agent's id and to the digest the nodes are told to run.\<close>

theorem stored_bundles_bound:
  assumes "getAgent k (cs_store (run_ops (cp_step cfg) ops \<lparr> cs_cp = empty_cp empty_state, cs_waiting = [] \<rparr>)) = Some a"
    and "truthy (jopt (ca_spec a) ''bundle'')"
  shows "let b = jopt (ca_spec a) ''bundle''; m = jopt b ''manifest''
    in verifyManifest (cc_crypto cfg) m \<and> truthy (ca_owner a) \<and> strict_eq (jopt m ''publisherPubkey'') (ca_owner a) \<and>
      (ca_id a \<noteq> [] \<longrightarrow> strict_eq (jopt m ''agentId'') (JStr (ca_id a))) \<and> strict_eq (jopt m ''sha256'') (jopt b ''sha256'')"
  using stored_binding [OF assms(1)] assms(2) by (auto simp: assertBundleOwnerBinding_def Let_def split: if_splits)

definition open_cfg :: cp_cfg where
  "open_cfg = toy_cp_cfg\<lparr> cc_KEY := [], cc_SIGNER_URL := [], cc_OWNER_RATE_PER_MIN := Fin 0 \<rparr>"

definition plain_call :: "jsval \<Rightarrow> call" where
  "plain_call body = \<lparr> cl_req = \<lparr> rq_method = ''POST'', rq_path = ''/'', rq_body = body \<rparr>, cl_headers = [], cl_query = JObj [] \<rparr>"

lemma plain_auth: "cc_REQUIRE_OWNER_AUTH cfg = False \<Longrightarrow> cc_KEY cfg = [] \<Longrightarrow> authOwner cfg t (plain_call body) st = (Inr None, st)"
  by (simp add: authOwner_def requireOwner_def plain_call_def verifyOwnerRequest_def header_def cp_auth_def Let_def)

definition create_body :: "jsval \<Rightarrow> jsval \<Rightarrow> jsval" where
  "create_body owner m = JObj [(''name'', JStr ''bot''), (''owner'', owner), (''policy'', sample_policy),
     (''spec'', JObj [(''bundle'', JObj [(''sha256'', jopt m ''sha256''), (''manifest'', m)])])]"

lemma create_body_get: "jopt (create_body owner m) ''owner'' = owner" "jopt (create_body owner m) ''policy'' = sample_policy"
  "jopt (create_body owner m) ''verified'' = JUndef" "jget (create_body owner m) ''name'' = Inr (JStr ''bot'')"
  "jopt (create_body owner m) ''spec'' = JObj [(''bundle'', JObj [(''sha256'', jopt m ''sha256''), (''manifest'', m)])]"
  by (simp_all add: create_body_def jopt_def inherited_def object_members_def)

lemma spec_get: "jopt (JObj [(''bundle'', b)]) ''bundle'' = b" "jopt (JObj [(''sha256'', x), (''manifest'', m)]) ''sha256'' = x"
  "jopt (JObj [(''sha256'', x), (''manifest'', m)]) ''manifest'' = m" "jopt (JObj [(''sha256'', x), (''manifest'', m)]) ''runtime'' = JUndef"
  by (simp_all add: jopt_def inherited_def object_members_def)

lemma sample_id: "agent_id_ok ''a1''"
  by (simp add: agent_id_ok_def is_digit_def is_lower_def is_upper_def less_eq_char_def)

text \<open>The control plane hosting the sample bundle.\<close>

lemma sample_hosted:
  "\<exists>m a ops. createBundle toy_crypto (\<lambda>e. True) packed sample_bundle (kp_priv (toy_keypair 7)) (JStr (kp_address (toy_keypair 7))) =
       Inr (packed, sha256hex_bytes toy_crypto packed, m) \<and>
     run_ops (cp_step open_cfg) ops \<lparr> cs_cp = empty_cp empty_state, cs_waiting = [] \<rparr> =
       \<lparr> cs_cp = cp_put a (empty_cp empty_state), cs_waiting = [] \<rparr> \<and>
     a = new_cagent 5 ''a1'' (JStr ''bot'') (JStr (kp_address (toy_keypair 7)))
       (JObj [(''bundle'', JObj [(''sha256'', jopt m ''sha256''), (''manifest'', m)])]) sample_normal None"
proof -
  obtain m where cr: "createBundle toy_crypto (\<lambda>e. True) packed sample_bundle (kp_priv (toy_keypair 7)) (JStr (kp_address (toy_keypair 7))) =
       Inr (packed, sha256hex_bytes toy_crypto packed, m)"
    using sample_created by blast
  note m = sample_manifest [OF cr]
  define owner where "owner = JStr (kp_address (toy_keypair 7))"
  have o: "truthy owner" "strict_eq (jopt m ''publisherPubkey'') owner" using m by (simp_all add: owner_def)
  have cfg: "cc_crypto open_cfg = toy_crypto" "cc_KEY open_cfg = []" "cc_SIGNER_URL open_cfg = []" "\<not> cc_REQUIRE_OWNER_AUTH open_cfg"
    "\<not> jtruthy (cc_OWNER_RATE_PER_MIN open_cfg)" by (simp_all add: open_cfg_def toy_cp_cfg_def jtruthy_def)
  let ?spec = "JObj [(''bundle'', JObj [(''sha256'', jopt m ''sha256''), (''manifest'', m)])]"
  define a where "a = new_cagent 5 ''a1'' (JStr ''bot'') owner ?spec sample_normal None"
  have m': "truthy m" "verifyManifest toy_crypto m" "jopt m ''agentId'' = JStr ''a1''" "jopt m ''runtime'' = JStr ''node''"
    "jopt m ''sha256'' = JStr (sha256hex_bytes toy_crypto packed)" using m sample_agent by (simp_all add: jopt_def)
  have bind: "assertBundleOwnerBinding toy_crypto ?spec owner ''a1'' = Inr ()"
    using o m' by (simp add: assertBundleOwnerBinding_def Let_def spec_get str_or_def)
  have build: "build_agent open_cfg 5 ''r'' (JStr ''bot'') owner (create_body owner m) empty_state = Inr a"
    using bind by (simp add: build_agent_def create_body_get default_obj_def choose_id_def spec_get m' sample_id sample_policy_normal
      cfg a_def getAgent_def empty_state_def Let_def)
  have "cp_step open_cfg \<lparr> cs_cp = empty_cp empty_state, cs_waiting = [] \<rparr> (Op_Create 5 ''r'' (plain_call (create_body owner m))) =
      \<lparr> cs_cp = cp_put a (empty_cp empty_state), cs_waiting = [] \<rparr>"
    using build o(1) cfg plain_auth [of open_cfg 5 "create_body owner m" "empty_cp empty_state"]
    by (simp add: create_begin_def create_body_get rateLimitOwner_def suspend_def empty_cp_def Let_def plain_call_def)
  then have "run_ops (cp_step open_cfg) [Op_Create 5 ''r'' (plain_call (create_body owner m))]
      \<lparr> cs_cp = empty_cp empty_state, cs_waiting = [] \<rparr> = \<lparr> cs_cp = cp_put a (empty_cp empty_state), cs_waiting = [] \<rparr>"
    by (simp add: run_ops_def)
  then show ?thesis using cr by (fastforce simp: a_def owner_def)
qed

theorem stored_bundles_bound_witness:
  "\<exists>m a ops. getAgent ''a1'' (cs_store (run_ops (cp_step open_cfg) ops \<lparr> cs_cp = empty_cp empty_state, cs_waiting = [] \<rparr>)) = Some a \<and>
     jopt (jopt (ca_spec a) ''bundle'') ''manifest'' = m \<and> verifyManifest toy_crypto m \<and>
     strict_eq (jopt m ''publisherPubkey'') (ca_owner a) \<and> ca_owner a = JStr (kp_address (toy_keypair 7))"
proof -
  obtain m a ops where r: "run_ops (cp_step open_cfg) ops \<lparr> cs_cp = empty_cp empty_state, cs_waiting = [] \<rparr> =
        \<lparr> cs_cp = cp_put a (empty_cp empty_state), cs_waiting = [] \<rparr>"
      and n: "a = new_cagent 5 ''a1'' (JStr ''bot'') (JStr (kp_address (toy_keypair 7)))
        (JObj [(''bundle'', JObj [(''sha256'', jopt m ''sha256''), (''manifest'', m)])]) sample_normal None"
    using sample_hosted [of "[1, 2]"] by (elim exE conjE) (rule that)
  have "getAgent ''a1'' (cs_store (run_ops (cp_step open_cfg) ops \<lparr> cs_cp = empty_cp empty_state, cs_waiting = [] \<rparr>)) = Some a"
    unfolding r by (simp add: cs_store_def cp_put_def getAgent_put n new_cagent_def)
  moreover have "ca_spec a = JObj [(''bundle'', JObj [(''sha256'', jopt m ''sha256''), (''manifest'', m)])]" "ca_owner a = JStr (kp_address (toy_keypair 7))"
    by (simp_all add: n new_cagent_def)
  ultimately have a: "getAgent ''a1'' (cs_store (run_ops (cp_step open_cfg) ops \<lparr> cs_cp = empty_cp empty_state, cs_waiting = [] \<rparr>)) = Some a"
      "ca_spec a = JObj [(''bundle'', JObj [(''sha256'', jopt m ''sha256''), (''manifest'', m)])]" "ca_owner a = JStr (kp_address (toy_keypair 7))" .
  have "cc_crypto open_cfg = toy_crypto" by (simp add: open_cfg_def toy_cp_cfg_def)
  then show ?thesis using stored_bundles_bound [OF a(1)] a by (intro exI [of _ m] exI [of _ a] exI) (auto simp: spec_get Let_def)
qed

section \<open>Nodes keep their key, and trust is the operator's\<close>

definition pinned :: "jsval \<Rightarrow> string \<Rightarrow> store \<Rightarrow> bool" where
  "pinned j k s = (k \<noteq> [] \<and> (\<exists>n. getNode j s = Some n \<and> nd_pubkey n = Some k))"

lemma register_effect:
  assumes "register cfg t c st = (r, st')"
  shows "cp_store st' = cp_store st \<or> (\<exists>nodeId authed g. assertNodeIdentity nodeId authed (cp_store st) = Inr () \<and> rg_id g = nodeId \<and>
    rg_pubkey g = (case authed of Some k \<Rightarrow> Some k | None \<Rightarrow> (case getNode nodeId (cp_store st) of Some n \<Rightarrow> nd_pubkey n | None \<Rightarrow> None)) \<and>
    cp_store st' = upsertNode g (cp_store st))"
proof (cases "jget (cl_body c) ''nodeId''")
  case (Inl e)
  then show ?thesis using assms by (simp add: register_def)
next
  case (Inr nodeId)
  show ?thesis
  proof (cases "truthy nodeId")
    case False
    then show ?thesis using assms Inr by (simp add: register_def)
  next
    case True
    obtain r1 st1 where au: "authNode cfg t c st = (r1, st1)" by force
    note same = authNode_store [OF au]
    show ?thesis
    proof (cases r1)
      case (Inl e)
      then show ?thesis using assms \<open>jget _ _ = Inr nodeId\<close> True au same by (simp add: register_def)
    next
      case (Inr authed)
      show ?thesis
      proof (cases "assertNodeIdentity nodeId authed (cp_store st)")
        case (Inl e)
        then show ?thesis using assms \<open>jget _ _ = Inr nodeId\<close> True au same \<open>r1 = Inr authed\<close> by (simp add: register_def)
      next
        case (Inr u)
        let ?old = "getNode nodeId (cp_store st)"
        let ?g = "\<lparr> rg_id = nodeId,
          rg_pubkey = (case authed of Some k \<Rightarrow> Some k | None \<Rightarrow> (case ?old of Some n \<Rightarrow> nd_pubkey n | None \<Rightarrow> None)),
          rg_caps = default_obj (jopt (cl_body c) ''caps''), rg_budget = default_obj (jopt (cl_body c) ''budget''), rg_lastSeen = t,
          rg_registeredAt = (case ?old of Some n \<Rightarrow> if nd_registeredAt n \<noteq> 0 then nd_registeredAt n else t | None \<Rightarrow> t) \<rparr>"
        have "cp_store st' = upsertNode ?g (cp_store st)"
          using assms Inr \<open>jget _ _ = Inr nodeId\<close> True au same \<open>r1 = Inr authed\<close> by (auto simp: register_def Let_def)
        then show ?thesis using Inr by (intro disjI2 exI [of _ nodeId] exI [of _ authed] exI [of _ ?g]) simp
      qed
    qed
  qed
qed

lemma upsert_get: "getNode j (upsertNode g s) = (if j = rg_id g then Some (case getNode j s of
      Some n \<Rightarrow> n\<lparr> nd_id := j, nd_pubkey := rg_pubkey g, nd_caps := rg_caps g, nd_budget := rg_budget g, nd_up := True,
        nd_lastSeen := rg_lastSeen g, nd_registeredAt := rg_registeredAt g \<rparr>
    | None \<Rightarrow> \<lparr> nd_id = j, nd_pubkey = rg_pubkey g, nd_caps = rg_caps g, nd_budget = rg_budget g, nd_up = True,
        nd_lastSeen = rg_lastSeen g, nd_registeredAt = rg_registeredAt g, nd_usage = JUndef, nd_available = None, nd_trusted = False \<rparr>)
    else getNode j s)"
  by (simp add: upsertNode_def getNode_def map_get_set Let_def split: option.split)

lemma upsert_ok: "store_ok s \<Longrightarrow> store_ok (upsertNode g s)"
  using set_map_set [of "st_nodes s"] by (auto simp: store_ok_def upsertNode_def Let_def)

lemma register_nodes:
  assumes "register cfg t c st = (r, st')" "store_ok (cp_store st)"
  shows "store_ok (cp_store st') \<and> (pinned j k (cp_store st) \<longrightarrow> pinned j k (cp_store st')) \<and>
    (\<forall>n'. getNode j (cp_store st') = Some n' \<and> nd_trusted n' \<longrightarrow> (\<exists>n. getNode j (cp_store st) = Some n \<and> nd_trusted n))"
  using register_effect [OF assms(1)]
proof (elim disjE exE conjE)
  fix nodeId authed g
  assume g: "assertNodeIdentity nodeId authed (cp_store st) = Inr ()" "rg_id g = nodeId"
    "rg_pubkey g = (case authed of Some k \<Rightarrow> Some k | None \<Rightarrow> (case getNode nodeId (cp_store st) of Some n \<Rightarrow> nd_pubkey n | None \<Rightarrow> None))"
    "cp_store st' = upsertNode g (cp_store st)"
  have "pinned j k (cp_store st')" if p: "pinned j k (cp_store st)"
  proof (cases "j = nodeId")
    case True
    obtain n where n: "getNode nodeId (cp_store st) = Some n" "nd_pubkey n = Some k" "k \<noteq> []" using p True by (auto simp: pinned_def)
    then have "rg_pubkey g = Some k" using g(1,3) by (auto simp: assertNodeIdentity_def split: option.splits if_splits)
    then show ?thesis using n True g(2,4) by (simp add: pinned_def upsert_get)
  next
    case False
    then show ?thesis using p g(2,4) by (simp add: pinned_def upsert_get)
  qed
  then show ?thesis using upsert_ok [OF assms(2)] g(2,4) by (auto simp: upsert_get split: option.splits if_splits)
qed (use assms in auto)

lemma trust_nodes:
  assumes "trust_node cfg l c st = (r, st')" "store_ok (cp_store st)"
  shows "store_ok (cp_store st') \<and> (pinned j k (cp_store st) \<longrightarrow> pinned j k (cp_store st')) \<and>
    ((\<exists>n'. getNode j (cp_store st') = Some n' \<and> nd_trusted n') \<longrightarrow> (\<exists>n. getNode j (cp_store st) = Some n \<and> nd_trusted n) \<or>
      (j = l \<and> cc_KEY cfg \<noteq> [] \<and> cp_auth cfg c = Inr ()))"
proof (cases "cp_store st' = cp_store st")
  case False
  obtain b where b: "cp_store st' = beat_node l (\<lambda>n. n\<lparr> nd_trusted := b \<rparr>) (cp_store st)" "cc_KEY cfg \<noteq> []" "cp_auth cfg c = Inr ()"
    using assms(1) False by (auto simp: trust_node_def Let_def split: if_splits sum.splits option.splits)
  show ?thesis
  proof (cases "getNode l (cp_store st)")
    case None
    then show ?thesis using b False by (simp add: beat_node_def)
  next
    case (Some n)
    have "store_ok (cp_store st')"
      using assms(2) store_node_id [OF assms(2) Some] set_map_set [of "st_nodes (cp_store st)"] Some
      by (auto simp: b(1) beat_node_def store_ok_def)
    then show ?thesis using b(2,3) Some by (auto simp: b(1) beat_node_def pinned_def getNode_def map_get_set)
  qed
qed (use assms in auto)

lemma tame_nodes:
  assumes "tame s s'" "store_ok s"
  shows "store_ok s' \<and> (pinned j k s \<longrightarrow> pinned j k s') \<and>
    ((\<exists>n'. getNode j s' = Some n' \<and> nd_trusted n') \<longrightarrow> (\<exists>n. getNode j s = Some n \<and> nd_trusted n))"
proof -
  have "ident s' j = ident s j" "store_ok s'" using assms by (auto simp: tame_def)
  then show ?thesis by (cases "getNode j s"; cases "getNode j s'") (auto simp: ident_def pinned_def)
qed

lemma suspend_store: "cs_store (suspend w (r, st') s) = cp_store st'"
  by (auto simp: suspend_def cs_store_def split: sum.split awaiting.split)

lemma create_tame: "create_begin cfg t rid c st = (r, st') \<Longrightarrow> tame (cp_store st) (cp_store st')"
  using create_begin_cases by (metis tame_put tame_refl)

lemma owner_tame: "owner_begin cfg t k c st = (r, st') \<Longrightarrow> tame (cp_store st) (cp_store st')"
  using owner_begin_cases by (metis tame_put tame_refl)

lemma step_tame:
  assumes "\<And>t c. op \<noteq> Op_Register t c" "\<And>k c. op \<noteq> Op_Trust k c"
  shows "tame (cs_store s) (cs_store (cp_step cfg s op))"
proof -
  have via: "tame (cs_store s) (cp_store (snd p))" if "\<And>r st'. p = (r, st') \<Longrightarrow> calm (cp_store (cs_cp s)) (cp_store st')" for p :: "'x \<times> cp"
    using that [of "fst p" "snd p"] by (simp add: calm_def cs_store_def)
  have susp: "tame (cs_store s) (cs_store (suspend w p s))" if "\<And>r st'. p = (r, st') \<Longrightarrow> tame (cp_store (cs_cp s)) (cp_store st')" for w p
    using that [of "fst p" "snd p"] suspend_store [of w "fst p" "snd p" s] by (simp add: cs_store_def)
  have put: "cs_store (s\<lparr> cs_cp := st \<rparr>) = cp_store st" for st by (simp add: cs_store_def)
  show ?thesis
  proof (cases op)
    case (Op_Create t rid c)
    show ?thesis unfolding Op_Create cp_step.simps by (rule susp) (rule create_tame)
  next
    case (Op_Owner t k c)
    show ?thesis unfolding Op_Owner cp_step.simps by (rule susp) (rule owner_tame)
  next
    case (Op_Delete t k c)
    show ?thesis unfolding Op_Delete cp_step.simps by (rule susp) (use delete_begin_calm in \<open>auto simp: calm_def\<close>)
  next
    case (Op_Answer i r own)
    then show ?thesis using resume_tame [of "cs_cp s" r own "cs_waiting s ! i"] by (simp add: cs_store_def)
  next
    case (Op_Heartbeat net t c)
    show ?thesis unfolding Op_Heartbeat cp_step.simps put by (rule via) (rule heartbeat_calm)
  next
    case (Op_Report t k c)
    show ?thesis unfolding Op_Report cp_step.simps put by (rule via) (rule report_calm)
  next
    case (Op_Start t k c)
    show ?thesis unfolding Op_Start cp_step.simps put by (rule via) (rule start_calm)
  next
    case (Op_Stop t k c)
    show ?thesis unfolding Op_Stop cp_step.simps put by (rule via) (rule stop_calm)
  next
    case (Op_Withdraw t k c)
    show ?thesis unfolding Op_Withdraw cp_step.simps put by (rule via) (rule withdraw_calm)
  next
    case (Op_Export t k c)
    show ?thesis unfolding Op_Export cp_step.simps put by (rule via) (rule export_calm)
  next
    case (Op_Show t k c)
    show ?thesis unfolding Op_Show cp_step.simps put by (rule via) (rule show_calm)
  next
    case (Op_List t c)
    show ?thesis unfolding Op_List cp_step.simps put by (rule via) (rule list_calm)
  next
    case (Op_Logs t k c)
    show ?thesis unfolding Op_Logs cp_step.simps put by (rule via) (rule logs_calm)
  next
    case (Op_Sweep t)
    show ?thesis unfolding Op_Sweep cp_step.simps put by (rule via) (rule sweep_calm)
  qed (use assms in auto)
qed

lemma step_nodes:
  assumes "store_ok (cs_store s)"
  shows "store_ok (cs_store (cp_step cfg s op)) \<and> (pinned j k (cs_store s) \<longrightarrow> pinned j k (cs_store (cp_step cfg s op))) \<and>
    ((\<exists>n'. getNode j (cs_store (cp_step cfg s op)) = Some n' \<and> nd_trusted n') \<longrightarrow> (\<exists>n. getNode j (cs_store s) = Some n \<and> nd_trusted n) \<or>
      (\<exists>c. op = Op_Trust j c \<and> cc_KEY cfg \<noteq> [] \<and> cp_auth cfg c = Inr ()))"
proof (cases op)
  case (Op_Register t c)
  obtain r st' where "register cfg t c (cs_cp s) = (r, st')" by force
  from register_nodes [OF this, of j k] assms this show ?thesis by (auto simp: Op_Register cs_store_def)
next
  case (Op_Trust l c)
  obtain r st' where "trust_node cfg l c (cs_cp s) = (r, st')" by force
  from trust_nodes [OF this, of j k] assms this show ?thesis by (auto simp: Op_Trust cs_store_def)
qed (use tame_nodes [OF step_tame assms, of op cfg j k] in auto)

interpretation nodes: invariant_system "cp_step cfg" "\<lambda>_. True" "\<lambda>s. store_ok (cs_store s) \<and> pinned j k (cs_store s)" for cfg j k
  by unfold_locales (use step_nodes in blast)

interpretation stores: invariant_system "cp_step cfg" "\<lambda>_. True" "\<lambda>s. store_ok (cs_store s)" for cfg
  by unfold_locales (use step_nodes in blast)

definition cp_init :: cp_sys where
  "cp_init = \<lparr> cs_cp = empty_cp empty_state, cs_waiting = [] \<rparr>"

lemma cp_init_ok: "store_ok (cs_store cp_init)"
  by (simp add: cp_init_def cs_store_def empty_cp_def empty_state_def store_ok_def)

text \<open>A request that carries a verified signature passes the gate of nodes with its key, and the store stays as it was.\<close>

lemma signed_node:
  assumes "verifyNodeRequest (cc_crypto cfg) (Fin 30000) t t (cl_req c) (cl_headers c) (cp_nodeNonces st) = (Inr (Some k'), ns)"
  shows "authNode cfg t c st = (Inr (Some k'), st\<lparr> cp_nodeNonces := ns \<rparr>)"
  using assms by (simp add: authNode_def requireNode_def)

lemma other_key_refused:
  assumes "pinned j k (cp_store st)" "k' \<noteq> k"
    and "verifyNodeRequest (cc_crypto cfg) (Fin 30000) t t (cl_req c) (cl_headers c) (cp_nodeNonces st) = (Inr (Some k'), ns)"
  shows "jget (cl_body c) ''nodeId'' = Inr j \<Longrightarrow>
      register cfg t c st = (if truthy j then (Inl (deny 403), st\<lparr> cp_nodeNonces := ns \<rparr>) else (Inl (Err 0 ''nodeId-required''), st))"
    "jget (cl_body c) ''nodeId'' = Inr j \<Longrightarrow> heartbeat cfg net t c st = (Inl (deny 403), st\<lparr> cp_nodeNonces := ns \<rparr>)"
    "getAgent i (cp_store st) = Some a \<Longrightarrow> ca_nodeId a = j \<Longrightarrow> report cfg t i c st = (Inl (deny 403), st\<lparr> cp_nodeNonces := ns \<rparr>)"
  using assms(1,2) signed_node [OF assms(3)]
  by (auto simp: pinned_def register_def heartbeat_def report_def assertNodeIdentity_def bindS_def)

text \<open>C26. Trust on first use: once a node id is bound to a key, no sequence of requests, answers and sweeps binds it to
  another one; and in every later state a registration or a heartbeat for that id, and a report for an agent
  placed on it, that carries a verified signature of a different key is refused and leaves the store as it was.\<close>

theorem node_key_pinned:
  assumes "s = run_ops (cp_step cfg) ops cp_init" "getNode j (cs_store s) = Some n" "nd_pubkey n = Some k" "k \<noteq> []"
    and "s' = run_ops (cp_step cfg) ops' s"
  shows "(\<exists>n'. getNode j (cs_store s') = Some n' \<and> nd_pubkey n' = Some k) \<and>
    (\<forall>t c net k' ns.
      verifyNodeRequest (cc_crypto cfg) (Fin 30000) t t (cl_req c) (cl_headers c) (cp_nodeNonces (cs_cp s')) = (Inr (Some k'), ns) \<longrightarrow> k' \<noteq> k \<longrightarrow>
      (jget (cl_body c) ''nodeId'' = Inr j \<longrightarrow>
        fst (register cfg t c (cs_cp s')) = Inl (if truthy j then deny 403 else Err 0 ''nodeId-required'') \<and>
        fst (heartbeat cfg net t c (cs_cp s')) = Inl (deny 403) \<and>
        cs_store (cp_step cfg s' (Op_Register t c)) = cs_store s' \<and> cs_store (cp_step cfg s' (Op_Heartbeat net t c)) = cs_store s') \<and>
      (\<forall>i a. getAgent i (cs_store s') = Some a \<longrightarrow> ca_nodeId a = j \<longrightarrow>
        fst (report cfg t i c (cs_cp s')) = Inl (deny 403) \<and> cs_store (cp_step cfg s' (Op_Report t i c)) = cs_store s'))"
proof -
  have "store_ok (cs_store s)" unfolding assms(1) by (rule stores.run_inv [OF cp_init_ok]) simp
  moreover have "pinned j k (cs_store s)" using assms(2-4) by (auto simp: pinned_def)
  ultimately have p: "pinned j k (cs_store s')"
    using nodes.run_inv [of s j k ops' cfg] by (simp add: assms(5))
  then have n: "\<exists>n'. getNode j (cs_store s') = Some n' \<and> nd_pubkey n' = Some k" by (simp add: pinned_def)
  note r = other_key_refused [OF p [unfolded cs_store_def]]
  show ?thesis using n by (intro conjI allI impI) (simp_all add: r cs_store_def)
qed

text \<open>C27. Trust is the operator's: a node that is trusted after any run was marked so by a request that carried the
  configured shared key; a node cannot get there by registering, beating or reporting, and without a
  configured key no node is ever trusted.\<close>

theorem trust_needs_the_key:
  assumes "getNode j (cs_store (run_ops (cp_step cfg) ops cp_init)) = Some n" "nd_trusted n"
  shows "cc_KEY cfg \<noteq> [] \<and> (\<exists>c. Op_Trust j c \<in> set ops \<and> cp_auth cfg c = Inr ())"
  using assms
proof (induction ops arbitrary: n rule: rev_induct)
  case Nil
  then show ?case by (simp add: run_ops_def cp_init_def cs_store_def empty_cp_def empty_state_def getNode_def)
next
  case (snoc op ops)
  have ok: "store_ok (cs_store (run_ops (cp_step cfg) ops cp_init))" by (rule stores.run_inv [OF cp_init_ok]) simp
  have step: "run_ops (cp_step cfg) (ops @ [op]) cp_init = cp_step cfg (run_ops (cp_step cfg) ops cp_init) op"
    by (simp add: run_ops_def)
  show ?case using step_nodes [OF ok, of cfg op j "[]"] snoc unfolding step by (metis UnI1 UnI2 list.set_intros(1) set_append)
qed

definition reg_body :: jsval where
  "reg_body = JObj [(''nodeId'', JStr ''n'')]"

lemma reg_body_get: "jget reg_body ''nodeId'' = Inr (JStr ''n'')" "jopt reg_body ''caps'' = JUndef" "jopt reg_body ''budget'' = JUndef"
  by (simp_all add: reg_body_def jopt_def inherited_def object_members_def)

definition reg_request :: request where
  "reg_request = \<lparr> rq_method = ''POST'', rq_path = ''/v1/nodes/register'', rq_body = reg_body \<rparr>"

definition signed_reg :: call where
  "signed_reg = \<lparr> cl_req = reg_request, cl_headers = sent (signNodeHeaders toy_crypto [] (kp_priv (toy_keypair 7))
      (kp_address (toy_keypair 7)) reg_request (int_num 1000000) (Some ''x'')), cl_query = JObj [] \<rparr>"

lemma toy_address: "kp_address (toy_keypair 7) \<noteq> []"
  using base58_nonempty [of "replicate 32 7"] by (simp add: toy_keypair_def)

text \<open>Another key asks for the same id.\<close>

definition intruder_reg :: call where
  "intruder_reg = \<lparr> cl_req = reg_request, cl_headers = sent (signNodeHeaders toy_crypto [] (kp_priv (toy_keypair 8))
      (kp_address (toy_keypair 8)) reg_request (int_num 1000200) (Some ''y'')), cl_query = JObj [] \<rparr>"

theorem node_key_pinned_witness:
  "\<exists>n s'. s' = run_ops (cp_step open_cfg) [Op_Sweep 1000100] (run_ops (cp_step open_cfg) [Op_Register 1000005 signed_reg] cp_init) \<and>
     getNode (JStr ''n'') (cs_store s') = Some n \<and> nd_pubkey n = Some (kp_address (toy_keypair 7)) \<and>
     fst (register open_cfg 1000205 intruder_reg (cs_cp s')) = Inl (deny 403)"
proof -
  let ?s1 = "run_ops (cp_step open_cfg) [Op_Register 1000005 signed_reg] cp_init"
  let ?s2 = "run_ops (cp_step open_cfg) [Op_Sweep 1000100] ?s1"
  have v: "verifyNodeRequest toy_crypto (Fin 30000) 1000005 1000005 reg_request (cl_headers signed_reg) [] =
      (Inr (Some (kp_address (toy_keypair 7))), nonce_add 1000005 ''x'' (jadd (int_num 1000000) (int_num 30000)) (snd (nonce_has 1000005 ''x'' [])))"
    using node_signed_accepted [OF toy_signs_verify toy_fromSeed, of 1000000 1000005 30000 "''x''" 1000005 "[]" reg_request "[]"]
    by (simp add: signed_reg_def nonce_has_def)
  have s: "cc_crypto open_cfg = toy_crypto" by (simp add: open_cfg_def toy_cp_cfg_def)
  have r: "cl_req signed_reg = reg_request" "rq_body reg_request = reg_body" by (simp_all add: signed_reg_def reg_request_def)
  have "(\<exists>n. getNode (JStr ''n'') (cs_store ?s1) = Some n \<and> nd_pubkey n = Some (kp_address (toy_keypair 7))) \<and>
      cp_nodeNonces (cs_cp ?s1) = nonce_add 1000005 ''x'' (jadd (int_num 1000000) (int_num 30000)) (snd (nonce_has 1000005 ''x'' []))"
    using v by (simp add: run_ops_def cp_init_def cs_store_def empty_cp_def empty_state_def register_def r reg_body_get authNode_def
        requireNode_def s assertNodeIdentity_def getNode_def map_get_def upsertNode_def Let_def bindS_def)
  then obtain n where n: "getNode (JStr ''n'') (cs_store ?s1) = Some n" "nd_pubkey n = Some (kp_address (toy_keypair 7))"
    and ns: "cp_nodeNonces (cs_cp ?s1) = nonce_add 1000005 ''x'' (jadd (int_num 1000000) (int_num 30000)) (snd (nonce_has 1000005 ''x'' []))" by blast
  have "cp_nodeNonces (cs_cp ?s2) = cp_nodeNonces (cs_cp ?s1)" by (simp add: run_ops_def [of _ "[Op_Sweep t]" for t] cp_sweep_def split: prod.split)
  then have f: "\<not> fst (nonce_has 1000205 ''y'' (cp_nodeNonces (cs_cp ?s2)))"
    by (simp add: ns nonce_has_def nonce_add_def map_get_def)
  obtain ns' where v2: "verifyNodeRequest (cc_crypto open_cfg) (Fin 30000) 1000205 1000205 (cl_req intruder_reg) (cl_headers intruder_reg)
      (cp_nodeNonces (cs_cp ?s2)) = (Inr (Some (kp_address (toy_keypair 8))), ns')"
    using node_signed_accepted [OF toy_signs_verify toy_fromSeed, of 1000200 1000205 30000 "''y''" 1000205 "cp_nodeNonces (cs_cp ?s2)" reg_request "[]" 8] f
    by (simp add: intruder_reg_def s)
  have d: "kp_address (toy_keypair 8) \<noteq> kp_address (toy_keypair 7)"
    using base58_inj [of "replicate 32 8" "replicate 32 7"] by (auto simp: toy_keypair_def)
  have b: "jget (cl_body intruder_reg) ''nodeId'' = Inr (JStr ''n'')" by (simp add: intruder_reg_def r reg_body_get)
  from node_key_pinned [OF refl n toy_address refl, of "[Op_Sweep 1000100]"] v2 d b show ?thesis by fastforce
qed

definition key_call :: "jsval \<Rightarrow> call" where
  "key_call body = \<lparr> cl_req = \<lparr> rq_method = ''POST'', rq_path = ''/'', rq_body = body \<rparr>, cl_headers = [(''authorization'', ''k'')], cl_query = JObj [] \<rparr>"

definition trust_ops :: "cp_op list" where
  "trust_ops = [Op_Register 5 (key_call reg_body), Op_Trust (JStr ''n'') (key_call (JObj [(''trusted'', JBool True)]))]"

lemma key_auth: "cp_auth toy_cp_cfg (key_call b) = Inr ()"
  by (simp add: cp_auth_def toy_cp_cfg_def key_call_def strip_bearer_def)

lemma key_node: "authNode toy_cp_cfg t (key_call b) st = (Inr None, st)"
  using key_auth [of b]
  by (simp add: authNode_def requireNode_def verifyNodeRequest_def header_def Let_def)
     (simp add: key_call_def toy_cp_cfg_def)

theorem trust_needs_the_key_witness:
  "\<exists>n. getNode (JStr ''n'') (cs_store (run_ops (cp_step toy_cp_cfg) trust_ops cp_init)) = Some n \<and> nd_trusted n \<and> cc_KEY toy_cp_cfg \<noteq> []"
proof -
  have b: "rq_body (cl_req (key_call b)) = b" for b by (simp add: key_call_def)
  have "\<exists>n. getNode (JStr ''n'') (cs_store (run_ops (cp_step toy_cp_cfg) trust_ops cp_init)) = Some n \<and> nd_trusted n"
    by (simp add: trust_ops_def run_ops_def cp_init_def cs_store_def empty_cp_def empty_state_def register_def b reg_body_get key_node
        assertNodeIdentity_def getNode_def map_get_def upsertNode_def Let_def trust_node_def key_auth beat_node_def)
       (simp add: toy_cp_cfg_def)
  with trust_needs_the_key show ?thesis by blast
qed

section \<open>Only the owner acts on an agent\<close>

lemma signed_owner:
  assumes "cc_REQUIRE_OWNER_AUTH cfg" "authOwner cfg t c st = (Inr owner, st')"
  shows "\<exists>w ns. owner = Some w \<and>
    verifyOwnerRequest (cc_crypto cfg) (Fin 30000) t t (cl_req c) (cl_headers c) (cp_ownerNonces st) = (Inr (Some w), ns)"
proof -
  obtain q ns where v: "verifyOwnerRequest (cc_crypto cfg) (Fin 30000) t t (cl_req c) (cl_headers c) (cp_ownerNonces st) = (q, ns)" by force
  show ?thesis using assms v
    by (cases q) (auto simp: authOwner_def requireOwner_def bindS_def bindE_Inr_iff split: if_splits)
qed

lemma owner_of_owned:
  assumes "assertOwns cfg a (Some w) = Inr ()" "cc_REQUIRE_OWNER_AUTH cfg" "truthy (ca_owner a)"
  shows "ca_owner a = JStr w"
proof -
  have "strict_eq (ca_owner a) (JStr w)" using assms by (auto simp: assertOwns_def Let_def split: if_splits)
  then show ?thesis by (cases "ca_owner a") auto
qed

lemma owned_strict:
  assumes "owned cfg t k c f st = (r, st')" "cc_REQUIRE_OWNER_AUTH cfg" "getAgent k (cp_store st) = Some a" "truthy (ca_owner a)"
  shows "(\<exists>w ns. verifyOwnerRequest (cc_crypto cfg) (Fin 30000) t t (cl_req c) (cl_headers c) (cp_ownerNonces st) = (Inr (Some w), ns) \<and>
      ca_owner a = JStr w) \<or> (\<not> isOk r \<and> cp_store st' = cp_store st)"
  using assms(1)
proof (cases rule: owned_cases)
  case (admitted b owner st1)
  obtain w ns where w: "owner = Some w"
      "verifyOwnerRequest (cc_crypto cfg) (Fin 30000) t t (cl_req c) (cl_headers c) (cp_ownerNonces st) = (Inr (Some w), ns)"
    using signed_owner [OF assms(2) admitted(2)] by blast
  have "ca_owner a = JStr w" using owner_of_owned [of cfg a w] admitted(1,4) w(1) assms(2-4) by simp
  then show ?thesis using w(2) by blast
qed simp

lemma logs_strict:
  assumes "agent_logs cfg t k c st = (Inr ls, st')" "cc_REQUIRE_OWNER_AUTH cfg" "getAgent k (cp_store st) = Some a" "truthy (ca_owner a)"
  shows "\<exists>w ns. verifyOwnerRequest (cc_crypto cfg) (Fin 30000) t t (cl_req c) (cl_headers c) (cp_ownerNonces st) = (Inr (Some w), ns) \<and>
    ca_owner a = JStr w"
proof -
  obtain owner st1 where o: "authOwner cfg t c st = (Inr owner, st1)"
    and f: "bindE (case getAgent k (cp_store st1) of Some a \<Rightarrow> assertOwns cfg a owner | None \<Rightarrow> Inr ()) (\<lambda>_.
      bindE (to_num (str_or (jopt (cl_query c) ''since'') (JNum (Fin 0)))) (\<lambda>since. getLogs k since (cp_store st1))) = Inr ls"
    using assms(1) by (auto simp: agent_logs_def bindS_Inr_iff)
  obtain w ns where w: "owner = Some w"
      "verifyOwnerRequest (cc_crypto cfg) (Fin 30000) t t (cl_req c) (cl_headers c) (cp_ownerNonces st) = (Inr (Some w), ns)"
    using signed_owner [OF assms(2) o] by blast
  have "assertOwns cfg a (Some w) = Inr ()"
    using f assms(3) authOwner_store [OF o] w(1) by (simp add: bindE_Inr_iff)
  then show ?thesis using w(2) owner_of_owned [OF _ assms(2,4)] by blast
qed

lemma list_strict:
  assumes "list_agents cfg t c st = (Inr v, st')" "cc_REQUIRE_OWNER_AUTH cfg" "jopt v ''agents'' = JArr xs" "agent_val a \<in> set xs"
  shows "\<exists>w ns. verifyOwnerRequest (cc_crypto cfg) (Fin 30000) t t (cl_req c) (cl_headers c) (cp_ownerNonces st) = (Inr (Some w), ns) \<and>
    ca_owner a = JStr w"
proof -
  obtain owner st1 where o: "authOwner cfg t c st = (Inr owner, st1)"
    and f: "v = JObj [(''agents'', JArr (map agent_val (case owner of
        Some k \<Rightarrow> filter (\<lambda>a. strict_eq (ca_owner a) (JStr k)) (sort_key ca_createdAt (listAgents (\<lambda>_. True) (cp_store st1)))
      | None \<Rightarrow> sort_key ca_createdAt (listAgents (\<lambda>_. True) (cp_store st1)))))]"
    using assms(1) by (auto simp: list_agents_def bindS_Inr_iff Let_def)
  obtain w ns where w: "owner = Some w"
      "verifyOwnerRequest (cc_crypto cfg) (Fin 30000) t t (cl_req c) (cl_headers c) (cp_ownerNonces st) = (Inr (Some w), ns)"
    using signed_owner [OF assms(2) o] by blast
  have "xs = map agent_val (filter (\<lambda>a. strict_eq (ca_owner a) (JStr w)) (sort_key ca_createdAt (listAgents (\<lambda>_. True) (cp_store st1))))"
    using assms(3) by (simp add: f w(1) jopt_def)
  then obtain b where b: "agent_val a = agent_val b" "strict_eq (ca_owner b) (JStr w)" using assms(4) by auto
  then have "strict_eq (ca_owner a) (JStr w)" by (simp add: agent_val_def)
  then have "ca_owner a = JStr w" by (cases "ca_owner a") auto
  then show ?thesis using w(2) by blast
qed

text \<open>C4. In the strict posture only the owner gets an owner's request through: when a request to start, stop, destroy or hand over
  an owned agent changes the store or asks the signer, when a withdrawal or an export of its key is passed on to the signer,
  when its record or its logs are shown, or when it is in a list of agents, then the request's owner signature
  verified and its signer is the agent's owner. (What nodes, the sweep and a creation that is still waiting do to an agent is not
  an owner's request and not part of this.)\<close>

theorem only_the_owner_acts:
  assumes "cc_REQUIRE_OWNER_AUTH cfg" "getAgent k (cs_store s) = Some a" "truthy (ca_owner a)"
    and "(op \<in> {Op_Start t k c, Op_Stop t k c, Op_Delete t k c, Op_Owner t k c} \<and>
        (cs_store (cp_step cfg s op) \<noteq> cs_store s \<or> cs_waiting (cp_step cfg s op) \<noteq> cs_waiting s)) \<or>
      isOk (fst (withdraw_begin cfg t k c (cs_cp s))) \<or> isOk (fst (export_begin cfg t k c (cs_cp s))) \<or>
      isOk (fst (show_agent cfg t k c (cs_cp s))) \<or> isOk (fst (agent_logs cfg t k c (cs_cp s))) \<or>
      (\<exists>v xs. fst (list_agents cfg t c (cs_cp s)) = Inr v \<and> jopt v ''agents'' = JArr xs \<and> agent_val a \<in> set xs)"
  shows "\<exists>w ns. verifyOwnerRequest (cc_crypto cfg) (Fin 30000) t t (cl_req c) (cl_headers c) (cp_ownerNonces (cs_cp s)) = (Inr (Some w), ns) \<and>
      ca_owner a = JStr w"
proof (rule ccontr)
  assume no: "\<not> ?thesis"
  have refused: "\<not> isOk r \<and> cp_store st' = cp_store (cs_cp s)" if "owned cfg t k c f (cs_cp s) = (r, st')" for f and r :: "'x res" and st'
    using owned_strict [OF that assms(1) _ assms(3)] assms(2) no by (auto simp: cs_store_def)
  have now: "\<not> isOk (fst (h (cs_cp s))) \<and> cp_store (snd (h (cs_cp s))) = cp_store (cs_cp s)" if "h = owned cfg t k c f" for h :: "cp \<Rightarrow> 'x res \<times> cp" and f
    using refused [of f "fst (h (cs_cp s))" "snd (h (cs_cp s))"] that by simp
  have quiet: "cs_store (s\<lparr> cs_cp := st' \<rparr>) = cp_store st'" for st' by (simp add: cs_store_def)
  have susp: "cs_store (suspend w (r, st') s) = cp_store st' \<and> (\<not> isOk r \<longrightarrow> cs_waiting (suspend w (r, st') s) = cs_waiting s)" for w r st'
    by (auto simp: suspend_def cs_store_def isOk_def split: sum.splits awaiting.splits)
  have calls: "\<not> isOk (fst (withdraw_begin cfg t k c (cs_cp s)))" "\<not> isOk (fst (export_begin cfg t k c (cs_cp s)))"
    "\<not> isOk (fst (show_agent cfg t k c (cs_cp s)))"
    using now unfolding withdraw_begin_def export_begin_def show_agent_def by blast+
  have steps: "cp_store (snd (start_agent cfg t k c (cs_cp s))) = cp_store (cs_cp s)" "cp_store (snd (stop_agent cfg t k c (cs_cp s))) = cp_store (cs_cp s)"
    using now unfolding start_agent_def stop_agent_def by blast+
  have del: "\<not> isOk (fst (delete_begin cfg t k c (cs_cp s))) \<and> cp_store (snd (delete_begin cfg t k c (cs_cp s))) = cp_store (cs_cp s)"
    using now unfolding delete_begin_def by blast
  have own: "\<not> isOk (fst (owner_begin cfg t k c (cs_cp s))) \<and> cp_store (snd (owner_begin cfg t k c (cs_cp s))) = cp_store (cs_cp s)"
    using now unfolding owner_begin_def by blast
  have "op \<in> {Op_Start t k c, Op_Stop t k c, Op_Delete t k c, Op_Owner t k c} \<longrightarrow>
      cs_store (cp_step cfg s op) = cs_store s \<and> cs_waiting (cp_step cfg s op) = cs_waiting s"
    using steps del own susp [of W_Delete "fst (delete_begin cfg t k c (cs_cp s))" "snd (delete_begin cfg t k c (cs_cp s))"]
      susp [of W_Owner "fst (owner_begin cfg t k c (cs_cp s))" "snd (owner_begin cfg t k c (cs_cp s))"] quiet
    by (auto simp: cs_store_def)
  moreover have "\<not> isOk (fst (agent_logs cfg t k c (cs_cp s)))"
    using logs_strict [of cfg t k c "cs_cp s"] assms(1-3) no by (cases "agent_logs cfg t k c (cs_cp s)") (auto simp: isOk_def cs_store_def split: sum.splits)
  moreover have "\<not> (fst (list_agents cfg t c (cs_cp s)) = Inr v \<and> jopt v ''agents'' = JArr xs \<and> agent_val a \<in> set xs)" for v xs
    using list_strict [of cfg t c "cs_cp s" v _ xs a] assms(1) no by (cases "list_agents cfg t c (cs_cp s)") auto
  ultimately show False using assms(4) calls by blast
qed

definition strict_cfg :: cp_cfg where
  "strict_cfg = open_cfg\<lparr> cc_REQUIRE_OWNER_AUTH := True \<rparr>"

definition owned_cloud :: cp_sys where
  "owned_cloud = \<lparr> cs_cp = empty_cp (putAgent ((toy_run (JObj []) JNull PENDING)\<lparr> ca_owner := JStr (kp_address (toy_keypair 7)) \<rparr>) empty_state),
     cs_waiting = [] \<rparr>"

definition signed_show :: call where
  "signed_show = \<lparr> cl_req = toy_request, cl_headers = toy_owner_headers, cl_query = JObj [] \<rparr>"

theorem only_the_owner_acts_witness:
  "\<exists>w ns. verifyOwnerRequest toy_crypto (Fin 30000) 1000005 1000005 (cl_req signed_show) (cl_headers signed_show) [] = (Inr (Some w), ns) \<and>
     JStr (kp_address (toy_keypair 7)) = JStr w"
proof -
  let ?a = "(toy_run (JObj []) JNull PENDING)\<lparr> ca_owner := JStr (kp_address (toy_keypair 7)) \<rparr>"
  have g: "getAgent ''a'' (cs_store owned_cloud) = Some ?a" "truthy (ca_owner ?a)" "cp_ownerNonces (cs_cp owned_cloud) = []"
    using toy_address by (simp_all add: owned_cloud_def cs_store_def empty_cp_def getAgent_put toy_run_def)
  have c: "cc_REQUIRE_OWNER_AUTH strict_cfg" "cc_crypto strict_cfg = toy_crypto"
    by (simp_all add: strict_cfg_def open_cfg_def toy_cp_cfg_def)
  have v: "verifyOwnerRequest toy_crypto (Fin 30000) 1000005 1000005 toy_request toy_owner_headers [] =
      (Inr (Some (kp_address (toy_keypair 7))), nonce_add 1000005 ''n1'' (jadd (int_num 1000000) (int_num 30000)) (snd (nonce_has 1000005 ''n1'' [])))"
    using owner_signed_accepted [OF toy_signs_verify toy_fromSeed, of 1000000 1000005 30000 "''n1''" 1000005 "[]" toy_request "Fin 0"]
    by (simp add: toy_owner_headers_def nonce_has_def)
  have "isOk (fst (show_agent strict_cfg 1000005 ''a'' signed_show (cs_cp owned_cloud)))"
    using v g c by (simp add: show_agent_def owned_def cs_store_def authOwner_def requireOwner_def signed_show_def assertOwns_def bindS_def Let_def)
  with only_the_owner_acts [OF c(1) g(1,2), of "Op_Sweep 0" 1000005 signed_show] show ?thesis using g c by auto
qed

end
