(* ===== verification/Fencing.thy ===== *)
theory Fencing
  imports Cp_System
begin

text \<open>
  The control plane and the signer together: the budget of a node's assignments, the session a placement opens
  and what it does to the node the agent left, and what happens when the two sides disagree. The
  signer of theory \<open>Signer\<close> answers the calls of the control plane.
\<close>

section \<open>The budget of a heartbeat\<close>

definition is_start :: "jsval \<Rightarrow> bool" where
  "is_start v = (jopt v ''action'' = JStr ''start'')"

lemma is_start_simps [simp]: "is_start (start_assignment cfg a)" "\<not> is_start (stop_assignment k)"
  by (simp_all add: is_start_def start_assignment_def stop_assignment_def jopt_def)

lemma beat_agent_starts:
  assumes "beat_agent cfg net running (int_num f) a = (a', free', xs)" "\<bar>f\<bar> < 2 ^ 53"
  shows "(\<exists>g. free' = int_num g \<and> \<bar>g\<bar> < 2 ^ 53 \<and> length (filter is_start xs) + nat g \<le> nat f) \<and>
    (\<forall>x \<in> set xs. is_start x \<longrightarrow> ca_running a \<and> \<not> run_has running (ca_id a) \<and> x = start_assignment cfg (ensureSession cfg net a))"
proof (cases "ca_running a \<and> \<not> run_has running (ca_id a) \<and> \<not> jle (int_num f) (Fin 0)")
  case True
  then have f: "0 < f" by (simp add: jle_Fin)
  have "jsub (int_num f) (int_num 1) = int_num (f - 1)" using f assms(2) by (intro jsub_int) auto
  then show ?thesis using True f assms by (auto simp: beat_agent_def Let_def intro!: exI [of _ "f - 1"])
next
  case False
  then show ?thesis using assms by (auto simp: beat_agent_def Let_def split: if_splits)
qed

lemma beat_agents_starts:
  assumes "beat_agents cfg net running (int_num f) as s = (s', xs)" "\<bar>f\<bar> < 2 ^ 53"
  shows "length (filter is_start xs) \<le> nat f \<and>
    (\<forall>x \<in> set xs. is_start x \<longrightarrow> (\<exists>a \<in> set as. ca_running a \<and> \<not> run_has running (ca_id a) \<and> x = start_assignment cfg (ensureSession cfg net a)))"
  using assms
proof (induction as arbitrary: f s xs)
  case (Cons a as)
  obtain a' free' ys where b: "beat_agent cfg net running (int_num f) a = (a', free', ys)" by (metis prod.exhaust)
  obtain g where g: "free' = int_num g" "\<bar>g\<bar> < 2 ^ 53" "length (filter is_start ys) + nat g \<le> nat f"
    and ys: "\<forall>x \<in> set ys. is_start x \<longrightarrow> ca_running a \<and> \<not> run_has running (ca_id a) \<and> x = start_assignment cfg (ensureSession cfg net a)"
    using beat_agent_starts [OF b Cons.prems(2)] by blast
  obtain zs where z: "beat_agents cfg net running (int_num g) as (putAgent a' s) = (s', zs)" "xs = ys @ zs"
    using Cons.prems(1) b g(1) by (auto split: prod.splits)
  show ?case using Cons.IH [OF z(1) g(2)] g(3) ys z(2) by auto
qed simp

text \<open>C28. A heartbeat never hands out more starts than the node has slots left after what it reports to run, and it
  starts only agents that are wanted, placed on this node and not running there.\<close>

theorem heartbeat_within_budget:
  assumes "reconcile cfg net t nodeId (JArr ks) usage n s = (Inr (JObj [(''assignments'', JArr xs)]), s')"
    and "maxAgents n = Inr (nat_num m)" "m < 2 ^ 52" "length ks < 2 ^ 52"
  shows "length (filter is_start xs) \<le> m - length ks \<and>
    (\<forall>x \<in> set xs. is_start x \<longrightarrow> (\<exists>a \<in> set (map_values (st_agents s)). ca_running a \<and> strict_eq (ca_nodeId a) nodeId \<and>
       JStr (ca_id a) \<notin> set ks \<and> x = start_assignment cfg (ensureSession cfg net a)))"
  using assms(1)
proof (cases rule: reconcile_cases)
  case (beaten mx l s1 s2 ys)
  have l: "mx = nat_num m" "l = length ks" using beaten(1,2) assms(2) by simp_all
  have "jsub (int_num (int m)) (int_num (int (length ks))) = int_num (int m - int (length ks))"
    using assms(3,4) by (intro jsub_int) auto
  then have sub: "jsub mx (nat_num l) = int_num (int m - int (length ks))" by (simp add: l)
  have bound: "\<bar>int m - int (length ks)\<bar> < 2 ^ 53" using assms(3,4) by auto
  note starts = beat_agents_starts [OF beaten(4) [unfolded sub] bound]
  have xs: "\<exists>zs. xs = ys @ map stop_assignment zs" using beaten(5) by auto
  have listed: "set (listAgents P s1) \<subseteq> {a \<in> set (map_values (st_agents s)). P a}" for P
    by (auto simp: beaten(3) beat_node_def listAgents_def split: option.splits)
  show ?thesis
  proof
    have "filter is_start xs = filter is_start ys" using xs by (auto simp: filter_empty_conv)
    moreover have "nat (int m - int (length ks)) = m - length ks" by linarith
    ultimately show "length (filter is_start xs) \<le> m - length ks" using starts by simp
    have "is_start x \<longrightarrow> x \<in> set ys" if "x \<in> set xs" for x using xs that by auto
    then show "\<forall>x \<in> set xs. is_start x \<longrightarrow> (\<exists>a \<in> set (map_values (st_agents s)). ca_running a \<and> strict_eq (ca_nodeId a) nodeId \<and>
       JStr (ca_id a) \<notin> set ks \<and> x = start_assignment cfg (ensureSession cfg net a))"
      using starts listed by fastforce
  qed
qed simp

theorem heartbeat_within_budget_witness:
  "\<exists>xs s'. reconcile open_cfg (\<lambda>_. No_Reply) 9 (JStr ''n'') (JArr []) JUndef (sample_node (JStr ''n'') (JNum (Fin 2)) 0)
       (toy_cloud (JObj []) SCHEDULED (JStr ''n'')) = (Inr (JObj [(''assignments'', JArr xs)]), s') \<and> xs \<noteq> [] \<and>
     length (filter is_start xs) \<le> 2 - length ([] :: jsval list)"
proof -
  have mx: "maxAgents (sample_node (JStr ''n'') (JNum (Fin 2)) 0) = Inr (nat_num 2)"
    by (simp add: maxAgents_def sample_node_def jopt_def nullish_def)
  have "jsub (Fin 2) (Fin 0) = Fin 2" using jsub_int [of 2 0] by simp
  then obtain xs s' where r: "reconcile open_cfg (\<lambda>_. No_Reply) 9 (JStr ''n'') (JArr []) JUndef (sample_node (JStr ''n'') (JNum (Fin 2)) 0)
       (toy_cloud (JObj []) SCHEDULED (JStr ''n'')) = (Inr (JObj [(''assignments'', JArr xs)]), s')" "xs \<noteq> []"
    by (simp add: reconcile_def mx Let_def beat_node_def getNode_def map_get_def toy_cloud_def toy_run_def listAgents_def beat_agent_def
        ensureSession_def open_cfg_def jle_Fin)
  from heartbeat_within_budget [OF r(1) mx] r show ?thesis by (intro exI [of _ xs] exI [of _ s']) simp
qed

section \<open>A new placement fences the old one\<close>

text \<open>The signer's answer to the request for a session of the agent \<open>k\<close>.\<close>

definition session_reply :: "signer_cfg \<Rightarrow> string \<Rightarrow> int \<Rightarrow> string \<Rightarrow> string \<Rightarrow> signer \<Rightarrow> scall \<Rightarrow> signer_reply" where
  "session_reply scfg bearer t rtoken k sg sc =
     (case post_session scfg bearer t rtoken k (sc_body sc) sg of
        (Inr v, _) \<Rightarrow> Signer_Reply 200 (Some v)
      | (Inl e, _) \<Rightarrow> Signer_Reply (http_status e) (Some (JObj [(''code'', JStr (err_code e))])))"

text \<open>What a workload shows to the signer of the lease it was given.\<close>

definition lease_claim :: "lease \<Rightarrow> jsval" where
  "lease_claim l = JObj [(''epoch'', le_epoch l), (''token'', le_token l)]"

text \<open>C14. At most one: when an agent that had a session on another node is handed to this one and the signer opens the
  session, the workload gets a lease the signer accepts, and the signer refuses the old node's lease from then on
  (until the session changes again).\<close>

theorem new_placement_fences_old:
  assumes "cc_SIGNER_URL cfg \<noteq> []" "ca_nodeId a = JStr m" "m \<noteq> []" "ca_session a = Some l" "\<not> strict_eq (le_node l) (JStr m)"
    and "map_get (ca_id a) (sn_agents sg) = Some ag" "ag_session ag = Some s0" "le_epoch l = JNum (nat_num (ss_epoch s0))"
    and "bearer_auth (cf_KEY scfg) bearer = Inr ()"
  shows "\<exists>l' ag'. ca_session (ensureSession cfg (session_reply scfg bearer t rtoken (ca_id a) sg) a) = Some l' \<and> le_node l' = JStr m \<and>
    map_get (ca_id a) (sn_agents (snd (post_session scfg bearer t rtoken (ca_id a) (sc_body (session_call a)) sg))) = Some ag' \<and>
    fence (cf_crypto scfg) ag' (lease_claim l') = Inr () \<and>
    fence (cf_crypto scfg) ag' (lease_claim l) = Inl (Err 403 ''fenced'')"
proof -
  let ?s = "\<lparr> ss_epoch = ss_epoch s0 + 1, ss_tokenHash = sha256hex (cf_crypto scfg) rtoken, ss_node = JStr m, ss_openedAt = t \<rparr>"
  let ?v = "JObj [(''agentId'', ag_id ag), (''address'', JStr (ag_address ag)), (''epoch'', JNum (nat_num (ss_epoch s0 + 1))),
     (''token'', JStr rtoken), (''paper'', JBool (po_paper (ag_policy ag)))]"
  have p: "post_session scfg bearer t rtoken (ca_id a) (sc_body (session_call a)) sg =
      (Inr ?v, put_agent (ca_id a) (ag\<lparr> ag_session := Some ?s \<rparr>) sg)"
    using assms(2,3,6,7,9) by (simp add: post_session_def session_call_def Let_def)
  have c: "signerApi (session_reply scfg bearer t rtoken (ca_id a) sg (session_call a)) = Inr ?v"
    by (simp add: session_reply_def p signerApi_def)
  let ?l = "\<lparr> le_epoch = JNum (nat_num (ss_epoch s0 + 1)), le_token = JStr rtoken, le_node = JStr m \<rparr>"
  have "ca_session (ensureSession cfg (session_reply scfg bearer t rtoken (ca_id a) sg) a) = Some ?l"
    using assms(1-5) c by (simp add: ensureSession_def jopt_def)
  moreover have "fence (cf_crypto scfg) (ag\<lparr> ag_session := Some ?s \<rparr>) (lease_claim ?l) = Inr ()"
    by (simp add: fence_def lease_claim_def jopt_def str_or_def jeq_def)
  moreover have "fence (cf_crypto scfg) (ag\<lparr> ag_session := Some ?s \<rparr>) (lease_claim l) = Inl (Err 403 ''fenced'')"
    using assms(8) by (simp add: fence_def lease_claim_def jopt_def jeq_def)
  ultimately show ?thesis by (simp add: p put_agent_def)
qed

definition moved_agent :: cagent where
  "moved_agent = (toy_run (JObj []) (JStr ''m'') SCHEDULED)\<lparr> ca_session := Some \<lparr> le_epoch = JNum (Fin 1), le_token = JStr ''old'', le_node = JStr ''n'' \<rparr> \<rparr>"

definition open_agent :: agent where
  "open_agent = \<lparr> ag_ref = 0, ag_id = JStr ''a'', ag_address = ''A'', ag_owner = None, ag_policy = sample_normal,
     ag_verified = \<lparr> ve_rule = None, ve_acceptedKeys = [], ve_acceptedNotaries = [], ve_evidenceMaxAgeMs = Fin 60000 \<rparr>,
     ag_day = 0, ag_daySpentSol = Fin 0, ag_lastTradeTs = 0,
     ag_session = Some \<lparr> ss_epoch = 1, ss_tokenHash = sha256hex toy_crypto ''old'', ss_node = JStr ''n'', ss_openedAt = 0 \<rparr>, ag_createdAt = 0 \<rparr>"

definition open_signer :: signer where
  "open_signer = empty_signer\<lparr> sn_agents := [(''a'', open_agent)] \<rparr>"

theorem new_placement_fences_old_witness:
  "\<exists>l' ag'. ca_session (ensureSession toy_cp_cfg (session_reply toy_cfg (cf_KEY toy_cfg) 7 ''new'' ''a'' open_signer) moved_agent) = Some l' \<and>
     fence (cf_crypto toy_cfg) ag' (lease_claim l') = Inr () \<and>
     fence (cf_crypto toy_cfg) ag' (JObj [(''epoch'', JNum (Fin 1)), (''token'', JStr ''old'')]) = Inl (Err 403 ''fenced'')"
proof -
  have a: "ca_id moved_agent = ''a''" "ca_nodeId moved_agent = JStr ''m''"
    "ca_session moved_agent = Some \<lparr> le_epoch = JNum (Fin 1), le_token = JStr ''old'', le_node = JStr ''n'' \<rparr>"
    by (simp_all add: moved_agent_def toy_run_def)
  have g: "map_get (ca_id moved_agent) (sn_agents open_signer) = Some open_agent" by (simp add: a(1) open_signer_def map_get_def)
  have s: "ag_session open_agent = Some \<lparr> ss_epoch = 1, ss_tokenHash = sha256hex toy_crypto ''old'', ss_node = JStr ''n'', ss_openedAt = 0 \<rparr>"
    by (simp add: open_agent_def)
  have u: "cc_SIGNER_URL toy_cp_cfg \<noteq> []" by (simp add: toy_cp_cfg_def)
  have k: "bearer_auth (cf_KEY toy_cfg) (cf_KEY toy_cfg) = Inr ()" by (simp add: bearer_auth_def toy_cfg_def strip_bearer_def)
  from new_placement_fences_old [OF u a(2) _ a(3) _ g s _ k, of 7 "''new''"] show ?thesis
    unfolding a(1) by (auto simp: lease_claim_def)
qed

section \<open>When the session cannot be opened\<close>

text \<open>
  The signer does not answer: the agent keeps the session of the node it left, and the assignment hands that
  lease to the new node, where the signer accepts it as it does from the old one. Nothing fences the
  two copies from each other.
\<close>

theorem failed_session_shares_the_lease:
  assumes "signerApi (net (session_call a)) = Inl e" "ca_session a = Some l" "cc_SIGNER_PUBLIC_URL cfg \<noteq> []"
    and "ca_running a" "\<not> run_has running (ca_id a)" "\<not> jle free (Fin 0)"
  shows "\<exists>a' free' x. beat_agent cfg net running free a = (a', free', [x]) \<and> is_start x \<and>
    jopt (jopt (jopt x ''agent'') ''signer'') ''epoch'' = le_epoch l \<and> jopt (jopt (jopt x ''agent'') ''signer'') ''token'' = le_token l"
proof -
  have "ensureSession cfg net a = a" using assms(1) by (simp add: ensureSession_def)
  then have "beat_agent cfg net running free a = (a, jsub free (Fin 1), [start_assignment cfg a])"
    using assms(4-6) by (simp add: beat_agent_def Let_def)
  moreover have "signerBlockFor cfg a = JObj [(''url'', JStr (cc_SIGNER_PUBLIC_URL cfg)), (''agentId'', JStr (ca_id a)), (''epoch'', le_epoch l),
      (''token'', le_token l), (''address'', if truthy (ca_address a) then ca_address a else JNull),
      (''paper'', JBool (\<not> strict_eq (ca_paper a) (JBool False)))]"
    using assms(2,3) by (simp add: signerBlockFor_def)
  ultimately show ?thesis by (simp add: start_assignment_def jopt_def is_start_def)
qed

text \<open>
  A change of owner the signer refuses, or never answers, is kept by the control plane: the two sides then
  disagree on who owns the agent.
\<close>

theorem refused_owner_is_kept:
  assumes "owner_begin cfg t k c st = (Inr (Await sc a), st1)" "signerApi r = Inl e"
  shows "getAgent (ca_id a) (cp_store (snd (owner_finish r a st1))) = Some a \<and> jget (cl_body c) ''owner'' = Inr (ca_owner a) \<and>
    fst (owner_finish r a st1) = Inl e"
proof -
  have f: "owner_finish r a st1 = (Inl e, st1)" using assms(2) by (simp add: owner_finish_def)
  show ?thesis using assms(1) unfolding owner_begin_def
    by (cases rule: owned_cases) (auto simp: f cp_put_def getAgent_put bindE_Inr_iff Let_def split: sum.splits)
qed

lemma provisioned:
  assumes "jget body ''agentId'' = Inr (JStr k)" "post_agents scfg bearer u rnd iv body sg = (Inr v, sg')"
  shows "\<exists>x. map_get k (sn_agents sg') = Some x"
  using assms
  by (auto simp: post_agents_def create_agent_def update_agent_def put_agent_def Let_def bindE_Inr_iff split: sum.splits option.splits if_splits)

lemma provisioned_again:
  assumes "jget body ''agentId'' = Inr (JStr k)" "post_agents scfg bearer u rnd iv body sg = (Inr v, sg')"
    and "map_get k (sn_agents sg) = Some x" "jopt body ''owner'' = JStr w" "w \<noteq> []"
  shows "\<exists>y. map_get k (sn_agents sg') = Some y \<and> ag_address y = ag_address x \<and> ag_owner y = Some w"
  using assms
  by (auto simp: post_agents_def update_agent_def put_agent_def Let_def bindE_Inr_iff owner_of_def split: sum.splits if_splits)

text \<open>
  Two creations of the same client-chosen id, both checked before either is provisioned: both pass, and the
  signer's answer to the second is an update of the wallet it made for the first, whose owner is then
  the second caller.
\<close>

theorem concurrent_creates_share_a_wallet:
  assumes "build_agent cfg t r1 n1 o1 b1 s = Inr a1" "build_agent cfg t' r2 n2 o2 b2 s = Inr a2" "ca_id a1 = ca_id a2"
    and "ca_owner a2 = JStr w" "w \<noteq> []"
    and "post_agents scfg bearer u rnd iv (sc_body (provision_call a1)) sg = (Inr v1, sg1)"
    and "post_agents scfg bearer u' rnd' iv' (sc_body (provision_call a2)) sg1 = (Inr v2, sg2)"
  shows "\<exists>x y. map_get (ca_id a1) (sn_agents sg1) = Some x \<and> map_get (ca_id a1) (sn_agents sg2) = Some y \<and>
    ag_address y = ag_address x \<and> ag_owner y = Some w"
proof -
  have b: "jget (sc_body (provision_call a)) ''agentId'' = Inr (JStr (ca_id a))" for a by (simp add: provision_call_def)
  obtain x where x: "map_get (ca_id a1) (sn_agents sg1) = Some x" using provisioned [OF b assms(6)] by blast
  have o: "jopt (sc_body (provision_call a2)) ''owner'' = JStr w"
    using assms(4,5) by (simp add: provision_call_def jopt_def split: option.split)
  from provisioned_again [OF b assms(7) x [unfolded assms(3)] o assms(5)] x assms(3) show ?thesis by auto
qed

end
