(* ===== verification/Bundle_Gc.thy ===== *)
theory Bundle_Gc
  imports Access Bundle
begin

text \<open>
  control-plane/server.js, the shared bundle directory: signed uploads, open downloads, and the mark-and-sweep collection of
  blobs no agent refers to. The directory is a map from file names to contents and modification time;
  file-system failures other than that of \<open>unlink\<close> (the parameter \<open>can\<close>) are not modelled, and the write through a
  temporary file is one step. An upload is read in chunks of bytes.
\<close>

record blob =
  bl_bytes :: bytes
  bl_mtime :: int

type_synonym blobs = "(string, blob) jmap"

definition lower_hex :: "char \<Rightarrow> bool" where
  "lower_hex c = (is_digit c \<or> CHR ''a'' \<le> c \<and> c \<le> CHR ''f'')"

text \<open>\<open>/^([0-9a-f]{64})\.tgz$/\<close>: the digest in the name.\<close>

definition blob_name :: "string \<Rightarrow> string option" where
  "blob_name s = (if length s = 68 \<and> drop 64 s = ''.tgz'' \<and> list_all lower_hex (take 64 s) then Some (take 64 s) else None)"

fun readRaw :: "nat \<Rightarrow> bytes \<Rightarrow> bytes list \<Rightarrow> bytes res" where
  "readRaw mx buf [] = Inr buf"
| "readRaw mx buf (c # cs) = (if mx < length buf + length c then Inl (deny 413) else readRaw mx (buf @ c) cs)"

definition put_bundle :: "cp_cfg \<Rightarrow> nat \<Rightarrow> int \<Rightarrow> string \<Rightarrow> call \<Rightarrow> bytes list \<Rightarrow> cp \<times> blobs \<Rightarrow> jsval res \<times> cp \<times> blobs" where
  "put_bundle cfg mx t name c chunks s = (case s of (st, d) \<Rightarrow>
     (case blob_name name of
        None \<Rightarrow> (Inl (deny 400), st, d)
      | Some sha \<Rightarrow>
          (case verifyOwnerRequest (cc_crypto cfg) (Fin 30000) t t
                  \<lparr> rq_method = ''PUT'', rq_path = rq_path (cl_req c), rq_body = JObj [] \<rparr> (cl_headers c) (cp_ownerNonces st) of
             (r, ns) \<Rightarrow>
               let st1 = st\<lparr> cp_ownerNonces := ns \<rparr>
               in case bindE r (\<lambda>owner. if owner = None then Inl (deny 401) else readRaw mx [] chunks) of
                    Inl e \<Rightarrow> (Inl e, st1, d)
                  | Inr buf \<Rightarrow>
                      if sha256hex_bytes (cc_crypto cfg) buf \<noteq> sha then (Inl (deny 400), st1, d)
                      else (Inr (JObj [(''ok'', JBool True), (''sha256'', JStr sha), (''bytes'', JNum (nat_num (length buf)))]), st1,
                            if map_has (sha @ ''.tgz'') d then d
                            else map_set (sha @ ''.tgz'') \<lparr> bl_bytes = buf, bl_mtime = t \<rparr> d))))"

definition get_bundle :: "string \<Rightarrow> blobs \<Rightarrow> bytes res" where
  "get_bundle name d = (case blob_name name of
       None \<Rightarrow> Inl (deny 400)
     | Some sha \<Rightarrow> (case map_get (sha @ ''.tgz'') d of None \<Rightarrow> Inl (deny 404) | Some b \<Rightarrow> Inr (bl_bytes b)))"

section \<open>Collection\<close>

record gc_report =
  gr_applied :: bool
  gr_kept :: nat
  gr_candidates :: "(string \<times> nat \<times> int) list"
  gr_freedBytes :: nat
  gr_totalBytes :: nat

text \<open>The names of the blobs the agents refer to; the text of a digest that is an object may throw.\<close>

fun live_names :: "cagent list \<Rightarrow> string list res" where
  "live_names [] = Inr []"
| "live_names (a # as) =
     (let sha = jopt (jopt (ca_spec a) ''bundle'') ''sha256''
      in bindE (if truthy sha then bindE (to_str sha) (\<lambda>s. Inr [s @ ''.tgz'']) else Inr []) (\<lambda>xs.
         bindE (live_names as) (\<lambda>ys. Inr (xs @ ys))))"

definition ends_tmp :: "string \<Rightarrow> bool" where
  "ends_tmp f = suffix ''.tmp'' f"

text \<open>\<open>Math.round((now - mtime) / 3600000)\<close>.\<close>

definition age_hours :: "int \<Rightarrow> int \<Rightarrow> int" where
  "age_hours t m = (2 * (t - m) + 3600000) div 7200000"

definition unlink :: "(string \<Rightarrow> bool) \<Rightarrow> string \<Rightarrow> blobs \<Rightarrow> blobs" where
  "unlink can f d = (if can f then map_delete f d else d)"

definition gc_file :: "bool \<Rightarrow> (string \<Rightarrow> bool) \<Rightarrow> string list \<Rightarrow> jsnum \<Rightarrow> int \<Rightarrow> string \<times> blob \<Rightarrow> gc_report \<times> blobs \<Rightarrow> gc_report \<times> blobs" where
  "gc_file doDelete can live cutoff t x rd = (case x of (f, b) \<Rightarrow> (case rd of (r, d) \<Rightarrow>
     (if ends_tmp f then (r, if jlt (int_num (bl_mtime b)) cutoff then unlink can f d else d)
      else if blob_name f = None then (r, d)
      else let n = length (bl_bytes b); r1 = r\<lparr> gr_totalBytes := gr_totalBytes r + n \<rparr>
        in if f \<in> set live \<or> jlt cutoff (int_num (bl_mtime b)) then (r1\<lparr> gr_kept := Suc (gr_kept r1) \<rparr>, d)
           else (r1\<lparr> gr_candidates := gr_candidates r1 @ [(take 12 f, n, age_hours t (bl_mtime b))],
                     gr_freedBytes := gr_freedBytes r1 + n \<rparr>,
                 if doDelete then unlink can f d else d))))"

definition bundleGcSweep :: "jsnum \<Rightarrow> bool \<Rightarrow> (string \<Rightarrow> bool) \<Rightarrow> int \<Rightarrow> store \<Rightarrow> blobs \<Rightarrow> gc_report res \<times> blobs" where
  "bundleGcSweep grace doDelete can t s d =
     (case live_names (listAgents (\<lambda>_. True) s) of
        Inl e \<Rightarrow> (Inl e, d)
      | Inr live \<Rightarrow>
          (case fold (gc_file doDelete can live (jsub (int_num t) grace) t) d
                  (\<lparr> gr_applied = doDelete, gr_kept = 0, gr_candidates = [], gr_freedBytes = 0, gr_totalBytes = 0 \<rparr>, d) of
             (r, d') \<Rightarrow> (Inr r, d')))"

text \<open>The collection on request: an exception becomes the reply, here as an error.\<close>

definition post_gc :: "cp_cfg \<Rightarrow> jsnum \<Rightarrow> (string \<Rightarrow> bool) \<Rightarrow> int \<Rightarrow> call \<Rightarrow> cp \<times> blobs \<Rightarrow> gc_report res \<times> blobs" where
  "post_gc cfg grace can t c s = (case s of (st, d) \<Rightarrow>
     (case cp_auth cfg c of
        Inl e \<Rightarrow> (Inl e, d)
      | Inr _ \<Rightarrow> bundleGcSweep grace (jopt (cl_query c) ''apply'' = JStr ''1'') can t (cp_store st) d))"

section \<open>What the collection removes\<close>

definition collectable :: "bool \<Rightarrow> string list \<Rightarrow> jsnum \<Rightarrow> string \<times> blob \<Rightarrow> bool" where
  "collectable doDelete live cutoff x = (case x of (f, b) \<Rightarrow>
     if ends_tmp f then jlt (int_num (bl_mtime b)) cutoff
     else doDelete \<and> blob_name f \<noteq> None \<and> f \<notin> set live \<and> \<not> jlt cutoff (int_num (bl_mtime b)))"

lemma gc_file_dir: "snd (gc_file doDelete can live cutoff t x (r, d)) =
    (if collectable doDelete live cutoff x then unlink can (fst x) d else d)"
  by (cases x) (auto simp: gc_file_def collectable_def Let_def)

lemma gc_fold_get:
  "map_get f (snd (fold (gc_file doDelete can live cutoff t) xs rd)) =
    (if can f \<and> (\<exists>b. (f, b) \<in> set xs \<and> collectable doDelete live cutoff (f, b)) then None else map_get f (snd rd))"
proof (induction xs arbitrary: rd)
  case (Cons x xs)
  obtain r d where rd: "rd = (r, d)" by force
  have "map_get f (snd (gc_file doDelete can live cutoff t x rd)) =
      (if fst x = f \<and> can f \<and> collectable doDelete live cutoff x then None else map_get f d)"
    by (simp add: rd gc_file_dir unlink_def map_get_delete)
  then show ?case unfolding fold_simps(2) Cons using rd by (cases x) auto
qed simp

lemma live_names_set:
  "live_names as = Inr live \<Longrightarrow> a \<in> set as \<Longrightarrow> jopt (jopt (ca_spec a) ''bundle'') ''sha256'' = JStr s \<Longrightarrow> s \<noteq> [] \<Longrightarrow>
    s @ ''.tgz'' \<in> set live"
  by (induction as arbitrary: live) (auto simp: bindE_Inr_iff Let_def split: if_splits)

text \<open>C32. The collection removes a blob of the directory exactly when it may be unlinked, deletion is on, its name is that of a
  blob, no agent refers to it and it is not younger than the grace window (a leftover temporary
  file: when it is older than the window); everything else is kept as it is. In particular
  a blob that an agent refers to is never removed.\<close>

theorem gc_removes_exactly:
  assumes "map_ok d" "bundleGcSweep grace doDelete can t s d = (Inr r, d')"
  shows "\<exists>live. live_names (listAgents (\<lambda>_. True) s) = Inr live \<and>
    (\<forall>f. map_get f d' = (case map_get f d of
        None \<Rightarrow> None
      | Some b \<Rightarrow> if can f \<and> collectable doDelete live (jsub (int_num t) grace) (f, b) then None else Some b)) \<and>
    (\<forall>k a sha b. getAgent k s = Some a \<and> jopt (jopt (ca_spec a) ''bundle'') ''sha256'' = JStr sha \<and> sha \<noteq> [] \<and>
        map_get (sha @ ''.tgz'') d = Some b \<longrightarrow> map_get (sha @ ''.tgz'') d' = Some b)"
proof -
  obtain live where live: "live_names (listAgents (\<lambda>_. True) s) = Inr live"
    and d': "d' = snd (fold (gc_file doDelete can live (jsub (int_num t) grace) t) d
      (\<lparr> gr_applied = doDelete, gr_kept = 0, gr_candidates = [], gr_freedBytes = 0, gr_totalBytes = 0 \<rparr>, d))"
    using assms(2) by (auto simp: bundleGcSweep_def split: sum.splits prod.splits)
  have get: "map_get f d' = (case map_get f d of None \<Rightarrow> None
      | Some b \<Rightarrow> if can f \<and> collectable doDelete live (jsub (int_num t) grace) (f, b) then None else Some b)" for f
  proof (cases "map_get f d")
    case None
    then show ?thesis unfolding d' gc_fold_get by simp
  next
    case (Some b)
    then have "(f, c) \<in> set d \<longleftrightarrow> c = b" for c unfolding map_get_iff [OF assms(1), of f c, symmetric] by auto
    then show ?thesis unfolding d' gc_fold_get using Some by simp
  qed
  have kept: "map_get (sha @ ''.tgz'') d' = Some b"
    if "getAgent k s = Some a" "jopt (jopt (ca_spec a) ''bundle'') ''sha256'' = JStr sha" "sha \<noteq> []" "map_get (sha @ ''.tgz'') d = Some b"
    for k a sha b
  proof -
    have "a \<in> set (listAgents (\<lambda>_. True) s)" using that(1) map_values_get by (auto simp: getAgent_def listAgents_def)
    from live_names_set [OF live this that(2,3)] have "sha @ ''.tgz'' \<in> set live" .
    moreover have "\<not> ends_tmp (sha @ ''.tgz'')" by (auto simp: ends_tmp_def suffix_def)
    ultimately show ?thesis using get that(4) by (simp add: collectable_def)
  qed
  show ?thesis using live get kept by blast
qed

text \<open>A directory with a blob that is in use and one that is not, both a day old.\<close>

definition sha_a :: string where
  "sha_a = replicate 64 CHR ''a''"

definition sha_b :: string where
  "sha_b = replicate 64 CHR ''b''"

definition toy_blobs :: blobs where
  "toy_blobs = [(sha_a @ ''.tgz'', \<lparr> bl_bytes = [1, 2], bl_mtime = 0 \<rparr>), (sha_b @ ''.tgz'', \<lparr> bl_bytes = [3], bl_mtime = 0 \<rparr>)]"

definition bundle_user :: store where
  "bundle_user = toy_cloud (JObj [(''bundle'', JObj [(''sha256'', JStr sha_a)])]) PENDING JNull"

lemma sha_names: "length sha_a = 64" "length sha_b = 64" "list_all lower_hex sha_a" "list_all lower_hex sha_b" "sha_a \<noteq> sha_b"
  "sha_b \<noteq> sha_a" "sha_a \<noteq> []" "sha_b \<noteq> []"
  by (simp_all add: sha_a_def sha_b_def list_all_iff lower_hex_def is_digit_def less_eq_char_def)

lemma sha_blobs: "blob_name (sha_a @ ''.tgz'') = Some sha_a" "blob_name (sha_b @ ''.tgz'') = Some sha_b"
  "\<not> ends_tmp (s @ ''.tgz'')"
  by (auto simp: blob_name_def sha_names ends_tmp_def suffix_def)

lemma toy_blobs_ok: "map_ok toy_blobs"
  by (simp add: map_ok_def toy_blobs_def sha_names)

lemma toy_gc: "\<exists>r d'. bundleGcSweep (Fin 1000) True (\<lambda>_. True) 86400000 bundle_user toy_blobs = (Inr r, d')"
  by (simp add: bundleGcSweep_def bundle_user_def toy_cloud_def toy_run_def listAgents_def jopt_def sha_names split_beta)

theorem gc_removes_exactly_witness:
  "\<exists>r d'. bundleGcSweep (Fin 1000) True (\<lambda>_. True) 86400000 bundle_user toy_blobs = (Inr r, d') \<and>
     map_get (sha_a @ ''.tgz'') d' \<noteq> None \<and> map_get (sha_b @ ''.tgz'') d' = None"
proof -
  obtain r d' where g: "bundleGcSweep (Fin 1000) True (\<lambda>_. True) 86400000 bundle_user toy_blobs = (Inr r, d')" using toy_gc by blast
  have live: "live_names (listAgents (\<lambda>_. True) bundle_user) = Inr [sha_a @ ''.tgz'']"
    by (simp add: bundle_user_def toy_cloud_def toy_run_def listAgents_def jopt_def sha_names)
  have m: "map_get (sha_a @ ''.tgz'') toy_blobs = Some \<lparr> bl_bytes = [1, 2], bl_mtime = 0 \<rparr>"
    "map_get (sha_b @ ''.tgz'') toy_blobs = Some \<lparr> bl_bytes = [3], bl_mtime = 0 \<rparr>"
    by (simp_all add: toy_blobs_def map_get_def sha_names)
  have "jsub (Fin 86400000) (Fin 1000) = Fin 86399000" using jsub_int [of 86400000 1000] by simp
  then show ?thesis using gc_removes_exactly [OF toy_blobs_ok g] g live m
    by (auto simp: collectable_def sha_blobs sha_names)
qed

section \<open>Uploading again\<close>

text \<open>Uploading a bundle that is in the directory already changes nothing, so its age is not renewed: when no agent refers
  to it yet, a collection that runs before the agent is created still removes it.\<close>

theorem upload_again_then_collected:
  assumes "map_ok d" "map_get (sha @ ''.tgz'') d = Some b" "put_bundle cfg mx t (sha @ ''.tgz'') c chunks (st, d) = (Inr v, st', d')"
    and "bundleGcSweep grace True (\<lambda>_. True) t' (cp_store st') d' = (Inr r, d'')"
    and "\<And>a. a \<in> set (listAgents (\<lambda>_. True) (cp_store st)) \<Longrightarrow> jopt (ca_spec a) ''bundle'' = JUndef"
    and "\<not> jlt (jsub (int_num t') grace) (int_num (bl_mtime b))"
  shows "d' = d \<and> map_get (sha @ ''.tgz'') d'' = None"
proof -
  obtain s where s: "blob_name (sha @ ''.tgz'') = Some s" using assms(3) by (auto simp: put_bundle_def split: option.splits)
  then have "s = sha" by (auto simp: blob_name_def split: if_splits)
  with s have n: "blob_name (sha @ ''.tgz'') = Some sha" by simp
  have "map_has (sha @ ''.tgz'') d" using assms(2) by (simp add: map_has_def map_get_def)
  then have d: "d' = d" and st: "cp_store st' = cp_store st" using assms(3) n
    by (auto simp: put_bundle_def Let_def split: prod.splits sum.splits if_splits)
  have "live_names as = Inr []" if "\<And>a. a \<in> set as \<Longrightarrow> jopt (ca_spec a) ''bundle'' = JUndef" for as
    using that by (induction as) (auto simp: Let_def jopt_def)
  then have live: "live_names (listAgents (\<lambda>_. True) (cp_store st)) = Inr []" using assms(5) by blast
  have "\<not> ends_tmp (sha @ ''.tgz'')" by (auto simp: ends_tmp_def suffix_def)
  moreover have "d'' = snd (fold (gc_file True (\<lambda>_. True) [] (jsub (int_num t') grace) t') d
      (\<lparr> gr_applied = True, gr_kept = 0, gr_candidates = [], gr_freedBytes = 0, gr_totalBytes = 0 \<rparr>, d))"
    using assms(4) unfolding d st bundleGcSweep_def live by (simp split: prod.splits)
  then have "map_get (sha @ ''.tgz'') d'' = (if (\<exists>b. (sha @ ''.tgz'', b) \<in> set d \<and>
      collectable True [] (jsub (int_num t') grace) (sha @ ''.tgz'', b)) then None else map_get (sha @ ''.tgz'') d)"
    by (simp only: gc_fold_get snd_conv simp_thms)
  ultimately show ?thesis using d n assms(2,6) map_get_in [OF assms(2)] by (auto simp: collectable_def)
qed

end
