(* ===== verification/Netguard.thy ===== *)
theory Netguard
  imports Js_Text "HOL-Library.Word"
begin

text \<open>
  lib/netguard.js: the guard against connections into the host's own network. Addresses are texts;
  \<open>ipToLong\<close> works on 32-bit words with the wrap-around of the shifts, \<open>expandV6\<close> turns an IPv6
  text into its eight hextets, \<open>isIP\<close> is the literal test of \<open>node:net\<close>. The resolver is a parameter
  \<open>dns\<close>: the \<open>n\<close>-th query may be answered differently from the one before (a rebinding name), so
  the guard threads the number of queries made.
\<close>

unbundle bit_operations_syntax

section \<open>IPv4\<close>

definition ipToLong :: "string \<Rightarrow> 32 word" where
  "ipToLong ip = foldl (\<lambda>a p. to_u32 (jadd (int_num (sint (push_bit 8 a))) (str_num p))) 0 (split_on (CHR ''.'') ip)"

definition v4InCidr :: "string \<Rightarrow> string \<Rightarrow> nat \<Rightarrow> bool" where
  "v4InCidr ip base bits =
     (let mask = (if bits = 0 then 0 else push_bit (32 - bits) (NOT 0 :: 32 word))
      in ipToLong ip AND mask = ipToLong base AND mask)"

definition isPrivateV4 :: "string \<Rightarrow> bool" where
  "isPrivateV4 ip =
     (v4InCidr ip ''0.0.0.0'' 8 \<or>
      v4InCidr ip ''10.0.0.0'' 8 \<or>
      v4InCidr ip ''100.64.0.0'' 10 \<or>
      v4InCidr ip ''127.0.0.0'' 8 \<or>
      v4InCidr ip ''169.254.0.0'' 16 \<or>
      v4InCidr ip ''172.16.0.0'' 12 \<or>
      v4InCidr ip ''192.0.0.0'' 24 \<or>
      v4InCidr ip ''192.0.2.0'' 24 \<or>
      v4InCidr ip ''192.168.0.0'' 16 \<or>
      v4InCidr ip ''198.18.0.0'' 15 \<or>
      v4InCidr ip ''198.51.100.0'' 24 \<or>
      v4InCidr ip ''203.0.113.0'' 24 \<or>
      v4InCidr ip ''224.0.0.0'' 4 \<or>
      v4InCidr ip ''240.0.0.0'' 4)"

section \<open>IPv6\<close>

text \<open>\<open>x.split('::')\<close>.\<close>

fun split_cc :: "string \<Rightarrow> string list" where
  "split_cc [] = [[]]"
| "split_cc [c] = [[c]]"
| "split_cc (c # d # s) = (if c = CHR '':'' \<and> d = CHR '':'' then [] # split_cc s
     else (case split_cc (d # s) of [] \<Rightarrow> [[c]] | p # ps \<Rightarrow> (c # p) # ps))"

text \<open>\<open>s.replace(/^\[|\]$/g, '')\<close>.\<close>

definition strip_brackets :: "string \<Rightarrow> string" where
  "strip_brackets s =
     (let s1 = (if take 1 s = ''['' then drop 1 s else s)
      in if s1 \<noteq> [] \<and> last s1 = CHR '']'' then butlast s1 else s1)"

text \<open>The text after the last colon, when there is one, and what is before it (colon included).\<close>

definition after_colon :: "string \<Rightarrow> string" where
  "after_colon x = rev (takeWhile (\<lambda>c. c \<noteq> CHR '':'') (rev x))"

definition upto_colon :: "string \<Rightarrow> string" where
  "upto_colon x = rev (dropWhile (\<lambda>c. c \<noteq> CHR '':'') (rev x))"

text \<open>\<open>/:(\d{1,3}\.\d{1,3}\.\d{1,3}\.\d{1,3})$/\<close>: the four pieces of a dotted tail.\<close>

definition dotted_tail :: "string \<Rightarrow> string list option" where
  "dotted_tail x =
     (let ps = split_on (CHR ''.'') (after_colon x)
      in if CHR '':'' \<in> set x \<and> length ps = 4 \<and> list_all (\<lambda>p. p \<noteq> [] \<and> length p \<le> 3 \<and> list_all is_digit p) ps
         then Some ps else None)"

text \<open>\<open>parseInt(s, 16)\<close>, \<open>None\<close> for \<open>NaN\<close>.\<close>

definition parse_int16 :: "string \<Rightarrow> int option" where
  "parse_int16 s0 =
     (let s1 = dropWhile is_space s0;
          s2 = (if take 1 s1 \<in> {''-'', ''+''} then drop 1 s1 else s1);
          s3 = (if take 2 s2 \<in> {''0x'', ''0X''} then drop 2 s2 else s2);
          ds = takeWhile (\<lambda>c. hex_val c \<noteq> None) s3;
          v = int (digits_value 16 (map (\<lambda>c. the (hex_val c)) ds))
      in if ds = [] then None else Some (if take 1 s1 = ''-'' then - v else v))"

definition hextet :: "string \<Rightarrow> int option" where
  "hextet h = (if h = [] then Some 0 else parse_int16 h)"

text \<open>A dotted tail is first rewritten as two hextets in hexadecimal.\<close>

definition undot :: "string \<Rightarrow> string option" where
  "undot x = (case dotted_tail x of
       None \<Rightarrow> Some x
     | Some ps \<Rightarrow>
         let os = map (\<lambda>p. digits_value 10 (map digit_val p)) ps
         in if list_ex (\<lambda>n. 255 < n) os then None
            else Some (upto_colon x @ radix_str 16 (push_bit 8 (os ! 0) OR os ! 1) @ '':'' @ radix_str 16 (push_bit 8 (os ! 2) OR os ! 3)))"

definition colon_parts :: "string \<Rightarrow> string list" where
  "colon_parts s = (if s = [] then [] else split_on (CHR '':'') s)"

definition hextet_texts :: "string \<Rightarrow> string list option" where
  "hextet_texts x = (case split_cc x of
       [h] \<Rightarrow> Some (colon_parts h)
     | [h, t] \<Rightarrow>
         if 8 < length (colon_parts h) + length (colon_parts t) then None
         else Some (colon_parts h @ replicate (8 - length (colon_parts h) - length (colon_parts t)) ''0'' @ colon_parts t)
     | _ \<Rightarrow> None)"

definition expandV6 :: "string \<Rightarrow> nat list option" where
  "expandV6 ip =
     (case undot (takeWhile (\<lambda>c. c \<noteq> CHR ''%'') (strip_brackets (toLowerCase ip))) of
        None \<Rightarrow> None
      | Some x \<Rightarrow>
          (case hextet_texts x of
             None \<Rightarrow> None
           | Some hs \<Rightarrow>
               if length hs \<noteq> 8 then None
               else let nums = map hextet hs
                 in if list_ex (\<lambda>n. case n of None \<Rightarrow> True | Some i \<Rightarrow> i < 0 \<or> 0xffff < i) nums then None
                    else Some (map (\<lambda>n. nat (the n)) nums)))"

definition starts_with :: "string \<Rightarrow> string \<Rightarrow> bool" where
  "starts_with p s = (take (length p) s = p)"

definition dotted :: "nat \<Rightarrow> nat \<Rightarrow> nat \<Rightarrow> nat \<Rightarrow> string" where
  "dotted a b c d = nat_str a @ ''.'' @ nat_str b @ ''.'' @ nat_str c @ ''.'' @ nat_str d"

definition isPrivateV6 :: "string \<Rightarrow> bool" where
  "isPrivateV6 ip =
     (case expandV6 ip of
        None \<Rightarrow> (let x = toLowerCase ip
          in x = ''::1'' \<or> x = ''::'' \<or> starts_with ''fe80'' x \<or> starts_with ''fc'' x \<or> starts_with ''fd'' x)
      | Some h \<Rightarrow>
          if h = [0, 0, 0, 0, 0, 0, 0, 1] then True
          else if list_all (\<lambda>n. n = 0) h then True
          else if (h ! 0) AND 0xffc0 = 0xfe80 then True
          else if (h ! 0) AND 0xfe00 = 0xfc00 then True
          else if 0xff00 \<le> h ! 0 then True
          else if h ! 0 = 0 \<and> h ! 1 = 0 \<and> h ! 2 = 0 \<and> h ! 3 = 0 \<and> h ! 4 = 0 \<and> (h ! 5 = 0xffff \<or> h ! 5 = 0)
          then isPrivateV4 (dotted (drop_bit 8 (h ! 6)) (h ! 6 AND 0xff) (drop_bit 8 (h ! 7)) (h ! 7 AND 0xff))
          else False)"

section \<open>Literals\<close>

text \<open>\<open>net.isIPv4\<close>: four decimal octets without leading zeros.\<close>

definition octet_text :: "string \<Rightarrow> bool" where
  "octet_text p = (p \<noteq> [] \<and> length p \<le> 3 \<and> list_all is_digit p \<and> (length p = 1 \<or> hd p \<noteq> CHR ''0'') \<and>
     digits_value 10 (map digit_val p) \<le> 255)"

definition isIPv4 :: "string \<Rightarrow> bool" where
  "isIPv4 s = (let ps = split_on (CHR ''.'') s in length ps = 4 \<and> list_all octet_text ps)"

text \<open>
  \<open>net.isIPv6\<close>: groups of one to four hexadecimal digits, the last two of the eight possibly as an
  IPv4 literal, at most one \<open>::\<close> standing for at least one group, and an optional zone.
\<close>

definition group_text :: "string \<Rightarrow> bool" where
  "group_text p = (p \<noteq> [] \<and> length p \<le> 4 \<and> list_all (\<lambda>c. hex_val c \<noteq> None) p)"

definition groups :: "string list \<Rightarrow> nat option" where
  "groups ps = (if list_all group_text ps then Some (length ps)
     else if ps \<noteq> [] \<and> list_all group_text (butlast ps) \<and> isIPv4 (last ps) then Some (Suc (length ps)) else None)"

definition zone_text :: "string \<Rightarrow> bool" where
  "zone_text z = (z \<noteq> [] \<and> list_all (\<lambda>c. is_digit c \<or> is_lower c \<or> is_upper c \<or> c \<in> {CHR ''-'', CHR ''.'', CHR '':''}) z)"

definition isIPv6 :: "string \<Rightarrow> bool" where
  "isIPv6 s =
     (let body = takeWhile (\<lambda>c. c \<noteq> CHR ''%'') s; rest = dropWhile (\<lambda>c. c \<noteq> CHR ''%'') s
      in (rest = [] \<or> zone_text (tl rest)) \<and>
         (case split_cc body of
            [h] \<Rightarrow> groups (split_on (CHR '':'') h) = Some 8
          | [h, t] \<Rightarrow> list_all group_text (colon_parts h) \<and>
              (case groups (colon_parts t) of None \<Rightarrow> False | Some n \<Rightarrow> length (colon_parts h) + n \<le> 7)
          | _ \<Rightarrow> False))"

definition isIP :: "string \<Rightarrow> nat" where
  "isIP s = (if isIPv4 s then 4 else if isIPv6 s then 6 else 0)"

definition isPrivateIp :: "string \<Rightarrow> bool" where
  "isPrivateIp ip =
     (if isIP ip = 4 then isPrivateV4 ip
      else if isIP ip = 6 then isPrivateV6 ip
      else if CHR '':'' \<in> set ip then isPrivateV6 ip else isPrivateV4 ip)"

definition isIpLiteral :: "string \<Rightarrow> bool" where
  "isIpLiteral h = (isIP h \<noteq> 0)"

section \<open>Hosts\<close>

type_synonym resolver = "nat \<Rightarrow> string \<Rightarrow> string list res"

definition ends_with :: "string \<Rightarrow> string \<Rightarrow> bool" where
  "ends_with p s = (length p \<le> length s \<and> drop (length s - length p) s = p)"

definition local_name :: "string \<Rightarrow> bool" where
  "local_name h = (h = [] \<or> h = ''localhost'' \<or> ends_with ''.localhost'' h \<or> ends_with ''.internal'' h \<or> ends_with ''.local'' h)"

definition assertPublicHost :: "resolver \<Rightarrow> string \<Rightarrow> nat \<Rightarrow> string list res \<times> nat" where
  "assertPublicHost dns host n =
     (let h = strip_brackets host
      in if local_name h then (Inl (Err 0 ''blocked-local-name''), n)
         else if isIpLiteral h
         then (if isPrivateIp h then (Inl (Err 0 ''blocked-private-ip''), n) else (Inr [h], n))
         else (case dns n h of
             Inl e \<Rightarrow> (Inl e, Suc n)
           | Inr addrs \<Rightarrow>
               if addrs = [] then (Inl (Err 0 ''blocked-no-dns''), Suc n)
               else if list_ex isPrivateIp addrs then (Inl (Err 0 ''blocked-private-address''), Suc n)
               else (Inr addrs, Suc n)))"

section \<open>The IPv4 ranges\<close>

lemma str_num_nat_str:
  assumes "n < 2 ^ 53"
  shows "str_num (nat_str n) = nat_num n"
proof -
  have d: "\<forall>c \<in> set (nat_str n). is_digit c" using nat_str_digits_mem by blast
  have "is_digit (hd (nat_str n))" by (rule nat_str_digits_mem [of _ n]) simp
  then have "str_num (nat_str n) = str_unsigned (nat_str n)"
    using d by (intro str_num_unsigned) (auto simp: num_char_def)
  also have "\<dots> = fl (of_nat n)"
  proof -
    have tw: "takeWhile is_digit (nat_str n) = nat_str n" "dropWhile is_digit (nat_str n) = []"
      using d by (simp_all add: dropWhile_eq_Nil_conv takeWhile_eq_all_conv)
    have "nat_str n \<noteq> ''Infinity''"
      using d by (auto simp: is_digit_def less_eq_char_def dest!: bspec [of _ _ "CHR ''I''"])
    then show ?thesis
      by (simp add: str_unsigned_def Let_def str_exponent_def nat_str_value pow10_def tw)
  qed
  finally show ?thesis using fl_nat [OF assms] by simp
qed

lemma nat_str_no_dot: "CHR ''.'' \<notin> set (nat_str n)" "CHR '':'' \<notin> set (nat_str n)"
  using nat_str_digits_mem [of _ n] by (force simp: is_digit_def less_eq_char_def)+

lemma split_dotted: "split_on (CHR ''.'') (dotted a b c d) = [nat_str a, nat_str b, nat_str c, nat_str d]"
  by (simp add: dotted_def split_on_append split_on_clean nat_str_no_dot)

lemma octet_step:
  assumes "n < 256"
  shows "to_u32 (jadd (int_num (sint (push_bit 8 (a :: 32 word)))) (str_num (nat_str n))) = push_bit 8 a + of_nat n"
proof -
  have "sint (push_bit 8 a) < 2 ^ 31" "- (2 ^ 31) \<le> sint (push_bit 8 a)"
    using sint_lt [of "push_bit 8 a"] sint_ge [of "push_bit 8 a"] by simp_all
  then have s: "\<bar>sint (push_bit 8 a) + int n\<bar> < 2 ^ 53" using assms by simp
  have "str_num (nat_str n) = int_num (int n)" using str_num_nat_str [of n] assms by simp
  then have "jadd (int_num (sint (push_bit 8 a))) (str_num (nat_str n)) = int_num (sint (push_bit 8 a) + int n)"
    using jadd_int [OF s] by simp
  moreover have "trunc_rat (of_int (sint (push_bit 8 a) + int n)) = sint (push_bit 8 a) + int n"
    unfolding trunc_rat_def of_int_minus [symmetric] floor_of_int by simp
  ultimately show ?thesis by simp
qed

definition quad :: "nat \<Rightarrow> nat \<Rightarrow> nat \<Rightarrow> nat \<Rightarrow> nat" where
  "quad a b c d = ((a * 256 + b) * 256 + c) * 256 + d"

lemma quad_bound: "a < 256 \<Longrightarrow> b < 256 \<Longrightarrow> c < 256 \<Longrightarrow> d < 256 \<Longrightarrow> quad a b c d < 2 ^ 32"
  by (simp add: quad_def)

lemma ipToLong_dotted:
  assumes "a < 256" "b < 256" "c < 256" "d < 256"
  shows "ipToLong (dotted a b c d) = of_nat (quad a b c d)"
  unfolding ipToLong_def split_dotted foldl_Cons foldl_Nil octet_step [OF assms(1)] octet_step [OF assms(2)]
    octet_step [OF assms(3)] octet_step [OF assms(4)]
  by (simp add: quad_def push_bit_eq_mult)

lemma unat_ip: "a < 256 \<Longrightarrow> b < 256 \<Longrightarrow> c < 256 \<Longrightarrow> d < 256 \<Longrightarrow> unat (ipToLong (dotted a b c d)) = quad a b c d"
  using quad_bound by (simp add: ipToLong_dotted unat_of_nat)

text \<open>Masking the low bits away compares the quotients.\<close>

lemma mask_eq_iff:
  fixes x y :: "32 word"
  assumes "k \<le> 32"
  shows "x AND push_bit k (NOT 0) = y AND push_bit k (NOT 0) \<longleftrightarrow> unat x div 2 ^ k = unat y div 2 ^ k"
proof -
  have "z AND push_bit k (NOT 0) = push_bit k (drop_bit k z)" for z :: "32 word"
    by (rule bit_eqI) (auto simp: bit_simps)
  moreover have "push_bit k (drop_bit k x) = push_bit k (drop_bit k y) \<longleftrightarrow> drop_bit k x = drop_bit k y"
  proof
    assume "push_bit k (drop_bit k x) = push_bit k (drop_bit k y)"
    then have "drop_bit k (push_bit k (drop_bit k x)) = drop_bit k (push_bit k (drop_bit k y))" by simp
    moreover have "drop_bit k (push_bit k (drop_bit k z)) = drop_bit k z" for z :: "32 word"
      by (rule bit_eqI) (auto simp: bit_simps dest: bit_imp_le_length)
    ultimately show "drop_bit k x = drop_bit k y" by simp
  qed simp
  moreover have "drop_bit k x = drop_bit k y \<longleftrightarrow> unat (drop_bit k x) = unat (drop_bit k y)" by (rule word_unat_eq_iff)
  moreover have "unat (drop_bit k z) = unat z div 2 ^ k" for z :: "32 word"
  proof -
    have "unat z < 2 ^ 32" using unsigned_less [of z, where ?'a = nat] by simp
    then show ?thesis by (simp only: unsigned_drop_bit_eq) (simp add: drop_bit_eq_div take_bit_nat_eq_self)
  qed
  ultimately show ?thesis by simp
qed

lemma v4InCidr_iff:
  assumes "a < 256" "b < 256" "c < 256" "d < 256" "e < 256" "f < 256" "g < 256" "h < 256" "0 < bits" "bits \<le> 32"
  shows "v4InCidr (dotted a b c d) (dotted e f g h) bits \<longleftrightarrow>
    quad a b c d div 2 ^ (32 - bits) = quad e f g h div 2 ^ (32 - bits)"
  using assms mask_eq_iff [of "32 - bits" "ipToLong (dotted a b c d)" "ipToLong (dotted e f g h)"]
  by (simp add: v4InCidr_def unat_ip)

text \<open>The quotients in terms of the octets.\<close>

lemma quad_div:
  assumes "b < 256" "c < 256" "d < 256"
  shows "quad a b c d div 2 ^ (32 - 4) = a div 16" "quad a b c d div 2 ^ (32 - 8) = a"
    "quad a b c d div 2 ^ (32 - 10) = a * 4 + b div 64" "quad a b c d div 2 ^ (32 - 12) = a * 16 + b div 16"
    "quad a b c d div 2 ^ (32 - 15) = a * 128 + b div 2" "quad a b c d div 2 ^ (32 - 16) = a * 256 + b"
    "quad a b c d div 2 ^ (32 - 24) = (a * 256 + b) * 256 + c"
  using assms by (simp_all add: quad_def)

text \<open>The blocks of the guard as ranges of octets.\<close>

definition private_range :: "nat \<Rightarrow> nat \<Rightarrow> nat \<Rightarrow> bool" where
  "private_range a b c =
     (a = 0 \<or> a = 10 \<or> (a = 100 \<and> 64 \<le> b \<and> b \<le> 127) \<or> a = 127 \<or> (a = 169 \<and> b = 254) \<or>
      (a = 172 \<and> 16 \<le> b \<and> b \<le> 31) \<or> (a = 192 \<and> b = 0 \<and> c = 0) \<or> (a = 192 \<and> b = 0 \<and> c = 2) \<or>
      (a = 192 \<and> b = 168) \<or> (a = 198 \<and> (b = 18 \<or> b = 19)) \<or> (a = 198 \<and> b = 51 \<and> c = 100) \<or>
      (a = 203 \<and> b = 0 \<and> c = 113) \<or> 224 \<le> a)"

lemma base_texts:
  "''0.0.0.0'' = dotted 0 0 0 0" "''10.0.0.0'' = dotted 10 0 0 0" "''100.64.0.0'' = dotted 100 64 0 0"
  "''127.0.0.0'' = dotted 127 0 0 0" "''169.254.0.0'' = dotted 169 254 0 0" "''172.16.0.0'' = dotted 172 16 0 0"
  "''192.0.0.0'' = dotted 192 0 0 0" "''192.0.2.0'' = dotted 192 0 2 0" "''192.168.0.0'' = dotted 192 168 0 0"
  "''198.18.0.0'' = dotted 198 18 0 0" "''198.51.100.0'' = dotted 198 51 100 0" "''203.0.113.0'' = dotted 203 0 113 0"
  "''224.0.0.0'' = dotted 224 0 0 0" "''240.0.0.0'' = dotted 240 0 0 0"
  by (simp_all add: dotted_def radix_str_def digits_of.simps digit_char_def)

lemma isPrivateV4_bases:
  "isPrivateV4 ip = (v4InCidr ip (dotted 0 0 0 0) 8 \<or> v4InCidr ip (dotted 10 0 0 0) 8 \<or> v4InCidr ip (dotted 100 64 0 0) 10 \<or>
     v4InCidr ip (dotted 127 0 0 0) 8 \<or> v4InCidr ip (dotted 169 254 0 0) 16 \<or> v4InCidr ip (dotted 172 16 0 0) 12 \<or>
     v4InCidr ip (dotted 192 0 0 0) 24 \<or> v4InCidr ip (dotted 192 0 2 0) 24 \<or> v4InCidr ip (dotted 192 168 0 0) 16 \<or>
     v4InCidr ip (dotted 198 18 0 0) 15 \<or> v4InCidr ip (dotted 198 51 100 0) 24 \<or> v4InCidr ip (dotted 203 0 113 0) 24 \<or>
     v4InCidr ip (dotted 224 0 0 0) 4 \<or> v4InCidr ip (dotted 240 0 0 0) 4)"
  unfolding base_texts [symmetric] by (rule isPrivateV4_def)

lemma pair_eq:
  fixes n :: nat
  assumes "r < n" "s < n"
  shows "x * n + r = y * n + s \<longleftrightarrow> x = y \<and> r = s"
proof
  assume e: "x * n + r = y * n + s"
  have "(x * n + r) div n = x" "(x * n + r) mod n = r" "(y * n + s) div n = y" "(y * n + s) mod n = s"
    using assms by simp_all
  then show "x = y \<and> r = s" using e by metis
qed simp

lemma isPrivateV4_range:
  assumes "a < 256" "b < 256" "c < 256" "d < 256"
  shows "isPrivateV4 (dotted a b c d) = private_range a b c"
proof -
  note p = quad_div [OF assms(2,3,4)]
  have cidr: "v4InCidr (dotted a b c d) (dotted e f g 0) bits \<longleftrightarrow> quad a b c d div 2 ^ (32 - bits) = quad e f g 0 div 2 ^ (32 - bits)"
    if "e < 256" "f < 256" "g < 256" "0 < bits" "bits \<le> 32" for e f g bits
    by (rule v4InCidr_iff) (use that assms in simp_all)
  have z: "(0::nat) < 256" "64 < (256::nat)" "16 < (256::nat)" "18 < (256::nat)" by simp_all
  have b8: "v4InCidr (dotted a b c d) (dotted e 0 0 0) 8 \<longleftrightarrow> a = e" if "e < 256" for e
    using cidr [OF that z(1) z(1), of 8] unfolding p quad_div [OF z(1) z(1) z(1)] by simp
  have b4: "v4InCidr (dotted a b c d) (dotted e 0 0 0) 4 \<longleftrightarrow> a div 16 = e div 16" if "e < 256" for e
    using cidr [OF that z(1) z(1), of 4] unfolding p quad_div [OF z(1) z(1) z(1)] by simp
  have b16: "v4InCidr (dotted a b c d) (dotted e f 0 0) 16 \<longleftrightarrow> a = e \<and> b = f" if "e < 256" "f < 256" for e f
    using cidr [OF that z(1), of 16] unfolding p quad_div [OF that(2) z(1) z(1)] pair_eq [OF assms(2) that(2)] by simp
  have b24: "v4InCidr (dotted a b c d) (dotted e f g 0) 24 \<longleftrightarrow> a = e \<and> b = f \<and> c = g" if "e < 256" "f < 256" "g < 256" for e f g
    using cidr [OF that, of 24] unfolding p quad_div [OF that(2,3) z(1)] pair_eq [OF assms(3) that(3)] pair_eq [OF assms(2) that(2)]
    by simp
  have lt: "b div 64 < 4" "b div 16 < 16" "b div 2 < 128" using assms(2) by (simp_all add: div_less_iff_less_mult)
  have pr: "x * 4 + b div 64 = y * 4 + 1 \<longleftrightarrow> x = y \<and> b div 64 = 1" "x * 16 + b div 16 = y * 16 + 1 \<longleftrightarrow> x = y \<and> b div 16 = 1"
    "x * 128 + b div 2 = y * 128 + 9 \<longleftrightarrow> x = y \<and> b div 2 = 9" for x y
    by (rule pair_eq [OF lt(1)], simp) (rule pair_eq [OF lt(2)], simp, rule pair_eq [OF lt(3)], simp)
  have k: "(64::nat) div 64 = 1" "(16::nat) div 16 = 1" "(18::nat) div 2 = 9" by simp_all
  have b10: "v4InCidr (dotted a b c d) (dotted 100 64 0 0) 10 \<longleftrightarrow> a = 100 \<and> b div 64 = 1"
    using cidr [OF _ z(2) z(1), of 100 10] unfolding p quad_div [OF z(2) z(1) z(1)] k pr(1) by simp
  have b12: "v4InCidr (dotted a b c d) (dotted 172 16 0 0) 12 \<longleftrightarrow> a = 172 \<and> b div 16 = 1"
    using cidr [OF _ z(3) z(1), of 172 12] unfolding p quad_div [OF z(3) z(1) z(1)] k pr(2) by simp
  have b15: "v4InCidr (dotted a b c d) (dotted 198 18 0 0) 15 \<longleftrightarrow> a = 198 \<and> b div 2 = 9"
    using cidr [OF _ z(4) z(1), of 198 15] unfolding p quad_div [OF z(4) z(1) z(1)] k pr(3) by simp
  have ranges: "a div 16 = 14 \<or> a div 16 = 15 \<longleftrightarrow> 224 \<le> a" "b div 64 = 1 \<longleftrightarrow> 64 \<le> b \<and> b \<le> 127"
    "b div 16 = 1 \<longleftrightarrow> 16 \<le> b \<and> b \<le> 31" "b div 2 = 9 \<longleftrightarrow> b = 18 \<or> b = 19"
  proof -
    show "a div 16 = 14 \<or> a div 16 = 15 \<longleftrightarrow> 224 \<le> a" using assms(1) by linarith
    show "b div 64 = 1 \<longleftrightarrow> 64 \<le> b \<and> b \<le> 127" by linarith
    show "b div 16 = 1 \<longleftrightarrow> 16 \<le> b \<and> b \<le> 31" by linarith
    show "b div 2 = 9 \<longleftrightarrow> b = 18 \<or> b = 19" by linarith
  qed
  have e8: "v4InCidr (dotted a b c d) (dotted 0 0 0 0) 8 \<longleftrightarrow> a = 0" "v4InCidr (dotted a b c d) (dotted 10 0 0 0) 8 \<longleftrightarrow> a = 10"
    "v4InCidr (dotted a b c d) (dotted 127 0 0 0) 8 \<longleftrightarrow> a = 127"
    by (rule b8, simp)+
  have e16: "v4InCidr (dotted a b c d) (dotted 169 254 0 0) 16 \<longleftrightarrow> a = 169 \<and> b = 254"
    "v4InCidr (dotted a b c d) (dotted 192 168 0 0) 16 \<longleftrightarrow> a = 192 \<and> b = 168"
    by (rule b16; simp)+
  have e24: "v4InCidr (dotted a b c d) (dotted 192 0 0 0) 24 \<longleftrightarrow> a = 192 \<and> b = 0 \<and> c = 0"
    "v4InCidr (dotted a b c d) (dotted 192 0 2 0) 24 \<longleftrightarrow> a = 192 \<and> b = 0 \<and> c = 2"
    "v4InCidr (dotted a b c d) (dotted 198 51 100 0) 24 \<longleftrightarrow> a = 198 \<and> b = 51 \<and> c = 100"
    "v4InCidr (dotted a b c d) (dotted 203 0 113 0) 24 \<longleftrightarrow> a = 203 \<and> b = 0 \<and> c = 113"
    by (rule b24; simp)+
  have "(224::nat) div 16 = 14" "(240::nat) div 16 = 15" by simp_all
  then have e4: "v4InCidr (dotted a b c d) (dotted 224 0 0 0) 4 \<longleftrightarrow> a div 16 = 14" "v4InCidr (dotted a b c d) (dotted 240 0 0 0) 4 \<longleftrightarrow> a div 16 = 15"
    using b4 [of 224] b4 [of 240] by simp_all
  show ?thesis
    unfolding isPrivateV4_bases e8 e16 e24 e4 b10 b12 b15 private_range_def ranges by (rule refl)
qed

text \<open>C39. On every dotted IPv4 address the guard, which compares masked 32-bit words built from the text, blocks
  exactly the loopback, private, carrier, link-local (with the metadata address), documentation,
  benchmarking, multicast and reserved ranges, octet by octet.\<close>

theorem isPrivateV4_iff_range:
  assumes "a < 256" "b < 256" "c < 256" "d < 256"
  shows "isPrivateV4 (dotted a b c d) \<longleftrightarrow> private_range a b c"
  by (rule isPrivateV4_range [OF assms])

theorem isPrivateV4_iff_range_witness:
  "isPrivateV4 (dotted 169 254 169 254) \<and> \<not> isPrivateV4 (dotted 8 8 8 8)"
  using isPrivateV4_iff_range [of 169 254 169 254] isPrivateV4_iff_range [of 8 8 8 8]
  by (simp add: private_range_def)

section \<open>Embedded IPv4 addresses\<close>

lemma replicate_number [simp]: "replicate (numeral k) x = x # replicate (pred_numeral k) x"
  by (simp add: numeral_eq_Suc)

lemmas v6_eval = expandV6_def undot_def dotted_tail_def after_colon_def upto_colon_def hextet_texts_def colon_parts_def
  strip_brackets_def lower_char_def is_upper_def is_digit_def digit_val_def hex_val_def less_eq_char_def parse_int16_def hextet_def
  digits_value_def radix_str_def digits_of_small digits_of_step digit_char_def is_space_def Let_def list_ex_iff

lemma low_byte: "(x :: nat) AND 0xff = x mod 256"
proof -
  have "mask 8 = (0xff :: nat)" by (simp add: mask_eq_exp_minus_1)
  then have "x AND 0xff = take_bit 8 x" by (simp only: take_bit_eq_mask)
  then show ?thesis by (simp add: take_bit_eq_mod)
qed

text \<open>An IPv6 text in the v4-mapped or v4-compatible block, however it is spelled, is blocked exactly when the
  IPv4 address it embeds is in a blocked range (the loopback and the unspecified address among them).\<close>

theorem mapped_v4_guarded:
  assumes "expandV6 s = Some [0, 0, 0, 0, 0, f, x, y]" "f = 0 \<or> f = 0xffff" "x < 65536" "y < 65536"
  shows "isPrivateV6 s \<longleftrightarrow> private_range (x div 256) (x mod 256) (y div 256)"
proof -
  define a b c d where "a = x div 256" and "b = x mod 256" and "c = y div 256" and "d = y mod 256"
  have bd: "a < 256" "b < 256" "c < 256" "d < 256"
    using assms(3,4) by (simp_all add: a_def b_def c_def d_def div_less_iff_less_mult)
  have dr: "drop_bit 8 x = a" "drop_bit 8 y = c" "x AND 0xff = b" "y AND 0xff = d"
    unfolding low_byte a_def b_def c_def d_def by (simp_all add: drop_bit_eq_div)
  have v: "isPrivateV6 s \<longleftrightarrow> (f = 0 \<and> x = 0 \<and> (y = 0 \<or> y = 1)) \<or> isPrivateV4 (dotted a b c d)"
    unfolding isPrivateV6_def assms(1) option.case using assms(2) by (elim disjE) (simp_all add: dr)
  have "private_range a b c" if "x = 0" using that by (simp add: private_range_def a_def)
  then have "isPrivateV6 s \<longleftrightarrow> private_range a b c"
    unfolding v isPrivateV4_range [OF bd] by blast
  then show ?thesis by (simp only: a_def b_def c_def)
qed

lemma metadata_tail: "dotted_tail ''::ffff:169.254.169.254'' = Some [''169'', ''254'', ''169'', ''254'']"
  by (simp add: dotted_tail_def after_colon_def is_digit_def less_eq_char_def)
lemma metadata_lower: "toLowerCase ''::ffff:169.254.169.254'' = ''::ffff:169.254.169.254''" 
  by (simp add: lower_char_def is_upper_def less_eq_char_def)
lemma metadata_hex: "radix_str 16 43518 = ''a9fe''"
  by (simp add: radix_str_def digits_of_small digits_of_step digit_char_def)
lemma metadata_undot: "undot ''::ffff:169.254.169.254'' = Some ''::ffff:a9fe:a9fe''"
  by (simp add: undot_def metadata_tail digits_value_def digit_val_def upto_colon_def metadata_hex)
lemma metadata_texts: "hextet_texts ''::ffff:a9fe:a9fe'' = Some [''0'',''0'',''0'',''0'',''0'',''ffff'',''a9fe'',''a9fe'']"
  by (simp add: hextet_texts_def colon_parts_def)
lemma metadata_hextet: "hextet ''a9fe'' = Some 43518"
  by (simp add: hextet_def parse_int16_def is_space_def hex_val_def is_digit_def digits_value_def digit_val_def less_eq_char_def)

lemma metadata_spellings:
  "expandV6 ''::ffff:169.254.169.254'' = Some [0, 0, 0, 0, 0, 0xffff, 43518, 43518]"
  "expandV6 ''[0:0:0:0:0:FFFF:a9fe:A9FE]'' = Some [0, 0, 0, 0, 0, 0xffff, 43518, 43518]"
proof -
  have h: "hextet ''0'' = Some 0" "hextet ''ffff'' = Some 65535"
    by (simp_all add: hextet_def parse_int16_def is_space_def hex_val_def is_digit_def digits_value_def digit_val_def less_eq_char_def)
  show "expandV6 ''::ffff:169.254.169.254'' = Some [0, 0, 0, 0, 0, 0xffff, 43518, 43518]"
    unfolding expandV6_def metadata_lower
    by (simp add: strip_brackets_def metadata_undot metadata_texts metadata_hextet h)
  have l: "toLowerCase ''[0:0:0:0:0:FFFF:a9fe:A9FE]'' = ''[0:0:0:0:0:ffff:a9fe:a9fe]''"
    by code_simp
  have t: "undot ''0:0:0:0:0:ffff:a9fe:a9fe'' = Some ''0:0:0:0:0:ffff:a9fe:a9fe''"
    by (simp add: undot_def dotted_tail_def after_colon_def)
  have x: "hextet_texts ''0:0:0:0:0:ffff:a9fe:a9fe'' = Some [''0'', ''0'', ''0'', ''0'', ''0'', ''ffff'', ''a9fe'', ''a9fe'']"
    by (simp add: hextet_texts_def colon_parts_def)
  show "expandV6 ''[0:0:0:0:0:FFFF:a9fe:A9FE]'' = Some [0, 0, 0, 0, 0, 0xffff, 43518, 43518]"
    unfolding expandV6_def l by (simp add: strip_brackets_def t x metadata_hextet h)
qed

theorem mapped_v4_guarded_witness:
  "isPrivateV6 ''::ffff:169.254.169.254'' \<and> isPrivateV6 ''[0:0:0:0:0:FFFF:a9fe:A9FE]''"
  using mapped_v4_guarded [OF metadata_spellings(1)] mapped_v4_guarded [OF metadata_spellings(2)]
  by (simp add: private_range_def)

text \<open>The guard looks for an embedded IPv4 address in the mapped and compatible blocks only: the NAT64 and 6to4
  spellings of the loopback address are accepted as public hosts.\<close>

theorem nat64_spelling_passes:
  "assertPublicHost dns ''64:ff9b::7f00:1'' n = (Inr [''64:ff9b::7f00:1''], n) \<and>
   assertPublicHost dns ''2002:7f00:1::'' n = (Inr [''2002:7f00:1::''], n)"
proof -
  have "\<not> local_name ''64:ff9b::7f00:1'' \<and> isIP ''64:ff9b::7f00:1'' = 6 \<and> \<not> isPrivateV6 ''64:ff9b::7f00:1'' \<and>
      strip_brackets ''64:ff9b::7f00:1'' = ''64:ff9b::7f00:1''"
    by (simp add: v6_eval local_name_def ends_with_def isIP_def isIPv4_def isIPv6_def groups_def group_text_def isPrivateV6_def starts_with_def)
  moreover have "\<not> local_name ''2002:7f00:1::'' \<and> isIP ''2002:7f00:1::'' = 6 \<and> \<not> isPrivateV6 ''2002:7f00:1::'' \<and>
      strip_brackets ''2002:7f00:1::'' = ''2002:7f00:1::''"
    by (simp add: v6_eval local_name_def ends_with_def isIP_def isIPv4_def isIPv6_def groups_def group_text_def isPrivateV6_def starts_with_def)
  ultimately show ?thesis by (simp add: assertPublicHost_def isPrivateIp_def isIpLiteral_def)
qed

section \<open>Vetted hosts\<close>

lemma assertPublicHost_vetted:
  assumes "assertPublicHost dns host n = (Inr addrs, m)"
  shows "addrs \<noteq> [] \<and> (\<forall>a \<in> set addrs. \<not> isPrivateIp a) \<and> \<not> local_name (strip_brackets host) \<and>
    (if isIpLiteral (strip_brackets host) then addrs = [strip_brackets host] \<and> m = n
     else dns n (strip_brackets host) = Inr addrs \<and> m = Suc n)"
  using assms
  by (auto simp: assertPublicHost_def Let_def list_ex_iff split: if_splits sum.splits)

end
