(* ===== verification/Egress.thy ===== *)
theory Egress
  imports Netguard Encoding
begin

text \<open>
  node-host/egress-proxy.js and its container entry point: the only way out of an untrusted agent.
  The URL parser is a parameter (\<open>hostname_of\<close> for \<open>new URL(url).hostname\<close>, \<open>authority\<close> for the
  host name and the port of \<open>https://\<close> and a CONNECT target; \<open>None\<close> when it throws, port \<open>None\<close>
  when it is the default one). What a connection does is the list of its actions; the resolver
  answers its \<open>n\<close>-th query as in \<open>Netguard\<close>.
\<close>

definition ALLOWED_PORT :: nat where
  "ALLOWED_PORT = 443"

definition normHost :: "string \<Rightarrow> string" where
  "normHost h = (let s = toLowerCase h
     in strip_brackets (if s \<noteq> [] \<and> last s = CHR ''.'' then butlast s else s))"

text \<open>The classes an agent declares, resolved to the hosts of the classes enabled on this node.\<close>

definition resolveEgressHosts :: "(jsval \<Rightarrow> string option) \<Rightarrow> string list \<Rightarrow> jsval \<Rightarrow> string list" where
  "resolveEgressHosts hostname_of classes endpoints =
     foldl (\<lambda>out c. let url = jopt endpoints c
       in if \<not> truthy url then out
          else case hostname_of url of
            None \<Rightarrow> out
          | Some h \<Rightarrow> if normHost h \<in> set out then out else out @ [normHost h]) [] classes"

datatype decision = Allow string | Deny string

definition egressDecision :: "resolver \<Rightarrow> string list \<Rightarrow> string \<Rightarrow> nat \<Rightarrow> decision \<times> nat" where
  "egressDecision dns allowedHosts host n =
     (let h = normHost host
      in if h = [] then (Deny ''no-host'', n)
         else if h \<notin> set (map normHost allowedHosts) then (Deny ''not-allowlisted'', n)
         else (case assertPublicHost dns h n of
             (Inr addrs, m) \<Rightarrow> (Allow (hd addrs), m)
           | (Inl e, m) \<Rightarrow> (Deny (err_code e), m)))"

datatype proxy_act =
    Event string string string
  | Write string
  | Destroy
  | Connect nat string
  | Forward bytes
  | Pipe
  | Respond nat string

definition crlf :: string where
  "crlf = [CHR 0x0D, CHR 0x0A]"

text \<open>A plain HTTP request is refused.\<close>

definition on_request :: "string \<Rightarrow> proxy_act list" where
  "on_request host = [Event ''deny'' host ''http-forward-disabled'', Respond 403 ''egress: plain HTTP disabled'']"

text \<open>A CONNECT request, up to the connection to the upstream, and what follows once it stands.\<close>

definition on_connect ::
  "(string \<Rightarrow> (string \<times> nat option) option) \<Rightarrow> resolver \<Rightarrow> string list \<Rightarrow> string \<Rightarrow> nat \<Rightarrow> proxy_act list \<times> nat" where
  "on_connect authority dns allowedHosts url n =
     (case authority url of
        None \<Rightarrow> ([Write (''HTTP/1.1 400 Bad Request'' @ crlf @ crlf), Destroy], n)
      | Some (host, p) \<Rightarrow>
          let port = (case p of None \<Rightarrow> 443 | Some q \<Rightarrow> q)
          in if port \<noteq> ALLOWED_PORT
             then ([Event ''deny'' host (''port-'' @ nat_str port), Write (''HTTP/1.1 403 Forbidden'' @ crlf @ crlf), Destroy], n)
             else (case egressDecision dns allowedHosts host n of
                 (Deny reason, m) \<Rightarrow> ([Event ''deny'' host reason, Write (''HTTP/1.1 403 Forbidden'' @ crlf @ crlf), Destroy], m)
               | (Allow ip, m) \<Rightarrow> ([Connect port ip], m)))"

definition on_established :: "string \<Rightarrow> string \<Rightarrow> bytes \<Rightarrow> proxy_act list" where
  "on_established host ip head =
     [Event ''allow'' host ip, Write (''HTTP/1.1 200 Connection Established'' @ crlf @ crlf), Forward head, Pipe]"

text \<open>The sidecar's configuration from its environment.\<close>

definition allowed_from_env :: "string \<Rightarrow> string list" where
  "allowed_from_env v = filter (\<lambda>s. s \<noteq> []) (map trim (split_on (CHR '','') v))"

section \<open>What gets out\<close>

lemma egressDecision_allow:
  assumes "egressDecision dns allowed host n = (Allow ip, m)"
  shows "normHost host \<in> normHost ` set allowed \<and> \<not> isPrivateIp ip \<and> \<not> local_name (strip_brackets (normHost host)) \<and>
    (if isIpLiteral (strip_brackets (normHost host)) then ip = strip_brackets (normHost host) \<and> m = n
     else (\<exists>addrs. dns n (strip_brackets (normHost host)) = Inr addrs \<and> ip = hd addrs \<and> m = Suc n))"
proof -
  obtain addrs where a: "normHost host \<in> set (map normHost allowed)" "assertPublicHost dns (normHost host) n = (Inr addrs, m)" "ip = hd addrs"
    using assms by (auto simp: egressDecision_def Let_def split: if_splits prod.splits sum.splits)
  from assertPublicHost_vetted [OF a(2)] a(1,3) show ?thesis
    by (cases addrs) (auto split: if_splits)
qed

lemma resolve_mem:
  "h \<in> set (resolveEgressHosts hostname_of classes endpoints) \<Longrightarrow>
   \<exists>c \<in> set classes. \<exists>u. truthy (jopt endpoints c) \<and> hostname_of (jopt endpoints c) = Some u \<and> h = normHost u"
proof -
  let ?step = "\<lambda>out c. let url = jopt endpoints c
       in if \<not> truthy url then out
          else case hostname_of url of
            None \<Rightarrow> out
          | Some h \<Rightarrow> if normHost h \<in> set out then out else out @ [normHost h]"
  have "h \<in> set (foldl ?step out cs) \<Longrightarrow> h \<in> set out \<or>
      (\<exists>c \<in> set cs. \<exists>u. truthy (jopt endpoints c) \<and> hostname_of (jopt endpoints c) = Some u \<and> h = normHost u)" for out cs
  proof (induction cs arbitrary: out)
    case (Cons c cs)
    from Cons.IH [OF Cons.prems [unfolded foldl_Cons]] show ?case
      by (auto simp: Let_def split: if_splits option.splits)
  qed simp
  then show "h \<in> set (resolveEgressHosts hostname_of classes endpoints) \<Longrightarrow> ?thesis"
    unfolding resolveEgressHosts_def by fastforce
qed

lemma allowed_from_env_join:
  assumes "\<forall>h \<in> set hosts. h \<noteq> [] \<and> trim h = h \<and> CHR '','' \<notin> set h"
  shows "allowed_from_env (join_on '','' hosts) = hosts"
proof (cases "hosts = []")
  case True
  then show ?thesis by (simp add: allowed_from_env_def trim_def)
next
  case False
  have "split_on (CHR '','') (join_on '','' hosts) = hosts"
    using assms False by (intro split_on_join) auto
  moreover have "map trim hosts = hosts" using assms by (simp add: map_idI)
  moreover have "filter (\<lambda>s. s \<noteq> []) hosts = hosts" using assms by (simp add: filter_id_conv)
  ultimately show ?thesis by (simp add: allowed_from_env_def)
qed

text \<open>C23. The sidecar opens a connection only to port 443 of an address it vetted: the target's host is that of
  an egress class the agent declares and this node enables (the allowlist having passed through the
  sidecar's environment), and the address connected to is the target itself, when it is a literal, or the first answer of
  the single DNS query made, all of whose answers were public; whatever later queries would answer.\<close>

theorem egress_only_to_vetted_hosts:
  assumes "hosts = resolveEgressHosts hostname_of classes endpoints"
    and "\<forall>h \<in> set hosts. h \<noteq> [] \<and> trim h = h \<and> CHR '','' \<notin> set h"
    and "on_connect authority dns (allowed_from_env (join_on '','' hosts)) url n = (acts, m)"
    and "Connect port ip \<in> set acts"
  shows "port = 443 \<and> \<not> isPrivateIp ip \<and> m \<le> Suc n \<and>
    (\<exists>host p c u. authority url = Some (host, p) \<and> c \<in> set classes \<and> hostname_of (jopt endpoints c) = Some u \<and>
       normHost host = normHost (normHost u) \<and>
       (ip = strip_brackets (normHost host) \<or> (\<exists>addrs. dns n (strip_brackets (normHost host)) = Inr addrs \<and> ip = hd addrs)))"
proof -
  have env: "allowed_from_env (join_on '','' hosts) = hosts" by (rule allowed_from_env_join [OF assms(2)])
  obtain host p where a: "authority url = Some (host, p)" "port = 443" "egressDecision dns hosts host n = (Allow ip, m)"
    using assms(3,4) by (auto simp: env on_connect_def Let_def ALLOWED_PORT_def split: option.splits if_splits prod.splits decision.splits)
  note d = egressDecision_allow [OF a(3)]
  obtain h where h: "h \<in> set hosts" "normHost host = normHost h" using d by blast
  obtain c u where c: "c \<in> set classes" "hostname_of (jopt endpoints c) = Some u" "h = normHost u"
    using resolve_mem [of h hostname_of classes endpoints] h(1) assms(1) by blast
  have ip: "(ip = strip_brackets (normHost host) \<or> (\<exists>addrs. dns n (strip_brackets (normHost host)) = Inr addrs \<and> ip = hd addrs)) \<and> m \<le> Suc n"
    using d by (auto split: if_splits)
  have "normHost host = normHost (normHost u)" using h(2) c(3) by simp
  then show ?thesis using a(1,2) c(1,2) ip d by blast
qed

lemma public_sample: "\<not> isPrivateIp ''8.8.8.8''"
proof -
  have d: "''8.8.8.8'' = dotted 8 8 8 8" by (simp add: dotted_def radix_str_def digits_of_small digit_char_def)
  have "isIP ''8.8.8.8'' = 4"
    by (simp add: isIP_def isIPv4_def octet_text_def is_digit_def less_eq_char_def digits_value_def digit_val_def)
  then show ?thesis unfolding isPrivateIp_def d using isPrivateV4_range [of 8 8 8 8] by (simp add: private_range_def)
qed

definition sample_dns :: resolver where
  "sample_dns n h = (if n = 0 then Inr [''8.8.8.8''] else Inr [''127.0.0.1''])"

definition sample_endpoints :: jsval where
  "sample_endpoints = JObj [(''llm'', JStr ''https://api.x'')]"

lemma sample_host: "normHost ''api.x'' = ''api.x''" "strip_brackets ''api.x'' = ''api.x''" "\<not> local_name ''api.x''" "\<not> isIpLiteral ''api.x''"
proof -
  show "normHost ''api.x'' = ''api.x''"
    by (simp add: normHost_def lower_char_def is_upper_def less_eq_char_def strip_brackets_def)
  show "strip_brackets ''api.x'' = ''api.x''" by (simp add: strip_brackets_def)
  show "\<not> local_name ''api.x''" by (simp add: local_name_def ends_with_def)
  show "\<not> isIpLiteral ''api.x''"
    by (simp add: isIpLiteral_def isIP_def isIPv4_def isIPv6_def groups_def group_text_def hex_val_def is_digit_def less_eq_char_def)
qed

lemma sample_resolved: "resolveEgressHosts (\<lambda>u. Some ''api.x'') [''llm'', ''gpu''] sample_endpoints = [''api.x'']"
  by (simp add: resolveEgressHosts_def sample_endpoints_def jopt_def inherited_def object_members_def sample_host)

theorem egress_only_to_vetted_hosts_witness:
  "on_connect (\<lambda>u. Some (''api.x'', None)) sample_dns (allowed_from_env (join_on '','' [''api.x''])) ''api.x:443'' 0 = ([Connect 443 ''8.8.8.8''], 1) \<and>
   \<not> isPrivateIp ''8.8.8.8''"
proof -
  have env: "allowed_from_env ''api.x'' = [''api.x'']"
    by (simp add: allowed_from_env_def trim_def is_space_def)
  have c: "on_connect (\<lambda>u. Some (''api.x'', None)) sample_dns (allowed_from_env (join_on '','' [''api.x''])) ''api.x:443'' 0 = ([Connect 443 ''8.8.8.8''], 1)"
    by (simp add: env on_connect_def ALLOWED_PORT_def egressDecision_def sample_host assertPublicHost_def sample_dns_def public_sample Let_def)
  have h: "\<forall>h \<in> set [''api.x'']. h \<noteq> [] \<and> trim h = h \<and> CHR '','' \<notin> set h"
    by (simp add: trim_def is_space_def)
  show ?thesis
    using egress_only_to_vetted_hosts [OF sample_resolved [symmetric] h c] c by simp
qed

end
