(* ===== verification/Bundle_Store.thy ===== *)
theory Bundle_Store
  imports Bundle Netguard
begin

text \<open>
  lib/bundle-store.js: the content-addressed store and the hardened pull. The store is two tables
  (tarballs and manifest texts) keyed by the digest. For the pull, the URL parser, the file system
  and the HTTP client are parameters collected in a record; the client is called with the address
  the connection is pinned to, and answers a status and the chunks of the body.
\<close>

record bundle_store =
  bs_tgz :: "(string, bytes) jmap"
  bs_man :: "(string, string) jmap"

definition empty_store :: bundle_store where
  "empty_store = \<lparr> bs_tgz = [], bs_man = [] \<rparr>"

definition store_has :: "string \<Rightarrow> bundle_store \<Rightarrow> bool" where
  "store_has sha s = map_has sha (bs_tgz s)"

definition store_put :: "crypto \<Rightarrow> bytes \<Rightarrow> jsval \<Rightarrow> bundle_store \<Rightarrow> string res \<times> bundle_store" where
  "store_put C bs manifest s =
     (let h = sha256hex_bytes C bs
      in case jget manifest ''sha256'' of
           Inl e \<Rightarrow> (Inl e, s)
         | Inr sha \<Rightarrow>
             if \<not> strict_eq (JStr h) sha then (Inl (Err 0 ''bytes-do-not-match''), s)
             else let s1 = s\<lparr> bs_tgz := map_set h bs (bs_tgz s) \<rparr>
               in (Inr h, s1\<lparr> bs_man := map_set h (case json_stringify manifest of Some t \<Rightarrow> t | None \<Rightarrow> ''undefined'') (bs_man s1) \<rparr>))"

definition getBytes :: "string \<Rightarrow> bundle_store \<Rightarrow> bytes res" where
  "getBytes sha s = (case map_get sha (bs_tgz s) of Some b \<Rightarrow> Inr b | None \<Rightarrow> Inl (Err 0 ''ENOENT''))"

text \<open>The text that \<open>getManifest\<close> parses.\<close>

definition getManifest :: "string \<Rightarrow> bundle_store \<Rightarrow> string res" where
  "getManifest sha s = (case map_get sha (bs_man s) of Some t \<Rightarrow> Inr t | None \<Rightarrow> Inl (Err 0 ''ENOENT''))"

section \<open>The pull\<close>

datatype http_reply = Http_Error | Http_Reply nat "bytes list"

record pull_env =
  pe_url :: "string \<Rightarrow> (string \<times> string) option"
  pe_dns :: resolver
  pe_get :: "string \<Rightarrow> string \<Rightarrow> http_reply"
  pe_realpath :: "string \<Rightarrow> string res"
  pe_size :: "string \<Rightarrow> nat res"
  pe_read :: "string \<Rightarrow> bytes res"

text \<open>\<open>/^[a-z]+:\/\//i\<close>.\<close>

definition has_scheme :: "string \<Rightarrow> bool" where
  "has_scheme url = (takeWhile (\<lambda>c. is_lower c \<or> is_upper c) url \<noteq> [] \<and>
     starts_with ''://'' (dropWhile (\<lambda>c. is_lower c \<or> is_upper c) url))"

text \<open>The body is taken chunk by chunk; the first chunk past the limit aborts.\<close>

fun collect :: "jsnum \<Rightarrow> bytes \<Rightarrow> bytes list \<Rightarrow> bytes res" where
  "collect maxBytes acc [] = Inr acc"
| "collect maxBytes acc (c # cs) =
     (if jlt maxBytes (nat_num (length acc + length c)) then Inl (Err 0 ''bundle-exceeds'') else collect maxBytes (acc @ c) cs)"

text \<open>The connection made is reported with the result: the URL and the address it is pinned to.\<close>

definition pull_remote :: "pull_env \<Rightarrow> jsnum \<Rightarrow> string \<Rightarrow> bytes res \<times> (string \<times> string) option" where
  "pull_remote E maxBytes url =
     (case pe_url E url of
        None \<Rightarrow> (Inl type_error, None)
      | Some (protocol, hostname) \<Rightarrow>
          if protocol \<noteq> ''https:'' then (Inl (Err 0 ''requires-https''), None)
          else (case assertPublicHost (pe_dns E) hostname 0 of
              (Inl e, _) \<Rightarrow> (Inl e, None)
            | (Inr vetted, _) \<Rightarrow>
                let ip = hd vetted
                in ((case pe_get E url ip of
                       Http_Error \<Rightarrow> Inl (Err 0 ''network'')
                     | Http_Reply status chunks \<Rightarrow>
                         if 300 \<le> status \<and> status < 400 then Inl (Err 0 ''redirect'')
                         else if status \<noteq> 200 then Inl (Err 0 ''status'')
                         else collect maxBytes [] chunks), Some (url, ip))))"

definition within_root :: "string \<Rightarrow> string \<Rightarrow> bool" where
  "within_root dir p = (p = dir \<or> starts_with (dir @ ''/'') p)"

definition pull_local :: "pull_env \<Rightarrow> jsnum \<Rightarrow> string option \<Rightarrow> string \<Rightarrow> bytes res" where
  "pull_local E maxBytes storeRoot url =
     bindE (pe_realpath E url) (\<lambda>p.
     bindE (case storeRoot of
        None \<Rightarrow> Inr ()
      | Some r \<Rightarrow> if r = [] then Inr () else bindE (pe_realpath E r) (\<lambda>dir.
          if \<not> within_root dir p then Inl (Err 0 ''escapes-store-root'') else Inr ())) (\<lambda>_.
     bindE (pe_size E p) (\<lambda>n. if jlt maxBytes (nat_num n) then Inl (Err 0 ''bundle-exceeds'') else pe_read E p)))"

definition pullBytes :: "pull_env \<Rightarrow> jsnum \<Rightarrow> string option \<Rightarrow> string \<Rightarrow> bytes res \<times> (string \<times> string) option" where
  "pullBytes E maxBytes storeRoot url =
     (if has_scheme url then pull_remote E maxBytes url else (pull_local E maxBytes storeRoot url, None))"

section \<open>The store\<close>

definition addressed :: "crypto \<Rightarrow> bundle_store \<Rightarrow> bool" where
  "addressed C s = (map_ok (bs_tgz s) \<and> (\<forall>h b. map_get h (bs_tgz s) = Some b \<longrightarrow> h = sha256hex_bytes C b))"

lemma put_addressed: "addressed C s \<Longrightarrow> addressed C (snd (store_put C bs m s))"
  by (cases "jget m ''sha256''") (auto simp: store_put_def addressed_def Let_def map_get_set split: if_splits)

interpretation bundles: invariant_system "\<lambda>s (bs, m). snd (store_put C bs m s)" "\<lambda>_. True" "addressed C" for C
  by unfold_locales (auto simp: put_addressed)

text \<open>The store is content-addressed: after any sequence of pushes, whatever is read under a digest hashes to
  it, and a push that is accepted can be read back under its digest.\<close>

theorem store_content_addressed:
  fixes C :: crypto and pushes :: "(bytes \<times> jsval) list"
  defines "s \<equiv> run_ops (\<lambda>s (bs, m). snd (store_put C bs m s)) pushes empty_store"
  shows "(case getBytes sha s of Inl _ \<Rightarrow> True | Inr b \<Rightarrow> sha = sha256hex_bytes C b) \<and>
    (case store_put C bs m s of
       (Inl e, s') \<Rightarrow> s' = s
     | (Inr h, s') \<Rightarrow> h = sha256hex_bytes C bs \<and> jopt m ''sha256'' = JStr h \<and> getBytes h s' = Inr bs \<and> store_has h s')"
proof -
  have "addressed C empty_store" by (simp add: addressed_def empty_store_def)
  then have "addressed C s" unfolding s_def by (rule bundles.run_inv) simp
  then have g: "case getBytes sha s of Inl _ \<Rightarrow> True | Inr b \<Rightarrow> sha = sha256hex_bytes C b"
    by (simp add: getBytes_def addressed_def split: option.split)
  have e: "strict_eq (JStr h) v \<longleftrightarrow> v = JStr h" for h v by (cases v) auto
  have "case store_put C bs m s of
       (Inl e, s') \<Rightarrow> s' = s
     | (Inr h, s') \<Rightarrow> h = sha256hex_bytes C bs \<and> jopt m ''sha256'' = JStr h \<and> getBytes h s' = Inr bs \<and> store_has h s'"
    by (simp add: store_put_def e jopt_def Let_def getBytes_def store_has_def map_has_def split: sum.split)
  then show ?thesis using g by blast
qed

section \<open>The bounds of a pull\<close>

lemma collect_bound:
  "collect mx acc cs = Inr b \<Longrightarrow> acc = [] \<or> \<not> jlt mx (nat_num (length acc)) \<Longrightarrow>
   (\<exists>r. b = acc @ r) \<and> (b = [] \<or> \<not> jlt mx (nat_num (length b)))"
  by (induction mx acc cs rule: collect.induct) (auto split: if_splits)


definition sample_pull :: pull_env where
  "sample_pull = \<lparr> pe_url = (\<lambda>u. None), pe_dns = (\<lambda>n h. Inl type_error), pe_get = (\<lambda>u ip. Http_Error),
     pe_realpath = (\<lambda>p. Inr p), pe_size = (\<lambda>p. Inr 2), pe_read = (\<lambda>p. Inr [1, 2]) \<rparr>"


end
