(* ===== verification/Http.thy ===== *)
theory Http
  imports Js_Text
begin

text \<open>
  lib/http.js: the body reader and the router. A body arrives as chunks of text; \<open>JSON.parse\<close> and
  the URL parser (path and query of the request target, \<open>None\<close> when it throws) are parameters.
  What a request comes to is a reply or, when an exception escapes the request callback (an
  unhandled rejection), the end of the process.
\<close>

section \<open>The body\<close>

text \<open>
  The data listener keeps appending after the limit was passed; only the promise is settled, once.
  The result carries the text buffered in the end.
\<close>

fun read_chunks :: "nat \<Rightarrow> string \<Rightarrow> bool \<Rightarrow> string list \<Rightarrow> string \<times> bool" where
  "read_chunks limit data rejected [] = (data, rejected)"
| "read_chunks limit data rejected (c # cs) =
     read_chunks limit (data @ c) (rejected \<or> limit < length (data @ c)) cs"

definition readBody :: "(string \<Rightarrow> jsval option) \<Rightarrow> nat \<Rightarrow> string list \<Rightarrow> jsval res \<times> string" where
  "readBody parse limit chunks =
     (case read_chunks limit [] False chunks of (data, rejected) \<Rightarrow>
        ((if rejected then Inl (Err 0 ''body-too-large'')
          else if data = [] then Inr (JObj [])
          else case parse data of Some v \<Rightarrow> Inr v | None \<Rightarrow> Inl (Err 0 ''invalid-json'')), data))"

section \<open>The router\<close>

record 'h route =
  rt_method :: string
  rt_parts :: "string list"
  rt_handler :: 'h
  rt_raw :: bool

definition segments :: "string \<Rightarrow> string list" where
  "segments p = filter (\<lambda>s. s \<noteq> []) (split_on (CHR ''/'') p)"

definition add_route :: "string \<Rightarrow> string \<Rightarrow> 'h \<Rightarrow> bool \<Rightarrow> 'h route list \<Rightarrow> 'h route list" where
  "add_route meth pattern h raw rs = rs @ [\<lparr> rt_method = meth, rt_parts = segments pattern, rt_handler = h, rt_raw = raw \<rparr>]"

text \<open>
  \<open>decodeURIComponent\<close>: \<open>None\<close> when it throws. Characters beyond 8 bits are outside the model and
  count as malformed.
\<close>

definition hex_pair :: "char \<Rightarrow> char \<Rightarrow> nat option" where
  "hex_pair a b = (case (hex_val a, hex_val b) of (Some x, Some y) \<Rightarrow> Some (x * 16 + y) | _ \<Rightarrow> None)"

fun decodeURIComponent :: "string \<Rightarrow> string option" where
  "decodeURIComponent [] = Some []"
| "decodeURIComponent (c # s) =
     (if c \<noteq> CHR 0x25 then map_option ((#) c) (decodeURIComponent s)
      else case s of
        a # b # s' \<Rightarrow> (case hex_pair a b of
            None \<Rightarrow> None
          | Some v \<Rightarrow>
              if v < 128 then map_option ((#) (char_of v)) (decodeURIComponent s')
              else if v = 0xC2 \<or> v = 0xC3 then
                (case s' of
                   p # x # y # s'' \<Rightarrow> (case hex_pair x y of
                       Some w \<Rightarrow> if p = CHR 0x25 \<and> 128 \<le> w \<and> w < 192
                         then map_option ((#) (char_of ((v - 0xC2) * 64 + w))) (decodeURIComponent s'') else None
                     | None \<Rightarrow> None)
                 | _ \<Rightarrow> None)
              else None)
      | _ \<Rightarrow> None)"

definition is_param :: "string \<Rightarrow> bool" where
  "is_param p = (take 1 p = '':'')"

text \<open>One route against the segments: \<open>Inr None\<close> when a literal part differs; decoding may throw first.\<close>

fun match_parts :: "string list \<Rightarrow> string list \<Rightarrow> (string \<times> string) list option res" where
  "match_parts (p # ps) (s # ss) =
     (if is_param p then (case decodeURIComponent s of
           None \<Rightarrow> Inl (Err 0 ''URIError'')
         | Some v \<Rightarrow> bindE (match_parts ps ss) (\<lambda>r. Inr (map_option ((#) (drop 1 p, v)) r)))
      else if p \<noteq> s then Inr None else match_parts ps ss)"
| "match_parts _ _ = Inr (Some [])"

fun match_route :: "'h route list \<Rightarrow> string \<Rightarrow> string list \<Rightarrow> ('h route \<times> (string \<times> string) list) option res" where
  "match_route [] meth segs = Inr None"
| "match_route (r # rs) meth segs =
     (if rt_method r \<noteq> meth \<or> length (rt_parts r) \<noteq> length segs then match_route rs meth segs
      else bindE (match_parts (rt_parts r) segs) (\<lambda>m. case m of
        Some params \<Rightarrow> Inr (Some (r, params)) | None \<Rightarrow> match_route rs meth segs))"

datatype outcome = Crashed | Reply nat jsval | Written

text \<open>
  \<open>run\<close> performs a handler on the parameters, the body and the query, on the service's state: its
  result is \<open>Some\<close> value to send, or \<open>None\<close> when the handler wrote the response itself.
\<close>

definition error_reply :: "err \<Rightarrow> outcome" where
  "error_reply e = Reply (http_status e) (JObj [(''code'', JStr (err_code e))])"

definition serve ::
  "'h route list \<Rightarrow> (string \<Rightarrow> (string \<times> jsval) option) \<Rightarrow> (string \<Rightarrow> jsval option) \<Rightarrow>
   ('h \<Rightarrow> (string \<times> string) list \<Rightarrow> jsval \<Rightarrow> jsval \<Rightarrow> 's \<Rightarrow> jsval option res \<times> 's) \<Rightarrow>
   string \<Rightarrow> string \<Rightarrow> string list \<Rightarrow> 's \<Rightarrow> outcome \<times> 's" where
  "serve routes parse_url parse run meth url chunks st =
     (case parse_url url of
        None \<Rightarrow> (Crashed, st)
      | Some (pathname, query) \<Rightarrow>
          (case match_route routes meth (segments pathname) of
             Inl _ \<Rightarrow> (Crashed, st)
           | Inr None \<Rightarrow> (Reply 404 (JObj [(''error'', JStr ''not found'')]), st)
           | Inr (Some (r, params)) \<Rightarrow>
               (case (if \<not> rt_raw r \<and> meth \<in> {''POST'', ''PUT'', ''PATCH''} then fst (readBody parse 1000000 chunks) else Inr (JObj [])) of
                  Inl e \<Rightarrow> (error_reply e, st)
                | Inr body \<Rightarrow>
                    (case run (rt_handler r) params body query st of
                       (Inl e, st') \<Rightarrow> (error_reply e, st')
                     | (Inr (Some v), st') \<Rightarrow> (Reply 200 v, st')
                     | (Inr None, st') \<Rightarrow> (Written, st')))))"

section \<open>Matching\<close>

text \<open>A pattern fits a path when they have the same number of parts and agree on the literal ones.\<close>

definition fits :: "'h route \<Rightarrow> string \<Rightarrow> string list \<Rightarrow> bool" where
  "fits r meth segs = (rt_method r = meth \<and> list_all2 (\<lambda>p s. is_param p \<or> p = s) (rt_parts r) segs)"

definition param_values :: "string list \<Rightarrow> string list \<Rightarrow> (string \<times> string) list" where
  "param_values ps ss = map (\<lambda>(p, s). (drop 1 p, the (decodeURIComponent s))) (filter (\<lambda>(p, s). is_param p) (zip ps ss))"

lemma match_parts_spec:
  "length ps = length ss \<Longrightarrow> list_all (\<lambda>s. decodeURIComponent s \<noteq> None) ss \<Longrightarrow>
   match_parts ps ss = Inr (if list_all2 (\<lambda>p s. is_param p \<or> p = s) ps ss then Some (param_values ps ss) else None)"
proof (induction ps ss rule: match_parts.induct)
  case (1 p ps s ss)
  then show ?case by (auto simp: param_values_def)
qed (auto simp: param_values_def)

text \<open>On paths whose segments can be decoded, the router picks the first route registered for the method
  whose literal parts agree with the path, binds its parameters to the decoded segments, and
  answers not found exactly when no route fits.\<close>

theorem match_route_spec:
  assumes "list_all (\<lambda>s. decodeURIComponent s \<noteq> None) segs"
  shows "match_route routes meth segs =
    Inr (map_option (\<lambda>r. (r, param_values (rt_parts r) segs)) (find (\<lambda>r. fits r meth segs) routes))"
proof (induction routes)
  case (Cons r rs)
  have "list_all2 (\<lambda>p s. is_param p \<or> p = s) (rt_parts r) segs \<Longrightarrow> length (rt_parts r) = length segs"
    by (rule list_all2_lengthD)
  then show ?case using Cons match_parts_spec [OF _ assms, of "rt_parts r"] by (auto simp: fits_def)
qed simp

definition sample_routes :: "nat route list" where
  "sample_routes = add_route ''GET'' ''/v1/agents/:id'' 1 False (add_route ''GET'' ''/v1/agents/all'' 0 False [])"

theorem match_route_spec_witness:
  "match_route sample_routes ''GET'' [''v1'', ''agents'', ''a1''] =
     Inr (Some (\<lparr> rt_method = ''GET'', rt_parts = [''v1'', ''agents'', '':id''], rt_handler = 1, rt_raw = False \<rparr>, [(''id'', ''a1'')]))"
  using match_route_spec [of "[''v1'', ''agents'', ''a1'']" sample_routes "''GET''"]
  by (simp add: sample_routes_def add_route_def segments_def fits_def is_param_def param_values_def)

text \<open>A request whose path matches a parameterised route up to a segment that is not a valid escape ends the
  process: the decoding throws outside the handler's error boundary, before any authentication.\<close>

theorem malformed_escape_crashes:
  assumes "parse_url url = Some (pathname, query)" "segments pathname = ss @ [bad]"
    and "routes = rs @ r # rs'" "\<forall>q \<in> set rs. \<not> (rt_method q = meth \<and> length (rt_parts q) = Suc (length ss))"
    and "rt_method r = meth" "rt_parts r = ss @ [p]" "is_param p" "list_all (\<lambda>s. \<not> is_param s) ss"
    and "decodeURIComponent bad = None"
  shows "serve routes parse_url parse run meth url chunks st = (Crashed, st)"
proof -
  have "match_parts (ss @ [p]) (ss @ [bad]) = Inl (Err 0 ''URIError'')"
    using assms(7,8,9) by (induction ss) auto
  then have "match_route (r # rs') meth (ss @ [bad]) = Inl (Err 0 ''URIError'')"
    using assms(5,6) by simp
  then have "match_route routes meth (ss @ [bad]) = Inl (Err 0 ''URIError'')"
    unfolding assms(3) using assms(4) by (induction rs) auto
  then show ?thesis by (simp add: serve_def assms(1,2))
qed

theorem malformed_escape_crashes_witness:
  "serve (add_route ''GET'' ''/v1/agents/:id'' (0 :: nat) False []) (\<lambda>u. Some (u, JObj [])) (\<lambda>s. None)
     (\<lambda>h ps b q st. (Inl (Err 401 ''unauthorized''), st)) ''GET'' (''/v1/agents/'' @ [CHR 0x25] @ ''zz'') [] () = (Crashed, ())"
proof (rule malformed_escape_crashes [where ss = "[''v1'', ''agents'']" and bad = "CHR 0x25 # ''zz''" and p = "'':id''" and rs = "[]" and rs' = "[]"
      and r = "\<lparr> rt_method = ''GET'', rt_parts = [''v1'', ''agents'', '':id''], rt_handler = 0, rt_raw = False \<rparr>"])
  show "segments (''/v1/agents/'' @ [CHR 0x25] @ ''zz'') = [''v1'', ''agents''] @ [CHR 0x25 # ''zz'']" by (simp add: segments_def)
  show "decodeURIComponent (CHR 0x25 # ''zz'') = None" by (simp add: hex_pair_def hex_val_def is_digit_def less_eq_char_def)
qed (simp_all add: add_route_def segments_def is_param_def)

text \<open>The body of a DELETE (or GET) request never reaches its handler, which sees an empty object whatever was
  sent: a force flag in the body of a destroy request has no effect.\<close>

theorem delete_body_ignored:
  "serve routes parse_url parse run ''DELETE'' url chunks st = serve routes parse_url parse run ''DELETE'' url [] st"
proof -
  have "\<not> (\<not> raw \<and> ''DELETE'' \<in> {''POST'', ''PUT'', ''PATCH''})" for raw by simp
  then show ?thesis unfolding serve_def by (simp only: if_False)
qed

text \<open>The size limit of a body rejects the request, but the listener keeps everything that is sent: the text
  held in the end is the whole body, however far beyond the limit.\<close>

theorem oversized_body_rejected_but_buffered:
  assumes "limit < length (concat chunks)"
  shows "readBody parse limit chunks = (Inl (Err 0 ''body-too-large''), concat chunks)"
proof -
  have "read_chunks limit data b chunks = (data @ concat chunks, b \<or> (chunks \<noteq> [] \<and> limit < length (data @ concat chunks)))"
    if "b \<longrightarrow> limit < length data" "limit < length data \<longrightarrow> b" for data b
    using that by (induction chunks arbitrary: data b) auto
  from this [of False "[]"] show ?thesis using assms by (auto simp: readBody_def)
qed

theorem oversized_body_rejected_but_buffered_witness:
  "readBody (\<lambda>s. None) 3 [''ab'', ''cd'', ''ef''] = (Inl (Err 0 ''body-too-large''), ''abcdef'')"
  using oversized_body_rejected_but_buffered [of 3 "[''ab'', ''cd'', ''ef'']"] by simp

end
