(* ===== verification/Signer_Disk.thy ===== *)
theory Signer_Disk
  imports Signer
begin

text \<open>
  signer/server.js, what it keeps on disk: the master key, the table of agents and the table of sealed keys, how they
  are written and what a start makes of them. The two tables are written one after the other, each put in place by a
  rename, after the handler that changed them; a crash may come between any two steps. What was
  written as JSON is taken to read back as it was.
\<close>

section \<open>The files\<close>

text \<open>A file is absent, cannot be read or parsed, or has contents.\<close>

datatype 'a stored_file = Missing | Unreadable | Content 'a

record disk =
  dk_master :: "bytes stored_file"
  dk_agents :: "(string, agent) jmap stored_file"
  dk_keys :: "(string, sealed) jmap stored_file"

definition fresh_disk :: disk where
  "fresh_disk = \<lparr> dk_master = Missing, dk_agents = Missing, dk_keys = Missing \<rparr>"

text \<open>\<open>env\<close> is the variable CIRCUIT_SIGNER_MASTER_KEY, \<open>rnd\<close> the random bytes of a new key.\<close>

definition hex_key :: "string \<Rightarrow> bool" where
  "hex_key s = (length s = 64 \<and> list_all (\<lambda>c. hex_val c \<noteq> None) s)"

definition loadMaster :: "string option \<Rightarrow> bytes \<Rightarrow> disk \<Rightarrow> bytes res \<times> disk" where
  "loadMaster env rnd d =
     (case env of
        Some (c # cs) \<Rightarrow>
          let v = c # cs; buf = (if hex_key v then hex_dec v else base64_dec v)
          in (if length buf \<noteq> 32 then Inl (Err 0 ''bad-master-key'') else Inr buf, d)
      | _ \<Rightarrow> (case dk_master d of
            Content k \<Rightarrow> (Inr k, d)
          | _ \<Rightarrow> (Inr rnd, d\<lparr> dk_master := Content rnd \<rparr>)))"

definition load_table :: "('k, 'v) jmap stored_file \<Rightarrow> ('k, 'v) jmap" where
  "load_table f = (case f of Content m \<Rightarrow> m | _ \<Rightarrow> [])"

text \<open>Parsing makes new objects: the identities of the agents are numbered anew.\<close>

definition new_objects :: "(string, agent) jmap \<Rightarrow> (string, agent) jmap" where
  "new_objects m = map (\<lambda>i. (fst (m ! i), (snd (m ! i))\<lparr> ag_ref := i \<rparr>)) [0..<length m]"

definition loaded :: "disk \<Rightarrow> signer" where
  "loaded d = \<lparr> sn_next = length (load_table (dk_agents d)), sn_agents = new_objects (load_table (dk_agents d)), sn_detached = [],
     sn_keys = load_table (dk_keys d), sn_vnonce = [] \<rparr>"

definition boot :: "string option \<Rightarrow> bytes \<Rightarrow> signer_cfg \<Rightarrow> disk \<Rightarrow> (signer_cfg \<times> signer) res \<times> disk" where
  "boot env rnd cfg d = (case loadMaster env rnd d of
       (Inl e, d') \<Rightarrow> (Inl e, d')
     | (Inr k, d') \<Rightarrow> (Inr (cfg\<lparr> cf_MASTER := k \<rparr>, loaded d'), d'))"

text \<open>The two renames of \<open>persist\<close>, the agents first.\<close>

definition persist_writes :: "signer \<Rightarrow> (disk \<Rightarrow> disk) list" where
  "persist_writes st = [\<lambda>d. d\<lparr> dk_agents := Content (sn_agents st) \<rparr>, \<lambda>d. d\<lparr> dk_keys := Content (sn_keys st) \<rparr>]"

definition flush :: "nat \<Rightarrow> signer \<Rightarrow> disk \<Rightarrow> disk" where
  "flush n st d = fold (\<lambda>w. w) (take n (persist_writes st)) d"

section \<open>The life of a signer\<close>

text \<open>
  Steps of the running process, writes of which the first \<open>n\<close> renames happen, and crashes followed by a
  start. Swaps in flight are lost in a crash.
\<close>

record life =
  lf_cfg :: signer_cfg
  lf_sys :: sys
  lf_disk :: disk

datatype life_op = Serve sys_op | Flush nat | Restart bytes

definition life_step :: "string option \<Rightarrow> life \<Rightarrow> life_op \<Rightarrow> life" where
  "life_step env l op = (case op of
       Serve x \<Rightarrow> l\<lparr> lf_sys := sys_step (lf_cfg l) (lf_sys l) x \<rparr>
     | Flush n \<Rightarrow> l\<lparr> lf_disk := flush n (sy_signer (lf_sys l)) (lf_disk l) \<rparr>
     | Restart rnd \<Rightarrow> (case boot env rnd (lf_cfg l) (lf_disk l) of
           (Inl e, d) \<Rightarrow> l\<lparr> lf_disk := d \<rparr>
         | (Inr (cfg, st), d) \<Rightarrow> \<lparr> lf_cfg = cfg, lf_sys = \<lparr> sy_signer = st, sy_pending = [] \<rparr>, lf_disk = d \<rparr>))"

definition whole :: "life_op \<Rightarrow> bool" where
  "whole op = (case op of Flush n \<Rightarrow> 2 \<le> n | _ \<Rightarrow> True)"

section \<open>Wallets survive restarts\<close>

lemma new_objects_keys [simp]: "map_keys (new_objects m) = map_keys m"
  by (rule nth_equalityI) (simp_all add: new_objects_def)

lemma new_objects_get:
  assumes "map_ok m" "map_get k (new_objects m) = Some b"
  obtains a i where "map_get k m = Some a" "b = a\<lparr> ag_ref := i \<rparr>" "i < length m" "m ! i = (k, a)"
proof -
  have "(k, b) \<in> set (new_objects m)" using assms(2) by (simp add: map_get_def map_of_SomeD)
  then obtain i where i: "i < length m" "k = fst (m ! i)" "b = (snd (m ! i))\<lparr> ag_ref := i \<rparr>"
    unfolding new_objects_def by auto
  have mi: "m ! i = (k, snd (m ! i))" by (simp add: i(2))
  have "(k, snd (m ! i)) \<in> set m" using nth_mem [OF i(1)] mi by simp
  then have "map_get k m = Some (snd (m ! i))" using map_get_iff [OF assms(1)] by simp
  from that [OF this i(3,1) mi] show thesis .
qed

lemma reloaded_inv:
  assumes "signer_inv cfg st"
  shows "signer_inv cfg (loaded (flush 2 st d))"
proof -
  have f: "load_table (dk_agents (flush 2 st d)) = sn_agents st" "load_table (dk_keys (flush 2 st d)) = sn_keys st"
    by (simp_all add: flush_def persist_writes_def load_table_def)
  let ?m = "sn_agents st"
  have ok: "map_ok ?m" "map_ok (sn_keys st)" using assms by (simp_all add: signer_inv_def)
  have inv: "agent_inv cfg (loaded (flush 2 st d)) k b" if "map_get k (new_objects ?m) = Some b" for k b
    using that
  proof (rule new_objects_get [OF ok(1)])
    fix a i assume a: "map_get k ?m = Some a" "b = a\<lparr> ag_ref := i \<rparr>" "i < length ?m"
    then have "agent_inv cfg st k a" using assms by (simp add: signer_inv_def)
    then show ?thesis using a by (simp add: agent_inv_def wallet_ok_def owner_ok_def loaded_def f)
  qed
  have uniq: "k = l" if "map_get k (new_objects ?m) = Some b" "map_get l (new_objects ?m) = Some c" "ag_ref b = ag_ref c" for k l b c
    using that by (auto elim!: new_objects_get [OF ok(1)])
  show ?thesis using ok inv uniq unfolding signer_inv_def by (simp add: loaded_def f map_ok_def)
qed

definition life_inv :: "string option \<Rightarrow> crypto \<Rightarrow> bytes \<Rightarrow> life \<Rightarrow> bool" where
  "life_inv env C k l = (cf_crypto (lf_cfg l) = C \<and> cf_MASTER (lf_cfg l) = k \<and>
     (\<forall>rnd. loadMaster env rnd (lf_disk l) = (Inr k, lf_disk l)) \<and>
     signer_inv (lf_cfg l) (sy_signer (lf_sys l)) \<and> signer_inv (lf_cfg l) (loaded (lf_disk l)))"

lemma loadMaster_again:
  "loadMaster env rnd d = (Inr k, d') \<Longrightarrow> loadMaster env r d' = (Inr k, d')"
  by (auto simp: loadMaster_def Let_def split: option.splits list.splits stored_file.splits if_splits)

lemma loadMaster_flush:
  "loadMaster env rnd d = (Inr k, d) \<Longrightarrow> loadMaster env rnd (flush 2 st d) = (Inr k, flush 2 st d)"
  by (cases d; cases "dk_master d")
     (auto simp: loadMaster_def flush_def persist_writes_def Let_def split: option.splits list.splits if_splits)

lemma flush_whole: "2 \<le> n \<Longrightarrow> flush n st d = flush 2 st d"
  by (simp add: flush_def persist_writes_def)

lemma life_step_inv:
  assumes "gcm_opens C" "life_inv env C k l" "whole op"
  shows "life_inv env C k (life_step env l op)"
proof (cases op)
  case (Serve x)
  then show ?thesis using assms sys_step_inv [of "lf_cfg l" "lf_sys l" x] by (simp add: life_inv_def life_step_def)
next
  case (Flush n)
  then have n: "flush n st d = flush 2 st d" for st d using assms(3) by (intro flush_whole) (simp add: whole_def)
  have "loadMaster env rnd (flush 2 (sy_signer (lf_sys l)) (lf_disk l)) = (Inr k, flush 2 (sy_signer (lf_sys l)) (lf_disk l))" for rnd
    using assms(2) by (intro loadMaster_flush) (simp add: life_inv_def)
  then show ?thesis using assms(2) reloaded_inv [of "lf_cfg l" "sy_signer (lf_sys l)" "lf_disk l"]
    by (simp add: life_inv_def life_step_def Flush n)
next
  case (Restart rnd)
  have k: "loadMaster env rnd (lf_disk l) = (Inr k, lf_disk l)" and c: "cf_MASTER (lf_cfg l) = k" using assms(2) by (simp_all add: life_inv_def)
  have "(lf_cfg l)\<lparr> cf_MASTER := k \<rparr> = lf_cfg l" using c by (cases "lf_cfg l") simp
  then have "life_step env l op = \<lparr> lf_cfg = lf_cfg l, lf_sys = \<lparr> sy_signer = loaded (lf_disk l), sy_pending = [] \<rparr>, lf_disk = lf_disk l \<rparr>"
    by (simp only: life_step_def Restart life_op.case boot_def k prod.case sum.case)
  then show ?thesis using assms(2) by (simp add: life_inv_def)
qed

interpretation custody_on_disk: invariant_system "life_step env" whole "\<lambda>l. gcm_opens C \<longrightarrow> life_inv env C k l" for env C k
  by unfold_locales (simp add: life_step_inv)

lemma first_boot:
  assumes "boot env rnd cfg fresh_disk = (Inr (cfg0, st0), d0)"
  shows "life_inv env (cf_crypto cfg) (cf_MASTER cfg0) \<lparr> lf_cfg = cfg0, lf_sys = \<lparr> sy_signer = st0, sy_pending = [] \<rparr>, lf_disk = d0 \<rparr>"
proof -
  obtain k where k: "loadMaster env rnd fresh_disk = (Inr k, d0)" "cfg0 = cfg\<lparr> cf_MASTER := k \<rparr>" "st0 = loaded d0"
    using assms by (auto simp: boot_def split: prod.splits sum.splits)
  have "dk_agents d0 = Missing" "dk_keys d0 = Missing"
    using k(1) by (auto simp: loadMaster_def fresh_disk_def Let_def split: option.splits list.splits if_splits)
  then have e: "loaded d0 = empty_signer" by (simp add: loaded_def load_table_def new_objects_def empty_signer_def)
  have "loadMaster env r d0 = (Inr k, d0)" for r using loadMaster_again [OF k(1)] .
  then show ?thesis using empty_signer_inv by (simp add: life_inv_def k(2,3) e)
qed

text \<open>C13. Wallets survive restarts: from the first start of a signer on, through any requests, writes of its files and crashes between
  the handlers, the master key stays the one of the first start, and every agent it knows has a sealed seed that opens
  under it to the key pair of the address the agent shows.\<close>

theorem wallets_survive_restarts:
  assumes "boot env rnd cfg fresh_disk = (Inr (cfg0, st0), d0)" "gcm_opens (cf_crypto cfg)" "\<forall>op \<in> set ops. whole op"
    and "l = run_ops (life_step env) ops \<lparr> lf_cfg = cfg0, lf_sys = \<lparr> sy_signer = st0, sy_pending = [] \<rparr>, lf_disk = d0 \<rparr>"
    and "map_get k (sn_agents (sy_signer (lf_sys l))) = Some a"
  shows "cf_MASTER (lf_cfg l) = cf_MASTER cfg0 \<and>
    (\<exists>seed kp. unseal (lf_cfg l) a (sy_signer (lf_sys l)) = Inr seed \<and> fromSeed (exportSpki (cf_crypto cfg)) seed = Inr kp \<and>
       kp_address kp = ag_address a)"
proof -
  have "gcm_opens (cf_crypto cfg) \<longrightarrow> life_inv env (cf_crypto cfg) (cf_MASTER cfg0) l"
    unfolding assms(4) by (rule custody_on_disk.run_inv [OF _ assms(3)]) (simp add: first_boot [OF assms(1)])
  then have v: "life_inv env (cf_crypto cfg) (cf_MASTER cfg0) l" using assms(2) by blast
  then have "agent_inv (lf_cfg l) (sy_signer (lf_sys l)) k a" using assms(5) by (simp add: life_inv_def signer_inv_def)
  then show ?thesis using v by (auto simp: agent_inv_def wallet_ok_def unseal_def life_inv_def)
qed

lemma new_objects_some:
  assumes "map_ok m" "map_get k m = Some a"
  shows "\<exists>i. map_get k (new_objects m) = Some (a\<lparr> ag_ref := i \<rparr>)"
proof -
  have "k \<in> set (map_keys (new_objects m))" using assms(2) by (auto simp: map_get_def dest: map_of_SomeD intro: rev_image_eqI)
  then obtain b where b: "map_get k (new_objects m) = Some b"
    unfolding map_get_def by (metis map_of_eq_None_iff option.exhaust list.set_map)
  from new_objects_get [OF assms(1) b] obtain c i where "map_get k m = Some c" "b = c\<lparr> ag_ref := i \<rparr>" by blast
  then show ?thesis using b assms(2) by auto
qed

text \<open>What was written is what a restart brings back, up to the identities of the objects.\<close>

lemma restart_restores:
  assumes "life_inv env C m l" "l' = life_step env (life_step env l (Flush 2)) (Restart rnd)"
    and "map_get k (sn_agents (sy_signer (lf_sys l))) = Some a"
  shows "\<exists>i. map_get k (sn_agents (sy_signer (lf_sys l'))) = Some (a\<lparr> ag_ref := i \<rparr>)" "sn_keys (sy_signer (lf_sys l')) = sn_keys (sy_signer (lf_sys l))"
proof -
  let ?st = "sy_signer (lf_sys l)" and ?d = "flush 2 (sy_signer (lf_sys l)) (lf_disk l)"
  have "loadMaster env rnd ?d = (Inr m, ?d)" using assms(1) by (intro loadMaster_flush) (simp add: life_inv_def)
  then have l': "sy_signer (lf_sys l') = loaded ?d" by (simp add: assms(2) life_step_def boot_def)
  have f: "load_table (dk_agents ?d) = sn_agents ?st" "load_table (dk_keys ?d) = sn_keys ?st"
    by (simp_all add: flush_def persist_writes_def load_table_def)
  show "sn_keys (sy_signer (lf_sys l')) = sn_keys ?st" by (simp add: l' loaded_def f)
  have "map_ok (sn_agents ?st)" using assms(1) by (simp add: life_inv_def signer_inv_def)
  from new_objects_some [OF this assms(3)] show "\<exists>i. map_get k (sn_agents (sy_signer (lf_sys l'))) = Some (a\<lparr> ag_ref := i \<rparr>)"
    by (simp add: l' loaded_def f)
qed

theorem wallets_survive_restarts_witness:
  "\<exists>cfg0 d0 l a. boot None [1] toy_cfg fresh_disk = (Inr (cfg0, empty_signer), d0) \<and>
     l = run_ops (life_step None) [Serve (Provision [] 5 (replicate 32 7) [] (toy_provision True)), Flush 2, Restart [2]]
       \<lparr> lf_cfg = cfg0, lf_sys = \<lparr> sy_signer = empty_signer, sy_pending = [] \<rparr>, lf_disk = d0 \<rparr> \<and>
     map_get ''a'' (sn_agents (sy_signer (lf_sys l))) = Some a \<and> cf_MASTER (lf_cfg l) = [1] \<and>
     (\<exists>seed. unseal (lf_cfg l) a (sy_signer (lf_sys l)) = Inr seed)"
proof -
  let ?d = "fresh_disk\<lparr> dk_master := Content [1] \<rparr>"
  let ?ops = "[Serve (Provision [] 5 (replicate 32 7) [] (toy_provision True)), Flush 2, Restart [2]]"
  have c: "toy_cfg\<lparr> cf_MASTER := [1] \<rparr> = toy_cfg" by (simp add: toy_cfg_def)
  have b: "boot None [1] toy_cfg fresh_disk = (Inr (toy_cfg, empty_signer), ?d)"
    by (simp add: boot_def loadMaster_def fresh_disk_def c loaded_def load_table_def new_objects_def empty_signer_def)
  define l where "l = run_ops (life_step None) ?ops \<lparr> lf_cfg = toy_cfg, lf_sys = \<lparr> sy_signer = empty_signer, sy_pending = [] \<rparr>, lf_disk = ?d \<rparr>"
  have "sn_agents (sy_signer (lf_sys l)) = new_objects [(''a'', toy_agent True)]" "cf_MASTER (lf_cfg l) = [1]"
    by (simp_all add: l_def run_ops_def life_step_def toy_provisioned flush_def persist_writes_def boot_def loadMaster_def loaded_def
        load_table_def toy_signer_def)
  moreover obtain a where a: "map_get ''a'' (new_objects [(''a'', toy_agent True)]) = Some a"
    using new_objects_some [of "[(''a'', toy_agent True)]" "''a''"] by (auto simp: map_get_def map_ok_def)
  ultimately have g: "map_get ''a'' (sn_agents (sy_signer (lf_sys l))) = Some a" "cf_MASTER (lf_cfg l) = [1]" by simp_all
  have "gcm_opens (cf_crypto toy_cfg)" using toy_gcm_opens by (simp add: toy_cfg_def)
  moreover have "\<forall>op \<in> set ?ops. whole op" by (simp add: whole_def)
  ultimately have "\<exists>seed. unseal (lf_cfg l) a (sy_signer (lf_sys l)) = Inr seed"
    using wallets_survive_restarts [OF b _ _ l_def g(1)] by blast
  then show ?thesis using b l_def g by blast
qed

section \<open>What restarts lose\<close>

text \<open>A crash between the two renames after a wallet was made: the agent is back, its key is not.\<close>

lemma torn_write_strands_wallet:
  assumes "map_get k (load_table (dk_keys d)) = None" "map_get k (sn_agents st) = Some a" "map_ok (sn_agents st)" "to_str (ag_id a) = Inr k"
  shows "\<exists>b. map_get k (sn_agents (loaded (flush 1 st d))) = Some b \<and> unseal cfg b (loaded (flush 1 st d)) = Inl type_error"
proof -
  have "load_table (dk_agents (flush 1 st d)) = sn_agents st" "dk_keys (flush 1 st d) = dk_keys d"
    by (simp_all add: flush_def persist_writes_def load_table_def)
  then show ?thesis using new_objects_some [OF assms(3,2)] assms(1,4) by (auto simp: loaded_def unseal_def)
qed

text \<open>A table that cannot be read, for whatever reason, is taken as empty and replaced by the next write; a
  master key that cannot be read is replaced at once.\<close>

lemma unreadable_tables_are_replaced:
  "dk_keys d = Unreadable \<Longrightarrow> sn_keys (loaded d) = []"
  "dk_keys (flush 2 (loaded d) d) = Content (sn_keys (loaded d))"
  "dk_master d = Unreadable \<Longrightarrow> loadMaster None rnd d = (Inr rnd, d\<lparr> dk_master := Content rnd \<rparr>)"
  by (simp_all add: loaded_def load_table_def flush_def persist_writes_def loadMaster_def)

text \<open>The nonces of accepted evidence are in memory only.\<close>

lemma restart_forgets_evidence: "sn_vnonce (loaded d) = []"
  by (simp add: loaded_def)

end
