(* ===== verification/Paths.thy ===== *)
theory Paths
  imports Js_Value
begin

text \<open>
  \<open>path.join\<close> of Node (POSIX), as the sources use it: the parts that are not empty are joined with
  slashes and the result is normalised (\<open>.\<close> and empty segments dropped, \<open>..\<close> removes the segment
  before it, above the root of an absolute path it is dropped). A part that is not a text makes it throw.
\<close>

fun norm_segs :: "bool \<Rightarrow> string list \<Rightarrow> string list \<Rightarrow> string list" where
  "norm_segs up acc [] = rev acc"
| "norm_segs up acc (s # ss) =
     (if s = [] \<or> s = ''.'' then norm_segs up acc ss
      else if s = ''..'' then
        (if acc \<noteq> [] \<and> hd acc \<noteq> ''..'' then norm_segs up (tl acc) ss
         else if up then norm_segs up (s # acc) ss
         else norm_segs up acc ss)
      else norm_segs up (s # acc) ss)"

definition normalize :: "string \<Rightarrow> string" where
  "normalize p =
     (if p = [] then ''.''
      else let abs = (hd p = CHR ''/''); trail = (last p = CHR ''/'');
               q = join_on ''/'' (norm_segs (\<not> abs) [] (split_on (CHR ''/'') p))
           in if q = [] then (if abs then ''/'' else if trail then ''./'' else ''.'')
              else (if abs then ''/'' else []) @ q @ (if trail then ''/'' else []))"

definition path_join :: "string list \<Rightarrow> string" where
  "path_join ps = (let qs = filter (\<lambda>p. p \<noteq> []) ps in if qs = [] then ''.'' else normalize (join_on ''/'' qs))"

definition text_arg :: "jsval \<Rightarrow> string res" where
  "text_arg v = (case v of JStr s \<Rightarrow> Inr s | _ \<Rightarrow> Inl type_error)"

section \<open>A clean name below a clean directory\<close>

definition clean_seg :: "string \<Rightarrow> bool" where
  "clean_seg s = (s \<noteq> [] \<and> s \<noteq> ''.'' \<and> s \<noteq> ''..'' \<and> CHR ''/'' \<notin> set s)"

definition clean_dir :: "string \<Rightarrow> bool" where
  "clean_dir d = (\<exists>ss. ss \<noteq> [] \<and> list_all clean_seg ss \<and> d = CHR ''/'' # join_on ''/'' ss)"

lemma norm_segs_clean: "list_all clean_seg ss \<Longrightarrow> norm_segs a acc ss = rev acc @ ss"
  by (induction ss arbitrary: acc) (auto simp: clean_seg_def)

lemma join_on_snoc: "ss \<noteq> [] \<Longrightarrow> join_on sep (ss @ [s]) = join_on sep ss @ sep @ s"
proof (induction ss rule: induct_list012)
  case (3 x y zs)
  then show ?case by simp
qed auto

lemma join_clean_nonempty: "ss \<noteq> [] \<Longrightarrow> list_all clean_seg ss \<Longrightarrow> join_on ''/'' ss \<noteq> []"
  by (induction "''/''" ss rule: join_on.induct) (auto simp: clean_seg_def)

lemma join_clean_last: "ss \<noteq> [] \<Longrightarrow> list_all clean_seg ss \<Longrightarrow> last (join_on ''/'' ss) \<noteq> CHR ''/''"
proof (induction ss rule: rev_induct)
  case (snoc s ss)
  then have s: "s \<noteq> []" "CHR ''/'' \<notin> set s" by (auto simp: clean_seg_def)
  then have "last s \<noteq> CHR ''/''" by (metis last_in_set)
  with s show ?case by (cases "ss = []") (auto simp: join_on_snoc)
qed simp

lemma normalize_clean_dir: "clean_dir d \<Longrightarrow> normalize d = d"
proof -
  assume "clean_dir d"
  then obtain ss where ss: "ss \<noteq> []" "list_all clean_seg ss" "d = CHR ''/'' # join_on ''/'' ss"
    by (auto simp: clean_dir_def)
  have p: "split_on (CHR ''/'') (join_on ''/'' ss) = ss"
    using ss by (intro split_on_join) (auto simp: list_all_iff clean_seg_def)
  show ?thesis
    using ss join_clean_nonempty [OF ss(1,2)] join_clean_last [OF ss(1,2)]
    by (simp add: normalize_def p Let_def norm_segs_clean)
qed

lemma clean_child: "clean_dir d \<Longrightarrow> clean_seg s \<Longrightarrow> clean_dir (d @ CHR ''/'' # s)"
  unfolding clean_dir_def
  by (elim exE conjE, rule_tac x = "ss @ [s]" in exI) (simp add: join_on_snoc)

lemma clean_dir_nonempty: "clean_dir d \<Longrightarrow> d \<noteq> []"
  by (auto simp: clean_dir_def)

text \<open>So joining a clean name stays directly below the directory.\<close>

lemma path_join_child: "clean_dir d \<Longrightarrow> clean_seg s \<Longrightarrow> path_join [d, s] = d @ CHR ''/'' # s"
  using normalize_clean_dir [OF clean_child [of d s]] clean_dir_nonempty [of d]
  by (simp add: path_join_def clean_seg_def Let_def)

lemma path_join_child2:
  "clean_dir d \<Longrightarrow> clean_seg s \<Longrightarrow> clean_seg t \<Longrightarrow> path_join [d, s, t] = d @ CHR ''/'' # s @ CHR ''/'' # t"
  using normalize_clean_dir [OF clean_child [OF clean_child, of d s t]] clean_dir_nonempty [of d]
  by (simp add: path_join_def clean_seg_def Let_def)

end
