(* ===== verification/Agent_Env.thy ===== *)
theory Agent_Env
  imports Js_Map Proto Netguard Paths
begin

text \<open>
  node-host/env.js: the environment a hosted workload receives. The assignment is the JSON value the
  control plane sent; the source environment maps a name to its value, if it is set. The
  result lists the entries in the order they were first set, the values still unconverted (the
  process start converts them).
\<close>

definition ENDPOINT_ENV :: "string list" where
  "ENDPOINT_ENV = [''CIRCUIT_API_URL'', ''GATEWAY_URL'', ''PRICE_FEED_URL'', ''CIRCUIT_INFERENCE_URL'']"

definition CREDENTIALED_ENDPOINT_ENV :: "string list" where
  "CREDENTIALED_ENDPOINT_ENV = [''CIRCUIT_RPC_URL'']"

definition SECRET_ENV :: "string list" where
  "SECRET_ENV = [''AGENT_KEYPAIR'', ''CIRCUIT_SETUP_KEYPAIR'', ''CIRCUIT_INTERNAL_KEY'',
     ''JUPITER_API_KEY'', ''OPENROUTER_API_KEY'', ''TELEGRAM_BOT_TOKEN'']"

definition COSMETIC_ENV :: "string list" where
  "COSMETIC_ENV = [''FORCE_COLOR'']"

definition PROTECTED :: "string \<Rightarrow> bool" where
  "PROTECTED k = (starts_with ''CIRCUIT_AGENT_'' k \<or> starts_with ''CIRCUIT_SIGNER_'' k)"

definition DANGEROUS_ENV :: "string \<Rightarrow> bool" where
  "DANGEROUS_ENV k = (k = ''NODE_OPTIONS'' \<or> starts_with ''LD_'' k \<or> k = ''BASH_ENV'' \<or>
     starts_with ''npm_config_'' (toLowerCase k) \<or> starts_with ''DYLD_'' k)"

type_synonym env = "(string, jsval) jmap"
type_synonym src_env = "string \<Rightarrow> string option"

text \<open>\<open>srcEnv[k] || d\<close>.\<close>

definition env_or :: "src_env \<Rightarrow> string \<Rightarrow> string \<Rightarrow> string" where
  "env_or src k d = (case src k of Some v \<Rightarrow> if v = [] then d else v | None \<Rightarrow> d)"

text \<open>\<open>Object.entries(v)\<close> of a value that is not \<open>null\<close> or \<open>undefined\<close>.\<close>

fun obj_entries :: "jsval \<Rightarrow> (string \<times> jsval) list" where
  "obj_entries (JObj fs) = fs"
| "obj_entries (JArr xs) = map (\<lambda>i. (nat_str i, xs ! i)) [0..<length xs]"
| "obj_entries (JStr s) = map (\<lambda>i. (nat_str i, JStr [s ! i])) [0..<length s]"
| "obj_entries v = []"

text \<open>\<open>env[k] = v\<close> for a text \<open>v\<close>: assigning \<open>__proto__\<close> sets no property.\<close>

definition env_put :: "string \<Rightarrow> jsval \<Rightarrow> env \<Rightarrow> env" where
  "env_put k v env = (if k = ''__proto__'' then env else map_set k v env)"

definition is_trusted :: "jsval \<Rightarrow> bool" where
  "is_trusted a = (\<not> truthy (jopt a ''bundle'') \<and> \<not> truthy (jopt (str_or (jopt a ''spec'') (JObj [])) ''bundle''))"

text \<open>The process minimum, and the session of the placement.\<close>

definition base_env :: "jsval \<Rightarrow> string \<Rightarrow> src_env \<Rightarrow> env" where
  "base_env a dir src =
     [(''PATH'', JStr (env_or src ''PATH'' ''/usr/local/bin:/usr/bin:/bin'')), (''HOME'', JStr dir),
      (''TMPDIR'', JStr (path_join [dir, ''tmp''])), (''LANG'', JStr (env_or src ''LANG'' ''C.UTF-8'')),
      (''TZ'', JStr (env_or src ''TZ'' ''UTC'')), (''CIRCUIT_AGENT_DATA_DIR'', JStr dir),
      (''AGENT_NAME'', str_or (jopt a ''name'') (JStr []))]"

definition signer_env :: "jsval \<Rightarrow> env \<Rightarrow> env res" where
  "signer_env signer env =
     (if \<not> truthy signer then Inr env
      else bindE (to_str (jopt signer ''epoch'')) (\<lambda>epoch. Inr (env @
        [(''CIRCUIT_SIGNER_URL'', jopt signer ''url''), (''CIRCUIT_AGENT_ID'', jopt signer ''agentId''),
         (''CIRCUIT_AGENT_EPOCH'', JStr epoch), (''CIRCUIT_AGENT_SESSION'', jopt signer ''token''),
         (''CIRCUIT_AGENT_ADDRESS'', str_or (jopt signer ''address'') (JStr [])),
         (''CIRCUIT_AGENT_PAPER'', JStr (if strict_eq (jopt signer ''paper'') (JBool False) then ''0'' else ''1''))])))"

definition allow_list :: "bool \<Rightarrow> string list" where
  "allow_list trusted = ENDPOINT_ENV @ COSMETIC_ENV @ (if trusted then CREDENTIALED_ENDPOINT_ENV @ SECRET_ENV else [])"

definition pass_step :: "src_env \<Rightarrow> string \<Rightarrow> env \<Rightarrow> env" where
  "pass_step src k env = (case src k of Some v \<Rightarrow> map_set k (JStr v) env | None \<Rightarrow> env)"

definition pass_env :: "src_env \<Rightarrow> bool \<Rightarrow> env \<Rightarrow> env" where
  "pass_env src trusted env =
     (let e = fold (pass_step src) (allow_list trusted) env
      in case src ''CIRCUIT_PUBLIC_RPC_URL'' of
           Some v \<Rightarrow> if \<not> trusted \<and> v \<noteq> [] then map_set ''CIRCUIT_RPC_URL'' (JStr v) e else e
         | None \<Rightarrow> e)"

definition blocked_key :: "bool \<Rightarrow> string \<Rightarrow> bool" where
  "blocked_key trusted k = (PROTECTED k \<or> DANGEROUS_ENV k \<or>
     (\<not> trusted \<and> (k \<in> set SECRET_ENV \<or> k \<in> set CREDENTIALED_ENDPOINT_ENV)))"

fun declared_env :: "bool \<Rightarrow> (string \<times> jsval) list \<Rightarrow> env \<Rightarrow> env res" where
  "declared_env trusted [] env = Inr env"
| "declared_env trusted ((k, v) # kvs) env =
     (if blocked_key trusted k then declared_env trusted kvs env
      else bindE (to_str v) (\<lambda>s. declared_env trusted kvs (env_put k (JStr s) env)))"

definition declared :: "jsval \<Rightarrow> (string \<times> jsval) list" where
  "declared a = obj_entries (str_or (jopt (str_or (jopt a ''spec'') (JObj [])) ''env'') (JObj []))"

definition buildAgentEnv :: "jsval \<Rightarrow> string \<Rightarrow> src_env \<Rightarrow> env res" where
  "buildAgentEnv a dir src =
     bindE (signer_env (jopt a ''signer'') (base_env a dir src)) (\<lambda>env.
       declared_env (is_trusted a) (declared a) (pass_env src (is_trusted a) env))"

section \<open>What the started process sees\<close>

text \<open>
  The process start of Node turns every entry whose value is not \<open>undefined\<close> into a text
  \<open>NAME=value\<close>. A program looks a variable up by the part before the first \<open>=\<close>; the first match counts.
\<close>

definition env_block :: "env \<Rightarrow> string list res" where
  "env_block env = mapE (\<lambda>(k, v). bindE (to_str v) (\<lambda>s. Inr (k @ ''='' @ s))) (filter (\<lambda>(k, v). v \<noteq> JUndef) env)"

definition var_name :: "string \<Rightarrow> string" where
  "var_name e = takeWhile (\<lambda>c. c \<noteq> CHR ''='') e"

definition getenv :: "string list \<Rightarrow> string \<Rightarrow> string option" where
  "getenv es k = (case filter (\<lambda>e. var_name e = k \<and> CHR ''='' \<in> set e) es of
      [] \<Rightarrow> None | e # _ \<Rightarrow> Some (drop (Suc (length k)) e))"

section \<open>The declared variables\<close>

text \<open>Whatever the order of the declarations: a blocked name keeps the value it had.\<close>

lemma declared_env_blocked:
  "declared_env tr kvs env = Inr env' \<Longrightarrow> blocked_key tr k \<Longrightarrow> map_get k env' = map_get k env"
proof (induction tr kvs env rule: declared_env.induct)
  case (2 tr l v kvs env)
  show ?case
  proof (cases "blocked_key tr l")
    case True
    then show ?thesis using 2 by simp
  next
    case False
    then have "k \<noteq> l" using 2(4) by blast
    then show ?thesis using 2 False by (auto simp: bindE_Inr_iff env_put_def split: if_splits)
  qed
qed simp

lemma map_set_name: "k \<in> set (map_keys (map_set l v m)) \<longleftrightarrow> k = l \<or> k \<in> set (map_keys m)"
  by (auto simp: map_keys_set)

lemma declared_env_names:
  "declared_env tr kvs env = Inr env' \<Longrightarrow> k \<in> set (map_keys env') \<Longrightarrow>
   k \<in> set (map_keys env) \<or> (k \<in> fst ` set kvs \<and> \<not> blocked_key tr k)"
proof (induction tr kvs env rule: declared_env.induct)
  case (2 tr l v kvs env)
  show ?case
  proof (cases "blocked_key tr l")
    case True
    then show ?thesis using 2 by auto
  next
    case False
    then obtain s where s: "declared_env tr kvs (env_put l (JStr s) env) = Inr env'" "to_str v = Inr s"
      using "2.prems"(1) by (auto simp: bindE_Inr_iff)
    have "k \<in> set (map_keys (env_put l (JStr s) env)) \<Longrightarrow> k = l \<or> k \<in> set (map_keys env)"
      unfolding env_put_def by (cases "l = ''__proto__''") (simp_all only: if_True if_False map_set_name simp_thms)
    then show ?thesis using "2.IH"(2) [OF False s(2) s(1) "2.prems"(2)] False by auto
  qed
qed simp

lemma pass_step_names: "k \<in> set (map_keys (fold (pass_step src) ks env)) \<Longrightarrow> k \<in> set (map_keys env) \<or> k \<in> set ks"
proof (induction ks arbitrary: env)
  case (Cons l ks)
  have "k \<in> set (map_keys (pass_step src l env)) \<Longrightarrow> k = l \<or> k \<in> set (map_keys env)"
    unfolding pass_step_def by (cases "src l") (simp_all only: option.case map_set_name simp_thms)
  then show ?case using Cons.IH [of "pass_step src l env"] Cons.prems by auto
qed simp

lemma pass_env_names:
  assumes "k \<in> set (map_keys (pass_env src tr env))"
  shows "k \<in> set (map_keys env) \<or> k \<in> set (allow_list tr) \<or> (\<not> tr \<and> k = ''CIRCUIT_RPC_URL'')"
proof -
  let ?e = "fold (pass_step src) (allow_list tr) env"
  have "k \<in> set (map_keys ?e) \<or> (\<not> tr \<and> k = ''CIRCUIT_RPC_URL'')"
    using assms unfolding pass_env_def Let_def
    by (cases "src ''CIRCUIT_PUBLIC_RPC_URL''") (simp_all only: option.case map_set_name split: if_splits, blast+)
  then show ?thesis using pass_step_names by blast
qed

definition host_names :: "string list" where
  "host_names = [''PATH'', ''HOME'', ''TMPDIR'', ''LANG'', ''TZ'', ''CIRCUIT_AGENT_DATA_DIR'', ''AGENT_NAME'']"

definition session_names :: "string list" where
  "session_names = [''CIRCUIT_SIGNER_URL'', ''CIRCUIT_AGENT_ID'', ''CIRCUIT_AGENT_EPOCH'', ''CIRCUIT_AGENT_SESSION'',
     ''CIRCUIT_AGENT_ADDRESS'', ''CIRCUIT_AGENT_PAPER'']"

lemma signer_env_names:
  "signer_env s (base_env a dir src) = Inr env \<Longrightarrow> k \<in> set (map_keys env) \<Longrightarrow> k \<in> set (host_names @ session_names)"
proof -
  assume e: "signer_env s (base_env a dir src) = Inr env" and k: "k \<in> set (map_keys env)"
  have b: "map_keys (base_env a dir src) = host_names" by (simp add: base_env_def host_names_def)
  have "map_keys env = host_names \<or> map_keys env = host_names @ session_names"
    using e by (cases "truthy s") (auto simp: signer_env_def b bindE_Inr_iff session_names_def)
  then show ?thesis using k by (elim disjE) (simp_all only: set_append Un_iff simp_thms)
qed

text \<open>The names the host itself can set, none of them process-influencing.\<close>

lemma lower_n: "lower_char c = CHR ''n'' \<Longrightarrow> c \<in> {CHR ''n'', CHR ''N''}"
proof (cases "is_upper c")
  case True
  assume "lower_char c = CHR ''n''"
  then have "of_char (char_of (of_char c + 32 :: nat)) = (110 :: nat)" using True by (simp add: lower_char_def)
  then have "(of_char c + 32) mod 256 = (110 :: nat)" by simp
  moreover have "(of_char c :: nat) \<le> 90" using True by (simp add: is_upper_def less_eq_char_def)
  ultimately have "of_char c = (78 :: nat)" by simp
  then have "char_of (78 :: nat) = c" by (simp add: char_of_eq_iff)
  moreover have "CHR ''N'' = char_of (78 :: nat)" by code_simp
  ultimately show ?thesis by simp
qed (simp add: lower_char_def)

lemma starts_with_take: "starts_with p s \<Longrightarrow> n \<le> length p \<Longrightarrow> take n s = take n p"
  unfolding starts_with_def by (metis min.absorb1 take_take)

lemma dangerous_head: "DANGEROUS_ENV k \<Longrightarrow> take 2 k \<in> {''NO'', ''LD'', ''BA'', ''DY''} \<or> take 1 k \<in> {''n'', ''N''}"
  unfolding DANGEROUS_ENV_def
proof (elim disjE)
  assume "starts_with ''npm_config_'' (map lower_char k)"
  from starts_with_take [OF this, of 1] have t: "map lower_char (take 1 k) = ''n''" by (simp add: take_map)
  show ?thesis
  proof (cases k)
    case Nil
    then show ?thesis using t by simp
  next
    case (Cons c r)
    then show ?thesis using t lower_n [of c] by simp
  qed
next
  assume "starts_with ''LD_'' k"
  then show ?thesis using starts_with_take [of "''LD_''" k 2] by simp
next
  assume "starts_with ''DYLD_'' k"
  then show ?thesis using starts_with_take [of "''DYLD_''" k 2] by simp
qed simp_all

lemma own_names:
  "list_all (\<lambda>k. \<not> DANGEROUS_ENV k \<and> CHR ''='' \<notin> set k \<and> k \<noteq> [])
     (host_names @ session_names @ allow_list True @ [''CIRCUIT_RPC_URL''])"
  "list_all (\<lambda>k. k \<notin> set SECRET_ENV) (host_names @ session_names @ allow_list False @ [''CIRCUIT_RPC_URL''])"
proof -
  have "list_all (\<lambda>k. \<not> (take 2 k \<in> {''NO'', ''LD'', ''BA'', ''DY''} \<or> take 1 k \<in> {''n'', ''N''}) \<and> CHR ''='' \<notin> set k \<and> k \<noteq> [])
     (host_names @ session_names @ allow_list True @ [''CIRCUIT_RPC_URL''])"
    by (simp add: host_names_def session_names_def allow_list_def ENDPOINT_ENV_def COSMETIC_ENV_def CREDENTIALED_ENDPOINT_ENV_def
        SECRET_ENV_def)
  then show "list_all (\<lambda>k. \<not> DANGEROUS_ENV k \<and> CHR ''='' \<notin> set k \<and> k \<noteq> [])
     (host_names @ session_names @ allow_list True @ [''CIRCUIT_RPC_URL''])"
    by (rule list.pred_mono_strong) (use dangerous_head in blast)
  show "list_all (\<lambda>k. k \<notin> set SECRET_ENV) (host_names @ session_names @ allow_list False @ [''CIRCUIT_RPC_URL''])"
    by (simp add: host_names_def session_names_def allow_list_def ENDPOINT_ENV_def COSMETIC_ENV_def SECRET_ENV_def)
qed

lemma allow_list_trusted: "k \<in> set (allow_list tr) \<Longrightarrow> k \<in> set (allow_list True)"
  by (auto simp: allow_list_def split: if_splits)

lemma buildAgentEnv_names:
  assumes "buildAgentEnv a dir src = Inr env" "k \<in> set (map_keys env)"
  shows "k \<in> set (host_names @ session_names @ allow_list (is_trusted a) @ [''CIRCUIT_RPC_URL'']) \<or>
    (k \<in> fst ` set (declared a) \<and> \<not> blocked_key (is_trusted a) k)"
proof -
  obtain e where e: "signer_env (jopt a ''signer'') (base_env a dir src) = Inr e"
      "declared_env (is_trusted a) (declared a) (pass_env src (is_trusted a) e) = Inr env"
    using assms(1) by (auto simp: buildAgentEnv_def bindE_Inr_iff)
  show ?thesis
    using declared_env_names [OF e(2) assms(2)] pass_env_names [of k src "is_trusted a" e] signer_env_names [OF e(1), of k]
    unfolding set_append Un_iff list.set(2) [of "''CIRCUIT_RPC_URL''"] by blast
qed

lemma var_name_entry: "CHR ''='' \<notin> set k \<Longrightarrow> var_name (k @ CHR ''='' # s) = k"
  by (induction k) (auto simp: var_name_def)

lemma env_block_entry:
  "env_block env = Inr es \<Longrightarrow> e \<in> set es \<Longrightarrow> \<exists>k v s. (k, v) \<in> set env \<and> v \<noteq> JUndef \<and> to_str v = Inr s \<and> e = k @ CHR ''='' # s"
proof (induction env arbitrary: es)
  case (Cons kv env)
  then show ?case by (cases kv) (fastforce simp: env_block_def bindE_Inr_iff split: if_splits)
qed (simp add: env_block_def)

lemma getenv_block:
  "env_block env = Inr es \<Longrightarrow> \<forall>l \<in> set (map_keys env). CHR ''='' \<notin> set l \<Longrightarrow>
   map_get k env = Some v \<Longrightarrow> v \<noteq> JUndef \<Longrightarrow> to_str v = Inr s \<Longrightarrow> getenv es k = Some s"
proof (induction env arbitrary: es)
  case (Cons kv env)
  obtain l w where kv: "kv = (l, w)" by (cases kv)
  have tl: "\<exists>es'. env_block env = Inr es' \<and> (es = es' \<and> w = JUndef \<or> (\<exists>t. to_str w = Inr t \<and> es = (l @ CHR ''='' # t) # es'))"
    using Cons.prems(1) by (auto simp: kv env_block_def bindE_Inr_iff split: if_splits)
  then obtain es' where es': "env_block env = Inr es'" "es = es' \<and> w = JUndef \<or> (\<exists>t. to_str w = Inr t \<and> es = (l @ CHR ''='' # t) # es')"
    by blast
  show ?case
  proof (cases "l = k")
    case True
    then show ?thesis using Cons.prems es' by (auto simp: kv getenv_def var_name_entry map_get_def)
  next
    case False
    then have "getenv es' k = Some s" using Cons.IH [OF es'(1)] Cons.prems by (auto simp: kv map_get_def)
    then show ?thesis using es'(2) False Cons.prems(2) by (auto simp: kv getenv_def var_name_entry)
  qed
qed simp

lemma pass_step_other: "k \<notin> set ks \<Longrightarrow> map_get k (fold (pass_step src) ks env) = map_get k env"
  by (induction ks arbitrary: env) (auto simp: pass_step_def map_get_set split: option.split)

lemma pass_env_other:
  "k \<notin> set (allow_list True) \<Longrightarrow> map_get k (pass_env src tr env) = map_get k env"
proof -
  assume k: "k \<notin> set (allow_list True)"
  then have a: "k \<notin> set (allow_list b)" for b using allow_list_trusted by blast
  have r: "k \<noteq> ''CIRCUIT_RPC_URL''" using k by (auto simp: allow_list_def CREDENTIALED_ENDPOINT_ENV_def)
  show ?thesis
    unfolding pass_env_def Let_def
    by (simp add: pass_step_other [OF a] map_get_set_other [OF r [symmetric]] split: option.split)
qed


section \<open>What a bundle receives\<close>

definition public_names :: "string list" where
  "public_names = [''PATH'', ''LANG'', ''TZ'', ''CIRCUIT_PUBLIC_RPC_URL''] @ ENDPOINT_ENV @ COSMETIC_ENV"

lemma public_env_cong:
  assumes "\<not> is_trusted a" "\<forall>k \<in> set public_names. src k = src' k"
  shows "buildAgentEnv a dir src = buildAgentEnv a dir src'"
proof -
  have n: "src ''PATH'' = src' ''PATH''" "src ''LANG'' = src' ''LANG''" "src ''TZ'' = src' ''TZ''"
    "src ''CIRCUIT_PUBLIC_RPC_URL'' = src' ''CIRCUIT_PUBLIC_RPC_URL''"
    using assms(2) by (simp_all add: public_names_def)
  have b: "base_env a dir src = base_env a dir src'" by (simp add: base_env_def env_or_def n)
  have l: "\<forall>k \<in> set (allow_list False). src k = src' k"
    using assms(2) by (simp add: allow_list_def public_names_def)
  have "fold (pass_step src) ks env = fold (pass_step src') ks env" if "\<forall>k \<in> set ks. src k = src' k" for ks env
    using that by (induction ks arbitrary: env) (auto simp: pass_step_def)
  then have "pass_env src False env = pass_env src' False env" for env
    by (simp add: pass_env_def n l)
  then show ?thesis using assms(1) by (simp add: buildAgentEnv_def b)
qed

text \<open>C16. The operator's secrets do not reach a bundle: its environment is the same whatever the host's own environment
  holds outside the eight public names and the keyless RPC URL, so neither a key, a token nor a
  keyed URL of the operator has any influence on it.\<close>

theorem bundle_env_ignores_secrets:
  assumes "\<not> is_trusted a" "\<forall>k \<in> set public_names. src k = src' k"
  shows "buildAgentEnv a dir src = buildAgentEnv a dir src'"
  using assms by (rule public_env_cong)

lemma started_names:
  assumes "buildAgentEnv a dir src = Inr env" "\<forall>k \<in> fst ` set (declared a). CHR ''='' \<notin> set k" "k \<in> set (map_keys env)"
  shows "CHR ''='' \<notin> set k \<and> \<not> DANGEROUS_ENV k \<and> (is_trusted a \<or> k \<notin> set SECRET_ENV)"
  using buildAgentEnv_names [OF assms(1,3)]
proof
  assume k: "k \<in> set (host_names @ session_names @ allow_list (is_trusted a) @ [''CIRCUIT_RPC_URL''])"
  then have t: "k \<in> set (host_names @ session_names @ allow_list True @ [''CIRCUIT_RPC_URL''])"
    using allow_list_trusted unfolding set_append Un_iff by blast
  show ?thesis
  proof (cases "is_trusted a")
    case True
    then show ?thesis using t own_names(1) by (simp only: list_all_iff) blast
  next
    case False
    then have "k \<notin> set SECRET_ENV" using k own_names(2) by (simp only: list_all_iff simp_thms)
    then show ?thesis using t own_names(1) by (simp only: list_all_iff) blast
  qed
next
  assume "k \<in> fst ` set (declared a) \<and> \<not> blocked_key (is_trusted a) k"
  then show ?thesis using assms(2) unfolding blocked_key_def by blast
qed

lemma started_entry:
  assumes "buildAgentEnv a dir src = Inr env" "\<forall>k \<in> fst ` set (declared a). CHR ''='' \<notin> set k" "env_block env = Inr es" "e \<in> set es"
  shows "\<not> DANGEROUS_ENV (var_name e) \<and> (is_trusted a \<or> var_name e \<notin> set SECRET_ENV)"
proof -
  obtain k v s where e: "(k, v) \<in> set env" "e = k @ CHR ''='' # s" using env_block_entry [OF assms(3,4)] by blast
  then have "k \<in> set (map_keys env)" by force
  from started_names [OF assms(1,2) this] show ?thesis using e(2) by (simp add: var_name_entry)
qed

lemma session_kept:
  assumes "buildAgentEnv a dir src = Inr env"
    and "k \<in> set [''CIRCUIT_AGENT_SESSION'', ''CIRCUIT_SIGNER_URL'', ''CIRCUIT_AGENT_EPOCH'']"
  shows "\<exists>e. signer_env (jopt a ''signer'') (base_env a dir src) = Inr e \<and> map_get k env = map_get k e"
proof -
  obtain e where e: "signer_env (jopt a ''signer'') (base_env a dir src) = Inr e"
      "declared_env (is_trusted a) (declared a) (pass_env src (is_trusted a) e) = Inr env"
    using assms(1) by (auto simp: buildAgentEnv_def bindE_Inr_iff)
  have "list_all (\<lambda>k. PROTECTED k \<and> k \<notin> set (allow_list True)) [''CIRCUIT_AGENT_SESSION'', ''CIRCUIT_SIGNER_URL'', ''CIRCUIT_AGENT_EPOCH'']"
    by code_simp
  then have p: "PROTECTED k" "k \<notin> set (allow_list True)" using assms(2) unfolding list_all_iff by blast+
  then have "blocked_key (is_trusted a) k" by (simp add: blocked_key_def)
  from declared_env_blocked [OF e(2) this] pass_env_other [OF p(2)] e(1) show ?thesis by (simp only:) blast
qed

lemma session_values:
  assumes "signer_env s (base_env a dir src) = Inr e" "truthy s"
  shows "map_get ''CIRCUIT_AGENT_SESSION'' e = Some (jopt s ''token'') \<and> map_get ''CIRCUIT_SIGNER_URL'' e = Some (jopt s ''url'') \<and>
    (\<exists>t. to_str (jopt s ''epoch'') = Inr t \<and> map_get ''CIRCUIT_AGENT_EPOCH'' e = Some (JStr t))"
  using assms by (auto simp: signer_env_def base_env_def bindE_Inr_iff map_get_def)

lemma started_session:
  assumes "buildAgentEnv a dir src = Inr env" "truthy (jopt a ''signer'')"
  shows "map_get ''CIRCUIT_AGENT_SESSION'' env = Some (jopt (jopt a ''signer'') ''token'') \<and>
    map_get ''CIRCUIT_SIGNER_URL'' env = Some (jopt (jopt a ''signer'') ''url'') \<and>
    (\<exists>t. to_str (jopt (jopt a ''signer'') ''epoch'') = Inr t \<and> map_get ''CIRCUIT_AGENT_EPOCH'' env = Some (JStr t))"
proof -
  obtain e where e: "signer_env (jopt a ''signer'') (base_env a dir src) = Inr e"
    using session_kept [OF assms(1), of "''CIRCUIT_AGENT_EPOCH''"] by auto
  have "map_get k env = map_get k e" if "k \<in> set [''CIRCUIT_AGENT_SESSION'', ''CIRCUIT_SIGNER_URL'', ''CIRCUIT_AGENT_EPOCH'']" for k
    using session_kept [OF assms(1) that] e by auto
  then show ?thesis using session_values [OF e assms(2)] by (simp only: list.set_intros)
qed

text \<open>C15. The environment a hosted process starts with keeps the identity the host gave it: as long as the declared names
  hold no equals sign, no variable is process-influencing, a bundle sees no variable with the name of a
  secret, and whatever the bundle declares, its session token, its signer and its epoch are those of
  the assignment.\<close>

theorem started_env_keeps_identity:
  assumes "buildAgentEnv a dir src = Inr env" "env_block env = Inr es"
    and "\<forall>k \<in> fst ` set (declared a). CHR ''='' \<notin> set k"
  shows "(\<forall>e \<in> set es. \<not> DANGEROUS_ENV (var_name e) \<and> (is_trusted a \<or> var_name e \<notin> set SECRET_ENV)) \<and>
    (truthy (jopt a ''signer'') \<longrightarrow>
      (\<forall>token. jopt (jopt a ''signer'') ''token'' = JStr token \<longrightarrow> getenv es ''CIRCUIT_AGENT_SESSION'' = Some token) \<and>
      (\<forall>url. jopt (jopt a ''signer'') ''url'' = JStr url \<longrightarrow> getenv es ''CIRCUIT_SIGNER_URL'' = Some url) \<and>
      (\<exists>epoch. to_str (jopt (jopt a ''signer'') ''epoch'') = Inr epoch \<and> getenv es ''CIRCUIT_AGENT_EPOCH'' = Some epoch))"
proof -
  let ?s = "jopt a ''signer''"
  have n: "\<forall>l \<in> set (map_keys env). CHR ''='' \<notin> set l"
    using started_names [OF assms(1,3)] by blast
  note g = getenv_block [OF assms(2) n]
  have "(\<forall>token. jopt ?s ''token'' = JStr token \<longrightarrow> getenv es ''CIRCUIT_AGENT_SESSION'' = Some token) \<and>
      (\<forall>url. jopt ?s ''url'' = JStr url \<longrightarrow> getenv es ''CIRCUIT_SIGNER_URL'' = Some url) \<and>
      (\<exists>epoch. to_str (jopt ?s ''epoch'') = Inr epoch \<and> getenv es ''CIRCUIT_AGENT_EPOCH'' = Some epoch)" if "truthy ?s"
    using started_session [OF assms(1) that] g [of "''CIRCUIT_AGENT_SESSION''"] g [of "''CIRCUIT_SIGNER_URL''"] g [of "''CIRCUIT_AGENT_EPOCH''"]
    by auto
  then show ?thesis using started_entry [OF assms(1,3,2)] by blast
qed

text \<open>A bundle that declares, besides its own setting, a session, a loader option and a trading key.\<close>

definition sample_assignment :: jsval where
  "sample_assignment = JObj [(''id'', JStr ''a1''), (''name'', JStr ''n''),
     (''spec'', JObj [(''bundle'', JObj []), (''env'', JObj [(''MODE'', JStr ''x''), (''CIRCUIT_AGENT_SESSION'', JStr ''forged''),
        (''NODE_OPTIONS'', JStr ''--import=/data/x.mjs''), (''AGENT_KEYPAIR'', JStr ''k'')])]),
     (''signer'', JObj [(''url'', JStr ''http://s''), (''agentId'', JStr ''a1''), (''epoch'', JStr ''3''), (''token'', JStr ''tok''),
        (''address'', JNull), (''paper'', JBool True)])]"

definition sample_source :: src_env where
  "sample_source k = (if k = ''PATH'' then Some ''/bin'' else if k = ''AGENT_KEYPAIR'' then Some ''secret'' else None)"

definition bare_source :: src_env where
  "bare_source k = (if k = ''PATH'' then Some ''/bin'' else None)"

definition sample_env :: env where
  "sample_env = [(''PATH'', JStr ''/bin''), (''HOME'', JStr ''/d''), (''TMPDIR'', JStr ''/d/tmp''), (''LANG'', JStr ''C.UTF-8''),
     (''TZ'', JStr ''UTC''), (''CIRCUIT_AGENT_DATA_DIR'', JStr ''/d''), (''AGENT_NAME'', JStr ''n''),
     (''CIRCUIT_SIGNER_URL'', JStr ''http://s''), (''CIRCUIT_AGENT_ID'', JStr ''a1''), (''CIRCUIT_AGENT_EPOCH'', JStr ''3''),
     (''CIRCUIT_AGENT_SESSION'', JStr ''tok''), (''CIRCUIT_AGENT_ADDRESS'', JStr []), (''CIRCUIT_AGENT_PAPER'', JStr ''1''),
     (''MODE'', JStr ''x'')]"

lemma sample_built: "buildAgentEnv sample_assignment ''/d'' sample_source = Inr sample_env"
  by code_simp

lemma sample_block: "\<exists>es. env_block sample_env = Inr es"
  by (simp add: sample_env_def env_block_def)

theorem bundle_env_ignores_secrets_witness:
  "buildAgentEnv sample_assignment ''/d'' sample_source = buildAgentEnv sample_assignment ''/d'' bare_source \<and>
   sample_source ''AGENT_KEYPAIR'' \<noteq> bare_source ''AGENT_KEYPAIR''"
proof -
  have "\<not> is_trusted sample_assignment" by code_simp
  moreover have "\<forall>k \<in> set public_names. sample_source k = bare_source k" by code_simp
  ultimately show ?thesis using bundle_env_ignores_secrets by (simp add: sample_source_def bare_source_def)
qed

theorem started_env_keeps_identity_witness:
  "\<exists>es. env_block sample_env = Inr es \<and> getenv es ''CIRCUIT_AGENT_SESSION'' = Some ''tok''"
proof -
  obtain es where es: "env_block sample_env = Inr es" using sample_block by blast
  have d: "\<forall>k \<in> fst ` set (declared sample_assignment). CHR ''='' \<notin> set k" by code_simp
  have s: "truthy (jopt sample_assignment ''signer'')" "jopt (jopt sample_assignment ''signer'') ''token'' = JStr ''tok''"
    by (simp_all add: sample_assignment_def jopt_def)
  show ?thesis using started_env_keeps_identity [OF sample_built es d] s es by blast
qed

text \<open>The proviso on the names matters: a declared name that holds an equals sign passes the filters, and
  the process it starts in, or the container, is given the variable before the sign.\<close>

definition smuggler :: jsval where
  "smuggler = JObj [(''id'', JStr ''a1''), (''spec'', JObj [(''bundle'', JObj []),
     (''env'', JObj [(''NODE_OPTIONS=--import'', JStr ''/data/x.mjs'')])])]"

text \<open>Declaring the variable named \<open>NODE_OPTIONS=--import\<close> gets a loader option into the process of a bundle, past the
  filter on process-influencing names.\<close>

theorem equals_sign_smuggles_node_options:
  "\<exists>env es. buildAgentEnv smuggler ''/data'' bare_source = Inr env \<and> env_block env = Inr es \<and>
     getenv es ''NODE_OPTIONS'' = Some ''--import=/data/x.mjs''"
proof -
  let ?e = "[(''PATH'', JStr ''/bin''), (''HOME'', JStr ''/data''), (''TMPDIR'', JStr ''/data/tmp''), (''LANG'', JStr ''C.UTF-8''),
     (''TZ'', JStr ''UTC''), (''CIRCUIT_AGENT_DATA_DIR'', JStr ''/data''), (''AGENT_NAME'', JStr []),
     (''NODE_OPTIONS=--import'', JStr ''/data/x.mjs'')]"
  have b: "buildAgentEnv smuggler ''/data'' bare_source = Inr ?e" by code_simp
  obtain es where es: "env_block ?e = Inr es" by (simp add: env_block_def)
  then have "getenv es ''NODE_OPTIONS'' = Some ''--import=/data/x.mjs''"
    by (auto simp: env_block_def getenv_def var_name_def)
  then show ?thesis using b es by blast
qed

end
