(* ===== verification/Container.thy ===== *)
theory Container
  imports Agent_Env
begin

text \<open>
  node-host/oci.js: the detection of a container runtime and the command line of the hardened
  container an untrusted bundle runs in. Whether a command can be run, and whether \<open>/dev/kvm\<close> can be
  opened, are arguments of the detection.
\<close>

definition detectOciRuntime :: "(string \<Rightarrow> string list \<Rightarrow> bool) \<Rightarrow> string option" where
  "detectOciRuntime usable =
     (if usable ''docker'' [''info''] then Some ''docker'' else if usable ''podman'' [''info''] then Some ''podman'' else None)"

definition detectMicroVm :: "bool \<Rightarrow> (string \<Rightarrow> string list \<Rightarrow> bool) \<Rightarrow> string option" where
  "detectMicroVm kvm usable =
     (if \<not> kvm then None
      else if usable ''kata-runtime'' [''--version''] then Some ''kata-runtime''
      else if usable ''containerd-shim-kata-v2'' [''--version''] then Some ''containerd-shim-kata-v2''
      else None)"

definition DEFAULT_OCI_IMAGE :: string where
  "DEFAULT_OCI_IMAGE = ''node:20-bookworm-slim@sha256:2cf067cfed83d5ea958367df9f966191a942351a2df77d6f0193e162b5febfc0''"

record container_req =
  cq_runtime :: "string option"
  cq_image :: "string option"
  cq_name :: string
  cq_bundleDir :: string
  cq_dataDir :: string
  cq_entry :: string
  cq_env :: env
  cq_proxyUrl :: "string option"
  cq_network :: string
  cq_seccomp :: "string option"
  cq_memMb :: "jsnum option"
  cq_pids :: "jsnum option"
  cq_vmRuntime :: "string option"

text \<open>\<open>Object.entries\<close>: integer-like names first, in ascending order, then the others as they were set.\<close>

definition index_name :: "string \<Rightarrow> bool" where
  "index_name k = (k \<noteq> [] \<and> list_all is_digit k \<and> (k = ''0'' \<or> hd k \<noteq> CHR ''0'') \<and>
     digits_value 10 (map digit_val k) < 4294967295)"

definition own_order :: "env \<Rightarrow> env" where
  "own_order env = sort_key (\<lambda>(k, v). digits_value 10 (map digit_val k)) (filter (\<lambda>(k, v). index_name k) env) @
     filter (\<lambda>(k, v). \<not> index_name k) env"

definition DROP :: "string list" where
  "DROP = [''PATH'', ''HOME'', ''TMPDIR'', ''LANG'', ''TZ'', ''CIRCUIT_AGENT_DATA_DIR'']"

definition env_values :: "env \<Rightarrow> string list res" where
  "env_values env = mapE (\<lambda>(k, v). bindE (to_str v) (\<lambda>s. Inr (k @ ''='' @ s)))
     (filter (\<lambda>(k, v). k \<notin> set DROP) (own_order env))"

definition env_flags :: "string list \<Rightarrow> string list" where
  "env_flags vs = concat (map (\<lambda>e. [''-e'', e]) vs)"

text \<open>A text parameter that is absent takes its default.\<close>

definition dflt :: "'a \<Rightarrow> 'a option \<Rightarrow> 'a" where
  "dflt d x = (case x of Some v \<Rightarrow> v | None \<Rightarrow> d)"

definition given :: "string option \<Rightarrow> bool" where
  "given x = (x \<noteq> None \<and> x \<noteq> Some [])"

definition proxy_values :: "string option \<Rightarrow> string list" where
  "proxy_values p = (if given p
     then [''HTTPS_PROXY='' @ the p, ''https_proxy='' @ the p, ''NO_PROXY='', ''no_proxy=''] else [])"

definition container_args :: "container_req \<Rightarrow> string list \<Rightarrow> string list" where
  "container_args q envFlags =
     (let mem = num_str (dflt (Fin 512) (cq_memMb q)) @ ''m''
      in [''run'', ''--rm'', ''--name'', cq_name q] @
         (if given (cq_vmRuntime q) then [''--runtime'', the (cq_vmRuntime q)] else []) @
         [''--network'', cq_network q,
          ''--read-only'',
          ''--cap-drop'', ''ALL'',
          ''--security-opt'', ''no-new-privileges'',
          ''--security-opt'', ''seccomp='' @ dflt ''default'' (cq_seccomp q),
          ''--user'', ''65534:65534'',
          ''--pids-limit'', num_str (dflt (Fin 256) (cq_pids q)),
          ''--memory'', mem, ''--memory-swap'', mem,
          ''--tmpfs'', ''/tmp:rw,noexec,nosuid,size=64m'',
          ''-v'', cq_bundleDir q @ '':/app:ro'',
          ''-v'', cq_dataDir q @ '':/data:rw'',
          ''-w'', ''/data''] @
         envFlags @
         [''-e'', ''CIRCUIT_AGENT_DATA_DIR=/data'', ''-e'', ''HOME=/data''] @
         env_flags (proxy_values (cq_proxyUrl q)) @
         [dflt DEFAULT_OCI_IMAGE (cq_image q), ''node'', ''/app/'' @ cq_entry q])"

definition buildContainerSpec :: "container_req \<Rightarrow> (string \<times> string list) res" where
  "buildContainerSpec q =
     (if cq_name q = [] \<or> cq_bundleDir q = [] \<or> cq_dataDir q = [] \<or> cq_entry q = [] then Inl (Err 0 ''spec-required'')
      else if cq_network q = [] then Inl (Err 0 ''network-required'')
      else bindE (env_values (cq_env q)) (\<lambda>vs.
        Inr (dflt ''docker'' (cq_runtime q), container_args q (env_flags vs))))"

section \<open>How the container engine reads the words\<close>

text \<open>
  The grammar of \<open>run\<close>, for the options that occur: \<open>--rm\<close> and \<open>--read-only\<close> stand alone, every
  other word that begins with a dash is an option whose value is the next word, and the first word
  that is not an option is the image, which the command follows. The last assignment of a variable counts.
\<close>

fun run_options :: "string list \<Rightarrow> (string \<times> string) list \<times> string list" where
  "run_options [] = ([], [])"
| "run_options (w # ws) =
     (if take 1 w \<noteq> ''-'' then ([], w # ws)
      else if w \<in> {''--rm'', ''--read-only''} then apfst (Cons (w, [])) (run_options ws)
      else (case ws of
          [] \<Rightarrow> ([(w, [])], [])
        | v # vs \<Rightarrow> apfst (Cons (w, v)) (run_options vs)))"

definition container_var :: "(string \<times> string) list \<Rightarrow> string \<Rightarrow> string option" where
  "container_var opts k =
     (case rev (filter (\<lambda>(w, v). w = ''-e'' \<and> CHR ''='' \<in> set v \<and> var_name v = k) opts) of
        [] \<Rightarrow> None
      | (w, v) # _ \<Rightarrow> Some (drop (Suc (length k)) v))"

lemma run_options_word:
  "take 1 w \<noteq> ''-'' \<Longrightarrow> run_options (w # ws) = ([], w # ws)"
  "run_options (''--rm'' # ws) = apfst (Cons (''--rm'', [])) (run_options ws)"
  "run_options (''--read-only'' # ws) = apfst (Cons (''--read-only'', [])) (run_options ws)"
  "take 1 w = ''-'' \<Longrightarrow> w \<notin> {''--rm'', ''--read-only''} \<Longrightarrow> run_options (w # v # ws) = apfst (Cons (w, v)) (run_options ws)"
  by simp_all

declare run_options.simps(2) [simp del]

lemma run_options_env: "run_options (env_flags vs @ ws) = apfst ((@) (map (Pair ''-e'') vs)) (run_options ws)"
  by (induction vs) (auto simp: env_flags_def run_options_word apfst_def map_prod_def split: prod.splits)

definition hardened :: "container_req \<Rightarrow> (string \<times> string) list" where
  "hardened q =
     [(''--rm'', []), (''--name'', cq_name q)] @
     (if given (cq_vmRuntime q) then [(''--runtime'', the (cq_vmRuntime q))] else []) @
     [(''--network'', cq_network q), (''--read-only'', []), (''--cap-drop'', ''ALL''),
      (''--security-opt'', ''no-new-privileges''), (''--security-opt'', ''seccomp='' @ dflt ''default'' (cq_seccomp q)),
      (''--user'', ''65534:65534''), (''--pids-limit'', num_str (dflt (Fin 256) (cq_pids q))),
      (''--memory'', num_str (dflt (Fin 512) (cq_memMb q)) @ ''m''), (''--memory-swap'', num_str (dflt (Fin 512) (cq_memMb q)) @ ''m''),
      (''--tmpfs'', ''/tmp:rw,noexec,nosuid,size=64m''), (''-v'', cq_bundleDir q @ '':/app:ro''),
      (''-v'', cq_dataDir q @ '':/data:rw''), (''-w'', ''/data'')]"

definition option_words :: "(string \<times> string) list \<Rightarrow> string list" where
  "option_words opts = concat (map (\<lambda>(w, v). if w \<in> {''--rm'', ''--read-only''} then [w] else [w, v]) opts)"

definition option_ok :: "string \<times> string \<Rightarrow> bool" where
  "option_ok x = (take 1 (fst x) = ''-'' \<and> (fst x \<in> {''--rm'', ''--read-only''} \<longrightarrow> snd x = []))"

lemma run_options_words: "list_all option_ok opts \<Longrightarrow> run_options (option_words opts @ ws) = apfst ((@) opts) (run_options ws)"
proof (induction opts)
  case (Cons x opts)
  obtain w v where x: "x = (w, v)" by (cases x)
  have "run_options (option_words (x # opts) @ ws) = apfst (Cons x) (run_options (option_words opts @ ws))"
    using Cons.prems by (auto simp: x option_words_def option_ok_def run_options_word)
  then show ?case using Cons by (cases "run_options ws") simp
qed (simp add: option_words_def apfst_def map_prod_def split: prod.split)

lemma container_words:
  assumes "take 1 (dflt DEFAULT_OCI_IMAGE (cq_image q)) \<noteq> ''-''"
  shows "hd (container_args q (env_flags vs)) = ''run'' \<and>
    run_options (tl (container_args q (env_flags vs))) =
      (hardened q @ map (Pair ''-e'') (vs @ [''CIRCUIT_AGENT_DATA_DIR=/data'', ''HOME=/data''] @ proxy_values (cq_proxyUrl q)),
       [dflt DEFAULT_OCI_IMAGE (cq_image q), ''node'', ''/app/'' @ cq_entry q])"
proof -
  let ?img = "[dflt DEFAULT_OCI_IMAGE (cq_image q), ''node'', ''/app/'' @ cq_entry q]"
  have i: "run_options ?img = ([], ?img)" using assms by (simp only: run_options_word simp_thms)
  have p: "run_options (env_flags (proxy_values (cq_proxyUrl q)) @ ?img) = (map (Pair ''-e'') (proxy_values (cq_proxyUrl q)), ?img)"
    by (simp only: run_options_env i apfst_conv append_Nil2)
  have r: "[''-e'', ''CIRCUIT_AGENT_DATA_DIR=/data'', ''-e'', ''HOME=/data''] @ env_flags (proxy_values (cq_proxyUrl q)) =
      env_flags ([''CIRCUIT_AGENT_DATA_DIR=/data'', ''HOME=/data''] @ proxy_values (cq_proxyUrl q))"
    by (simp add: env_flags_def)
  have e: "run_options (env_flags vs @ ([''-e'', ''CIRCUIT_AGENT_DATA_DIR=/data'', ''-e'', ''HOME=/data''] @ env_flags (proxy_values (cq_proxyUrl q))) @ ?img) =
      (map (Pair ''-e'') (vs @ [''CIRCUIT_AGENT_DATA_DIR=/data'', ''HOME=/data''] @ proxy_values (cq_proxyUrl q)), ?img)"
    unfolding r by (simp only: run_options_env i apfst_conv append_Nil2 map_append)
  have w: "tl (container_args q (env_flags vs)) = option_words (hardened q) @
      (env_flags vs @ ([''-e'', ''CIRCUIT_AGENT_DATA_DIR=/data'', ''-e'', ''HOME=/data''] @ env_flags (proxy_values (cq_proxyUrl q))) @ ?img)"
    by (simp add: container_args_def Let_def hardened_def option_words_def)
  have h: "list_all option_ok (hardened q)" by (simp add: hardened_def option_ok_def)
  show ?thesis unfolding w run_options_words [OF h] e by (simp add: container_args_def Let_def)
qed

lemma container_var_append:
  "container_var (xs @ ys) k = (case container_var ys k of Some v \<Rightarrow> Some v | None \<Rightarrow> container_var xs k)"
  by (auto simp: container_var_def split: list.split)

lemma container_var_entry:
  "CHR ''='' \<notin> set k \<Longrightarrow> container_var (opts @ [(''-e'', k @ CHR ''='' # v)]) k = Some v"
  "CHR ''='' \<notin> set l \<Longrightarrow> l \<noteq> k \<Longrightarrow> container_var (opts @ [(''-e'', l @ CHR ''='' # v)]) k = container_var opts k"
  by (simp_all add: container_var_def var_name_entry)

definition own_vars :: "string option \<Rightarrow> (string \<times> string) list" where
  "own_vars p = [(''CIRCUIT_AGENT_DATA_DIR'', ''/data''), (''HOME'', ''/data'')] @
     (if given p then [(''HTTPS_PROXY'', the p), (''https_proxy'', the p), (''NO_PROXY'', []), (''no_proxy'', [])] else [])"

lemma own_vars_ok: "(\<forall>k \<in> fst ` set (own_vars p). CHR ''='' \<notin> set k) \<and> distinct (map fst (own_vars p))"
  by (cases "given p") (simp_all add: own_vars_def)

lemma own_vars_words:
  "[''CIRCUIT_AGENT_DATA_DIR=/data'', ''HOME=/data''] @ proxy_values p = map (\<lambda>(k, v). k @ CHR ''='' # v) (own_vars p)"
  by (simp add: own_vars_def proxy_values_def)

lemma container_vars:
  "\<forall>k \<in> fst ` set kvs. CHR ''='' \<notin> set k \<Longrightarrow> distinct (map fst kvs) \<Longrightarrow> (k, v) \<in> set kvs \<Longrightarrow>
   container_var (opts @ map (Pair ''-e'') (map (\<lambda>(k, v). k @ CHR ''='' # v) kvs)) k = Some v"
proof (induction kvs rule: rev_induct)
  case (snoc kv kvs)
  obtain l w where kv: "kv = (l, w)" by (cases kv)
  show ?case
  proof (cases "l = k")
    case True
    then have "w = v" using snoc.prems(2,3) by (auto simp: kv rev_image_eqI)
    then show ?thesis using snoc.prems(1) True container_var_entry(1) [of k "opts @ map (Pair ''-e'') (map (\<lambda>(k, v). k @ CHR ''='' # v) kvs)" v]
      by (simp add: kv)
  next
    case False
    then show ?thesis using snoc container_var_entry(2) [of l k "opts @ map (Pair ''-e'') (map (\<lambda>(k, v). k @ CHR ''='' # v) kvs)" w]
      by (simp add: kv)
  qed
qed simp

lemma container_own_vars:
  "(k, v) \<in> set (own_vars p) \<Longrightarrow>
   container_var (opts @ map (Pair ''-e'') ([''CIRCUIT_AGENT_DATA_DIR=/data'', ''HOME=/data''] @ proxy_values p)) k = Some v"
  unfolding own_vars_words using own_vars_ok [of p] by (intro container_vars) blast+

lemma mapE_set: "mapE f xs = Inr ys \<Longrightarrow> y \<in> set ys \<longleftrightarrow> (\<exists>x \<in> set xs. f x = Inr y)"
  by (induction xs arbitrary: ys) (auto simp: bindE_Inr_iff)

lemma env_values_set:
  assumes "env_values env = Inr vs"
  shows "v \<in> set vs \<longleftrightarrow> (\<exists>k x s. (k, x) \<in> set env \<and> k \<notin> set DROP \<and> to_str x = Inr s \<and> v = k @ CHR ''='' # s)"
proof -
  let ?f = "\<lambda>(k, v). bindE (to_str v) (\<lambda>s. Inr (k @ ''='' @ s))" and ?kvs = "filter (\<lambda>(k, v). k \<notin> set DROP) (own_order env)"
  have m: "mapE ?f ?kvs = Inr vs" using assms by (simp add: env_values_def)
  have o: "set (own_order env) = set env" by (auto simp: own_order_def)
  show ?thesis unfolding mapE_set [OF m] by (force simp: o bindE_Inr_iff)
qed

text \<open>The container an untrusted bundle runs in is hardened whatever the bundle declares: the words of its environment
  are read as values of \<open>-e\<close> and never as options, so the options are exactly the hardening ones
  (no capabilities, read-only root, one network, the bundle read-only and a single writable mount), the
  command is the entry, and the variables of the proxy and of the data directory have the host's values.\<close>

lemma container_hardened:
  assumes "buildContainerSpec q = Inr (cmd, args)" "take 1 (dflt DEFAULT_OCI_IMAGE (cq_image q)) \<noteq> ''-''"
  shows "\<exists>opts vs. hd args = ''run'' \<and> env_values (cq_env q) = Inr vs \<and>
    map snd (filter (\<lambda>(w, v). w = ''-e'') opts) =
      vs @ [''CIRCUIT_AGENT_DATA_DIR=/data'', ''HOME=/data''] @ proxy_values (cq_proxyUrl q) \<and>
    run_options (tl args) = (opts, [dflt DEFAULT_OCI_IMAGE (cq_image q), ''node'', ''/app/'' @ cq_entry q]) \<and>
    filter (\<lambda>(w, v). w \<noteq> ''-e'') opts = hardened q \<and>
    map snd (filter (\<lambda>(w, v). w = ''-v'') opts) = [cq_bundleDir q @ '':/app:ro'', cq_dataDir q @ '':/data:rw''] \<and>
    map snd (filter (\<lambda>(w, v). w = ''--network'') opts) = [cq_network q] \<and> cq_network q \<noteq> [] \<and>
    container_var opts ''HOME'' = Some ''/data'' \<and> container_var opts ''CIRCUIT_AGENT_DATA_DIR'' = Some ''/data'' \<and>
    (given (cq_proxyUrl q) \<longrightarrow> container_var opts ''HTTPS_PROXY'' = cq_proxyUrl q \<and>
       container_var opts ''https_proxy'' = cq_proxyUrl q \<and> container_var opts ''NO_PROXY'' = Some [])"
proof -
  obtain vs where vs: "args = container_args q (env_flags vs)" "cq_network q \<noteq> []" "env_values (cq_env q) = Inr vs"
    using assms(1) by (auto simp: buildContainerSpec_def bindE_Inr_iff split: if_splits)
  let ?t = "map (Pair ''-e'') ([''CIRCUIT_AGENT_DATA_DIR=/data'', ''HOME=/data''] @ proxy_values (cq_proxyUrl q))"
  let ?o = "hardened q @ map (Pair ''-e'') (vs @ [''CIRCUIT_AGENT_DATA_DIR=/data'', ''HOME=/data''] @ proxy_values (cq_proxyUrl q))"
  have o: "?o = (hardened q @ map (Pair ''-e'') vs) @ ?t" by (simp only: map_append append_assoc)
  have h: "filter (\<lambda>(w, v). w \<noteq> ''-e'') (hardened q) = hardened q" "filter (\<lambda>(w, v). w = ''-e'') (hardened q) = []"
    "map snd (filter (\<lambda>(w, v). w = ''-v'') (hardened q)) = [cq_bundleDir q @ '':/app:ro'', cq_dataDir q @ '':/data:rw'']"
    "map snd (filter (\<lambda>(w, v). w = ''--network'') (hardened q)) = [cq_network q]"
    by (simp_all add: hardened_def)
  have e: "filter (\<lambda>(w, v). w \<noteq> ''-e'') (map (Pair ''-e'') xs) = []" "filter (\<lambda>(w, v). w = ''-e'') (map (Pair ''-e'') xs) = map (Pair ''-e'') xs"
    "filter (\<lambda>(w, v). w = ''-v'') (map (Pair ''-e'') xs) = []"
    "filter (\<lambda>(w, v). w = ''--network'') (map (Pair ''-e'') xs) = []" for xs :: "string list"
    by (induction xs) simp_all
  have f: "filter (\<lambda>(w, v). w \<noteq> ''-e'') ?o = hardened q"
    "map snd (filter (\<lambda>(w, v). w = ''-v'') ?o) = [cq_bundleDir q @ '':/app:ro'', cq_dataDir q @ '':/data:rw'']"
    "map snd (filter (\<lambda>(w, v). w = ''--network'') ?o) = [cq_network q]"
    by (simp_all only: filter_append e h append_Nil2)
  have sp: "map snd (map (Pair ''-e'') xs) = xs" for xs :: "string list" by (induction xs) simp_all
  have g: "map snd (filter (\<lambda>(w, v). w = ''-e'') ?o) = vs @ [''CIRCUIT_AGENT_DATA_DIR=/data'', ''HOME=/data''] @ proxy_values (cq_proxyUrl q)"
    by (simp only: filter_append e h append_Nil sp)
  note v = container_own_vars [of _ _ "cq_proxyUrl q" "hardened q @ map (Pair ''-e'') vs", folded o]
  have c: "container_var ?o ''HOME'' = Some ''/data''" "container_var ?o ''CIRCUIT_AGENT_DATA_DIR'' = Some ''/data''"
    by (rule v, simp add: own_vars_def)+
  have p: "given (cq_proxyUrl q) \<longrightarrow> container_var ?o ''HTTPS_PROXY'' = cq_proxyUrl q \<and>
      container_var ?o ''https_proxy'' = cq_proxyUrl q \<and> container_var ?o ''NO_PROXY'' = Some []"
  proof
    assume g: "given (cq_proxyUrl q)"
    have "own_vars (cq_proxyUrl q) = [(''CIRCUIT_AGENT_DATA_DIR'', ''/data''), (''HOME'', ''/data''), (''HTTPS_PROXY'', the (cq_proxyUrl q)),
        (''https_proxy'', the (cq_proxyUrl q)), (''NO_PROXY'', []), (''no_proxy'', [])]"
      using g by (simp add: own_vars_def)
    then have "(''HTTPS_PROXY'', the (cq_proxyUrl q)) \<in> set (own_vars (cq_proxyUrl q))"
      "(''https_proxy'', the (cq_proxyUrl q)) \<in> set (own_vars (cq_proxyUrl q))" "(''NO_PROXY'', []) \<in> set (own_vars (cq_proxyUrl q))"
      by simp_all
    from this [THEN v] have v3: "container_var ?o ''HTTPS_PROXY'' = Some (the (cq_proxyUrl q))"
      "container_var ?o ''https_proxy'' = Some (the (cq_proxyUrl q))" "container_var ?o ''NO_PROXY'' = Some []" .
    have "Some (the (cq_proxyUrl q)) = cq_proxyUrl q" using g by (simp add: given_def)
    then show "container_var ?o ''HTTPS_PROXY'' = cq_proxyUrl q \<and> container_var ?o ''https_proxy'' = cq_proxyUrl q \<and>
        container_var ?o ''NO_PROXY'' = Some []"
      using v3 by (simp only: simp_thms)
  qed
  have w: "hd args = ''run''" "run_options (tl args) = (?o, [dflt DEFAULT_OCI_IMAGE (cq_image q), ''node'', ''/app/'' @ cq_entry q])"
    using container_words [OF assms(2), of vs] unfolding vs(1) by blast+
  show ?thesis by (rule exI [of _ ?o], rule exI [of _ vs], intro conjI) (fact w vs(3) g f c vs(2) p)+
qed

end
