(* ===== verification/Host.thy ===== *)
theory Host
  imports Container Egress Bundle_Store Request_Auth
begin

text \<open>
  node-host/host.js, the first half: the operator's configuration, how an assignment becomes a command
  (built-in workload, trusted bundle, untrusted bundle in a container behind its egress proxy), and
  the start of an agent. What the node-host does to the world is recorded in a list of
  actions; the file system, the network, the processes it runs to completion and the environment are
  parameters collected in a record. A process is known by its number, and its record is shared between the
  table of agents and the handlers of the process, as in the program.
\<close>

definition env_num :: "src_env \<Rightarrow> string \<Rightarrow> jsnum \<Rightarrow> jsnum" where
  "env_num src k d = (case src k of Some v \<Rightarrow> if v = [] then d else str_num v | None \<Rightarrow> d)"

definition comma_list :: "string \<Rightarrow> string list" where
  "comma_list v = filter (\<lambda>s. s \<noteq> []) (map trim (split_on (CHR '','') v))"

record host_cfg =
  hc_controlPlane :: string
  hc_nodeId :: string
  hc_maxAgents :: jsnum
  hc_maxCpu :: jsnum
  hc_maxMemoryMb :: jsnum
  hc_dataDir :: string
  hc_key :: string
  hc_heartbeatMs :: jsnum
  hc_circuitAgentDir :: string
  hc_bundleCacheDir :: string
  hc_bundleStoreBase :: string
  hc_sandbox :: string
  hc_endpoints :: jsval
  hc_egressNetwork :: string
  hc_proxyExternalNetwork :: string
  hc_ociImage :: string
  hc_seccompProfile :: string
  hc_microvmRuntimeClass :: string
  hc_firstPartyKeys :: "string list"

definition host_config :: "src_env \<Rightarrow> string \<Rightarrow> string \<Rightarrow> host_cfg" where
  "host_config src hostname home =
     (let dataDir = env_or src ''HOST_DATA_DIR'' (path_join [home, ''.circuit-host''])
      in \<lparr> hc_controlPlane = env_or src ''CONTROL_PLANE'' ''http://127.0.0.1:18980'',
           hc_nodeId = env_or src ''NODE_ID'' (''node-'' @ hostname),
           hc_maxAgents = env_num src ''MAX_AGENTS'' (Fin 5), hc_maxCpu = env_num src ''MAX_CPU'' (Fin 1),
           hc_maxMemoryMb = env_num src ''MAX_MEMORY_MB'' (Fin 512), hc_dataDir = dataDir,
           hc_key = env_or src ''CIRCUIT_CLOUD_KEY'' [], hc_heartbeatMs = env_num src ''HEARTBEAT_MS'' (Fin 8000),
           hc_circuitAgentDir = env_or src ''CIRCUIT_AGENT_DIR'' (path_join [home, ''circuit-agent'']),
           hc_bundleCacheDir = env_or src ''BUNDLE_CACHE_DIR'' (path_join [dataDir, ''bundles'']),
           hc_bundleStoreBase = env_or src ''CIRCUIT_BUNDLE_STORE_URL'' (path_join [home, ''.circuit'', ''bundles'']),
           hc_sandbox = env_or src ''SANDBOX'' [],
           hc_endpoints = JObj [(''signer'', JStr (env_or src ''CIRCUIT_SIGNER_PUBLIC_URL'' [])),
             (''data'', JStr (env_or src ''CIRCUIT_DATA_URL'' [])), (''inference'', JStr (env_or src ''CIRCUIT_INFERENCE_URL'' [])),
             (''rpc'', JStr (env_or src ''CIRCUIT_RPC_URL'' [])), (''jupiter'', JStr (env_or src ''CIRCUIT_JUPITER_URL'' ''https://api.jup.ag''))],
           hc_egressNetwork = env_or src ''CIRCUIT_EGRESS_NETWORK'' [],
           hc_proxyExternalNetwork = env_or src ''CIRCUIT_PROXY_EXTERNAL_NETWORK'' ''bridge'',
           hc_ociImage = env_or src ''CIRCUIT_OCI_IMAGE'' DEFAULT_OCI_IMAGE,
           hc_seccompProfile = env_or src ''CIRCUIT_SECCOMP_PROFILE'' ''default'',
           hc_microvmRuntimeClass = env_or src ''CIRCUIT_MICROVM_RUNTIME_CLASS'' ''io.containerd.kata.v2'',
           hc_firstPartyKeys = comma_list (env_or src ''CIRCUIT_FIRST_PARTY_KEYS'' []) \<rparr>)"

definition MAX_BUNDLE_BYTES :: "src_env \<Rightarrow> jsnum" where
  "MAX_BUNDLE_BYTES src = env_num src ''CIRCUIT_MAX_BUNDLE_BYTES'' (Fin 67108864)"

section \<open>The world and the state\<close>

text \<open>
  \<open>he_exec\<close> tells whether a command run to completion succeeds, \<open>he_exists\<close> and \<open>he_health\<close> read the file
  system, \<open>he_cgroup\<close> tells whether the control group of a process can be written, \<open>he_rss\<close> the resident
  memory of a process in kB.
\<close>

record host_env =
  he_crypto :: crypto
  he_execPath :: string
  he_repo :: string
  he_src :: src_env
  he_pull :: pull_env
  he_unpack :: "bytes \<Rightarrow> string \<Rightarrow> unit res"
  he_exists :: "string \<Rightarrow> bool"
  he_exec :: "string \<Rightarrow> string list \<Rightarrow> bool"
  he_kvm :: bool
  he_hostname :: "jsval \<Rightarrow> string option"
  he_cgroup :: bool
  he_rss :: "nat \<Rightarrow> nat option"
  he_health :: "string \<Rightarrow> jsval"

datatype host_act =
    Mkdir string
  | Write_File string string
  | Unpack string bytes
  | Exec string "string list"
  | Spawn nat string "string list" string env
  | Kill nat string
  | Post string jsval

record hrec =
  hr_id :: string
  hr_proxy :: "(string \<times> string) option"
  hr_name :: jsval
  hr_workload :: jsval
  hr_dir :: string
  hr_cgrouped :: bool
  hr_log :: "(int \<times> string) list"
  hr_lastSent :: int
  hr_startedAt :: int

text \<open>
  \<open>h_agents\<close> is the table of agents, \<open>h_procs\<close> the records of the processes that have not exited,
  \<open>h_cached\<close> the bundle directories that carry the marker of a finished unpack, with the bytes unpacked,
  \<open>h_timers\<close> the processes with a pending SIGKILL.
\<close>

record host =
  h_agents :: "(string, nat) jmap"
  h_procs :: "(nat, hrec) jmap"
  h_next :: nat
  h_sandbox :: "string option"
  h_cached :: "(string, bytes) jmap"
  h_timers :: "nat list"
  h_acts :: "host_act list"

definition host_init :: host where
  "host_init = \<lparr> h_agents = [], h_procs = [], h_next = 0, h_sandbox = None, h_cached = [], h_timers = [], h_acts = [] \<rparr>"

definition act :: "host_act \<Rightarrow> host \<Rightarrow> host" where
  "act x h = h\<lparr> h_acts := h_acts h @ [x] \<rparr>"

text \<open>\<open>reportAgent\<close>: nothing is sent without an id.\<close>

definition reportAgent :: "jsval \<Rightarrow> (int \<times> string) list \<Rightarrow> host \<Rightarrow> host" where
  "reportAgent k lines h =
     (if \<not> truthy k then h
      else case to_str k of
          Inl e \<Rightarrow> h
        | Inr i \<Rightarrow> act (Post (''/v1/agents/'' @ i @ ''/report'')
            (JObj [(''lines'', JArr (map (\<lambda>(t, l). JObj [(''ts'', JNum (int_num t)), (''line'', JStr l)]) lines))])) h)"

section \<open>What can be enforced and afforded\<close>

definition resolveSandbox :: "host_cfg \<Rightarrow> host_env \<Rightarrow> host \<Rightarrow> string \<times> host" where
  "resolveSandbox cfg he h =
     (case h_sandbox h of
        Some s \<Rightarrow> (s, h)
      | None \<Rightarrow>
          let s = (if hc_sandbox cfg \<noteq> [] then hc_sandbox cfg
                   else if detectMicroVm (he_kvm he) (he_exec he) \<noteq> None then ''microvm''
                   else if detectOciRuntime (he_exec he) \<noteq> None then ''oci'' else ''node'')
          in (s, h\<lparr> h_sandbox := Some s \<rparr>))"

definition capMemMb :: "host_cfg \<Rightarrow> jsval \<Rightarrow> jsnum res" where
  "capMemMb cfg a =
     bindE (to_num (jopt (jopt (jopt a ''spec'') ''resources'') ''maxMemoryMb'')) (\<lambda>x.
       Inr (jmin (jor x (hc_maxMemoryMb cfg)) (hc_maxMemoryMb cfg)))"

text \<open>The two files of the control group, when it can be written.\<close>

definition applyCgroup :: "host_cfg \<Rightarrow> host_env \<Rightarrow> nat \<Rightarrow> jsval \<Rightarrow> host \<Rightarrow> bool \<times> host" where
  "applyCgroup cfg he p a h =
     (if \<not> he_cgroup he then (False, h)
      else case bindE (to_str (jopt a ''id'')) (\<lambda>i. bindE (capMemMb cfg a) (\<lambda>m. Inr (i, m))) of
          Inl _ \<Rightarrow> (False, h)
        | Inr (i, m) \<Rightarrow>
            let cg = path_join [''/sys/fs/cgroup'', ''circuit-host'', i]
            in (True, act (Write_File (path_join [cg, ''cgroup.procs'']) (nat_str p))
                 (act (Write_File (path_join [cg, ''memory.max'']) (num_str (jmul (jmul m (Fin 1024)) (Fin 1024))))
                   (act (Mkdir cg) h))))"

section \<open>The bundle\<close>

definition is_http :: "string \<Rightarrow> bool" where
  "is_http s = (starts_with ''http://'' s \<or> starts_with ''https://'' s)"

definition bundleStoreUrl :: "host_cfg \<Rightarrow> string \<Rightarrow> string" where
  "bundleStoreUrl cfg sha =
     (let base = hc_bundleStoreBase cfg
      in if is_http base
         then (if last base = CHR ''/'' then butlast base else base) @ ''/'' @ sha @ ''.tgz''
         else path_join [base, sha @ ''.tgz''])"

definition pull_bundle :: "host_cfg \<Rightarrow> host_env \<Rightarrow> string \<Rightarrow> bytes res \<times> (string \<times> string) option" where
  "pull_bundle cfg he sha = pullBytes (he_pull he) (MAX_BUNDLE_BYTES (he_src he))
     (if is_http (hc_bundleStoreBase cfg) then None else Some (hc_bundleStoreBase cfg)) (bundleStoreUrl cfg sha)"

definition hex64 :: "string \<Rightarrow> bool" where
  "hex64 s = (length s = 64 \<and> list_all (\<lambda>c. is_digit c \<or> c \<in> set ''abcdef'') s)"

definition bundle_checks :: "host_cfg \<Rightarrow> jsval \<Rightarrow> (string \<times> string) res" where
  "bundle_checks cfg a =
     (let b = jopt a ''bundle''; m = jopt b ''manifest'';
          runtime = str_or (str_or (jopt b ''runtime'') (jopt m ''runtime'')) (JStr ''node'')
      in if \<not> truthy b then Inl (Err 0 ''no-bundle-block'')
         else if \<not> strict_eq runtime (JStr ''node'') \<and> \<not> strict_eq runtime (JStr ''oci'') then Inl (Err 0 ''unknown-runtime'')
         else bindE (to_str (str_or (jopt b ''sha256'') (JStr []))) (\<lambda>s.
           if \<not> hex64 s then Inl (Err 0 ''bad-sha256'')
           else if strict_eq runtime (JStr ''node'') \<and> \<not> isFirstPartyNodeRuntime (jopt m ''publisherPubkey'') (hc_firstPartyKeys cfg)
           then Inl (Err 0 ''not-first-party'')
           else bindE (text_arg (jopt b ''sha256'')) (\<lambda>sha.
             Inr (if strict_eq runtime (JStr ''node'') then ''node'' else ''oci'', sha))))"

text \<open>The part between the pull and the marker: \<open>got\<close> is what the pull returned.\<close>

definition install_bundle :: "host_cfg \<Rightarrow> host_env \<Rightarrow> jsval \<Rightarrow> string \<Rightarrow> bytes res \<Rightarrow> host \<Rightarrow> unit res \<times> host" where
  "install_bundle cfg he a sha got h =
     bindS (liftS got h) (\<lambda>bytes h.
     bindS (liftS (verifyBundle (he_crypto he) bytes (jopt (jopt a ''bundle'') ''manifest'')
       (str_or (jopt a ''owner'') JUndef) (jopt a ''id'')) h) (\<lambda>code h.
       if code \<noteq> ''ok'' then (Inl (Err 0 code), h)
       else let dir = path_join [hc_bundleCacheDir cfg, sha]; h1 = h\<lparr> h_cached := map_delete sha (h_cached h) \<rparr>
         in bindS (liftS (he_unpack he bytes dir) h1) (\<lambda>_ h.
              (Inr (), act (Unpack dir bytes) (h\<lparr> h_cached := map_set sha bytes (h_cached h) \<rparr>)))))"

section \<open>From an assignment to a command\<close>

text \<open>\<open>rs_proxy\<close> is the runtime and the name of the sidecar that \<open>proxy.close()\<close> removes.\<close>

record resolved =
  rs_command :: string
  rs_args :: "string list"
  rs_cwd :: "string option"
  rs_proxy :: "(string \<times> string) option"

definition sidecar_args :: "host_cfg \<Rightarrow> host_env \<Rightarrow> string \<Rightarrow> string list \<Rightarrow> string list" where
  "sidecar_args cfg he name allowedHosts =
     [''run'', ''-d'', ''--name'', name, ''--network'', hc_egressNetwork cfg,
      ''--read-only'', ''--cap-drop'', ''ALL'', ''--security-opt'', ''no-new-privileges'', ''--tmpfs'', ''/tmp'',
      ''-v'', he_repo he @ '':/proxy:ro'',
      ''-e'', ''CIRCUIT_EGRESS_ALLOW='' @ join_on '','' allowedHosts, ''-e'', ''CIRCUIT_PROXY_PORT=8888'',
      hc_ociImage cfg, ''node'', ''/proxy/node-host/egress-proxy-main.js'']"

definition run_cmd :: "host_env \<Rightarrow> string \<Rightarrow> string list \<Rightarrow> host \<Rightarrow> unit res \<times> host" where
  "run_cmd he cmd args h = (if he_exec he cmd args then Inr () else Inl (Err 0 ''command-failed''), act (Exec cmd args) h)"

definition startEgressSidecar :: "host_cfg \<Rightarrow> host_env \<Rightarrow> string \<Rightarrow> string \<Rightarrow> string list \<Rightarrow> host \<Rightarrow> unit res \<times> host" where
  "startEgressSidecar cfg he rt name allowedHosts h =
     bindS (run_cmd he rt (sidecar_args cfg he name allowedHosts) (snd (run_cmd he rt [''rm'', ''-f'', name] h))) (\<lambda>_ h.
       run_cmd he rt [''network'', ''connect'', hc_proxyExternalNetwork cfg, name] h)"

text \<open>\<open>for (const c of classes || [])\<close>, each class used as a property name.\<close>

definition egress_classes :: "jsval \<Rightarrow> string list res" where
  "egress_classes v =
     (if \<not> truthy v then Inr []
      else case v of JArr xs \<Rightarrow> mapE to_str xs | JStr s \<Rightarrow> Inr (map (\<lambda>c. [c]) s) | _ \<Rightarrow> Inl type_error)"

definition allowed_hosts :: "host_cfg \<Rightarrow> host_env \<Rightarrow> jsval \<Rightarrow> string list res" where
  "allowed_hosts cfg he a =
     bindE (egress_classes (jopt (jopt (jopt a ''bundle'') ''manifest'') ''egress'')) (\<lambda>cs.
       Inr (resolveEgressHosts (he_hostname he) cs (hc_endpoints cfg)))"

definition proxy_name :: "string \<Rightarrow> string" where
  "proxy_name i = ''circuit-proxy-'' @ i"

definition container_request :: "host_cfg \<Rightarrow> string \<Rightarrow> string \<Rightarrow> string \<Rightarrow> string \<Rightarrow> string \<Rightarrow> string option \<Rightarrow> env \<Rightarrow> jsnum \<Rightarrow> container_req" where
  "container_request cfg rt i cacheDir dir entry vm env mem =
     \<lparr> cq_runtime = Some rt, cq_image = Some (hc_ociImage cfg), cq_name = ''circuit-'' @ i, cq_bundleDir = cacheDir,
       cq_dataDir = dir, cq_entry = entry, cq_env = env, cq_proxyUrl = Some (''http://'' @ proxy_name i @ '':8888''),
       cq_network = hc_egressNetwork cfg, cq_seccomp = Some (hc_seccompProfile cfg), cq_memMb = Some mem, cq_pids = None,
       cq_vmRuntime = vm \<rparr>"

text \<open>An untrusted bundle: refused without a runtime or an isolated network, otherwise sidecar first.\<close>

definition run_oci :: "host_cfg \<Rightarrow> host_env \<Rightarrow> jsval \<Rightarrow> string \<Rightarrow> string \<Rightarrow> string \<Rightarrow> string \<Rightarrow> host \<Rightarrow> resolved res \<times> host" where
  "run_oci cfg he a i dir cacheDir entry h =
     (case detectOciRuntime (he_exec he) of
        None \<Rightarrow> (Inl (Err 0 ''no-container-runtime''), h)
      | Some rt \<Rightarrow>
          if hc_egressNetwork cfg = [] then (Inl (Err 0 ''no-egress-network''), h)
          else let (sandbox, h) = resolveSandbox cfg he h;
                   vm = (if sandbox = ''microvm'' then Some (hc_microvmRuntimeClass cfg) else None)
            in bindS (liftS (allowed_hosts cfg he a) h) (\<lambda>hosts h.
               bindS (startEgressSidecar cfg he rt (proxy_name i) hosts h) (\<lambda>_ h.
               bindS (liftS (buildAgentEnv a ''/data'' (he_src he)) h) (\<lambda>env h.
               bindS (liftS (capMemMb cfg a) h) (\<lambda>mem h.
               bindS (liftS (buildContainerSpec (container_request cfg rt i cacheDir dir entry vm env mem)) h) (\<lambda>(command, args) h.
                 (Inr \<lparr> rs_command = command, rs_args = args, rs_cwd = None, rs_proxy = Some (rt, proxy_name i) \<rparr>, h)))))))"

definition run_bundle :: "host_cfg \<Rightarrow> host_env \<Rightarrow> jsval \<Rightarrow> string \<Rightarrow> string \<Rightarrow> string \<Rightarrow> string \<Rightarrow> host \<Rightarrow> resolved res \<times> host" where
  "run_bundle cfg he a i dir runtime sha h =
     (let cacheDir = path_join [hc_bundleCacheDir cfg, sha]
      in bindS (liftS (bindE (jget (jopt (jopt a ''bundle'') ''manifest'') ''entry'') text_arg) h) (\<lambda>entry h.
           if \<not> he_exists he (path_join [cacheDir, entry]) then (Inl (Err 0 ''entry-missing''), h)
           else if runtime = ''oci'' then run_oci cfg he a i dir cacheDir entry h
           else (Inr \<lparr> rs_command = he_execPath he, rs_args = [path_join [cacheDir, entry]], rs_cwd = Some cacheDir,
                      rs_proxy = None \<rparr>, h)))"

text \<open>
  \<open>resolveWorkload\<close> up to the pull it may have to wait for: a built-in workload, or a bundle whose
  checks passed, to be pulled unless its directory carries the marker.
\<close>

datatype plan = Builtin string "string list" | Bundled string string bool

definition is_bundle :: "jsval \<Rightarrow> bool" where
  "is_bundle a = (truthy (jopt a ''bundle'') \<or> truthy (jopt (str_or (jopt a ''spec'') (JObj [])) ''bundle''))"

definition resolve_plan :: "host_cfg \<Rightarrow> host_env \<Rightarrow> jsval \<Rightarrow> host \<Rightarrow> plan res" where
  "resolve_plan cfg he a h =
     (if is_bundle a
      then bindE (bundle_checks cfg a) (\<lambda>(runtime, sha). Inr (Bundled runtime sha (\<not> map_has sha (h_cached h))))
      else if strict_eq (str_or (jopt (str_or (jopt a ''spec'') (JObj [])) ''workload'') (JStr ''agentd'')) (JStr ''circuit-agent'')
      then Inr (Builtin (he_execPath he) [path_join [hc_circuitAgentDir cfg, ''agent.js''], ''start''])
      else Inr (Builtin (he_execPath he) [path_join [he_repo he, ''agentd'', ''agentd.js'']]))"

definition resolve_end :: "host_cfg \<Rightarrow> host_env \<Rightarrow> jsval \<Rightarrow> string \<Rightarrow> string \<Rightarrow> bytes res \<Rightarrow> plan \<Rightarrow> host \<Rightarrow> resolved res \<times> host" where
  "resolve_end cfg he a i dir got pl h =
     (case pl of
        Builtin cmd args \<Rightarrow> (Inr \<lparr> rs_command = cmd, rs_args = args, rs_cwd = Some dir, rs_proxy = None \<rparr>, h)
      | Bundled runtime sha pull \<Rightarrow>
          bindS (if pull then install_bundle cfg he a sha got h else (Inr (), h)) (\<lambda>_ h.
            run_bundle cfg he a i dir runtime sha h))"

section \<open>Starting an agent\<close>

text \<open>An agent whose start waits for its bundle.\<close>

record pending =
  pd_agent :: jsval
  pd_id :: string
  pd_dir :: string
  pd_plan :: "plan res"

text \<open>The directories of the agent and its configuration file.\<close>

definition prepare_dir :: "jsval \<Rightarrow> string \<Rightarrow> host \<Rightarrow> host" where
  "prepare_dir a dir h =
     (let h1 = act (Mkdir (path_join [dir, ''tmp''])) (act (Mkdir dir) h)
      in case json_stringify (str_or (jopt (jopt a ''spec'') ''config'') (JObj [])) of
           Some t \<Rightarrow> act (Write_File (path_join [dir, ''config.json'']) t) h1
         | None \<Rightarrow> h1)"

definition start_begin :: "host_cfg \<Rightarrow> host_env \<Rightarrow> jsval \<Rightarrow> host \<Rightarrow> pending option res \<times> host" where
  "start_begin cfg he a h =
     (case jget a ''id'' of
        Inl e \<Rightarrow> (Inl e, h)
      | Inr k \<Rightarrow>
          if (case k of JStr i \<Rightarrow> map_has i (h_agents h) | _ \<Rightarrow> False) then (Inr None, h)
          else if jle (hc_maxAgents cfg) (nat_num (length (h_agents h))) then (Inr None, h)
          else bindS (liftS (text_arg k) h) (\<lambda>i h.
            let dir = path_join [hc_dataDir cfg, ''agents'', i]; h2 = prepare_dir a dir h
            in (Inr (Some \<lparr> pd_agent = a, pd_id = i, pd_dir = dir, pd_plan = resolve_plan cfg he a h2 \<rparr>), h2)))"

definition workload_label :: "jsval \<Rightarrow> resolved \<Rightarrow> jsval" where
  "workload_label a rs =
     (if truthy (jopt a ''bundle'') \<or> truthy (jopt (jopt a ''spec'') ''bundle'')
      then JStr (''bundle:'' @ (if rs_proxy rs \<noteq> None then ''oci'' else ''node''))
      else str_or (jopt (jopt a ''spec'') ''workload'') (JStr ''agentd''))"

definition launch :: "host_cfg \<Rightarrow> host_env \<Rightarrow> int \<Rightarrow> pending \<Rightarrow> resolved \<Rightarrow> host \<Rightarrow> unit res \<times> host" where
  "launch cfg he t pd rs h =
     bindS (liftS (buildAgentEnv (pd_agent pd) (pd_dir pd) (he_src he)) h) (\<lambda>env h.
       let p = h_next h;
           h1 = act (Spawn p (rs_command rs) (rs_args rs) (case rs_cwd rs of Some c \<Rightarrow> if c = [] then pd_dir pd else c | None \<Rightarrow> pd_dir pd) env)
             (h\<lparr> h_next := Suc p \<rparr>);
           (cgrouped, h2) = applyCgroup cfg he p (pd_agent pd) h1;
           rec = \<lparr> hr_id = pd_id pd, hr_proxy = rs_proxy rs, hr_name = jopt (pd_agent pd) ''name'',
             hr_workload = workload_label (pd_agent pd) rs, hr_dir = pd_dir pd, hr_cgrouped = cgrouped,
             hr_log = [], hr_lastSent = 0, hr_startedAt = t \<rparr>
       in (Inr (), h2\<lparr> h_agents := map_set (pd_id pd) p (h_agents h2), h_procs := map_set p rec (h_procs h2) \<rparr>))"

definition start_finish :: "host_cfg \<Rightarrow> host_env \<Rightarrow> int \<Rightarrow> bytes res \<Rightarrow> pending \<Rightarrow> host \<Rightarrow> unit res \<times> host" where
  "start_finish cfg he t got pd h =
     (case bindS (liftS (pd_plan pd) h) (resolve_end cfg he (pd_agent pd) (pd_id pd) (pd_dir pd) got) of
        (Inl e, h) \<Rightarrow> (Inr (), reportAgent (JStr (pd_id pd)) [(t, ''start failed: resolve'')] h)
      | (Inr rs, h) \<Rightarrow> launch cfg he t pd rs h)"

text \<open>A start nothing else runs during.\<close>

definition pulled :: "host_cfg \<Rightarrow> host_env \<Rightarrow> pending \<Rightarrow> bytes res" where
  "pulled cfg he pd = (case pd_plan pd of Inr (Bundled runtime sha pull) \<Rightarrow> fst (pull_bundle cfg he sha) | _ \<Rightarrow> Inl (Err 0 ''no-pull''))"

definition startAgent :: "host_cfg \<Rightarrow> host_env \<Rightarrow> int \<Rightarrow> jsval \<Rightarrow> host \<Rightarrow> unit res \<times> host" where
  "startAgent cfg he t a h =
     bindS (start_begin cfg he a h) (\<lambda>pd h.
       case pd of None \<Rightarrow> (Inr (), h) | Some pd \<Rightarrow> start_finish cfg he t (pulled cfg he pd) pd h)"

end
