(* ===== verification/Host_Run.thy ===== *)
theory Host_Run
  imports Host
begin

text \<open>
  node-host/host.js, the second half: the handlers of a running process (output, failure to spawn,
  exit), stopping, the memory budget, the heartbeat with the assignments it brings and the reports it
  sends. A run of the node-host is a sequence of operations; \<open>t\<close> is the clock, and the world may
  be another one at every operation.
\<close>

section \<open>The process of an agent\<close>

definition put_rec :: "nat \<Rightarrow> hrec \<Rightarrow> host \<Rightarrow> host" where
  "put_rec p r h = h\<lparr> h_procs := map_set p r (h_procs h) \<rparr>"

definition push_line :: "int \<Rightarrow> (int \<times> string) list \<Rightarrow> string \<Rightarrow> (int \<times> string) list" where
  "push_line t xs line =
     (if trim line = [] then xs
      else let ys = xs @ [(t, line)] in if 300 < length ys then tl ys else ys)"

definition onData :: "nat \<Rightarrow> int \<Rightarrow> string \<Rightarrow> host \<Rightarrow> host" where
  "onData p t buf h =
     (case map_get p (h_procs h) of
        None \<Rightarrow> h
      | Some r \<Rightarrow> put_rec p (r\<lparr> hr_log := foldl (push_line t) (hr_log r) (split_on nl buf) \<rparr>) h)"

definition close_proxy :: "hrec \<Rightarrow> host \<Rightarrow> host" where
  "close_proxy r h = (case hr_proxy r of None \<Rightarrow> h | Some (rt, name) \<Rightarrow> act (Exec rt [''rm'', ''-f'', name]) h)"

text \<open>A process that could not be spawned never exits: its handler deletes the entry of its agent, and a
  SIGKILL that a stop has scheduled for it meanwhile stays scheduled.\<close>

definition drop_proc :: "nat \<Rightarrow> hrec \<Rightarrow> host \<Rightarrow> host" where
  "drop_proc p r h = h\<lparr> h_agents := map_delete (hr_id r) (h_agents h), h_procs := map_delete p (h_procs h) \<rparr>"

definition onError :: "nat \<Rightarrow> int \<Rightarrow> host \<Rightarrow> host" where
  "onError p t h =
     (case map_get p (h_procs h) of
        None \<Rightarrow> h
      | Some r \<Rightarrow> drop_proc p r (reportAgent (JStr (hr_id r)) [(t, ''start failed: spawn'')] h))"

text \<open>The process has exited: its record, its timer and the entry of its agent are gone.\<close>

definition forget :: "nat \<Rightarrow> hrec \<Rightarrow> host \<Rightarrow> host" where
  "forget p r h = (drop_proc p r h)\<lparr> h_timers := filter (\<lambda>q. q \<noteq> p) (h_timers h) \<rparr>"

text \<open>\<open>code\<close> is \<open>None\<close> when a signal ended the process.\<close>

definition onExit :: "nat \<Rightarrow> int option \<Rightarrow> int \<Rightarrow> host \<Rightarrow> host" where
  "onExit p code t h =
     (case map_get p (h_procs h) of
        None \<Rightarrow> h
      | Some r \<Rightarrow>
          let h1 = (if code \<noteq> Some 0 \<or> t - hr_startedAt r < 5000
                    then reportAgent (JStr (hr_id r))
                      (map (\<lambda>(_, l). (t, l)) (drop (length (hr_log r) - 20) (hr_log r)) @ [(t, ''process exited'')]) h
                    else h)
          in forget p r (close_proxy r h1))"

definition stopAgent :: "jsval \<Rightarrow> host \<Rightarrow> host" where
  "stopAgent k h =
     (case k of
        JStr i \<Rightarrow> (case map_get i (h_agents h) of
            None \<Rightarrow> h
          | Some p \<Rightarrow>
              let h1 = act (Kill p ''SIGTERM'') h;
                  h2 = (case map_get p (h_procs h1) of Some r \<Rightarrow> close_proxy r h1 | None \<Rightarrow> h1)
              in h2\<lparr> h_timers := h_timers h2 @ [p], h_agents := map_delete i (h_agents h2) \<rparr>)
      | _ \<Rightarrow> h)"

definition kill_timer :: "nat \<Rightarrow> host \<Rightarrow> host" where
  "kill_timer p h =
     (if p \<in> set (h_timers h) then act (Kill p ''SIGKILL'') (h\<lparr> h_timers := filter (\<lambda>q. q \<noteq> p) (h_timers h) \<rparr>) else h)"

text \<open>The agents whose process exceeds the budget are stopped; an unreadable status is skipped.\<close>

definition over_budget :: "host_cfg \<Rightarrow> host_env \<Rightarrow> nat \<Rightarrow> bool" where
  "over_budget cfg he p =
     (case he_rss he p of None \<Rightarrow> False | Some kb \<Rightarrow> jlt (hc_maxMemoryMb cfg) (jdiv (fl (of_nat kb)) (Fin 1024)))"

definition enforceMemory :: "host_cfg \<Rightarrow> host_env \<Rightarrow> host \<Rightarrow> host" where
  "enforceMemory cfg he h =
     fold (\<lambda>(i, p) h. if over_budget cfg he p then stopAgent (JStr i) h else h) (h_agents h) h"

section \<open>The heartbeat\<close>

definition heartbeat_body :: "host_cfg \<Rightarrow> host \<Rightarrow> jsval" where
  "heartbeat_body cfg h = JObj [(''nodeId'', JStr (hc_nodeId cfg)), (''running'', JArr (map JStr (map_keys (h_agents h)))),
     (''usage'', JObj [(''agents'', JNum (nat_num (length (h_agents h))))])]"

definition register_body :: "host_cfg \<Rightarrow> string \<Rightarrow> jsval" where
  "register_body cfg sandbox = JObj [(''nodeId'', JStr (hc_nodeId cfg)),
     (''caps'', JObj [(''cpu'', JNum (hc_maxCpu cfg)), (''sandbox'', JStr sandbox)]),
     (''budget'', JObj [(''maxAgents'', JNum (hc_maxAgents cfg)), (''maxCpu'', JNum (hc_maxCpu cfg)),
       (''maxMemoryMb'', JNum (hc_maxMemoryMb cfg))])]"

definition host_register :: "host_cfg \<Rightarrow> host_env \<Rightarrow> host \<Rightarrow> host" where
  "host_register cfg he h =
     (case resolveSandbox cfg he h of (s, h) \<Rightarrow> act (Post ''/v1/nodes/register'' (register_body cfg s)) h)"

text \<open>A start that throws is reported; an assignment that is neither a start nor a stop is skipped.\<close>

definition start_caught :: "host_cfg \<Rightarrow> host_env \<Rightarrow> int \<Rightarrow> jsval \<Rightarrow> host \<Rightarrow> host" where
  "start_caught cfg he t a h =
     (case startAgent cfg he t a h of
        (Inr _, h) \<Rightarrow> h
      | (Inl e, h) \<Rightarrow> reportAgent (jopt a ''id'') [(t, ''start failed'')] h)"

definition run_assignment :: "host_cfg \<Rightarrow> host_env \<Rightarrow> int \<Rightarrow> jsval \<Rightarrow> host \<Rightarrow> host" where
  "run_assignment cfg he t as h =
     (if strict_eq (jopt as ''action'') (JStr ''start'') then start_caught cfg he t (jopt as ''agent'') h
      else if strict_eq (jopt as ''action'') (JStr ''stop'') then stopAgent (jopt as ''agentId'') h
      else h)"

fun run_assignments :: "host_cfg \<Rightarrow> host_env \<Rightarrow> int \<Rightarrow> jsval list \<Rightarrow> host \<Rightarrow> unit res \<times> host" where
  "run_assignments cfg he t [] h = (Inr (), h)"
| "run_assignments cfg he t (as # rest) h =
     (case jget as ''action'' of
        Inl e \<Rightarrow> (Inl e, h)
      | Inr _ \<Rightarrow> run_assignments cfg he t rest (run_assignment cfg he t as h))"

text \<open>\<open>for (const x of v || [])\<close>.\<close>

definition iterate :: "jsval \<Rightarrow> jsval list res" where
  "iterate v =
     (if \<not> truthy v then Inr []
      else case v of JArr xs \<Rightarrow> Inr xs | JStr s \<Rightarrow> Inr (map (\<lambda>c. JStr [c]) s) | _ \<Rightarrow> Inl type_error)"

definition agent_report :: "host_env \<Rightarrow> hrec \<Rightarrow> jsval" where
  "agent_report he r = JObj [(''health'', he_health he (hr_dir r)),
     (''lines'', JArr (map (\<lambda>(ts, l). JObj [(''ts'', JNum (int_num ts)), (''line'', JStr l)])
        (filter (\<lambda>(ts, l). hr_lastSent r < ts) (hr_log r))))]"

definition report_one :: "host_env \<Rightarrow> int \<Rightarrow> string \<times> nat \<Rightarrow> host \<Rightarrow> host" where
  "report_one he t e h =
     (case map_get (snd e) (h_procs h) of
        None \<Rightarrow> h
      | Some r \<Rightarrow> act (Post (''/v1/agents/'' @ fst e @ ''/report'') (agent_report he r))
          (put_rec (snd e) (r\<lparr> hr_lastSent := t \<rparr>) h))"

definition report_all :: "host_env \<Rightarrow> int \<Rightarrow> host \<Rightarrow> host" where
  "report_all he t h = fold (report_one he t) (h_agents h) h"

definition status_val :: "host_cfg \<Rightarrow> host_env \<Rightarrow> int \<Rightarrow> host \<Rightarrow> jsval" where
  "status_val cfg he t h =
     JObj [(''nodeId'', JStr (hc_nodeId cfg)), (''controlPlane'', JStr (hc_controlPlane cfg)),
       (''budget'', JObj [(''maxAgents'', JNum (hc_maxAgents cfg)), (''maxMemoryMb'', JNum (hc_maxMemoryMb cfg))]),
       (''agents'', JArr (concat (map (\<lambda>(i, p). case map_get p (h_procs h) of
           None \<Rightarrow> []
         | Some r \<Rightarrow> [JObj [(''id'', JStr i), (''name'', hr_name r), (''workload'', hr_workload r),
             (''startedAt'', JNum (int_num (hr_startedAt r))), (''health'', he_health he (hr_dir r))]]) (h_agents h)))),
       (''updatedAt'', JNum (int_num t))]"

definition writeStatus :: "host_cfg \<Rightarrow> host_env \<Rightarrow> int \<Rightarrow> host \<Rightarrow> host" where
  "writeStatus cfg he t h =
     (case json_stringify (status_val cfg he t h) of
        Some s \<Rightarrow> act (Write_File (path_join [hc_dataDir cfg, ''status.json'']) s) h
      | None \<Rightarrow> h)"

text \<open>The heartbeat, once the control plane has answered \<open>reply\<close>; nothing else runs during it.\<close>

definition beat :: "host_cfg \<Rightarrow> host_env \<Rightarrow> int \<Rightarrow> jsval res \<Rightarrow> host \<Rightarrow> unit res \<times> host" where
  "beat cfg he t reply h0 =
     (let h = act (Post ''/v1/nodes/heartbeat'' (heartbeat_body cfg h0)) h0
      in case reply of
           Inl e \<Rightarrow> (Inr (), if err_status e = 409 then host_register cfg he h else h)
         | Inr res \<Rightarrow>
             bindS (liftS (bindE (jget res ''assignments'') iterate) h) (\<lambda>ass h.
             bindS (run_assignments cfg he t ass h) (\<lambda>_ h.
               (Inr (), writeStatus cfg he t (report_all he t (enforceMemory cfg he h))))))"

definition shutdown :: "host_cfg \<Rightarrow> host_env \<Rightarrow> int \<Rightarrow> host \<Rightarrow> host" where
  "shutdown cfg he t h = writeStatus cfg he t (fold (\<lambda>i. stopAgent (JStr i)) (map_keys (h_agents h)) h)"

section \<open>The node-host as a system\<close>

text \<open>
  \<open>Begin\<close> and \<open>Finish\<close> are the two halves of a start that waits for a pull (the list of pending starts
  is part of the state); \<open>Start\<close> is a start nothing else runs during.
\<close>

record host_sys =
  hs_host :: host
  hs_pending :: "pending list"

datatype host_op =
    Start host_env int jsval
  | Begin host_env jsval
  | Finish host_env int nat "bytes res"
  | Stop jsval
  | Memory host_env
  | Report host_env int
  | Data nat int string
  | Exited nat "int option" int
  | Spawn_Failed nat int
  | Timer nat

definition on_host :: "(host \<Rightarrow> host) \<Rightarrow> host_sys \<Rightarrow> host_sys" where
  "on_host f s = s\<lparr> hs_host := f (hs_host s) \<rparr>"

definition host_step :: "host_cfg \<Rightarrow> host_sys \<Rightarrow> host_op \<Rightarrow> host_sys" where
  "host_step cfg s op = (case op of
       Start he t a \<Rightarrow> on_host (start_caught cfg he t a) s
     | Begin he a \<Rightarrow> (case start_begin cfg he a (hs_host s) of
           (Inr (Some pd), h) \<Rightarrow> \<lparr> hs_host = h, hs_pending = hs_pending s @ [pd] \<rparr>
         | (_, h) \<Rightarrow> s\<lparr> hs_host := h \<rparr>)
     | Finish he t n got \<Rightarrow> (if n < length (hs_pending s)
           then \<lparr> hs_host = snd (start_finish cfg he t got (hs_pending s ! n) (hs_host s)),
                  hs_pending = take n (hs_pending s) @ drop (Suc n) (hs_pending s) \<rparr>
           else s)
     | Stop k \<Rightarrow> on_host (stopAgent k) s
     | Memory he \<Rightarrow> on_host (enforceMemory cfg he) s
     | Report he t \<Rightarrow> on_host (report_all he t) s
     | Data p t buf \<Rightarrow> on_host (onData p t buf) s
     | Exited p code t \<Rightarrow> on_host (onExit p code t) s
     | Spawn_Failed p t \<Rightarrow> on_host (onError p t) s
     | Timer p \<Rightarrow> on_host (kill_timer p) s)"

definition sys_init :: host_sys where
  "sys_init = \<lparr> hs_host = host_init, hs_pending = [] \<rparr>"

end
