(* ===== verification/Node_Api.thy ===== *)
theory Node_Api
  imports Access Host_Run
begin

text \<open>
  node-host/host.js, the helper \<open>api\<close> that every request of the node host to the control plane goes through, and
  what the control plane's gate makes of such a request.
\<close>

section \<open>The request and its answer\<close>

text \<open>\<open>t\<close> is the clock and \<open>rnd\<close> the random bytes of the nonce; the path is signed without its query.\<close>

definition api_request :: "string \<Rightarrow> string \<Rightarrow> jsval \<Rightarrow> request" where
  "api_request method p body = \<lparr> rq_method = method, rq_path = takeWhile (\<lambda>c. c \<noteq> CHR ''?'') p,
     rq_body = (if nullish body then JObj [] else body) \<rparr>"

definition api_headers :: "host_cfg \<Rightarrow> crypto \<Rightarrow> keypair \<Rightarrow> bytes \<Rightarrow> jsnum \<Rightarrow> string \<Rightarrow> string \<Rightarrow> jsval \<Rightarrow> headers" where
  "api_headers cfg C kp rnd t method p body =
     [(''Content-Type'', ''application/json'')] @
     (if hc_key cfg \<noteq> [] then [(''Authorization'', ''Bearer '' @ hc_key cfg)] else []) @
     signNodeHeaders C rnd (kp_priv kp) (kp_address kp) (api_request method p body) t None"

datatype http_reply = Lost | Replied nat "jsval option"

definition api_result :: "http_reply \<Rightarrow> jsval res" where
  "api_result r = (case r of
       Lost \<Rightarrow> Inl (Err 0 ''unreachable'')
     | Replied status body \<Rightarrow>
         if status < 200 \<or> 300 \<le> status then Inl (Err status ''not-ok'')
         else (case body of Some v \<Rightarrow> Inr v | None \<Rightarrow> Inl (Err 0 ''not-json'')))"

text \<open>As the control plane's router hands it to a handler: it reads a body for three methods only, and the helper sends
  none that is not truthy.\<close>

definition received :: "host_cfg \<Rightarrow> crypto \<Rightarrow> keypair \<Rightarrow> bytes \<Rightarrow> jsnum \<Rightarrow> string \<Rightarrow> string \<Rightarrow> jsval \<Rightarrow> jsval \<Rightarrow> call" where
  "received cfg C kp rnd t method p body query =
     \<lparr> cl_req = (api_request method p body)\<lparr> rq_body := (if method \<in> {''POST'', ''PUT'', ''PATCH''} \<and> truthy body then body else JObj []) \<rparr>,
       cl_headers = sent (api_headers cfg C kp rnd t method p body), cl_query = query \<rparr>"

section \<open>The gate\<close>

lemma header_append:
  "map_of xs k = None \<Longrightarrow> map_of xs (toLowerCase k) = None \<Longrightarrow> header (xs @ hs) k = header hs k"
  by (simp add: header_def map_add_def split: option.splits)

lemma verify_prefix:
  assumes "\<And>k. k \<in> {''X-Circuit-Node'', ''X-Circuit-Node-Ts'', ''X-Circuit-Node-Nonce'', ''X-Circuit-Node-Sig''} \<Longrightarrow> header (xs @ hs) k = header hs k"
  shows "verifyNodeRequest C mx now clk r (xs @ hs) st = verifyNodeRequest C mx now clk r hs st"
  by (simp only: verifyNodeRequest_def assms insert_iff simp_thms)

lemma own_headers_apart:
  assumes "k \<in> {''X-Circuit-Node'', ''X-Circuit-Node-Ts'', ''X-Circuit-Node-Nonce'', ''X-Circuit-Node-Sig''}"
  shows "header (sent ((''Content-Type'', x) # (if b then [(''Authorization'', y)] else [])) @ hs) k = header hs k"
proof -
  have l: "toLowerCase ''X-Circuit-Node'' = ''x-circuit-node''" "toLowerCase ''X-Circuit-Node-Ts'' = ''x-circuit-node-ts''"
    "toLowerCase ''X-Circuit-Node-Nonce'' = ''x-circuit-node-nonce''" "toLowerCase ''X-Circuit-Node-Sig'' = ''x-circuit-node-sig''"
    "toLowerCase ''Content-Type'' = ''content-type''" "toLowerCase ''Authorization'' = ''authorization''"
    by code_simp+
  show ?thesis by (rule header_append) (use assms in \<open>auto simp: sent_def l\<close>)
qed

lemma loaded_key: "loadOrCreateNodeKey C rnd file = (Inr kp, w) \<Longrightarrow> \<exists>seed. fromSeed (exportSpki C) seed = Inr kp"
  by (auto simp: loadOrCreateNodeKey_def Let_def split: option.splits if_splits)



end
