(* ===== verification/Host_Safety.thy ===== *)
theory Host_Safety
  imports Host_Run
begin

text \<open>
  What the node-host guarantees: the tables of agents and processes stay consistent under every
  interleaving, the budget holds as long as starts do not overlap, the output kept per agent is bounded,
  and an untrusted bundle only ever runs verified, in its hardened container, behind its proxy.
\<close>

section \<open>Steps that start and stop nothing\<close>

fun about_process :: "host_act \<Rightarrow> bool" where
  "about_process (Spawn p c args d env) = True"
| "about_process (Kill p s) = True"
| "about_process x = False"

definition quiet_step :: "host \<Rightarrow> host \<Rightarrow> bool" where
  "quiet_step h h' = (h_agents h' = h_agents h \<and> h_procs h' = h_procs h \<and> h_next h' = h_next h \<and> h_timers h' = h_timers h \<and>
     (\<exists>xs. h_acts h' = h_acts h @ xs \<and> (\<forall>x \<in> set xs. \<not> about_process x)))"

lemma quiet_step_refl [simp, intro]: "quiet_step h h"
  by (simp add: quiet_step_def)

lemma quiet_step_trans [trans]: "quiet_step h h1 \<Longrightarrow> quiet_step h1 h2 \<Longrightarrow> quiet_step h h2"
  unfolding quiet_step_def by (elim conjE exE) (auto intro: exI [of _ "_ @ _"])

lemma quiet_act: "\<not> about_process x \<Longrightarrow> quiet_step h (act x h)"
  by (simp add: quiet_step_def act_def)

lemma quiet_acts: "\<not> about_process x \<Longrightarrow> quiet_step h h1 \<Longrightarrow> quiet_step h (act x h1)"
  using quiet_act quiet_step_trans by blast

lemma quiet_update [simp]: "quiet_step h (h\<lparr> h_cached := c \<rparr>)" "quiet_step h (h\<lparr> h_sandbox := s \<rparr>)"
  by (simp_all add: quiet_step_def)

lemma quiet_bind:
  "quiet_step h (snd x) \<Longrightarrow> (\<And>y h1. x = (Inr y, h1) \<Longrightarrow> quiet_step h h1 \<Longrightarrow> quiet_step h1 (snd (f y h1))) \<Longrightarrow> quiet_step h (snd (bindS x f))"
  by (cases x; cases "fst x") (auto intro: quiet_step_trans)

lemma snd_liftS [simp]: "snd (liftS r h) = h"
  by (simp add: liftS_def)

lemma quiet_lift: "(\<And>y. r = Inr y \<Longrightarrow> quiet_step h (snd (f y h))) \<Longrightarrow> quiet_step h (snd (bindS (liftS r h) f))"
  by (cases r) (simp_all add: liftS_def)

lemma reportAgent_quiet: "quiet_step h (reportAgent k ls h)"
  by (auto simp: reportAgent_def intro!: quiet_act split: sum.split)

lemma run_cmd_quiet: "quiet_step h (snd (run_cmd he c args h))"
  by (simp add: run_cmd_def quiet_act)

lemma sidecar_quiet: "quiet_step h (snd (startEgressSidecar cfg he rt n hosts h))"
  unfolding startEgressSidecar_def by (rule quiet_bind) (meson run_cmd_quiet quiet_step_trans)+

lemma resolveSandbox_quiet: "quiet_step h (snd (resolveSandbox cfg he h))"
  by (simp add: resolveSandbox_def Let_def split: option.split)

lemma install_quiet: "quiet_step h (snd (install_bundle cfg he a sha got h))"
  unfolding install_bundle_def
  by (rule quiet_bind, simp, rule quiet_bind, simp, auto simp: Let_def liftS_def bindS_def quiet_step_def act_def split: sum.split)

lemma run_oci_quiet: "quiet_step h (snd (run_oci cfg he a i dir cd entry h))"
proof (cases "detectOciRuntime (he_exec he) = None \<or> hc_egressNetwork cfg = []")
  case True
  then show ?thesis by (auto simp: run_oci_def split: option.split)
next
  case False
  then obtain rt where rt: "detectOciRuntime (he_exec he) = Some rt" "hc_egressNetwork cfg \<noteq> []"
    by (cases "detectOciRuntime (he_exec he)") auto
  obtain sb h1 where sb: "resolveSandbox cfg he h = (sb, h1)" by (cases "resolveSandbox cfg he h")
  have "quiet_step h h1" using resolveSandbox_quiet [of h cfg he] by (simp add: sb)
  moreover have "quiet_step h1 (snd (run_oci cfg he a i dir cd entry h))"
    by (simp add: run_oci_def rt sb)
       (intro conjI impI quiet_lift quiet_bind sidecar_quiet; simp add: quiet_lift split: prod.split)
  ultimately show ?thesis by (rule quiet_step_trans)
qed

lemma run_bundle_quiet: "quiet_step h (snd (run_bundle cfg he a i dir rt sha h))"
  unfolding run_bundle_def Let_def
  by (rule quiet_bind) (auto simp: run_oci_quiet)

lemma resolve_end_quiet: "quiet_step h (snd (resolve_end cfg he a i dir got pl h))"
proof (cases pl)
  case (Bundled rt sha pull)
  have "quiet_step h (snd (bindS (if pull then install_bundle cfg he a sha got h else (Inr (), h)) (\<lambda>_ h. run_bundle cfg he a i dir rt sha h)))"
    by (rule quiet_bind) (auto simp: install_quiet run_bundle_quiet)
  then show ?thesis by (simp add: resolve_end_def Bundled)
qed (simp add: resolve_end_def)

lemma applyCgroup_quiet: "quiet_step h (snd (applyCgroup cfg he p a h))"
  by (auto simp: applyCgroup_def Let_def intro!: quiet_acts split: sum.split)

lemma writeStatus_quiet: "quiet_step h (writeStatus cfg he t h)"
  by (auto simp: writeStatus_def intro!: quiet_acts split: option.split)

lemma close_proxy_quiet: "quiet_step h (close_proxy r h)"
  by (auto simp: close_proxy_def intro!: quiet_act split: option.split)

lemma prepare_dir_quiet: "quiet_step h (prepare_dir a dir h)"
  by (auto simp: prepare_dir_def Let_def intro!: quiet_acts split: option.split)

lemma prepare_dir_cached: "h_cached (prepare_dir a dir h) = h_cached h"
  by (simp add: prepare_dir_def Let_def act_def split: option.split)

lemma resolve_plan_cached: "h_cached h' = h_cached h \<Longrightarrow> resolve_plan cfg he a h' = resolve_plan cfg he a h"
  by (simp add: resolve_plan_def)

lemma start_begin_out:
  assumes "start_begin cfg he a h = (r, h')"
  shows "quiet_step h h' \<and> h_cached h' = h_cached h \<and> (\<forall>pd. r = Inr (Some pd) \<longrightarrow> map_get (pd_id pd) (h_agents h) = None \<and>
      \<not> jle (hc_maxAgents cfg) (nat_num (length (h_agents h))) \<and> pd_agent pd = a \<and> jget a ''id'' = Inr (JStr (pd_id pd)) \<and>
      pd_dir pd = path_join [hc_dataDir cfg, ''agents'', pd_id pd] \<and> pd_plan pd = resolve_plan cfg he a h)"
proof (cases "jget a ''id''")
  case (Inr k)
  show ?thesis
  proof (cases k)
    case (JStr i)
    let ?d = "path_join [hc_dataDir cfg, ''agents'', i]"
    have "start_begin cfg he a h = (if map_has i (h_agents h) \<or> jle (hc_maxAgents cfg) (nat_num (length (h_agents h))) then (Inr None, h)
      else (Inr (Some \<lparr> pd_agent = a, pd_id = i, pd_dir = ?d, pd_plan = resolve_plan cfg he a h \<rparr>), prepare_dir a ?d h))"
      by (simp add: start_begin_def Inr JStr text_arg_def liftS_def Let_def resolve_plan_cached [OF prepare_dir_cached])
    then show ?thesis
      using assms Inr JStr prepare_dir_quiet prepare_dir_cached by (auto simp: map_has_def split: if_splits)
  qed (use assms Inr in \<open>auto simp: start_begin_def text_arg_def liftS_def split: if_splits\<close>)
qed (use assms in \<open>auto simp: start_begin_def\<close>)

text \<open>A start that finishes either fails without a trace in the tables, or adds one process.\<close>

lemma start_finish_out:
  assumes "start_finish cfg he t got pd h = (r, h')"
  shows "quiet_step h h' \<or>
    (\<exists>rs h1 env rec xs pl cwd. pd_plan pd = Inr pl \<and>
       resolve_end cfg he (pd_agent pd) (pd_id pd) (pd_dir pd) got pl h = (Inr rs, h1) \<and> quiet_step h h1 \<and>
       buildAgentEnv (pd_agent pd) (pd_dir pd) (he_src he) = Inr env \<and>
       h_agents h' = map_set (pd_id pd) (h_next h) (h_agents h) \<and> h_procs h' = map_set (h_next h) rec (h_procs h) \<and>
       h_next h' = Suc (h_next h) \<and> h_timers h' = h_timers h \<and> h_cached h' = h_cached h1 \<and>
       hr_id rec = pd_id pd \<and> hr_log rec = [] \<and>
       h_acts h' = h_acts h1 @ Spawn (h_next h) (rs_command rs) (rs_args rs) cwd env # xs \<and> (\<forall>x \<in> set xs. \<not> about_process x))"
proof (cases "pd_plan pd")
  case (Inl e)
  then show ?thesis using assms by (auto simp: start_finish_def liftS_def reportAgent_quiet)
next
  case (Inr pl)
  obtain q h1 where q: "resolve_end cfg he (pd_agent pd) (pd_id pd) (pd_dir pd) got pl h = (q, h1)"
    by (cases "resolve_end cfg he (pd_agent pd) (pd_id pd) (pd_dir pd) got pl h")
  have qs: "quiet_step h h1" using resolve_end_quiet [of h cfg he "pd_agent pd" "pd_id pd" "pd_dir pd" got pl] by (simp add: q)
  show ?thesis
  proof (cases q)
    case (Inl e)
    then have "h' = reportAgent (JStr (pd_id pd)) [(t, ''start failed: resolve'')] h1"
      using assms by (simp add: start_finish_def liftS_def Inr q)
    then show ?thesis using qs reportAgent_quiet quiet_step_trans by blast
  next
    case q2: (Inr rs)
    have l: "launch cfg he t pd rs h1 = (r, h')" using assms by (simp add: start_finish_def liftS_def Inr q q2)
    show ?thesis
    proof (cases "buildAgentEnv (pd_agent pd) (pd_dir pd) (he_src he)")
      case (Inl e)
      then have "h' = h1" using l by (simp add: launch_def liftS_def)
      then show ?thesis using qs by blast
    next
      case env: (Inr env)
      let ?cwd = "case rs_cwd rs of Some c \<Rightarrow> if c = [] then pd_dir pd else c | None \<Rightarrow> pd_dir pd"
      let ?s = "act (Spawn (h_next h1) (rs_command rs) (rs_args rs) ?cwd env) (h1\<lparr> h_next := Suc (h_next h1) \<rparr>)"
      obtain cg h2 where cg: "applyCgroup cfg he (h_next h1) (pd_agent pd) ?s = (cg, h2)"
        by (cases "applyCgroup cfg he (h_next h1) (pd_agent pd) ?s")
      have c: "quiet_step ?s h2" using applyCgroup_quiet [of ?s cfg he "h_next h1" "pd_agent pd"] by (simp add: cg)
      have k: "h_cached h2 = h_cached h1"
        using cg by (auto simp: applyCgroup_def Let_def act_def split: if_splits sum.splits)
      obtain rec where rec: "hr_id rec = pd_id pd" "hr_log rec = []"
          "h' = h2\<lparr> h_agents := map_set (pd_id pd) (h_next h1) (h_agents h2), h_procs := map_set (h_next h1) rec (h_procs h2) \<rparr>"
        using l by (force simp: launch_def liftS_def env Let_def cg)
      show ?thesis
        using qs c k rec env q q2 Inr unfolding quiet_step_def by (intro disjI2) (auto simp: act_def)
    qed
  qed
qed

section \<open>The tables are consistent\<close>

text \<open>Every agent's entry is a process that has not exited and that was started for it; a pending SIGKILL is for
  a process that was told to stop and is not listed; numbers are not reused; the output kept of a process is at most 300 lines.\<close>

definition told_to_stop :: "nat \<Rightarrow> host \<Rightarrow> bool" where
  "told_to_stop p h = (Kill p ''SIGTERM'' \<in> set (h_acts h))"

definition timer_ok :: "host \<Rightarrow> nat \<Rightarrow> bool" where
  "timer_ok h p = (p < h_next h \<and> told_to_stop p h \<and> (\<forall>i. map_get i (h_agents h) \<noteq> Some p))"

definition host_ok :: "host \<Rightarrow> bool" where
  "host_ok h = (map_ok (h_agents h) \<and> map_ok (h_procs h) \<and>
     (\<forall>i p. map_get i (h_agents h) = Some p \<longrightarrow> (\<exists>r. map_get p (h_procs h) = Some r \<and> hr_id r = i)) \<and>
     (\<forall>p r. map_get p (h_procs h) = Some r \<longrightarrow> p < h_next h \<and> length (hr_log r) \<le> 300) \<and>
     (\<forall>p \<in> set (h_timers h). timer_ok h p))"

lemma told_mono: "told_to_stop p h \<Longrightarrow> set (h_acts h) \<subseteq> set (h_acts h') \<Longrightarrow> told_to_stop p h'"
  by (auto simp: told_to_stop_def)

lemma timer_ok_mono:
  "timer_ok h p \<Longrightarrow> h_next h \<le> h_next h' \<Longrightarrow> set (h_acts h) \<subseteq> set (h_acts h') \<Longrightarrow>
   (\<And>i. map_get i (h_agents h') = Some p \<Longrightarrow> map_get i (h_agents h) = Some p) \<Longrightarrow> timer_ok h' p"
  using told_mono unfolding timer_ok_def by (meson less_le_trans)

lemma host_ok_quiet: "quiet_step h h' \<Longrightarrow> host_ok h \<Longrightarrow> host_ok h'"
proof -
  assume q: "quiet_step h h'" and ok: "host_ok h"
  have "timer_ok h' p" if "p \<in> set (h_timers h)" for p
    by (rule timer_ok_mono [of h]) (use q ok that in \<open>auto simp: quiet_step_def host_ok_def\<close>)
  then show ?thesis using q ok by (simp add: quiet_step_def host_ok_def)
qed

lemma host_ok_fresh: "host_ok h \<Longrightarrow> map_get (h_next h) (h_procs h) = None"
  by (cases "map_get (h_next h) (h_procs h)") (auto simp: host_ok_def)

lemma host_ok_add:
  assumes "host_ok h" "h_agents h' = map_set i (h_next h) (h_agents h)" "h_procs h' = map_set (h_next h) r (h_procs h)"
    "h_next h' = Suc (h_next h)" "h_timers h' = h_timers h" "hr_id r = i" "hr_log r = []" "set (h_acts h) \<subseteq> set (h_acts h')"
  shows "host_ok h'"
proof -
  have f: "map_get (h_next h) (h_procs h) = None" by (rule host_ok_fresh [OF assms(1)])
  have t: "timer_ok h' p" if "p \<in> set (h_timers h)" for p
  proof (rule timer_ok_mono)
    show t: "timer_ok h p" using assms(1) that by (simp add: host_ok_def)
    show "h_next h \<le> h_next h'" "set (h_acts h) \<subseteq> set (h_acts h')" by (simp_all add: assms(4,8))
    show "map_get j (h_agents h) = Some p" if "map_get j (h_agents h') = Some p" for j
      using that t by (auto simp: assms(2) map_get_set timer_ok_def split: if_splits)
  qed
  have n: "map_get j (h_agents h) \<noteq> Some (h_next h)" for j
    using assms(1) f unfolding host_ok_def by (metis option.distinct(1))
  show ?thesis
    using assms(1-7) f t n unfolding host_ok_def by (auto simp: map_get_set less_Suc_eq split: if_splits)
qed

lemma host_ok_put_rec:
  "host_ok h \<Longrightarrow> map_get p (h_procs h) = Some r \<Longrightarrow> hr_id r' = hr_id r \<Longrightarrow> length (hr_log r') \<le> 300 \<Longrightarrow> host_ok (put_rec p r' h)"
  unfolding host_ok_def put_rec_def timer_ok_def told_to_stop_def by (auto simp: map_get_set split: if_splits) (metis option.inject)

lemma host_ok_drop:
  assumes "host_ok h" "map_get p (h_procs h) = Some r"
  shows "host_ok (drop_proc p r h)"
proof -
  have "p \<noteq> q" if "map_get i (h_agents h) = Some q" "i \<noteq> hr_id r" for i q
    using assms that unfolding host_ok_def by (metis option.inject)
  then show ?thesis using assms unfolding host_ok_def drop_proc_def timer_ok_def told_to_stop_def
    by (auto simp: map_get_delete split: if_splits)
qed

lemma host_ok_forget:
  assumes "host_ok h" "map_get p (h_procs h) = Some r"
  shows "host_ok (forget p r h)"
  using host_ok_drop [OF assms] by (auto simp: host_ok_def forget_def drop_proc_def timer_ok_def told_to_stop_def)

lemma stopAgent_out:
  "stopAgent (JStr i) h = h \<and> map_get i (h_agents h) = None \<or>
   (\<exists>p xs. map_get i (h_agents h) = Some p \<and> h_agents (stopAgent (JStr i) h) = map_delete i (h_agents h) \<and>
      h_procs (stopAgent (JStr i) h) = h_procs h \<and> h_next (stopAgent (JStr i) h) = h_next h \<and>
      h_timers (stopAgent (JStr i) h) = h_timers h @ [p] \<and> h_cached (stopAgent (JStr i) h) = h_cached h \<and>
      h_acts (stopAgent (JStr i) h) = h_acts h @ Kill p ''SIGTERM'' # xs \<and> (\<forall>x \<in> set xs. \<not> about_process x))"
  by (auto simp: stopAgent_def act_def close_proxy_def Let_def split: option.splits)

lemma stopAgent_other: "\<nexists>i. k = JStr i \<Longrightarrow> stopAgent k h = h"
  by (cases k) (simp_all add: stopAgent_def)

lemma host_ok_stop: "host_ok h \<Longrightarrow> host_ok (stopAgent k h)"
proof (cases "\<exists>i. k = JStr i")
  case True
  assume ok: "host_ok h"
  from True obtain i where i: "k = JStr i" by blast
  from stopAgent_out [of i h] show ?thesis unfolding i
  proof (elim disjE exE conjE)
    fix p xs
    assume p: "map_get i (h_agents h) = Some p" and eq: "h_agents (stopAgent (JStr i) h) = map_delete i (h_agents h)"
      "h_procs (stopAgent (JStr i) h) = h_procs h" "h_next (stopAgent (JStr i) h) = h_next h"
      "h_timers (stopAgent (JStr i) h) = h_timers h @ [p]" "h_acts (stopAgent (JStr i) h) = h_acts h @ Kill p ''SIGTERM'' # xs"
    obtain r where r: "map_get p (h_procs h) = Some r" "hr_id r = i" using ok p unfolding host_ok_def by blast
    have sole: "j = i" if "map_get j (h_agents h) = Some p" for j using ok that r unfolding host_ok_def by (metis option.inject)
    have "timer_ok (stopAgent (JStr i) h) p"
      using ok r sole unfolding timer_ok_def told_to_stop_def eq by (auto simp: host_ok_def map_get_delete split: if_splits)
    moreover have "timer_ok (stopAgent (JStr i) h) q" if "q \<in> set (h_timers h)" for q
      by (rule timer_ok_mono [of h]) (use ok that in \<open>auto simp: host_ok_def eq map_get_delete split: if_splits\<close>)
    ultimately show "host_ok (stopAgent (JStr i) h)" using ok unfolding host_ok_def eq by (simp add: map_get_delete)
  qed (simp add: ok)
qed (auto simp: stopAgent_other)

lemma host_ok_fold: "(\<And>x h. host_ok h \<Longrightarrow> host_ok (f x h)) \<Longrightarrow> host_ok h \<Longrightarrow> host_ok (fold f xs h)"
  by (induction xs arbitrary: h) auto

lemma push_line_bound: "length xs \<le> 300 \<Longrightarrow> length (push_line t xs l) \<le> 300"
  by (simp add: push_line_def Let_def)

lemma push_lines_bound: "length xs \<le> 300 \<Longrightarrow> length (foldl (push_line t) xs ls) \<le> 300"
  by (induction ls arbitrary: xs) (simp_all add: push_line_bound)

lemma start_finish_ok:
  assumes "host_ok h"
  shows "host_ok (snd (start_finish cfg he t got pd h))"
proof -
  obtain r h' where s: "start_finish cfg he t got pd h = (r, h')" by (cases "start_finish cfg he t got pd h")
  from start_finish_out [OF s] show ?thesis
    unfolding s snd_conv
  proof (elim disjE exE conjE)
    fix rs h1 env rec xs pl cwd
    assume a: "h_agents h' = map_set (pd_id pd) (h_next h) (h_agents h)" "h_procs h' = map_set (h_next h) rec (h_procs h)"
      "h_next h' = Suc (h_next h)" "h_timers h' = h_timers h" "hr_id rec = pd_id pd" "hr_log rec = []" "quiet_step h h1"
      "h_acts h' = h_acts h1 @ Spawn (h_next h) (rs_command rs) (rs_args rs) cwd env # xs"
    from a(7,8) have "set (h_acts h) \<subseteq> set (h_acts h')" by (auto simp: quiet_step_def)
    with a(1-6) show "host_ok h'" by (rule host_ok_add [OF assms])
  qed (rule host_ok_quiet [OF _ assms])
qed

lemma start_caught_out:
  "(quiet_step h (start_caught cfg he t a h)) \<or>
   (\<exists>pd h1 h2 r. start_begin cfg he a h = (Inr (Some pd), h1) \<and> start_finish cfg he t (pulled cfg he pd) pd h1 = (r, h2) \<and>
      quiet_step h2 (start_caught cfg he t a h) \<and> h_cached (start_caught cfg he t a h) = h_cached h2)"
proof -
  obtain r1 h1 where b: "start_begin cfg he a h = (r1, h1)" by (cases "start_begin cfg he a h")
  have q: "quiet_step h h1" using start_begin_out [OF b] by (rule conjunct1)
  have c: "h_cached (reportAgent k ls g) = h_cached g" for k ls g by (simp add: reportAgent_def act_def split: sum.split)
  show ?thesis
  proof (cases r1)
    case (Inl e)
    then have "start_caught cfg he t a h = reportAgent (jopt a ''id'') [(t, ''start failed'')] h1"
      by (simp add: start_caught_def startAgent_def b)
    then show ?thesis using quiet_step_trans [OF q reportAgent_quiet] by simp
  next
    case r1: (Inr o')
    show ?thesis
    proof (cases o')
      case None
      then show ?thesis using q by (simp add: start_caught_def startAgent_def b r1)
    next
      case (Some pd)
      obtain r2 h2 where f: "start_finish cfg he t (pulled cfg he pd) pd h1 = (r2, h2)"
        by (cases "start_finish cfg he t (pulled cfg he pd) pd h1")
      have e: "start_caught cfg he t a h = (case r2 of Inr _ \<Rightarrow> h2 | Inl _ \<Rightarrow> reportAgent (jopt a ''id'') [(t, ''start failed'')] h2)"
        by (simp only: start_caught_def startAgent_def b r1 Some f bindS_simps option.case prod.case)
      have "quiet_step h2 (start_caught cfg he t a h) \<and> h_cached (start_caught cfg he t a h) = h_cached h2"
        unfolding e by (cases r2) (simp_all add: reportAgent_quiet c)
      then show ?thesis using b r1 Some f by blast
    qed
  qed
qed

lemma start_caught_ok: "host_ok h \<Longrightarrow> host_ok (start_caught cfg he t a h)"
  using start_caught_out [of h cfg he t a] start_begin_out start_finish_ok by (metis host_ok_quiet snd_conv)

lemma onData_ok: "host_ok h \<Longrightarrow> host_ok (onData p t buf h)"
proof (cases "map_get p (h_procs h)")
  case (Some r)
  assume ok: "host_ok h"
  then have "length (hr_log r) \<le> 300" using Some by (auto simp: host_ok_def)
  then show ?thesis using host_ok_put_rec [OF ok Some] push_lines_bound by (simp add: onData_def Some)
qed (simp add: onData_def)

lemma report_one_ok: "host_ok h \<Longrightarrow> host_ok (report_one he t e h)"
proof (cases "map_get (snd e) (h_procs h)")
  case (Some r)
  assume ok: "host_ok h"
  have "length (hr_log r) \<le> 300" using ok Some by (auto simp: host_ok_def)
  then have "host_ok (put_rec (snd e) (r\<lparr> hr_lastSent := t \<rparr>) h)" by (intro host_ok_put_rec [OF ok Some]) simp_all
  then show ?thesis using host_ok_quiet [OF quiet_act] by (simp add: report_one_def Some)
qed (simp add: report_one_def)

lemma onExit_forget:
  assumes "map_get p (h_procs h) = Some r"
  shows "\<exists>h1. quiet_step h h1 \<and> onExit p code t h = forget p r h1"
proof -
  let ?h1 = "if code \<noteq> Some 0 \<or> t - hr_startedAt r < 5000
      then reportAgent (JStr (hr_id r)) (map (\<lambda>(_, l). (t, l)) (drop (length (hr_log r) - 20) (hr_log r)) @ [(t, ''process exited'')]) h else h"
  have "quiet_step h ?h1" by (simp add: reportAgent_quiet)
  then have "quiet_step h (close_proxy r ?h1)" using close_proxy_quiet by (rule quiet_step_trans)
  moreover have "onExit p code t h = forget p r (close_proxy r ?h1)"
    unfolding onExit_def Let_def assms option.case ..
  ultimately show ?thesis by blast
qed

lemma onError_drop:
  "map_get p (h_procs h) = Some r \<Longrightarrow> \<exists>h1. quiet_step h h1 \<and> onError p t h = drop_proc p r h1"
  using reportAgent_quiet by (auto simp: onError_def)

lemma host_ok_gone:
  assumes "host_ok h" "quiet_step h h1" "map_get p (h_procs h) = Some r"
  shows "host_ok (forget p r h1)" "host_ok (drop_proc p r h1)"
proof -
  have "map_get p (h_procs h1) = Some r" using assms(2,3) by (simp add: quiet_step_def)
  with host_ok_quiet [OF assms(2,1)] show "host_ok (forget p r h1)" "host_ok (drop_proc p r h1)"
    by (rule host_ok_forget, rule host_ok_drop)
qed

lemma onExit_ok: "host_ok h \<Longrightarrow> host_ok (onExit p code t h)"
proof (cases "map_get p (h_procs h)")
  case (Some r)
  assume ok: "host_ok h"
  obtain h1 where "quiet_step h h1" "onExit p code t h = forget p r h1" using onExit_forget [OF Some] by blast
  then show ?thesis using host_ok_gone(1) [OF ok _ Some] by simp
qed (simp add: onExit_def)

lemma onError_ok: "host_ok h \<Longrightarrow> host_ok (onError p t h)"
proof (cases "map_get p (h_procs h)")
  case (Some r)
  assume ok: "host_ok h"
  obtain h1 where "quiet_step h h1" "onError p t h = drop_proc p r h1" using onError_drop [OF Some] by blast
  then show ?thesis using host_ok_gone(2) [OF ok _ Some] by simp
qed (simp add: onError_def)

lemma kill_timer_ok: "host_ok h \<Longrightarrow> host_ok (kill_timer p h)"
  by (auto simp: kill_timer_def host_ok_def act_def timer_ok_def told_to_stop_def)

lemma begin_step: "host_step cfg s (Begin he a) = (case start_begin cfg he a (hs_host s) of
    (r, h) \<Rightarrow> \<lparr> hs_host = h, hs_pending = hs_pending s @ (case r of Inr (Some pd) \<Rightarrow> [pd] | _ \<Rightarrow> []) \<rparr>)"
  by (simp add: host_step_def split: prod.split sum.split option.split)

lemma host_step_ok: "host_ok (hs_host s) \<Longrightarrow> host_ok (hs_host (host_step cfg s op))"
proof (cases op)
  case (Begin he a)
  assume ok: "host_ok (hs_host s)"
  obtain r h where b: "start_begin cfg he a (hs_host s) = (r, h)" by (cases "start_begin cfg he a (hs_host s)")
  show ?thesis using host_ok_quiet [OF conjunct1 [OF start_begin_out [OF b]] ok] by (simp add: Begin begin_step b)
qed (auto simp: host_step_def on_host_def start_caught_ok start_finish_ok host_ok_stop enforceMemory_def report_all_def report_one_ok
    onData_ok onExit_ok onError_ok kill_timer_ok intro!: host_ok_fold)

interpretation host_runs: invariant_system "host_step cfg" "\<lambda>_. True" "\<lambda>s. host_ok (hs_host s)" for cfg
  by unfold_locales (rule host_step_ok)

lemma host_init_ok: "host_ok (hs_host sys_init)"
  by (simp add: host_ok_def sys_init_def host_init_def)

text \<open>The pending SIGKILLs: each is for a process that has not exited, or for one of \<open>F\<close>, the processes that
  could not be spawned, for which no exit is ever reported.\<close>

definition timers_for :: "nat set \<Rightarrow> host \<Rightarrow> bool" where
  "timers_for F h = (\<forall>p \<in> set (h_timers h). p \<in> F \<or> map_get p (h_procs h) \<noteq> None)"

lemma timers_for_mono:
  "timers_for F h \<Longrightarrow> set (h_timers h') \<subseteq> set (h_timers h) \<Longrightarrow>
   (\<And>p. p \<in> set (h_timers h') \<Longrightarrow> p \<notin> F \<Longrightarrow> map_get p (h_procs h) \<noteq> None \<Longrightarrow> map_get p (h_procs h') \<noteq> None) \<Longrightarrow> timers_for F h'"
  unfolding timers_for_def by blast

lemma timers_quiet: "quiet_step h h' \<Longrightarrow> timers_for F h \<Longrightarrow> timers_for F h'"
  by (simp add: quiet_step_def timers_for_def)

lemma timers_finish: "timers_for F h \<Longrightarrow> timers_for F (snd (start_finish cfg he t got pd h))"
proof -
  assume a: "timers_for F h"
  obtain r h' where s: "start_finish cfg he t got pd h = (r, h')" by (cases "start_finish cfg he t got pd h")
  from start_finish_out [OF s] show ?thesis
    unfolding s snd_conv
  proof (elim disjE exE conjE)
    fix rec
    assume "h_procs h' = map_set (h_next h) rec (h_procs h)" "h_timers h' = h_timers h"
    then show "timers_for F h'" using a by (auto simp: timers_for_def map_get_set)
  qed (rule timers_quiet [OF _ a])
qed

lemma timers_start: "timers_for F h \<Longrightarrow> timers_for F (start_caught cfg he t a h)"
  using start_caught_out [of h cfg he t a] start_begin_out timers_finish timers_quiet by (metis snd_conv)

lemma timers_stop: "host_ok h \<Longrightarrow> timers_for F h \<Longrightarrow> timers_for F (stopAgent k h)"
proof (cases "\<exists>i. k = JStr i")
  case True
  assume ok: "host_ok h" and a: "timers_for F h"
  from True obtain i where i: "k = JStr i" by blast
  from stopAgent_out [of i h] show ?thesis unfolding i
  proof (elim disjE exE conjE)
    fix p
    assume p: "map_get i (h_agents h) = Some p" and eq: "h_procs (stopAgent (JStr i) h) = h_procs h"
      "h_timers (stopAgent (JStr i) h) = h_timers h @ [p]"
    obtain r where "map_get p (h_procs h) = Some r" using ok p unfolding host_ok_def by blast
    then show "timers_for F (stopAgent (JStr i) h)" using a by (simp add: timers_for_def eq)
  qed (simp add: a)
qed (simp add: stopAgent_other)

lemma timers_put_rec: "timers_for F h \<Longrightarrow> timers_for F (put_rec p r h)"
  by (auto simp: timers_for_def put_rec_def map_get_set)

lemma timers_act: "timers_for F (act x h) = timers_for F h"
  by (simp add: timers_for_def act_def)

lemma timers_onData: "timers_for F h \<Longrightarrow> timers_for F (onData p t buf h)"
  by (simp add: onData_def timers_put_rec split: option.split)

lemma timers_report: "timers_for F h \<Longrightarrow> timers_for F (report_one he t e h)"
  by (simp add: report_one_def timers_put_rec timers_act split: option.split)

lemma timers_onExit: "timers_for F h \<Longrightarrow> timers_for F (onExit p code t h)"
proof (cases "map_get p (h_procs h)")
  case (Some r)
  assume a: "timers_for F h"
  obtain h1 where h1: "quiet_step h h1" "onExit p code t h = forget p r h1" using onExit_forget [OF Some] by blast
  show ?thesis unfolding h1(2) using timers_quiet [OF h1(1) a]
    by (auto simp: timers_for_def forget_def drop_proc_def map_get_delete)
qed (simp add: onExit_def)

lemma timers_onError: "timers_for F h \<Longrightarrow> p \<in> F \<Longrightarrow> timers_for F (onError p t h)"
proof (cases "map_get p (h_procs h)")
  case (Some r)
  assume a: "timers_for F h" and f: "p \<in> F"
  obtain h1 where h1: "quiet_step h h1" "onError p t h = drop_proc p r h1" using onError_drop [OF Some] by blast
  show ?thesis unfolding h1(2) using timers_quiet [OF h1(1) a] f
    by (auto simp: timers_for_def drop_proc_def map_get_delete)
qed (simp add: onError_def)

lemma timers_kill: "timers_for F h \<Longrightarrow> timers_for F (kill_timer p h)"
  by (auto simp: timers_for_def kill_timer_def act_def)

lemma timers_fold:
  "(\<And>x h. host_ok h \<Longrightarrow> timers_for F h \<Longrightarrow> host_ok (f x h) \<and> timers_for F (f x h)) \<Longrightarrow>
   host_ok h \<Longrightarrow> timers_for F h \<Longrightarrow> timers_for F (fold f xs h)"
  by (induction xs arbitrary: h) auto

fun spawn_failed :: "host_op \<Rightarrow> nat option" where
  "spawn_failed (Spawn_Failed p t) = Some p"
| "spawn_failed op = None"

lemma timers_step:
  assumes "host_ok (hs_host s)" "timers_for F (hs_host s)" "\<forall>p. spawn_failed op = Some p \<longrightarrow> p \<in> F"
  shows "timers_for F (hs_host (host_step cfg s op))"
proof (cases op)
  case (Begin he a)
  obtain r h where b: "start_begin cfg he a (hs_host s) = (r, h)" by (cases "start_begin cfg he a (hs_host s)")
  show ?thesis using timers_quiet [OF conjunct1 [OF start_begin_out [OF b]] assms(2)] by (simp add: Begin begin_step b)
next
  case (Memory he)
  show ?thesis using assms(1,2)
    by (auto simp: Memory host_step_def on_host_def enforceMemory_def host_ok_stop timers_stop intro!: timers_fold split: prod.split)
next
  case (Report he t)
  show ?thesis using assms(1,2)
    by (auto simp: Report host_step_def on_host_def report_all_def report_one_ok timers_report intro!: timers_fold)
qed (use assms in \<open>auto simp: host_step_def on_host_def timers_start timers_finish timers_stop timers_onData timers_onExit timers_onError timers_kill\<close>)

interpretation host_timers: invariant_system "host_step cfg" "\<lambda>op. \<forall>p. spawn_failed op = Some p \<longrightarrow> p \<in> F"
    "\<lambda>s. host_ok (hs_host s) \<and> timers_for F (hs_host s)" for cfg F
  by unfold_locales (simp add: host_step_ok timers_step)

text \<open>C29. Under every interleaving of starts, stops, exits and output, the tables of the node-host stay consistent: an agent
  it lists is a process that was started for it and has not exited, two agents never share a process, a pending SIGKILL is for a
  process that was told to stop, is no longer listed and has not exited (or was one that could not be spawned, for
  which the timer is not cleared), and at most 300 lines of output are kept for each.\<close>

theorem host_tables_consistent:
  fixes cfg :: host_cfg and ops :: "host_op list"
  defines "h \<equiv> hs_host (run_ops (host_step cfg) ops sys_init)"
  shows "distinct (map_keys (h_agents h)) \<and> distinct (map_values (h_agents h)) \<and>
    list_all (\<lambda>(i, p). case map_get p (h_procs h) of Some r \<Rightarrow> hr_id r = i | None \<Rightarrow> False) (h_agents h) \<and>
    list_all (\<lambda>p. Kill p ''SIGTERM'' \<in> set (h_acts h) \<and> p \<notin> set (map_values (h_agents h)) \<and>
      ((\<exists>r. map_get p (h_procs h) = Some r) \<or> Some p \<in> set (map spawn_failed ops))) (h_timers h) \<and>
    list_all (\<lambda>(p, r). length (hr_log r) \<le> 300) (h_procs h)"
proof -
  let ?F = "{p. Some p \<in> set (map spawn_failed ops)}"
  have "host_ok h \<and> timers_for ?F h" unfolding h_def
    by (rule host_timers.run_inv) (use host_init_ok in \<open>auto simp: timers_for_def sys_init_def host_init_def intro: rev_image_eqI\<close>)
  then have ok: "host_ok h" and tf: "timers_for ?F h" by blast+
  then have m: "map_ok (h_agents h)" "map_ok (h_procs h)" by (simp_all add: host_ok_def)
  have e: "\<exists>r. map_get p (h_procs h) = Some r \<and> hr_id r = i" if "(i, p) \<in> set (h_agents h)" for i p
    using ok that map_get_iff [OF m(1)] unfolding host_ok_def by blast
  have "inj_on snd (set (h_agents h))"
  proof (rule inj_onI)
    fix x y assume "x \<in> set (h_agents h)" "y \<in> set (h_agents h)" "snd x = snd y"
    moreover obtain r where "map_get (snd x) (h_procs h) = Some r" "hr_id r = fst x"
      using e [of "fst x" "snd x"] \<open>x \<in> set (h_agents h)\<close> by auto
    moreover obtain r' where "map_get (snd y) (h_procs h) = Some r'" "hr_id r' = fst y"
      using e [of "fst y" "snd y"] \<open>y \<in> set (h_agents h)\<close> by auto
    ultimately show "x = y" by (simp add: prod_eq_iff)
  qed
  then have d: "distinct (map_values (h_agents h))" using m(1) by (simp add: distinct_map map_ok_def)
  have l: "length (hr_log r) \<le> 300" if "(p, r) \<in> set (h_procs h)" for p r
    using ok that map_get_iff [OF m(2)] unfolding host_ok_def by blast
  have t: "Kill p ''SIGTERM'' \<in> set (h_acts h) \<and> p \<notin> set (map_values (h_agents h)) \<and>
      ((\<exists>r. map_get p (h_procs h) = Some r) \<or> Some p \<in> set (map spawn_failed ops))" if "p \<in> set (h_timers h)" for p
  proof -
    have p: "timer_ok h p" using ok that by (simp add: host_ok_def)
    then have "(i, q) \<in> set (h_agents h) \<Longrightarrow> q \<noteq> p" for i q using map_get_iff [OF m(1)] unfolding timer_ok_def by blast
    then show ?thesis using p tf that by (fastforce simp: timer_ok_def told_to_stop_def timers_for_def)
  qed
  show ?thesis using m(1) d ok e l t by (auto simp: list_all_iff map_ok_def host_ok_def split: option.split dest!: e)
qed

section \<open>A node and its world\<close>

definition sample_node :: host_cfg where
  "sample_node = host_config (\<lambda>k. None) ''h'' ''/home''"

definition sample_world :: host_env where
  "sample_world = \<lparr> he_crypto = toy_crypto, he_execPath = ''/node'', he_repo = ''/repo'', he_src = (\<lambda>k. None),
     he_pull = sample_pull\<lparr> pe_size := (\<lambda>p. Inr 32), pe_read := (\<lambda>p. Inr (replicate 32 1)) \<rparr>, he_unpack = (\<lambda>b d. Inr ()),
     he_exists = (\<lambda>p. True), he_exec = (\<lambda>c args. True), he_kvm = False, he_hostname = (\<lambda>u. Some ''api.x''), he_cgroup = False,
     he_rss = (\<lambda>p. None), he_health = (\<lambda>d. JNull) \<rparr>"

lemma sample_node_vals: "hc_bundleCacheDir sample_node = ''/home/.circuit-host/bundles''" "hc_dataDir sample_node = ''/home/.circuit-host''"
  "hc_firstPartyKeys sample_node = []" "hc_maxAgents sample_node = Fin 5" "hc_bundleStoreBase sample_node = ''/home/.circuit/bundles''"
proof -
  have p: "path_join [''/home'', ''.circuit-host''] = ''/home/.circuit-host''" "path_join [''/home/.circuit-host'', ''bundles''] = ''/home/.circuit-host/bundles''"
    "path_join [''/home'', ''.circuit'', ''bundles''] = ''/home/.circuit/bundles''" by code_simp+
  show "hc_bundleCacheDir sample_node = ''/home/.circuit-host/bundles''" "hc_dataDir sample_node = ''/home/.circuit-host''"
    "hc_firstPartyKeys sample_node = []" "hc_maxAgents sample_node = Fin 5" "hc_bundleStoreBase sample_node = ''/home/.circuit/bundles''"
    by (simp_all add: sample_node_def host_config_def Let_def env_or_def env_num_def p comma_list_def trim_def)
qed

lemma sample_image: "take 1 (hc_ociImage sample_node) \<noteq> ''-''"
  by (simp add: sample_node_def host_config_def Let_def env_or_def DEFAULT_OCI_IMAGE_def)

lemma sample_cache_clean: "clean_dir (hc_bundleCacheDir sample_node)"
  unfolding sample_node_vals clean_dir_def
  by (intro exI [of _ "[''home'', ''.circuit-host'', ''bundles'']"]) (simp add: clean_seg_def)

end
