(* ===== verification/Host_Bundles.thy ===== *)
theory Host_Bundles
  imports Host_Safety
begin

text \<open>
  What the node-host runs for a bundle: verified bytes, a safe entry of the unpacked tree, and for an
  untrusted one the hardened container behind its egress proxy, with its memory capped.
\<close>

section \<open>Verified before it runs\<close>

lemma verifyBundle_ok:
  assumes "verifyBundle C bs m owner i = Inr ''ok''"
  shows "jget m ''sha256'' = Inr (JStr (sha256hex_bytes C bs)) \<and> verifyManifest C m \<and>
    (truthy owner \<longrightarrow> strict_eq (jopt m ''publisherPubkey'') owner) \<and> (truthy i \<longrightarrow> strict_eq (jopt m ''agentId'') i) \<and>
    isSafeEntry (jopt m ''entry'')"
proof -
  have e: "v = JStr s" if "strict_eq (JStr s) v" for s v using that by (cases v) auto
  show ?thesis using assms by (auto simp: verifyBundle_def bindE_Inr_iff dest!: e split: if_splits)
qed

lemma safe_entry_clean: "isSafeEntry e \<Longrightarrow> \<exists>s. e = JStr s \<and> clean_seg s"
  by (cases e) (auto simp: isSafeEntry_def clean_seg_def)

lemma hex64_clean: "hex64 s \<Longrightarrow> clean_seg s"
proof -
  assume h: "hex64 s"
  then have l: "length s = 64" "list_all (\<lambda>c. is_digit c \<or> c \<in> set ''abcdef'') s" by (simp_all add: hex64_def)
  then have "CHR ''/'' \<notin> set s" by (auto simp: list_all_iff is_digit_def less_eq_char_def)
  then show ?thesis using l(1) by (auto simp: clean_seg_def)
qed

lemma text_arg_Inr: "text_arg v = Inr s \<longleftrightarrow> v = JStr s"
  by (cases v) (auto simp: text_arg_def)

lemma bundle_checks_sha: "bundle_checks cfg a = Inr (runtime, sha) \<Longrightarrow>
   hex64 sha \<and> jopt (jopt a ''bundle'') ''sha256'' = JStr sha \<and> truthy (jopt a ''bundle'') \<and>
   (runtime = ''node'' \<and> isFirstPartyNodeRuntime (jopt (jopt (jopt a ''bundle'') ''manifest'') ''publisherPubkey'') (hc_firstPartyKeys cfg) \<or>
    runtime = ''oci'')"
proof -
  assume c: "bundle_checks cfg a = Inr (runtime, sha)"
  let ?v = "jopt (jopt a ''bundle'') ''sha256''"
  obtain s where s: "to_str (str_or ?v (JStr [])) = Inr s" "hex64 s" "text_arg ?v = Inr sha" and b: "truthy (jopt a ''bundle'')"
    and r: "runtime = ''node'' \<and> isFirstPartyNodeRuntime (jopt (jopt (jopt a ''bundle'') ''manifest'') ''publisherPubkey'') (hc_firstPartyKeys cfg)
      \<or> runtime = ''oci''"
    using c by (auto simp: bundle_checks_def Let_def bindE_Inr_iff split: if_splits)
  have v: "?v = JStr sha" using s(3) by (simp add: text_arg_Inr)
  have "sha \<noteq> []"
  proof
    assume "sha = []"
    then show False using s v by (simp add: str_or_def hex64_def)
  qed
  then have "s = sha" using s(1) v by (simp add: str_or_def)
  then show ?thesis using s v b r by blast
qed

lemma install_Inr:
  assumes "install_bundle cfg he a sha got h = (Inr u, h')"
  shows "\<exists>bytes. got = Inr bytes \<and>
    verifyBundle (he_crypto he) bytes (jopt (jopt a ''bundle'') ''manifest'') (str_or (jopt a ''owner'') JUndef) (jopt a ''id'') = Inr ''ok'' \<and>
    he_unpack he bytes (path_join [hc_bundleCacheDir cfg, sha]) = Inr () \<and>
    h_acts h' = h_acts h @ [Unpack (path_join [hc_bundleCacheDir cfg, sha]) bytes] \<and>
    h_cached h' = map_set sha bytes (map_delete sha (h_cached h))"
  using assms by (auto simp: install_bundle_def liftS_def bindS_Inr_iff Let_def act_def split: if_splits)

lemma run_bundle_Inr:
  assumes "run_bundle cfg he a i dir runtime sha h = (Inr rs, h')"
  shows "\<exists>entry. jget (jopt (jopt a ''bundle'') ''manifest'') ''entry'' = Inr (JStr entry) \<and>
    he_exists he (path_join [path_join [hc_bundleCacheDir cfg, sha], entry]) \<and>
    (if runtime = ''oci'' then run_oci cfg he a i dir (path_join [hc_bundleCacheDir cfg, sha]) entry h = (Inr rs, h')
     else rs = \<lparr> rs_command = he_execPath he, rs_args = [path_join [path_join [hc_bundleCacheDir cfg, sha], entry]],
            rs_cwd = Some (path_join [hc_bundleCacheDir cfg, sha]), rs_proxy = None \<rparr> \<and> h' = h)"
proof -
  let ?e = "jget (jopt (jopt a ''bundle'') ''manifest'') ''entry''"
  obtain entry where e: "bindE ?e text_arg = Inr entry"
    using assms by (auto simp: run_bundle_def Let_def liftS_def bindS_Inr_iff)
  then have j: "?e = Inr (JStr entry)" by (auto simp: bindE_Inr_iff text_arg_Inr)
  show ?thesis using assms e j by (auto simp: run_bundle_def Let_def liftS_def split: if_splits)
qed

lemma run_oci_Inr:
  assumes "run_oci cfg he a i dir cacheDir entry h = (Inr rs, h')"
  shows "\<exists>rt hosts vm env mem cmd args. detectOciRuntime (he_exec he) = Some rt \<and> hc_egressNetwork cfg \<noteq> [] \<and>
    allowed_hosts cfg he a = Inr hosts \<and> buildAgentEnv a ''/data'' (he_src he) = Inr env \<and> capMemMb cfg a = Inr mem \<and>
    buildContainerSpec (container_request cfg rt i cacheDir dir entry vm env mem) = Inr (cmd, args) \<and>
    rs = \<lparr> rs_command = cmd, rs_args = args, rs_cwd = None, rs_proxy = Some (rt, proxy_name i) \<rparr> \<and>
    h_acts h' = h_acts h @ [Exec rt [''rm'', ''-f'', proxy_name i], Exec rt (sidecar_args cfg he (proxy_name i) hosts),
      Exec rt [''network'', ''connect'', hc_proxyExternalNetwork cfg, proxy_name i]]"
proof -
  obtain rt where rt: "detectOciRuntime (he_exec he) = Some rt" "hc_egressNetwork cfg \<noteq> []"
    using assms by (auto simp: run_oci_def split: option.splits if_splits)
  obtain sb h1 where sb: "resolveSandbox cfg he h = (sb, h1)" by (cases "resolveSandbox cfg he h")
  have a1: "h_acts h1 = h_acts h" using sb by (auto simp: resolveSandbox_def Let_def split: option.splits)
  define vm where "vm = (if sb = ''microvm'' then Some (hc_microvmRuntimeClass cfg) else None)"
  obtain hosts h2 env mem cmd args where s: "allowed_hosts cfg he a = Inr hosts"
      "startEgressSidecar cfg he rt (proxy_name i) hosts h1 = (Inr (), h2)" "buildAgentEnv a ''/data'' (he_src he) = Inr env"
      "capMemMb cfg a = Inr mem" "buildContainerSpec (container_request cfg rt i cacheDir dir entry vm env mem) = Inr (cmd, args)"
      "rs = \<lparr> rs_command = cmd, rs_args = args, rs_cwd = None, rs_proxy = Some (rt, proxy_name i) \<rparr>" "h' = h2"
    using assms by (auto simp: run_oci_def rt sb vm_def [symmetric] liftS_def bindS_Inr_iff)
  have "h_acts h2 = h_acts h @ [Exec rt [''rm'', ''-f'', proxy_name i], Exec rt (sidecar_args cfg he (proxy_name i) hosts),
      Exec rt [''network'', ''connect'', hc_proxyExternalNetwork cfg, proxy_name i]]"
    using s(2) a1 by (auto simp: startEgressSidecar_def run_cmd_def act_def bindS_Inr_iff split: if_splits)
  then show ?thesis using rt s by blast
qed

text \<open>The words of the container of an untrusted bundle, as the engine reads them.\<close>

lemma run_oci_container:
  assumes "run_oci cfg he a i dir cacheDir entry h = (Inr rs, h')" "take 1 (hc_ociImage cfg) \<noteq> ''-''"
  shows "\<exists>rt hosts vm env mem vs opts. detectOciRuntime (he_exec he) = Some rt \<and> hc_egressNetwork cfg \<noteq> [] \<and>
    allowed_hosts cfg he a = Inr hosts \<and> buildAgentEnv a ''/data'' (he_src he) = Inr env \<and> capMemMb cfg a = Inr mem \<and>
    rs_command rs = rt \<and> run_options (tl (rs_args rs)) = (opts, [hc_ociImage cfg, ''node'', ''/app/'' @ entry]) \<and>
    filter (\<lambda>(w, v). w \<noteq> ''-e'') opts = hardened (container_request cfg rt i cacheDir dir entry vm env mem) \<and>
    map snd (filter (\<lambda>(w, v). w = ''-v'') opts) = [cacheDir @ '':/app:ro'', dir @ '':/data:rw''] \<and>
    map snd (filter (\<lambda>(w, v). w = ''--network'') opts) = [hc_egressNetwork cfg] \<and>
    env_values env = Inr vs \<and>
    map snd (filter (\<lambda>(w, v). w = ''-e'') opts) = vs @ [''CIRCUIT_AGENT_DATA_DIR=/data'', ''HOME=/data''] @
      proxy_values (Some (''http://'' @ proxy_name i @ '':8888'')) \<and>
    container_var opts ''HTTPS_PROXY'' = Some (''http://'' @ proxy_name i @ '':8888'') \<and>
    Exec rt (sidecar_args cfg he (proxy_name i) hosts) \<in> set (h_acts h')"
proof -
  obtain rt hosts vm env mem cmd args where f: "detectOciRuntime (he_exec he) = Some rt" "hc_egressNetwork cfg \<noteq> []"
      "allowed_hosts cfg he a = Inr hosts" "buildAgentEnv a ''/data'' (he_src he) = Inr env" "capMemMb cfg a = Inr mem"
      "buildContainerSpec (container_request cfg rt i cacheDir dir entry vm env mem) = Inr (cmd, args)"
      "rs = \<lparr> rs_command = cmd, rs_args = args, rs_cwd = None, rs_proxy = Some (rt, proxy_name i) \<rparr>"
      "Exec rt (sidecar_args cfg he (proxy_name i) hosts) \<in> set (h_acts h')"
    using run_oci_Inr [OF assms(1)] by (elim exE conjE) auto
  let ?q = "container_request cfg rt i cacheDir dir entry vm env mem"
  have q: "cq_image ?q = Some (hc_ociImage cfg)" "cq_network ?q = hc_egressNetwork cfg" "cq_entry ?q = entry"
    "cq_proxyUrl ?q = Some (''http://'' @ proxy_name i @ '':8888'')" "cq_runtime ?q = Some rt" "cq_bundleDir ?q = cacheDir"
    "cq_dataDir ?q = dir" "cq_env ?q = env"
    by (simp_all add: container_request_def)
  have cmd: "rs_command rs = rt" using f(6) by (auto simp: f(7) buildContainerSpec_def q dflt_def bindE_Inr_iff split: if_splits)
  have "take 1 (dflt DEFAULT_OCI_IMAGE (cq_image ?q)) \<noteq> ''-''" using assms(2) by (simp add: q dflt_def)
  note ch = container_hardened [OF f(6) this, unfolded q(1-4,6-8) dflt_def option.case]
  obtain opts vs where c: "run_options (tl args) = (opts, [hc_ociImage cfg, ''node'', ''/app/'' @ entry])" "env_values env = Inr vs"
      "map snd (filter (\<lambda>(w, v). w = ''-e'') opts) = vs @ [''CIRCUIT_AGENT_DATA_DIR=/data'', ''HOME=/data''] @
         proxy_values (Some (''http://'' @ proxy_name i @ '':8888''))"
      "filter (\<lambda>(w, v). w \<noteq> ''-e'') opts = hardened ?q"
      "map snd (filter (\<lambda>(w, v). w = ''-v'') opts) = [cacheDir @ '':/app:ro'', dir @ '':/data:rw'']"
      "map snd (filter (\<lambda>(w, v). w = ''--network'') opts) = [hc_egressNetwork cfg]"
      "given (Some (''http://'' @ proxy_name i @ '':8888'')) \<longrightarrow>
         container_var opts ''HTTPS_PROXY'' = Some (''http://'' @ proxy_name i @ '':8888'') \<and>
         container_var opts ''https_proxy'' = Some (''http://'' @ proxy_name i @ '':8888'') \<and> container_var opts ''NO_PROXY'' = Some []"
    using ch by (elim exE conjE) (rule that)
  have p: "container_var opts ''HTTPS_PROXY'' = Some (''http://'' @ proxy_name i @ '':8888'')" using c(7) by (simp add: given_def)
  have ra: "rs_args rs = args" by (simp add: f(7))
  show ?thesis
    by (rule exI [of _ rt], rule exI [of _ hosts], rule exI [of _ vm], rule exI [of _ env], rule exI [of _ mem], rule exI [of _ vs],
        rule exI [of _ opts], unfold ra) (intro conjI f cmd c p)
qed

lemma resolve_end_Inr:
  assumes "resolve_end cfg he a i dir got (Bundled runtime sha True) h = (Inr rs, h1)"
  shows "\<exists>h0 u. install_bundle cfg he a sha got h = (Inr u, h0) \<and> run_bundle cfg he a i dir runtime sha h0 = (Inr rs, h1)"
  using assms by (auto simp: resolve_end_def bindS_Inr_iff)

lemma start_finish_spawned:
  assumes "start_finish cfg he t got pd h = (r, h')" "h_next h' \<noteq> h_next h"
  shows "\<exists>rs h1 env xs pl cwd. pd_plan pd = Inr pl \<and>
       resolve_end cfg he (pd_agent pd) (pd_id pd) (pd_dir pd) got pl h = (Inr rs, h1) \<and>
       buildAgentEnv (pd_agent pd) (pd_dir pd) (he_src he) = Inr env \<and>
       h_acts h' = h_acts h1 @ Spawn (h_next h) (rs_command rs) (rs_args rs) cwd env # xs"
  using start_finish_out [OF assms(1)] assms(2)
proof (elim disjE exE conjE)
  assume "quiet_step h h'" "h_next h' \<noteq> h_next h"
  then show ?thesis by (simp add: quiet_step_def)
qed blast

lemma resolve_plan_bundled:
  "resolve_plan cfg he a h = Inr (Bundled runtime sha pull) \<Longrightarrow> bundle_checks cfg a = Inr (runtime, sha) \<and> pull = (\<not> map_has sha (h_cached h))"
  by (cases "bundle_checks cfg a") (auto simp: resolve_plan_def split: if_splits)

lemma bundle_start_out:
  assumes "start_finish cfg he t got pd h = (r, h')" "h_next h' \<noteq> h_next h"
    and "pd_plan pd = resolve_plan cfg he (pd_agent pd) h0" "pd_plan pd = Inr (Bundled runtime sha True)"
    and "clean_dir (hc_bundleCacheDir cfg)" "take 1 (hc_ociImage cfg) \<noteq> ''-''"
    and "m = jopt (jopt (pd_agent pd) ''bundle'') ''manifest''" "dir = hc_bundleCacheDir cfg @ ''/'' @ sha"
  shows "\<exists>bytes entry cmd args cwd env. got = Inr bytes \<and> jget m ''sha256'' = Inr (JStr (sha256hex_bytes (he_crypto he) bytes)) \<and>
       verifyManifest (he_crypto he) m \<and>
       (\<not> truthy (jopt (pd_agent pd) ''owner'') \<or> strict_eq (jopt m ''publisherPubkey'') (jopt (pd_agent pd) ''owner'')) \<and>
       (\<not> truthy (jopt (pd_agent pd) ''id'') \<or> strict_eq (jopt m ''agentId'') (jopt (pd_agent pd) ''id'')) \<and>
       Unpack dir bytes \<in> set (h_acts h') \<and> jopt m ''entry'' = JStr entry \<and> clean_seg entry \<and>
       Spawn (h_next h) cmd args cwd env \<in> set (h_acts h') \<and>
       (if runtime = ''oci''
        then \<exists>opts. detectOciRuntime (he_exec he) = Some cmd \<and>
          run_options (tl args) = (opts, [hc_ociImage cfg, ''node'', ''/app/'' @ entry]) \<and>
          map snd (filter (\<lambda>(w, v). w = ''-v'') opts) = [dir @ '':/app:ro'', pd_dir pd @ '':/data:rw'']
        else cmd = he_execPath he \<and> args = [dir @ ''/'' @ entry] \<and>
          isFirstPartyNodeRuntime (jopt m ''publisherPubkey'') (hc_firstPartyKeys cfg))"
proof -
  let ?a = "pd_agent pd" and ?m = "jopt (jopt (pd_agent pd) ''bundle'') ''manifest''" and ?dir = "hc_bundleCacheDir cfg @ ''/'' @ sha"
  obtain rs h1 env xs cwd where s: "resolve_end cfg he ?a (pd_id pd) (pd_dir pd) got (Bundled runtime sha True) h = (Inr rs, h1)"
      "h_acts h' = h_acts h1 @ Spawn (h_next h) (rs_command rs) (rs_args rs) cwd env # xs"
    using start_finish_spawned [OF assms(1,2)] assms(4) by auto
  obtain h2 u where i: "install_bundle cfg he ?a sha got h = (Inr u, h2)" and b: "run_bundle cfg he ?a (pd_id pd) (pd_dir pd) runtime sha h2 = (Inr rs, h1)"
    using resolve_end_Inr [OF s(1)] by blast
  obtain bytes where got: "got = Inr bytes"
      "verifyBundle (he_crypto he) bytes ?m (str_or (jopt ?a ''owner'') JUndef) (jopt ?a ''id'') = Inr ''ok''"
      "h_acts h2 = h_acts h @ [Unpack (path_join [hc_bundleCacheDir cfg, sha]) bytes]"
    using install_Inr [OF i] by blast
  have plan: "bundle_checks cfg ?a = Inr (runtime, sha)"
    using resolve_plan_bundled [of cfg he ?a h0 runtime sha True] assms(3,4) by simp
  note k = bundle_checks_sha [OF plan]
  have dir: "path_join [hc_bundleCacheDir cfg, sha] = ?dir" "clean_dir ?dir"
    using path_join_child [OF assms(5) hex64_clean] clean_child [OF assms(5) hex64_clean] k by simp_all
  note v = verifyBundle_ok [OF got(2)]
  obtain entry where e: "jopt ?m ''entry'' = JStr entry" "clean_seg entry" using safe_entry_clean v by blast
  have ent: "path_join [?dir, entry] = ?dir @ ''/'' @ entry" using path_join_child [OF dir(2) e(2)] by simp
  have q: "quiet_step h2 h1" using run_bundle_quiet [of h2 cfg he ?a "pd_id pd" "pd_dir pd" runtime sha] by (simp add: b)
  then have u: "Unpack ?dir bytes \<in> set (h_acts h')" using got(3) s(2) by (auto simp: quiet_step_def dir)
  have sp: "Spawn (h_next h) (rs_command rs) (rs_args rs) cwd env \<in> set (h_acts h')" using s(2) by simp
  obtain e2 where "jget ?m ''entry'' = Inr (JStr e2)" and e2: "if runtime = ''oci'' then run_oci cfg he ?a (pd_id pd) (pd_dir pd) ?dir e2 h2 = (Inr rs, h1)
      else rs_command rs = he_execPath he \<and> rs_args rs = [path_join [?dir, e2]]"
    using run_bundle_Inr [OF b] by (auto simp: dir(1) split: if_splits)
  then have e2e: "e2 = entry" using e(1) by (simp add: jopt_def)
  have run: "if runtime = ''oci''
        then \<exists>opts. detectOciRuntime (he_exec he) = Some (rs_command rs) \<and>
          run_options (tl (rs_args rs)) = (opts, [hc_ociImage cfg, ''node'', ''/app/'' @ entry]) \<and>
          map snd (filter (\<lambda>(w, v). w = ''-v'') opts) = [?dir @ '':/app:ro'', pd_dir pd @ '':/data:rw'']
        else rs_command rs = he_execPath he \<and> rs_args rs = [?dir @ ''/'' @ entry] \<and>
          isFirstPartyNodeRuntime (jopt ?m ''publisherPubkey'') (hc_firstPartyKeys cfg)"
  proof (cases "runtime = ''oci''")
    case True
    then have "run_oci cfg he ?a (pd_id pd) (pd_dir pd) ?dir entry h2 = (Inr rs, h1)" using e2 e2e by simp
    from run_oci_container [OF this assms(6)] True show ?thesis by auto
  next
    case False
    then show ?thesis using e2 k by (simp only: if_False e2e ent simp_thms)
  qed
  have owner: "\<not> truthy (jopt ?a ''owner'') \<or> strict_eq (jopt ?m ''publisherPubkey'') (jopt ?a ''owner'')"
    using v by (simp add: str_or_def split: if_splits)
  show ?thesis unfolding assms(7,8) using got(1) v owner u e sp run by blast
qed

text \<open>C8. No unverified bytes run: when the start of a bundle that was not cached ends in a process, the bytes pulled hash
  to the digest in the manifest, the manifest carries its publisher's signature, the publisher is the owner of the assignment
  when the assignment names one, the manifest is bound to this agent, the node unpacked these bytes below its own cache,
  and what runs is the entry named in the manifest: a first-party bundle runs that file of the unpacked directory with the
  node's own interpreter, any other in a container that has the unpacked directory mounted read-only and runs that
  file of the mount.\<close>

theorem bundle_runs_verified:
  assumes "start_finish cfg he t got pd h = (r, h')" "h_next h' \<noteq> h_next h"
    and "pd_plan pd = resolve_plan cfg he (pd_agent pd) h0" "pd_plan pd = Inr (Bundled runtime sha True)"
    and "clean_dir (hc_bundleCacheDir cfg)" "take 1 (hc_ociImage cfg) \<noteq> ''-''"
  shows "\<exists>bytes entry cmd args cwd env. let m = jopt (jopt (pd_agent pd) ''bundle'') ''manifest'';
       dir = hc_bundleCacheDir cfg @ ''/'' @ sha
    in got = Inr bytes \<and> jget m ''sha256'' = Inr (JStr (sha256hex_bytes (he_crypto he) bytes)) \<and>
       verifyManifest (he_crypto he) m \<and>
       (\<not> truthy (jopt (pd_agent pd) ''owner'') \<or> strict_eq (jopt m ''publisherPubkey'') (jopt (pd_agent pd) ''owner'')) \<and>
       (\<not> truthy (jopt (pd_agent pd) ''id'') \<or> strict_eq (jopt m ''agentId'') (jopt (pd_agent pd) ''id'')) \<and>
       Unpack dir bytes \<in> set (h_acts h') \<and> jopt m ''entry'' = JStr entry \<and> clean_seg entry \<and>
       Spawn (h_next h) cmd args cwd env \<in> set (h_acts h') \<and>
       (if runtime = ''oci''
        then \<exists>opts. detectOciRuntime (he_exec he) = Some cmd \<and>
          run_options (tl args) = (opts, [hc_ociImage cfg, ''node'', ''/app/'' @ entry]) \<and>
          map snd (filter (\<lambda>(w, v). w = ''-v'') opts) = [dir @ '':/app:ro'', pd_dir pd @ '':/data:rw'']
        else cmd = he_execPath he \<and> args = [dir @ ''/'' @ entry] \<and>
          isFirstPartyNodeRuntime (jopt m ''publisherPubkey'') (hc_firstPartyKeys cfg))"
  using bundle_start_out [OF assms refl refl] by (simp only: Let_def)

definition sample_sha :: string where
  "sample_sha = hex_enc (replicate 32 1)"

definition sample_start :: "jsval \<Rightarrow> jsval" where
  "sample_start m = JObj [(''id'', JStr ''a1''), (''name'', JStr ''bot''), (''owner'', JStr (kp_address (toy_keypair 7))),
     (''spec'', JObj []), (''bundle'', JObj [(''sha256'', JStr sample_sha), (''runtime'', JStr ''node''), (''manifest'', m)]),
     (''signer'', JUndef)]"

lemma sample_sha_ok: "hex64 sample_sha" "sha256hex_bytes toy_crypto (replicate 32 1) = sample_sha"
proof -
  show "sha256hex_bytes toy_crypto (replicate 32 1) = sample_sha" by (simp add: sha256hex_bytes_def toy_crypto_def sample_sha_def)
  show "hex64 sample_sha" by code_simp
qed

lemma jopt_JStr: "jopt v k = JStr s \<Longrightarrow> jget v k = Inr (JStr s)"
  by (simp add: jopt_def split: sum.splits)

lemma launch_next: "buildAgentEnv (pd_agent pd) (pd_dir pd) (he_src he) = Inr env \<Longrightarrow>
   \<exists>xs. h_next (snd (launch cfg he t pd rs h)) = Suc (h_next h) \<and>
     h_acts (snd (launch cfg he t pd rs h)) =
       h_acts h @ Spawn (h_next h) (rs_command rs) (rs_args rs) (case rs_cwd rs of Some c \<Rightarrow> if c = [] then pd_dir pd else c | None \<Rightarrow> pd_dir pd) env # xs"
proof -
  assume e: "buildAgentEnv (pd_agent pd) (pd_dir pd) (he_src he) = Inr env"
  let ?s = "act (Spawn (h_next h) (rs_command rs) (rs_args rs) (case rs_cwd rs of Some c \<Rightarrow> if c = [] then pd_dir pd else c | None \<Rightarrow> pd_dir pd) env)
    (h\<lparr> h_next := Suc (h_next h) \<rparr>)"
  obtain cg h2 where cg: "applyCgroup cfg he (h_next h) (pd_agent pd) ?s = (cg, h2)" by (cases "applyCgroup cfg he (h_next h) (pd_agent pd) ?s")
  have "quiet_step ?s h2" using applyCgroup_quiet [of ?s cfg he "h_next h" "pd_agent pd"] by (simp add: cg)
  then have "h_next h2 = Suc (h_next h)" "\<exists>xs. h_acts h2 = h_acts ?s @ xs" by (auto simp: quiet_step_def act_def)
  then show ?thesis by (simp add: launch_def liftS_def e Let_def cg) (auto simp: act_def)
qed

lemma sample_start_get: "jopt (sample_start m) ''bundle'' = JObj [(''sha256'', JStr sample_sha), (''runtime'', JStr ''node''), (''manifest'', m)]"
  "jopt (sample_start m) ''spec'' = JObj []" "jopt (sample_start m) ''id'' = JStr ''a1''"
  "jopt (sample_start m) ''owner'' = JStr (kp_address (toy_keypair 7))" "jopt (sample_start m) ''signer'' = JUndef"
  by (simp_all add: sample_start_def jopt_def)

lemma sample_bundle_get:
  "jopt (JObj [(''sha256'', JStr sample_sha), (''runtime'', JStr ''node''), (''manifest'', m)]) ''manifest'' = m"
  "jopt (JObj [(''sha256'', JStr sample_sha), (''runtime'', JStr ''node''), (''manifest'', m)]) ''runtime'' = JStr ''node''"
  "jopt (JObj [(''sha256'', JStr sample_sha), (''runtime'', JStr ''node''), (''manifest'', m)]) ''sha256'' = JStr sample_sha"
  "jopt (JObj []) k = inherited [] k"
  by (simp_all add: jopt_def)

lemma sample_checks: "bundle_checks sample_node (sample_start m) = Inr (''node'', sample_sha)"
proof -
  have "sample_sha \<noteq> []" using sample_sha_ok(1) by (auto simp: hex64_def)
  then show ?thesis
    by (simp add: bundle_checks_def Let_def sample_start_get sample_bundle_get str_or_def sample_sha_ok(1) sample_node_vals
        isFirstPartyNodeRuntime_def text_arg_def)
qed

lemma sample_plan: "resolve_plan sample_node he (sample_start m) h = Inr (Bundled ''node'' sample_sha (\<not> map_has sample_sha (h_cached h)))"
  by (simp add: resolve_plan_def is_bundle_def sample_start_get sample_checks)

lemma sample_start_env: "\<exists>env. buildAgentEnv (sample_start m) dir (\<lambda>k. None) = Inr env"
  by (simp add: buildAgentEnv_def sample_start_get signer_env_def declared_def str_or_def sample_bundle_get inherited_def object_members_def)

definition sample_pending :: "jsval \<Rightarrow> host \<Rightarrow> pending" where
  "sample_pending m h = \<lparr> pd_agent = sample_start m, pd_id = ''a1'', pd_dir = ''/d'',
     pd_plan = resolve_plan sample_node sample_world (sample_start m) h \<rparr>"

text \<open>A start whose bundle is in place (installed just now, or cached) spawns the entry.\<close>

lemma bundle_started:
  assumes "pd_plan pd = Inr (Bundled ''node'' sha pull)" "jopt (jopt (jopt (pd_agent pd) ''bundle'') ''manifest'') ''entry'' = JStr entry"
    and "if pull then install_bundle cfg he (pd_agent pd) sha got h = (Inr (), h1) else h = h1"
    and "he_exists he (path_join [path_join [hc_bundleCacheDir cfg, sha], entry])"
    and "buildAgentEnv (pd_agent pd) (pd_dir pd) (he_src he) = Inr env"
  shows "\<exists>xs cwd env. h_next (snd (start_finish cfg he t got pd h)) = Suc (h_next h1) \<and>
    h_acts (snd (start_finish cfg he t got pd h)) =
      h_acts h1 @ Spawn (h_next h1) (he_execPath he) [path_join [path_join [hc_bundleCacheDir cfg, sha], entry]] cwd env # xs"
proof -
  let ?rs = "\<lparr> rs_command = he_execPath he, rs_args = [path_join [path_join [hc_bundleCacheDir cfg, sha], entry]],
      rs_cwd = Some (path_join [hc_bundleCacheDir cfg, sha]), rs_proxy = None \<rparr>"
  have rb: "run_bundle cfg he (pd_agent pd) i d ''node'' sha h1 = (Inr ?rs, h1)" for i d
    by (simp add: run_bundle_def Let_def jopt_JStr [OF assms(2)] liftS_def text_arg_def assms(4))
  have "resolve_end cfg he (pd_agent pd) (pd_id pd) (pd_dir pd) got (Bundled ''node'' sha pull) h = (Inr ?rs, h1)"
    using assms(3) by (cases pull) (simp_all add: resolve_end_def rb)
  then have f: "start_finish cfg he t got pd h = launch cfg he t pd ?rs h1"
    by (simp add: start_finish_def liftS_def assms(1))
  show ?thesis unfolding f using launch_next [OF assms(5), of cfg t ?rs h1] by simp blast
qed

lemma sample_runs:
  assumes "jopt m ''entry'' = JStr entry"
    and "if map_has sample_sha (h_cached h0) then h = h1 else install_bundle sample_node sample_world (sample_start m) sample_sha got h = (Inr (), h1)"
  shows "\<exists>xs cwd env. h_next (snd (start_finish sample_node sample_world t got (sample_pending m h0) h)) = Suc (h_next h1) \<and>
    h_acts (snd (start_finish sample_node sample_world t got (sample_pending m h0) h)) =
      h_acts h1 @ Spawn (h_next h1) ''/node'' [path_join [path_join [hc_bundleCacheDir sample_node, sample_sha], entry]] cwd env # xs"
proof -
  let ?pd = "sample_pending m h0"
  have pd: "pd_plan ?pd = Inr (Bundled ''node'' sample_sha (\<not> map_has sample_sha (h_cached h0)))" "pd_agent ?pd = sample_start m"
    by (simp_all add: sample_pending_def sample_plan)
  have w: "he_execPath sample_world = ''/node''" "he_exists sample_world p" "he_src sample_world = (\<lambda>k. None)" for p
    by (simp_all add: sample_world_def)
  obtain env where env: "buildAgentEnv (pd_agent ?pd) (pd_dir ?pd) (he_src sample_world) = Inr env"
    using sample_start_env [of m "pd_dir ?pd"] by (auto simp: pd w)
  have e: "jopt (jopt (jopt (pd_agent ?pd) ''bundle'') ''manifest'') ''entry'' = JStr entry"
    by (simp add: pd sample_start_get sample_bundle_get assms(1))
  show ?thesis using bundle_started [OF pd(1) e _ w(2) env, where got = got and h = h and t = t and ?h1.0 = h1] assms(2) by (auto simp: pd(2) w(1))
qed

theorem bundle_runs_verified_witness:
  "\<exists>m h' bytes entry. snd (start_finish sample_node sample_world 0 (Inr (replicate 32 1)) (sample_pending m host_init) host_init) = h' \<and>
     Unpack (hc_bundleCacheDir sample_node @ ''/'' @ sample_sha) bytes \<in> set (h_acts h') \<and>
     verifyManifest toy_crypto m \<and> jopt m ''entry'' = JStr entry \<and> clean_seg entry"
proof -
  define bs where "bs = (replicate 32 1 :: bytes)"
  obtain m where "createBundle toy_crypto (\<lambda>e. True) bs sample_bundle (kp_priv (toy_keypair 7)) (JStr (kp_address (toy_keypair 7))) =
       Inr (bs, sha256hex_bytes toy_crypto bs, m)"
    using sample_created by blast
  note m = sample_manifest [OF this]
  obtain entry where e: "jopt m ''entry'' = JStr entry" "clean_seg entry" using safe_entry_clean m by blast
  have v: "verifyBundle toy_crypto bs m (JStr (kp_address (toy_keypair 7))) (JStr ''a1'') = Inr ''ok''"
    using m by (simp add: verifyBundle_def)
  have w: "he_crypto sample_world = toy_crypto" "he_unpack sample_world b d = Inr ()" for b d by (simp_all add: sample_world_def)
  have o: "str_or (JStr (kp_address (toy_keypair 7))) JUndef = JStr (kp_address (toy_keypair 7))" using m by (simp add: str_or_def)
  obtain h1 where i: "install_bundle sample_node sample_world (sample_start m) sample_sha (Inr bs) host_init = (Inr (), h1)"
    by (simp add: install_bundle_def liftS_def sample_start_get sample_bundle_get o v w Let_def)
  have n: "\<not> map_has sample_sha (h_cached host_init)" by (simp add: map_has_def host_init_def)
  obtain r h' where f: "start_finish sample_node sample_world 0 (Inr bs) (sample_pending m host_init) host_init = (r, h')"
    by (cases "start_finish sample_node sample_world 0 (Inr bs) (sample_pending m host_init) host_init")
  have "h_next h1 = h_next host_init" using install_quiet [of host_init sample_node sample_world "sample_start m" sample_sha "Inr bs"]
    by (simp add: i quiet_step_def)
  then have nx: "h_next h' \<noteq> h_next host_init" using sample_runs [OF e(1), of host_init host_init h1 "Inr bs" 0] n i by (auto simp: f)
  have pl: "pd_plan (sample_pending m host_init) = resolve_plan sample_node sample_world (pd_agent (sample_pending m host_init)) host_init"
    "pd_plan (sample_pending m host_init) = Inr (Bundled ''node'' sample_sha True)"
    using n by (simp_all add: sample_pending_def sample_plan)
  have "\<exists>bytes. Unpack (hc_bundleCacheDir sample_node @ ''/'' @ sample_sha) bytes \<in> set (h_acts h')"
    using bundle_runs_verified [OF f nx pl sample_cache_clean sample_image] by (auto simp: Let_def)
  then obtain b where "Unpack (hc_bundleCacheDir sample_node @ ''/'' @ sample_sha) b \<in> set (h_acts h')" by blast
  moreover have "verifyManifest toy_crypto m" using m by blast
  moreover have "snd (start_finish sample_node sample_world 0 (Inr (replicate 32 1)) (sample_pending m host_init) host_init) = h'"
    unfolding bs_def [symmetric] f by simp
  ultimately show ?thesis using e by blast
qed

section \<open>The cached bundle\<close>

text \<open>A cached bundle is not checked again: once a digest is in the node's cache, an assignment that names it runs under whatever manifest
  it brings, here one without a signature whose entry leaves the bundle's directory for a file that
  another agent wrote into its own data directory.\<close>

theorem cache_hit_skips_verification:
  "\<exists>m h xs cwd env. \<not> verifyManifest toy_crypto m \<and> h_cached h = [(sample_sha, bytes)] \<and>
     h_acts (snd (start_finish sample_node sample_world t got (sample_pending m h) h)) =
       h_acts h @ Spawn 0 ''/node'' [''/home/.circuit-host/agents/a2/x.js''] cwd env # xs"
proof -
  define m where "m = JObj [(''entry'', JStr ''../../agents/a2/x.js'')]"
  define h where "h = host_init\<lparr> h_cached := [(sample_sha, bytes)] \<rparr>"
  have v: "\<not> verifyManifest toy_crypto m" by (simp add: verifyManifest_def m_def jopt_def inherited_def object_members_def)
  have e: "jopt m ''entry'' = JStr ''../../agents/a2/x.js''" by (simp add: m_def jopt_def)
  have c: "map_has sample_sha (h_cached h)" "h_next h = 0" by (simp_all add: h_def map_has_def map_get_def host_init_def)
  have s: "clean_seg sample_sha" by (rule hex64_clean [OF sample_sha_ok(1)])
  have d: "path_join [hc_bundleCacheDir sample_node, sample_sha] = ''/home/.circuit-host/bundles'' @ CHR ''/'' # sample_sha"
    using path_join_child [OF sample_cache_clean s] by (simp add: sample_node_vals)
  have p: "path_join [''/home/.circuit-host/bundles'' @ CHR ''/'' # sample_sha, ''../../agents/a2/x.js''] = ''/home/.circuit-host/agents/a2/x.js''"
  proof -
    have q: "split_on (CHR ''/'') (''/home/.circuit-host/bundles/'' @ sample_sha @ ''/../../agents/a2/x.js'') =
        [[], ''home'', ''.circuit-host'', ''bundles'', sample_sha, ''..'', ''..'', ''agents'', ''a2'', ''x.js'']"
      using s split_on_append [of "CHR ''/''" sample_sha "''../../agents/a2/x.js''"] by (simp add: clean_seg_def)
    show ?thesis using q s by (simp add: path_join_def normalize_def Let_def clean_seg_def)
  qed
  from sample_runs [OF e, of h h h got t] c d p v show ?thesis
    by (intro exI [of _ m] exI [of _ h]) (simp add: h_def)
qed

section \<open>Untrusted bundles\<close>

text \<open>A start that has the entry of a manifest is one of a bundle, so its environment depends on the public names alone.\<close>

lemma entry_is_bundle: "jget (jopt (jopt a ''bundle'') ''manifest'') ''entry'' = Inr e \<Longrightarrow> \<not> is_trusted a"
proof -
  assume j: "jget (jopt (jopt a ''bundle'') ''manifest'') ''entry'' = Inr e"
  have "truthy (jopt a ''bundle'')"
  proof (rule ccontr)
    assume "\<not> truthy (jopt a ''bundle'')"
    then have "jopt (jopt a ''bundle'') ''manifest'' = JUndef"
      by (cases "jopt a ''bundle''") (auto simp: jopt_def inherited_def object_members_def string_members_def number_members_def split: jsnum.splits)
    then show False using j by simp
  qed
  then show ?thesis by (simp add: is_trusted_def)
qed

text \<open>The host's own variables with all but the public names removed.\<close>

definition public_src :: "src_env \<Rightarrow> src_env" where
  "public_src src k = (if k \<in> set public_names then src k else None)"

lemma bundle_public_env:
  "jget (jopt (jopt a ''bundle'') ''manifest'') ''entry'' = Inr e \<Longrightarrow> buildAgentEnv a dir src = Inr env \<Longrightarrow>
   buildAgentEnv a dir (public_src src) = Inr env"
  using public_env_cong [OF entry_is_bundle, of a e src "public_src src" dir] by (simp add: public_src_def)

text \<open>The values of \<open>-e\<close> are those of the built environment without the names the container sets itself, and the host's own.\<close>

lemma container_env_words:
  assumes "env_values env = Inr vs" "map snd (filter (\<lambda>(w, v). w = ''-e'') opts) = vs @ own"
  shows "(''-e'', v) \<in> set opts \<longleftrightarrow> v \<in> set own \<or>
    (\<exists>k x s. (k, x) \<in> set env \<and> k \<notin> set DROP \<and> to_str x = Inr s \<and> v = k @ CHR ''='' # s)"
proof -
  have "(''-e'', v) \<in> set opts \<longleftrightarrow> v \<in> set (map snd (filter (\<lambda>(w, v). w = ''-e'') opts))" by force
  then show ?thesis unfolding assms(2) using env_values_set [OF assms(1), of v] by auto
qed

lemma capMemMb_le: "capMemMb cfg a = Inr m \<Longrightarrow> \<not> jnan (hc_maxMemoryMb cfg) \<Longrightarrow> jle m (hc_maxMemoryMb cfg)"
proof -
  assume c: "capMemMb cfg a = Inr m" and n: "\<not> jnan (hc_maxMemoryMb cfg)"
  then obtain x where x: "m = jmin (jor x (hc_maxMemoryMb cfg)) (hc_maxMemoryMb cfg)" by (auto simp: capMemMb_def bindE_Inr_iff)
  have "\<not> jnan (jor x (hc_maxMemoryMb cfg))" using n by (auto simp: jor_def jtruthy_def jnan_def split: jsnum.splits)
  then show ?thesis using n jlt_irrefl [of "hc_maxMemoryMb cfg"] by (auto simp: x jmin_def jle_def)
qed


text \<open>A node with an isolated network, and an untrusted bundle that asks for more memory than there is.\<close>

definition oci_node :: host_cfg where
  "oci_node = sample_node\<lparr> hc_egressNetwork := ''iso'', hc_ociImage := ''img'', hc_maxMemoryMb := Fin 512, hc_seccompProfile := ''default'',
     hc_endpoints := JObj [(''jupiter'', JStr ''https://api.x'')] \<rparr>"

definition oci_agent :: jsval where
  "oci_agent = JObj [(''id'', JStr ''a1''), (''spec'', JObj [(''resources'', JObj [(''maxMemoryMb'', JNum (Fin 4096))])]),
     (''bundle'', JObj [(''runtime'', JStr ''oci''), (''manifest'', JObj [(''entry'', JStr ''agent.js''), (''egress'', JArr [JStr ''jupiter''])])])]"

definition oci_pending :: pending where
  "oci_pending = \<lparr> pd_agent = oci_agent, pd_id = ''a1'', pd_dir = ''/d'', pd_plan = Inr (Bundled ''oci'' sample_sha False) \<rparr>"

definition oci_env :: env where
  "oci_env = [(''PATH'', JStr ''/usr/local/bin:/usr/bin:/bin''), (''HOME'', JStr ''/data''), (''TMPDIR'', JStr ''/data/tmp''),
     (''LANG'', JStr ''C.UTF-8''), (''TZ'', JStr ''UTC''), (''CIRCUIT_AGENT_DATA_DIR'', JStr ''/data''), (''AGENT_NAME'', JStr [])]"

lemma oci_agent_env: "buildAgentEnv oci_agent ''/data'' (\<lambda>k. None) = Inr oci_env" "\<exists>env. buildAgentEnv oci_agent dir (\<lambda>k. None) = Inr env"
proof -
  show "buildAgentEnv oci_agent ''/data'' (\<lambda>k. None) = Inr oci_env" by code_simp
  show "\<exists>env. buildAgentEnv oci_agent dir (\<lambda>k. None) = Inr env"
    by (simp add: buildAgentEnv_def oci_agent_def jopt_def signer_env_def declared_def str_or_def inherited_def object_members_def)
qed

lemma oci_env_values: "env_values oci_env = Inr [''AGENT_NAME='']"
  by (simp add: oci_env_def env_values_def own_order_def index_name_def is_digit_def less_eq_char_def DROP_def)

lemma oci_start: "h_next (snd (start_finish oci_node sample_world 0 (Inr []) oci_pending host_init)) = 1"
proof -
  let ?cd = "path_join [hc_bundleCacheDir oci_node, sample_sha]"
  have w: "he_src sample_world = (\<lambda>k. None)" "he_exists sample_world p" "he_exec sample_world c args" "\<not> he_kvm sample_world"
    "he_hostname sample_world = (\<lambda>u. Some ''api.x'')" "\<not> he_cgroup sample_world" for p c args
    by (simp_all add: sample_world_def)
  have n: "hc_egressNetwork oci_node = ''iso''" "hc_maxMemoryMb oci_node = Fin 512" "hc_sandbox oci_node = []"
    by (simp_all add: oci_node_def sample_node_def host_config_def Let_def env_or_def)
  have hosts: "allowed_hosts oci_node sample_world oci_agent = Inr [''api.x'']"
    by (simp add: allowed_hosts_def egress_classes_def oci_agent_def jopt_def resolveEgressHosts_def oci_node_def w sample_host)
  have mem: "capMemMb oci_node oci_agent = Inr (Fin 512)"
    by (simp add: capMemMb_def oci_agent_def jopt_def n jmin_def jor_def jtruthy_def jnan_def)
  have d: "detectOciRuntime (he_exec sample_world) = Some ''docker''" by (simp add: detectOciRuntime_def w)
  have cdne: "?cd \<noteq> []"
    using path_join_child [OF sample_cache_clean hex64_clean [OF sample_sha_ok(1)]] by (simp add: oci_node_def)
  have c: "buildContainerSpec (container_request oci_node ''docker'' ''a1'' ?cd ''/d'' ''agent.js'' None oci_env (Fin 512)) =
      Inr (''docker'', container_args (container_request oci_node ''docker'' ''a1'' ?cd ''/d'' ''agent.js'' None oci_env (Fin 512)) (env_flags [''AGENT_NAME='']))"
    using cdne by (simp add: buildContainerSpec_def container_request_def n oci_env_values dflt_def)
  have e: "jget (jopt (jopt oci_agent ''bundle'') ''manifest'') ''entry'' = Inr (JStr ''agent.js'')"
    by (simp add: oci_agent_def jopt_def)
  obtain h1 where sb: "resolveSandbox oci_node sample_world host_init = (''oci'', h1)" "h_next h1 = 0"
    by (simp add: resolveSandbox_def host_init_def n detectMicroVm_def w d Let_def)
  obtain h2 where sc: "startEgressSidecar oci_node sample_world ''docker'' (proxy_name ''a1'') [''api.x''] h1 = (Inr (), h2)" "h_next h2 = 0"
    using sb(2) by (simp add: startEgressSidecar_def run_cmd_def w act_def)
  obtain rs where rs: "resolve_end oci_node sample_world oci_agent ''a1'' ''/d'' (Inr []) (Bundled ''oci'' sample_sha False) host_init = (Inr rs, h2)"
    by (simp add: resolve_end_def run_bundle_def Let_def liftS_def e text_arg_def w run_oci_def d n sb hosts sc oci_agent_env(1) mem c)
  have p: "pd_plan oci_pending = Inr (Bundled ''oci'' sample_sha False)" "pd_agent oci_pending = oci_agent" "pd_id oci_pending = ''a1''" "pd_dir oci_pending = ''/d''"
    by (simp_all add: oci_pending_def)
  have f: "start_finish oci_node sample_world 0 (Inr []) oci_pending host_init = launch oci_node sample_world 0 oci_pending rs h2"
    by (simp add: start_finish_def liftS_def p rs)
  obtain env where env: "buildAgentEnv (pd_agent oci_pending) (pd_dir oci_pending) (he_src sample_world) = Inr env"
    using oci_agent_env(2) [of "''/d''"] by (auto simp: p w)
  show ?thesis unfolding f using launch_next [OF env, of oci_node 0 rs h2] sc(2) by simp
qed


end
