(* ===== verification/End_To_End.thy ===== *)
theory End_To_End
  imports Fencing Host_Bundles
begin

text \<open>
  The way of a bundle through the cloud: what the control plane accepts from an owner and stores, what its
  heartbeat hands to a node, and what the node then runs. The assignment reaches the node as it was sent.
\<close>

section \<open>What a heartbeat hands out\<close>

lemma beat_agent_start:
  "beat_agent cfg net running free a = (a', free', xs) \<Longrightarrow> x \<in> set xs \<Longrightarrow> is_start x \<Longrightarrow>
   x = start_assignment cfg (ensureSession cfg net a)"
  by (auto simp: beat_agent_def Let_def split: if_splits)

lemma beat_agents_start:
  "beat_agents cfg net running free as s = (s', xs) \<Longrightarrow> x \<in> set xs \<Longrightarrow> is_start x \<Longrightarrow>
   \<exists>a \<in> set as. x = start_assignment cfg (ensureSession cfg net a)"
proof (induction as arbitrary: free s xs)
  case (Cons a as)
  obtain a' free' ys where b: "beat_agent cfg net running free a = (a', free', ys)" by (metis prod.exhaust)
  obtain zs where z: "beat_agents cfg net running free' as (putAgent a' s) = (s', zs)" "xs = ys @ zs"
    using Cons.prems(1) b by (auto split: prod.splits)
  from Cons.IH [OF z(1)] beat_agent_start [OF b] Cons.prems(2,3) z(2) show ?case by auto
qed simp

lemma reconcile_start:
  assumes "reconcile cfg net t nodeId running usage n s = (Inr reply, s')" "jopt reply ''assignments'' = JArr xs" "x \<in> set xs" "is_start x"
  shows "\<exists>a \<in> set (map_values (st_agents s)). x = start_assignment cfg (ensureSession cfg net a)"
  using assms(1)
proof (cases rule: reconcile_cases)
  case (beaten mx l s1 s2 ys)
  obtain zs where "reply = JObj [(''assignments'', JArr (ys @ map stop_assignment zs))]" using beaten(5) by auto
  then have "x \<in> set ys" using assms(2-4) by (auto simp: jopt_def)
  then obtain a where "a \<in> set (listAgents (\<lambda>a. strict_eq (ca_nodeId a) nodeId) s1)" "x = start_assignment cfg (ensureSession cfg net a)"
    using beat_agents_start [OF beaten(4) _ assms(4)] by blast
  then show ?thesis by (auto simp: beaten(3) beat_node_def listAgents_def split: option.splits)
qed simp

lemma heartbeat_start:
  assumes "heartbeat cfg net t c st = (Inr reply, st')" "jopt reply ''assignments'' = JArr xs" "x \<in> set xs" "is_start x"
  shows "\<exists>a \<in> set (map_values (st_agents (cp_store st))). x = start_assignment cfg (ensureSession cfg net a)"
proof -
  obtain nodeId where n: "jget (cl_body c) ''nodeId'' = Inr nodeId" using assms(1) by (auto simp: heartbeat_def split: sum.splits)
  obtain authed st1 where k: "authNode cfg t c st = (Inr authed, st1)"
      and f: "(case assertNodeIdentity nodeId authed (cp_store st1) of
              Inl e \<Rightarrow> (Inl e, st1)
            | Inr _ \<Rightarrow>
                (case getNode nodeId (cp_store st1) of
                   None \<Rightarrow> (Inl (deny 409), st1)
                 | Some n \<Rightarrow>
                     let running = (if jopt (cl_body c) ''running'' = JUndef then JArr [] else jopt (cl_body c) ''running'')
                     in (case reconcile cfg net t nodeId running (default_obj (jopt (cl_body c) ''usage'')) n (cp_store st1) of
                           (r, s) \<Rightarrow> (r, st1\<lparr> cp_store := s \<rparr>)))) = (Inr reply, st')"
    using assms(1) by (auto simp: heartbeat_def n bindS_Inr_iff)
  obtain n s' where r: "reconcile cfg net t nodeId (if jopt (cl_body c) ''running'' = JUndef then JArr [] else jopt (cl_body c) ''running'')
         (default_obj (jopt (cl_body c) ''usage'')) n (cp_store st1) = (Inr reply, s')"
    using f by (cases "assertNodeIdentity nodeId authed (cp_store st1)"; cases "getNode nodeId (cp_store st1)")
      (auto simp: Let_def split: prod.splits)
  from reconcile_start [OF r assms(2-4)] authNode_store [OF k] show ?thesis by simp
qed

lemma start_assignment_get:
  "jopt (jopt (start_assignment cfg a) ''agent'') ''id'' = JStr (ca_id a)"
  "jopt (jopt (start_assignment cfg a) ''agent'') ''bundle'' = bundleBlockFor a"
  "jopt (jopt (start_assignment cfg a) ''agent'') ''spec'' = ca_spec a"
  "jopt (jopt (start_assignment cfg a) ''agent'') ''signer'' = signerBlockFor cfg a"
  by (simp_all add: start_assignment_def jopt_def)

lemma bundle_block_get:
  "truthy (bundleBlockFor a) \<Longrightarrow> truthy (jopt (ca_spec a) ''bundle'')"
  "truthy (bundleBlockFor a) \<Longrightarrow> jopt (bundleBlockFor a) ''sha256'' = jopt (jopt (ca_spec a) ''bundle'') ''sha256''"
  "truthy (bundleBlockFor a) \<Longrightarrow> jopt (bundleBlockFor a) ''manifest'' = jopt (jopt (ca_spec a) ''bundle'') ''manifest''"
  by (auto simp: bundleBlockFor_def Let_def jopt_def split: if_splits)

section \<open>From the owner's signature to the process\<close>

text \<open>C2. From the owner to the process: take any run of the control plane, any assignment that a heartbeat then hands to
  a node, and a node that pulls its bundle and ends in a process. Then the assignment is that of a stored
  agent, the bytes the node pulled and unpacked hash to the very digest it was told to run, they are
  those of a manifest with a valid signature of the agent's owner that names this agent, and what runs is the entry of
  that manifest: a first-party bundle runs that file of the unpacked directory, any other runs in a container that has this
  directory mounted read-only and whose command is that file of the mount.\<close>

theorem assigned_bundle_is_the_owners:
  assumes "s = run_ops (cp_step ccfg) ops \<lparr> cs_cp = empty_cp empty_state, cs_waiting = [] \<rparr>"
    and "Control_Plane.heartbeat ccfg net t c (cs_cp s) = (Inr reply, st')"
    and "jopt reply ''assignments'' = JArr xs" "x \<in> set xs" "is_start x"
    and "pd_agent pd = jopt x ''agent''" "pd_plan pd = resolve_plan cfg he (pd_agent pd) h0" "pd_plan pd = Inr (Bundled runtime sha True)"
    and "start_finish cfg he now got pd h = (r, h')" "h_next h' \<noteq> h_next h"
    and "he_crypto he = cc_crypto ccfg" "clean_dir (hc_bundleCacheDir cfg)" "take 1 (hc_ociImage cfg) \<noteq> ''-''"
  shows "\<exists>a bytes entry cmd args cwd env.
    let m = jopt (jopt (ca_spec a) ''bundle'') ''manifest''; dir = hc_bundleCacheDir cfg @ ''/'' @ sha
    in a \<in> set (map_values (st_agents (cs_store s))) \<and> got = Inr bytes \<and> sha = sha256hex_bytes (cc_crypto ccfg) bytes \<and>
       verifyManifest (cc_crypto ccfg) m \<and> jopt m ''sha256'' = JStr sha \<and>
       truthy (ca_owner a) \<and> strict_eq (jopt m ''publisherPubkey'') (ca_owner a) \<and>
       (ca_id a = [] \<or> jopt m ''agentId'' = JStr (ca_id a)) \<and>
       Unpack dir bytes \<in> set (h_acts h') \<and> jopt m ''entry'' = JStr entry \<and>
       Spawn (h_next h) cmd args cwd env \<in> set (h_acts h') \<and>
       (if runtime = ''oci''
        then \<exists>opts. detectOciRuntime (he_exec he) = Some cmd \<and>
          run_options (tl args) = (opts, [hc_ociImage cfg, ''node'', ''/app/'' @ entry]) \<and>
          map snd (filter (\<lambda>(w, v). w = ''-v'') opts) = [dir @ '':/app:ro'', pd_dir pd @ '':/data:rw'']
        else cmd = he_execPath he \<and> args = [dir @ ''/'' @ entry])"
proof -
  obtain a where a: "a \<in> set (map_values (st_agents (cs_store s)))" "x = start_assignment ccfg (ensureSession ccfg net a)"
    using heartbeat_start [OF assms(2-5)] by (auto simp: cs_store_def)
  let ?a = "ensureSession ccfg net a" and ?m = "jopt (jopt (ca_spec a) ''bundle'') ''manifest''"
  have c: "ca_spec ?a = ca_spec a" "ca_owner ?a = ca_owner a" "ca_id ?a = ca_id a"
    using ensureSession_core [of ccfg net a] by (simp_all add: core_def)
  have b: "jopt (pd_agent pd) ''bundle'' = bundleBlockFor ?a" by (simp add: assms(6) a(2) start_assignment_get)
  have plan: "bundle_checks cfg (pd_agent pd) = Inr (runtime, sha)"
    using resolve_plan_bundled [of cfg he "pd_agent pd" h0 runtime sha True] assms(7,8) by simp
  have t: "truthy (bundleBlockFor ?a)" and bs: "jopt (bundleBlockFor ?a) ''sha256'' = JStr sha"
    using bundle_checks_sha [OF plan] by (simp_all add: b)
  note g = bundle_block_get [OF t, unfolded c]
  have bind: "verifyManifest (cc_crypto ccfg) ?m" "truthy (ca_owner a)" "strict_eq (jopt ?m ''publisherPubkey'') (ca_owner a)"
      "ca_id a = [] \<or> strict_eq (jopt ?m ''agentId'') (JStr (ca_id a))" "strict_eq (jopt ?m ''sha256'') (JStr sha)"
    using stored_sound [of a ccfg ops] a(1) g bs by (auto simp: assms(1) assertBundleOwnerBinding_def Let_def split: if_splits)
  have str: "v = JStr z" if "strict_eq v (JStr z)" for v z using that by (cases v) auto
  have m: "jopt (jopt (pd_agent pd) ''bundle'') ''manifest'' = ?m" using g(3) by (simp add: b)
  obtain bytes entry cmd args cwd env where o: "got = Inr bytes" "jget ?m ''sha256'' = Inr (JStr (sha256hex_bytes (cc_crypto ccfg) bytes))"
      "Unpack (hc_bundleCacheDir cfg @ ''/'' @ sha) bytes \<in> set (h_acts h')" "jopt ?m ''entry'' = JStr entry"
      "Spawn (h_next h) cmd args cwd env \<in> set (h_acts h')"
      "if runtime = ''oci''
       then \<exists>opts. detectOciRuntime (he_exec he) = Some cmd \<and>
          run_options (tl args) = (opts, [hc_ociImage cfg, ''node'', ''/app/'' @ entry]) \<and>
          map snd (filter (\<lambda>(w, v). w = ''-v'') opts) = [(hc_bundleCacheDir cfg @ ''/'' @ sha) @ '':/app:ro'', pd_dir pd @ '':/data:rw'']
       else cmd = he_execPath he \<and> args = [(hc_bundleCacheDir cfg @ ''/'' @ sha) @ ''/'' @ entry] \<and>
          isFirstPartyNodeRuntime (jopt ?m ''publisherPubkey'') (hc_firstPartyKeys cfg)"
    using bundle_start_out [OF assms(9,10,7,8,12,13) m [symmetric] refl, unfolded assms(11)] by (elim exE conjE) (rule that)
  have run: "if runtime = ''oci''
       then \<exists>opts. detectOciRuntime (he_exec he) = Some cmd \<and>
          run_options (tl args) = (opts, [hc_ociImage cfg, ''node'', ''/app/'' @ entry]) \<and>
          map snd (filter (\<lambda>(w, v). w = ''-v'') opts) = [(hc_bundleCacheDir cfg @ ''/'' @ sha) @ '':/app:ro'', pd_dir pd @ '':/data:rw'']
       else cmd = he_execPath he \<and> args = [(hc_bundleCacheDir cfg @ ''/'' @ sha) @ ''/'' @ entry]"
    using o(6) by (simp split: if_splits)
  have sha: "sha = sha256hex_bytes (cc_crypto ccfg) bytes" using str [OF bind(5)] o(2) by (simp add: jopt_def)
  have i: "ca_id a = [] \<or> jopt ?m ''agentId'' = JStr (ca_id a)" using bind(4) str by blast
  show ?thesis unfolding Let_def using a(1) o(1) sha bind(1-3) str [OF bind(5)] i o(3-5) run by blast
qed

section \<open>A bundle on its way\<close>

definition node_body :: jsval where
  "node_body = JObj [(''nodeId'', JStr ''n''), (''caps'', JObj [(''sandbox'', JStr ''node'')]), (''budget'', JObj [(''maxAgents'', JNum (Fin 2))])]"

lemma node_body_get: "jget node_body ''nodeId'' = Inr (JStr ''n'')" "jopt node_body ''caps'' = JObj [(''sandbox'', JStr ''node'')]"
  "jopt node_body ''budget'' = JObj [(''maxAgents'', JNum (Fin 2))]" "jopt node_body ''running'' = JUndef" "jopt node_body ''usage'' = JUndef"
  by (simp_all add: node_body_def jopt_def inherited_def object_members_def)

lemma plain_node: "authNode open_cfg t (plain_call b) st = (Inr None, st)"
  by (simp add: authNode_def requireNode_def verifyNodeRequest_def header_def Let_def)
     (simp add: plain_call_def cp_auth_def open_cfg_def toy_cp_cfg_def)

definition sample_registered :: node where
  "sample_registered = \<lparr> nd_id = JStr ''n'', nd_pubkey = None, nd_caps = JObj [(''sandbox'', JStr ''node'')],
     nd_budget = JObj [(''maxAgents'', JNum (Fin 2))], nd_up = True, nd_lastSeen = 6, nd_registeredAt = 6, nd_usage = JUndef,
     nd_available = None, nd_trusted = False \<rparr>"

definition sample_cloud :: "cagent \<Rightarrow> cp" where
  "sample_cloud a = (empty_cp empty_state)\<lparr> cp_store := \<lparr> st_nodes = [(JStr ''n'', sample_registered)], st_agents = [(''a1'', a)], st_logs = [] \<rparr> \<rparr>"

lemma plain_body: "rq_body (cl_req (plain_call b)) = b"
  by (simp add: plain_call_def)

lemma sample_register:
  assumes "ca_id a = ''a1''"
  shows "snd (register open_cfg 6 (plain_call node_body) (cp_put a (empty_cp empty_state))) = sample_cloud a"
  by (simp add: register_def plain_body node_body_get plain_node assertNodeIdentity_def getNode_def map_get_def upsertNode_def Let_def
      default_obj_def cp_put_def putAgent_def empty_cp_def empty_state_def sample_cloud_def sample_registered_def assms)

lemma sample_satisfies:
  assumes "jopt m ''runtime'' = JStr ''node''"
  shows "nodeSatisfies (JObj [(''sandbox'', JStr ''node'')]) False (JObj [(''bundle'', JObj [(''sha256'', x), (''manifest'', m)])]) = Inr True"
  using assms by (simp add: nodeSatisfies_def spec_get bundle_runtime_def Let_def)
     (simp add: jopt_def inherited_def object_members_def sandbox_rank_def SANDBOX_RANK_def jmax_def)

definition sample_placed :: "cagent \<Rightarrow> cagent" where
  "sample_placed a = a\<lparr> ca_running := True, ca_nodeId := JStr ''n'', ca_state := SCHEDULED, ca_placedAt := 7 \<rparr>"

lemma sample_schedule:
  assumes "ca_id a = ''a1''" "ca_spec a = JObj [(''bundle'', JObj [(''sha256'', x), (''manifest'', m)])]" "jopt m ''runtime'' = JStr ''node''"
    and "ca_running a" "ca_nodeId a = JNull" "ca_failedNodes a = []"
  shows "schedule 7 (cp_store (sample_cloud a)) a = (Inr (), a\<lparr> ca_nodeId := JStr ''n'', ca_state := SCHEDULED, ca_placedAt := 7 \<rparr>)"
proof -
  have "jsub (Fin 2) (Fin 0) = Fin 2" using jsub_int [of 2 0] by simp
  then show ?thesis
    using assms sample_satisfies [OF assms(3), of x]
    by (simp add: schedule_def sample_cloud_def pickNode_def listNodes_def eligible_def sample_registered_def free_slots_def maxAgents_def
        countAssigned_def listAgents_def jopt_def nullish_def placed_def Let_def)
qed

lemma sample_start:
  assumes "ca_id a = ''a1''" "ca_spec a = JObj [(''bundle'', JObj [(''sha256'', x), (''manifest'', m)])]" "jopt m ''runtime'' = JStr ''node''"
    and "ca_state a = PENDING" "ca_nodeId a = JNull" "ca_failedNodes a = []"
  shows "snd (start_agent open_cfg 7 ''a1'' (plain_call JUndef) (sample_cloud a)) = sample_cloud (sample_placed a)"
proof -
  let ?b = "a\<lparr> ca_running := True \<rparr>"
  have put: "cp_put c (sample_cloud d) = sample_cloud c" if "ca_id c = ''a1''" for c d
    using that by (simp add: cp_put_def putAgent_def sample_cloud_def)
  have get: "getAgent ''a1'' (cp_store (sample_cloud c)) = Some c" for c by (simp add: getAgent_def sample_cloud_def map_get_def)
  have o: "authOwner open_cfg 7 (plain_call JUndef) st = (Inr None, st)" "assertOwns open_cfg a None = Inr ()" for st
    using plain_auth [of open_cfg 7 JUndef st] by (simp_all add: open_cfg_def toy_cp_cfg_def assertOwns_def Let_def)
  have s: "schedule 7 (cp_store (sample_cloud ?b)) ?b = (Inr (), sample_placed a)"
    using sample_schedule [of ?b x m] assms by (simp add: sample_placed_def)
  have "ca_state a \<noteq> STOPPED" "ca_state a \<noteq> FAILED" using assms(4) by simp_all
  then have b: "a\<lparr> ca_running := True, ca_state := if ca_state a = STOPPED \<or> ca_state a = FAILED then PENDING else ca_state a \<rparr> = ?b"
    by simp
  have i: "ca_id ?b = ''a1''" "ca_id (sample_placed a) = ''a1''" using assms(1) by (simp_all add: sample_placed_def)
  show ?thesis by (simp add: start_agent_def owned_def get o Let_def b put i s del: assms)
qed

lemma sample_beat:
  assumes "ca_id a = ''a1''" "ca_running a" "ca_nodeId a = JStr ''n''"
  shows "\<exists>st'. Control_Plane.heartbeat open_cfg (\<lambda>_. No_Reply) 8 (plain_call node_body) (sample_cloud a) =
    (Inr (JObj [(''assignments'', JArr [start_assignment open_cfg a])]), st')"
proof -
  have g: "getNode (JStr ''n'') (cp_store (sample_cloud a)) = Some sample_registered"
    by (simp add: getNode_def sample_cloud_def map_get_def)
  have mx: "maxAgents sample_registered = Inr (Fin 2)" by (simp add: maxAgents_def sample_registered_def jopt_def nullish_def)
  have j: "jsub (Fin 2) (Fin 0) = Fin 2" using jsub_int [of 2 0] by simp
  have e: "ensureSession open_cfg net a = a" for net by (simp add: ensureSession_def open_cfg_def)
  obtain s' where "reconcile open_cfg (\<lambda>_. No_Reply) 8 (JStr ''n'') (JArr []) (default_obj JUndef) sample_registered (cp_store (sample_cloud a)) =
      (Inr (JObj [(''assignments'', JArr [start_assignment open_cfg a])]), s')"
    using assms by (simp add: reconcile_def mx j Let_def beat_node_def getNode_def map_get_def sample_cloud_def listAgents_def beat_agent_def e jle_Fin)
  then show ?thesis
    by (simp add: heartbeat_def plain_body node_body_get plain_node assertNodeIdentity_def g Let_def)
qed

lemma run_ops_append: "run_ops step (xs @ ys) s = run_ops step ys (run_ops step xs s)"
  by (simp add: run_ops_def)

lemma sample_assigned:
  "\<exists>m a ops st'. createBundle toy_crypto (\<lambda>e. True) packed sample_bundle (kp_priv (toy_keypair 7)) (JStr (kp_address (toy_keypair 7))) =
       Inr (packed, sha256hex_bytes toy_crypto packed, m) \<and>
     Control_Plane.heartbeat open_cfg (\<lambda>_. No_Reply) 8 (plain_call node_body)
       (cs_cp (run_ops (cp_step open_cfg) ops \<lparr> cs_cp = empty_cp empty_state, cs_waiting = [] \<rparr>)) =
       (Inr (JObj [(''assignments'', JArr [start_assignment open_cfg a])]), st') \<and>
     ca_id a = ''a1'' \<and> ca_owner a = JStr (kp_address (toy_keypair 7)) \<and> ca_session a = None \<and>
     ca_spec a = JObj [(''bundle'', JObj [(''sha256'', jopt m ''sha256''), (''manifest'', m)])]"
proof -
  obtain m a ops where h: "createBundle toy_crypto (\<lambda>e. True) packed sample_bundle (kp_priv (toy_keypair 7)) (JStr (kp_address (toy_keypair 7))) =
       Inr (packed, sha256hex_bytes toy_crypto packed, m)"
      "run_ops (cp_step open_cfg) ops \<lparr> cs_cp = empty_cp empty_state, cs_waiting = [] \<rparr> =
        \<lparr> cs_cp = cp_put a (empty_cp empty_state), cs_waiting = [] \<rparr>"
      and n: "a = new_cagent 5 ''a1'' (JStr ''bot'') (JStr (kp_address (toy_keypair 7)))
        (JObj [(''bundle'', JObj [(''sha256'', jopt m ''sha256''), (''manifest'', m)])]) sample_normal None"
    using sample_hosted [of packed] by (elim exE conjE) (rule that)
  have a: "ca_id a = ''a1''" "ca_spec a = JObj [(''bundle'', JObj [(''sha256'', jopt m ''sha256''), (''manifest'', m)])]"
    "ca_state a = PENDING" "ca_nodeId a = JNull" "ca_failedNodes a = []" "ca_owner a = JStr (kp_address (toy_keypair 7))" "ca_session a = None"
    by (simp_all add: n new_cagent_def)
  have rt: "jopt m ''runtime'' = JStr ''node''" using sample_manifest [OF h(1)] sample_agent by (simp add: jopt_def)
  let ?more = "[Op_Register 6 (plain_call node_body), Op_Start 7 ''a1'' (plain_call JUndef)]" and ?p = "sample_placed a"
  have r: "run_ops (cp_step open_cfg) (ops @ ?more) \<lparr> cs_cp = empty_cp empty_state, cs_waiting = [] \<rparr> =
      \<lparr> cs_cp = sample_cloud ?p, cs_waiting = [] \<rparr>"
    unfolding run_ops_append h(2) by (simp add: run_ops_def sample_register [OF a(1)] sample_start [OF a(1,2) rt a(3-5)])
  have p: "ca_id ?p = ''a1''" "ca_running ?p" "ca_nodeId ?p = JStr ''n''" "ca_owner ?p = JStr (kp_address (toy_keypair 7))" "ca_session ?p = None"
    "ca_spec ?p = JObj [(''bundle'', JObj [(''sha256'', jopt m ''sha256''), (''manifest'', m)])]"
    using a by (simp_all add: sample_placed_def)
  obtain st' where b: "Control_Plane.heartbeat open_cfg (\<lambda>_. No_Reply) 8 (plain_call node_body) (sample_cloud ?p) =
      (Inr (JObj [(''assignments'', JArr [start_assignment open_cfg ?p])]), st')"
    using sample_beat [OF p(1-3)] by blast
  show ?thesis
    by (rule exI [of _ m], rule exI [of _ ?p], rule exI [of _ "ops @ ?more"], rule exI [of _ st'])
       (intro conjI h(1) p(1,4,5,6), simp only: r cp_sys.simps b)
qed

lemma spec_block:
  assumes "jopt m ''runtime'' = JStr ''node''"
  shows "jopt (JObj [(''url'', u), (''sha256'', x), (''runtime'', r), (''manifest'', m)]) ''sha256'' = x"
    "jopt (JObj [(''url'', u), (''sha256'', x), (''runtime'', r), (''manifest'', m)]) ''manifest'' = m"
    "jopt (JObj [(''url'', u), (''sha256'', x), (''runtime'', r), (''manifest'', m)]) ''runtime'' = r"
  by (simp_all add: jopt_def)

text \<open>The node's view of that assignment.\<close>

lemma sample_received:
  assumes "ca_spec a = JObj [(''bundle'', JObj [(''sha256'', JStr sample_sha), (''manifest'', m)])]" "jopt m ''runtime'' = JStr ''node''"
    and "ca_session a = None" "ca_id a = ''a1''"
  defines "v \<equiv> jopt (start_assignment open_cfg a) ''agent''"
  shows "jopt (jopt v ''bundle'') ''manifest'' = m" "bundle_checks Host_Safety.sample_node v = Inr (''node'', sample_sha)"
    "resolve_plan Host_Safety.sample_node he v h = Inr (Bundled ''node'' sample_sha (\<not> map_has sample_sha (h_cached h)))"
    "\<exists>env. buildAgentEnv v dir (\<lambda>k. None) = Inr env" "jopt v ''id'' = JStr ''a1''" "jopt v ''owner'' = ca_owner a"
proof -
  have b: "jopt v ''bundle'' = JObj [(''url'', JUndef), (''sha256'', JStr sample_sha), (''runtime'', JStr ''node''), (''manifest'', m)]"
    using assms(1,2) by (simp add: v_def start_assignment_get bundleBlockFor_def Let_def spec_get str_or_def) (simp add: jopt_def inherited_def object_members_def)
  note g = b spec_block [OF assms(2)]
  show "jopt (jopt v ''bundle'') ''manifest'' = m" by (simp add: g)
  have s: "sample_sha \<noteq> []" using sample_sha_ok(1) by (auto simp: hex64_def)
  show c: "bundle_checks Host_Safety.sample_node v = Inr (''node'', sample_sha)"
    by (simp add: bundle_checks_def Let_def g str_or_def s sample_sha_ok(1) sample_node_vals isFirstPartyNodeRuntime_def text_arg_def)
  show "resolve_plan Host_Safety.sample_node he v h = Inr (Bundled ''node'' sample_sha (\<not> map_has sample_sha (h_cached h)))"
    by (simp add: resolve_plan_def is_bundle_def b c)
  have sp: "jopt v ''spec'' = JObj [(''bundle'', JObj [(''sha256'', JStr sample_sha), (''manifest'', m)])]" and sg: "jopt v ''signer'' = JUndef"
    using assms(1,3) by (simp_all add: v_def start_assignment_get signerBlockFor_def)
  show "\<exists>env. buildAgentEnv v dir (\<lambda>k. None) = Inr env"
    by (simp add: buildAgentEnv_def sp sg signer_env_def declared_def str_or_def)
       (simp add: jopt_def inherited_def object_members_def)
  show "jopt v ''id'' = JStr ''a1''" "jopt v ''owner'' = ca_owner a"
    using assms(4) by (simp_all add: v_def start_assignment_def jopt_def)
qed

definition sample_received_start :: "jsval \<Rightarrow> pending" where
  "sample_received_start v = \<lparr> pd_agent = v, pd_id = ''a1'', pd_dir = ''/d'',
     pd_plan = resolve_plan Host_Safety.sample_node sample_world v host_init \<rparr>"

theorem assigned_bundle_is_the_owners_witness:
  "\<exists>ops a m v h'. a \<in> set (map_values (st_agents (cs_store (run_ops (cp_step open_cfg) ops \<lparr> cs_cp = empty_cp empty_state, cs_waiting = [] \<rparr>)))) \<and>
     jopt (jopt (ca_spec a) ''bundle'') ''manifest'' = m \<and> verifyManifest toy_crypto m \<and> jopt m ''sha256'' = JStr sample_sha \<and>
     snd (start_finish Host_Safety.sample_node sample_world 0 (Inr (replicate 32 1)) (sample_received_start v) host_init) = h' \<and>
     (\<exists>bytes. Unpack (hc_bundleCacheDir Host_Safety.sample_node @ ''/'' @ sample_sha) bytes \<in> set (h_acts h'))"
proof -
  define bs where "bs = (replicate 32 1 :: bytes)"
  have sha: "sha256hex_bytes toy_crypto bs = sample_sha" unfolding bs_def by (rule sample_sha_ok(2))
  obtain m a ops st' where cr: "createBundle toy_crypto (\<lambda>e. True) bs sample_bundle (kp_priv (toy_keypair 7)) (JStr (kp_address (toy_keypair 7))) =
       Inr (bs, sha256hex_bytes toy_crypto bs, m)"
    and hb: "Control_Plane.heartbeat open_cfg (\<lambda>_. No_Reply) 8 (plain_call node_body)
       (cs_cp (run_ops (cp_step open_cfg) ops \<lparr> cs_cp = empty_cp empty_state, cs_waiting = [] \<rparr>)) =
       (Inr (JObj [(''assignments'', JArr [start_assignment open_cfg a])]), st')"
    and a: "ca_id a = ''a1''" "ca_owner a = JStr (kp_address (toy_keypair 7))" "ca_session a = None"
      "ca_spec a = JObj [(''bundle'', JObj [(''sha256'', jopt m ''sha256''), (''manifest'', m)])]"
    using sample_assigned [of bs] by (elim exE conjE) (rule that)
  note m = sample_manifest [OF cr]
  have ms: "jopt m ''sha256'' = JStr sample_sha" "jopt m ''runtime'' = JStr ''node''"
    using m sample_agent by (simp_all add: jopt_def sha)
  define v where "v = jopt (start_assignment open_cfg a) ''agent''"
  note rec = sample_received [OF a(4) [unfolded ms(1)] ms(2) a(3,1), folded v_def]
  obtain entry where e: "jopt m ''entry'' = JStr entry" using safe_entry_clean m by blast
  have vb: "verifyBundle toy_crypto bs m (JStr (kp_address (toy_keypair 7))) (JStr ''a1'') = Inr ''ok''"
    using m by (simp add: verifyBundle_def)
  have w: "he_crypto sample_world = toy_crypto" "he_unpack sample_world b d = Inr ()" "he_exists sample_world p" "he_src sample_world = (\<lambda>k. None)" for b d p
    by (simp_all add: sample_world_def)
  have o: "str_or (JStr (kp_address (toy_keypair 7))) JUndef = JStr (kp_address (toy_keypair 7))" using m by (simp add: str_or_def)
  obtain h1 where i: "install_bundle Host_Safety.sample_node sample_world v sample_sha (Inr bs) host_init = (Inr (), h1)"
    by (simp add: install_bundle_def liftS_def rec a(2) o vb w Let_def)
  have n: "\<not> map_has sample_sha (h_cached host_init)" by (simp add: map_has_def host_init_def)
  let ?pd = "sample_received_start v"
  have pd: "pd_agent ?pd = v" "pd_plan ?pd = Inr (Bundled ''node'' sample_sha True)"
    "pd_plan ?pd = resolve_plan Host_Safety.sample_node sample_world (pd_agent ?pd) host_init"
    using n by (simp_all add: sample_received_start_def rec)
  obtain env where env: "buildAgentEnv (pd_agent ?pd) (pd_dir ?pd) (he_src sample_world) = Inr env"
    using rec(4) [of "pd_dir ?pd"] by (auto simp: pd(1) w)
  obtain r h' where f: "start_finish Host_Safety.sample_node sample_world 0 (Inr bs) ?pd host_init = (r, h')"
    by (cases "start_finish Host_Safety.sample_node sample_world 0 (Inr bs) ?pd host_init")
  have en: "jopt (jopt (jopt (pd_agent ?pd) ''bundle'') ''manifest'') ''entry'' = JStr entry" by (simp add: pd(1) rec(1) e)
  have "h_next h1 = h_next host_init" using install_quiet [of host_init Host_Safety.sample_node sample_world v sample_sha "Inr bs"]
    by (simp add: i quiet_step_def)
  then have nx: "h_next h' \<noteq> h_next host_init"
    using bundle_started [OF pd(2) en _ w(3) env, where cfg = Host_Safety.sample_node and got = "Inr bs" and h = host_init and t = 0 and ?h1.0 = h1] i by (auto simp: f pd(1))
  have st: "is_start (start_assignment open_cfg a)" by simp
  have j: "jopt (JObj [(''assignments'', JArr [start_assignment open_cfg a])]) ''assignments'' = JArr [start_assignment open_cfg a]" by (simp add: jopt_def)
  have cc: "he_crypto sample_world = cc_crypto open_cfg" by (simp add: w open_cfg_def toy_cp_cfg_def)
  have pa: "pd_agent ?pd = jopt (start_assignment open_cfg a) ''agent''" unfolding pd(1) by (rule v_def)
  have mem: "start_assignment open_cfg a \<in> set [start_assignment open_cfg a]" by simp
  from assigned_bundle_is_the_owners [OF refl hb j mem st pa pd(3) pd(2) f nx cc sample_cache_clean sample_image]
  obtain a' bytes where "a' \<in> set (map_values (st_agents (cs_store (run_ops (cp_step open_cfg) ops \<lparr> cs_cp = empty_cp empty_state, cs_waiting = [] \<rparr>))))"
      "verifyManifest toy_crypto (jopt (jopt (ca_spec a') ''bundle'') ''manifest'')" "jopt (jopt (jopt (ca_spec a') ''bundle'') ''manifest'') ''sha256'' = JStr sample_sha"
      "Unpack (hc_bundleCacheDir Host_Safety.sample_node @ ''/'' @ sample_sha) bytes \<in> set (h_acts h')"
    by (auto simp: Let_def cc [symmetric] w(1))
  moreover have "snd (start_finish Host_Safety.sample_node sample_world 0 (Inr (replicate 32 1)) ?pd host_init) = h'"
    unfolding bs_def [symmetric] f by simp
  ultimately show ?thesis by blast
qed

end
