(* ===== verification/Host_Order.thy ===== *)
theory Host_Order
  imports Host_Safety
begin

text \<open>
  The order of starts, stops and exits: the budget of the node holds when starts do not overlap, every running
  process is accounted for when an agent is started again only after its last process has
  exited, and neither holds without.
\<close>

section \<open>The budget\<close>

fun serial :: "host_op \<Rightarrow> bool" where
  "serial (Begin he a) = False"
| "serial (Finish he t n got) = False"
| "serial op = True"

definition in_budget :: "host_cfg \<Rightarrow> host \<Rightarrow> bool" where
  "in_budget cfg h = (host_ok h \<and> (\<forall>N. hc_maxAgents cfg = nat_num N \<longrightarrow> length (h_agents h) \<le> N))"

lemma length_map_set: "length (map_set k v m) \<le> Suc (length m)"
  by (induction k v m rule: map_set.induct) auto

lemma length_map_delete: "length (map_delete k m) \<le> length m"
  by (simp add: map_delete_def)

lemma within_fewer: "in_budget cfg h \<Longrightarrow> host_ok h' \<Longrightarrow> length (h_agents h') \<le> length (h_agents h) \<Longrightarrow> in_budget cfg h'"
  unfolding in_budget_def by (meson le_trans)

lemma within_quiet: "quiet_step h h' \<Longrightarrow> in_budget cfg h \<Longrightarrow> in_budget cfg h'"
  using host_ok_quiet by (auto simp: in_budget_def quiet_step_def)

lemma start_within:
  assumes "in_budget cfg h"
  shows "in_budget cfg (start_caught cfg he t a h)"
  using start_caught_out [of h cfg he t a]
proof (elim disjE exE conjE)
  assume "quiet_step h (start_caught cfg he t a h)"
  then show ?thesis using assms by (rule within_quiet)
next
  fix pd h1 h2 r
  assume b: "start_begin cfg he a h = (Inr (Some pd), h1)" and f: "start_finish cfg he t (pulled cfg he pd) pd h1 = (r, h2)"
    and q: "quiet_step h2 (start_caught cfg he t a h)"
  have h1: "quiet_step h h1" "\<not> jle (hc_maxAgents cfg) (nat_num (length (h_agents h)))" using start_begin_out [OF b] by blast+
  have w1: "in_budget cfg h1" by (rule within_quiet [OF h1(1) assms])
  have room: "Suc (length (h_agents h1)) \<le> N" if "hc_maxAgents cfg = nat_num N" for N
  proof -
    have "\<not> of_nat N \<le> (of_nat (length (h_agents h)) :: rat)" using h1(2) that by (simp add: jle_Fin)
    then have "\<not> N \<le> length (h_agents h)" by (simp only: of_nat_le_iff simp_thms)
    then show ?thesis using h1(1) by (simp add: quiet_step_def)
  qed
  have "host_ok h2" using start_finish_ok [of h1 cfg he t "pulled cfg he pd" pd] w1 by (simp add: f in_budget_def)
  moreover have "length (h_agents h2) \<le> N" if "hc_maxAgents cfg = nat_num N" for N
    using start_finish_out [OF f]
  proof (elim disjE exE conjE)
    assume "quiet_step h1 h2"
    then show ?thesis using room [OF that] by (simp add: quiet_step_def)
  next
    fix rs h3 env rec xs pl cwd
    assume "h_agents h2 = map_set (pd_id pd) (h_next h1) (h_agents h1)"
    then show ?thesis using room [OF that] length_map_set [of "pd_id pd" "h_next h1" "h_agents h1"] by simp
  qed
  ultimately have "in_budget cfg h2" by (simp add: in_budget_def)
  then show ?thesis by (rule within_quiet [OF q])
qed

lemma stop_fewer: "length (h_agents (stopAgent k h)) \<le> length (h_agents h)"
proof (cases "\<exists>i. k = JStr i")
  case True
  then obtain i where i: "k = JStr i" by blast
  from stopAgent_out [of i h] show ?thesis
    unfolding i by (elim disjE exE conjE) (simp_all add: length_map_delete)
qed (simp add: stopAgent_other)

lemma within_stop: "in_budget cfg h \<Longrightarrow> in_budget cfg (stopAgent k h)"
  by (rule within_fewer [OF _ host_ok_stop stop_fewer]) (auto simp: in_budget_def)

lemma within_fold: "(\<And>x h. in_budget cfg h \<Longrightarrow> in_budget cfg (f x h)) \<Longrightarrow> in_budget cfg h \<Longrightarrow> in_budget cfg (fold f xs h)"
  by (induction xs arbitrary: h) auto

lemma same_agents:
  "h_agents (onData p t buf h) = h_agents h" "h_agents (report_one he t e h) = h_agents h" "h_agents (kill_timer p h) = h_agents h"
  by (simp_all add: onData_def report_one_def kill_timer_def put_rec_def act_def split: option.split)

lemma reportAgent_agents: "h_agents (reportAgent k ls h) = h_agents h"
  by (simp add: reportAgent_def act_def split: sum.split)

lemma exit_fewer: "length (h_agents (onExit p code t h)) \<le> length (h_agents h)" "length (h_agents (onError p t h)) \<le> length (h_agents h)"
  by (auto simp: onExit_def onError_def forget_def drop_proc_def close_proxy_def act_def Let_def reportAgent_agents
      intro: length_map_delete split: option.split)

lemma host_step_within: "in_budget cfg (hs_host s) \<Longrightarrow> serial op \<Longrightarrow> in_budget cfg (hs_host (host_step cfg s op))"
proof (cases op)
  case (Data p t buf)
  assume "in_budget cfg (hs_host s)"
  then show ?thesis using within_fewer onData_ok by (simp add: Data host_step_def on_host_def same_agents in_budget_def)
next
  case (Exited p code t)
  assume w: "in_budget cfg (hs_host s)"
  then show ?thesis using within_fewer [OF w onExit_ok exit_fewer(1)] by (simp add: Exited host_step_def on_host_def in_budget_def)
next
  case (Spawn_Failed p t)
  assume w: "in_budget cfg (hs_host s)"
  then show ?thesis using within_fewer [OF w onError_ok exit_fewer(2)] by (simp add: Spawn_Failed host_step_def on_host_def in_budget_def)
next
  case (Timer p)
  assume w: "in_budget cfg (hs_host s)"
  then show ?thesis using kill_timer_ok by (simp add: Timer host_step_def on_host_def same_agents in_budget_def)
next
  case (Report he t)
  assume w: "in_budget cfg (hs_host s)"
  have "in_budget cfg h \<Longrightarrow> in_budget cfg (report_one he t e h)" for e h using report_one_ok by (simp add: in_budget_def same_agents)
  then show ?thesis using w by (simp add: Report host_step_def on_host_def report_all_def within_fold)
qed (auto simp: host_step_def on_host_def start_within within_stop enforceMemory_def intro!: within_fold)

interpretation budget: invariant_system "host_step cfg" serial "\<lambda>s. in_budget cfg (hs_host s)" for cfg
  by unfold_locales (rule host_step_within)

text \<open>C18. The operator's budget holds on the node: as long as each start runs to its end before the next begins, at most
  the configured number of agents is ever hosted, whatever is assigned, whatever exits and whatever fails.\<close>

theorem node_keeps_budget:
  assumes "hc_maxAgents cfg = nat_num N" "\<forall>op \<in> set ops. serial op"
  shows "length (h_agents (hs_host (run_ops (host_step cfg) ops sys_init))) \<le> N"
proof -
  have "in_budget cfg (hs_host sys_init)" using host_init_ok by (simp add: in_budget_def sys_init_def host_init_def)
  from budget.run_inv [OF this assms(2)] show ?thesis using assms(1) by (simp add: in_budget_def)
qed

section \<open>Every process is accounted for\<close>

text \<open>
  A process that has not exited is the one listed for its agent, or it was told to stop; and no
  two such processes belong to one agent.
\<close>

definition tracked :: "host \<Rightarrow> bool" where
  "tracked h = (host_ok h \<and>
     (\<forall>p r. map_get p (h_procs h) = Some r \<longrightarrow> map_get (hr_id r) (h_agents h) = Some p \<or> told_to_stop p h) \<and>
     (\<forall>p q r s. map_get p (h_procs h) = Some r \<longrightarrow> map_get q (h_procs h) = Some s \<longrightarrow> hr_id r = hr_id s \<longrightarrow> p = q))"

text \<open>The orderly runs: starts do not overlap, and no start arrives for an agent that was stopped while its process
  is still shutting down. A start may arrive for an agent that is running.\<close>

definition orderly_op :: "host \<Rightarrow> host_op \<Rightarrow> bool" where
  "orderly_op h op = (serial op \<and> (case op of
       Start he t a \<Rightarrow> list_all (\<lambda>(p, r). jget a ''id'' = Inr (JStr (hr_id r)) \<longrightarrow> map_get (hr_id r) (h_agents h) = Some p) (h_procs h)
     | _ \<Rightarrow> True))"

inductive orderly :: "host_cfg \<Rightarrow> host_sys \<Rightarrow> bool" for cfg where
  init: "orderly cfg sys_init"
| step: "orderly cfg s \<Longrightarrow> orderly_op (hs_host s) op \<Longrightarrow> orderly cfg (host_step cfg s op)"

inductive_cases orderlyE: "orderly cfg s"

lemma trackedI:
  "host_ok h \<Longrightarrow> (\<And>p r. map_get p (h_procs h) = Some r \<Longrightarrow> map_get (hr_id r) (h_agents h) = Some p \<or> told_to_stop p h) \<Longrightarrow>
   (\<And>p q r s. map_get p (h_procs h) = Some r \<Longrightarrow> map_get q (h_procs h) = Some s \<Longrightarrow> hr_id r = hr_id s \<Longrightarrow> p = q) \<Longrightarrow> tracked h"
  unfolding tracked_def by blast

lemma trackedD:
  "tracked h \<Longrightarrow> host_ok h"
  "tracked h \<Longrightarrow> map_get p (h_procs h) = Some r \<Longrightarrow> map_get (hr_id r) (h_agents h) = Some p \<or> told_to_stop p h"
  "tracked h \<Longrightarrow> map_get p (h_procs h) = Some r \<Longrightarrow> map_get q (h_procs h) = Some s \<Longrightarrow> hr_id r = hr_id s \<Longrightarrow> p = q"
  unfolding tracked_def by blast+

lemma tracked_quiet:
  assumes "quiet_step h h'" "tracked h"
  shows "tracked h'"
proof -
  have f: "h_agents h' = h_agents h" "h_procs h' = h_procs h" "set (h_acts h) \<subseteq> set (h_acts h')"
    using assms(1) by (auto simp: quiet_step_def)
  show ?thesis
    by (rule trackedI [OF host_ok_quiet [OF assms(1) trackedD(1) [OF assms(2)]]])
       (use trackedD(2,3) [OF assms(2)] told_mono [OF _ f(3)] in \<open>unfold f, blast+\<close>)
qed

lemma tracked_add:
  assumes "tracked h" "h_agents h' = map_set i p (h_agents h)" "h_procs h' = map_set p r (h_procs h)" "host_ok h'"
    "hr_id r = i" "set (h_acts h) \<subseteq> set (h_acts h')"
    and none: "\<forall>q s. map_get q (h_procs h) = Some s \<longrightarrow> hr_id s \<noteq> i"
  shows "tracked h'"
proof -
  have old: "map_get q (h_procs h) = Some s" if "map_get q (h_procs h') = Some s" "q \<noteq> p" for q s
    using that by (simp add: assms(3) map_get_set)
  have new: "s = r" if "map_get p (h_procs h') = Some s" for s
    using that by (simp add: assms(3))
  show ?thesis
  proof (rule trackedI [OF assms(4)])
    fix q s assume q: "map_get q (h_procs h') = Some s"
    show "map_get (hr_id s) (h_agents h') = Some q \<or> told_to_stop q h'"
    proof (cases "q = p")
      case True
      then show ?thesis using new q assms(5) by (simp add: assms(2))
    next
      case False
      then show ?thesis using trackedD(2) [OF assms(1) old [OF q False]] none old [OF q False] told_mono [OF _ assms(6)]
        by (auto simp: assms(2) map_get_set)
    qed
  next
    fix q1 q2 s1 s2
    assume a: "map_get q1 (h_procs h') = Some s1" "map_get q2 (h_procs h') = Some s2" "hr_id s1 = hr_id s2"
    show "q1 = q2"
      using a new old none trackedD(3) [OF assms(1)] assms(5) by (cases "q1 = p"; cases "q2 = p") metis+
  qed
qed

lemma tracked_start:
  assumes "tracked h" "\<forall>q s. map_get q (h_procs h) = Some s \<longrightarrow> jget a ''id'' = Inr (JStr (hr_id s)) \<longrightarrow> map_get (hr_id s) (h_agents h) = Some q"
  shows "tracked (start_caught cfg he t a h)"
  using start_caught_out [of h cfg he t a]
proof (elim disjE exE conjE)
  assume "quiet_step h (start_caught cfg he t a h)"
  then show ?thesis using assms(1) by (rule tracked_quiet)
next
  fix pd h1 h2 r
  assume b: "start_begin cfg he a h = (Inr (Some pd), h1)" and f: "start_finish cfg he t (pulled cfg he pd) pd h1 = (r, h2)"
    and q: "quiet_step h2 (start_caught cfg he t a h)"
  have h1: "quiet_step h h1" "jget a ''id'' = Inr (JStr (pd_id pd))" "map_get (pd_id pd) (h_agents h) = None"
    using start_begin_out [OF b] by blast+
  have t1: "tracked h1" by (rule tracked_quiet [OF h1(1) assms(1)])
  have ok2: "host_ok h2" using start_finish_ok [of h1 cfg he t "pulled cfg he pd" pd] t1 by (simp add: f tracked_def)
  have n: "\<forall>q s. map_get q (h_procs h1) = Some s \<longrightarrow> hr_id s \<noteq> pd_id pd"
    using assms(2) h1 unfolding quiet_step_def by (metis option.distinct(1))
  have "tracked h2"
    using start_finish_out [OF f]
  proof (elim disjE exE conjE)
    assume "quiet_step h1 h2"
    then show ?thesis using t1 by (rule tracked_quiet)
  next
    fix rs h3 env rec xs pl cwd
    assume a: "h_agents h2 = map_set (pd_id pd) (h_next h1) (h_agents h1)" "h_procs h2 = map_set (h_next h1) rec (h_procs h1)"
      "hr_id rec = pd_id pd" "quiet_step h1 h3"
      "h_acts h2 = h_acts h3 @ Spawn (h_next h1) (rs_command rs) (rs_args rs) cwd env # xs"
    then have "set (h_acts h1) \<subseteq> set (h_acts h2)" by (auto simp: quiet_step_def)
    then show ?thesis using tracked_add [OF t1 a(1,2) ok2 a(3)] n by blast
  qed
  then show ?thesis by (rule tracked_quiet [OF q])
qed

lemma tracked_stop:
  assumes "tracked h"
  shows "tracked (stopAgent k h)"
proof (cases "\<exists>i. k = JStr i")
  case True
  then obtain i where i: "k = JStr i" by blast
  have ok: "host_ok h" using assms by (simp add: tracked_def)
  from stopAgent_out [of i h] show ?thesis
    unfolding i
  proof (elim disjE exE conjE)
    fix p xs
    assume p: "map_get i (h_agents h) = Some p" and eq: "h_agents (stopAgent (JStr i) h) = map_delete i (h_agents h)"
      "h_procs (stopAgent (JStr i) h) = h_procs h"
      "h_acts (stopAgent (JStr i) h) = h_acts h @ Kill p ''SIGTERM'' # xs"
    have told: "told_to_stop p (stopAgent (JStr i) h)" by (simp add: told_to_stop_def eq)
    have mono: "told_to_stop q h \<Longrightarrow> told_to_stop q (stopAgent (JStr i) h)" for q by (simp add: told_to_stop_def eq)
    have "map_get (hr_id s) (h_agents (stopAgent (JStr i) h)) = Some q \<or> told_to_stop q (stopAgent (JStr i) h)"
      if q: "map_get q (h_procs h) = Some s" for q s
    proof (cases "hr_id s = i")
      case True
      obtain r where "map_get p (h_procs h) = Some r" "hr_id r = i" using ok p unfolding host_ok_def by blast
      then have "q = p" using assms q True unfolding tracked_def by metis
      then show ?thesis using told by simp
    next
      case False
      then show ?thesis using assms q mono unfolding tracked_def eq by (auto simp: map_get_delete)
    qed
    then show "tracked (stopAgent (JStr i) h)"
      using assms host_ok_stop [OF ok] unfolding tracked_def eq(2) by blast
  qed (simp add: assms)
qed (simp add: stopAgent_other assms)

lemma tracked_drop:
  assumes "tracked h" "map_get p (h_procs h) = Some r" "h_agents h' = map_delete (hr_id r) (h_agents h)"
    "h_procs h' = map_delete p (h_procs h)" "h_acts h' = h_acts h" "host_ok h'"
  shows "tracked h'"
proof -
  note f = assms(3,4)
  have t: "told_to_stop q h' = told_to_stop q h" for q by (simp add: told_to_stop_def assms(5))
  have "map_get (hr_id s) (h_agents h') = Some q \<or> told_to_stop q h'" if "map_get q (h_procs h') = Some s" for q s
  proof -
    have q: "q \<noteq> p" "map_get q (h_procs h) = Some s" using that by (auto simp: f map_get_delete split: if_splits)
    then have "hr_id s \<noteq> hr_id r" using assms(1,2) unfolding tracked_def by metis
    then show ?thesis using assms(1) q unfolding tracked_def f t by (auto simp: map_get_delete)
  qed
  moreover have "q1 = q2" if "map_get q1 (h_procs h') = Some s1" "map_get q2 (h_procs h') = Some s2" "hr_id s1 = hr_id s2"
    for q1 q2 s1 s2
    using that assms(1) unfolding tracked_def f by (auto simp: map_get_delete split: if_splits)
  ultimately show ?thesis using assms(6) unfolding tracked_def by blast
qed

lemma tracked_put_rec:
  assumes "tracked h" "map_get p (h_procs h) = Some r" "hr_id r' = hr_id r" "length (hr_log r') \<le> 300"
  shows "tracked (put_rec p r' h)"
proof -
  have ok: "host_ok (put_rec p r' h)" using assms host_ok_put_rec by (simp add: tracked_def)
  have g: "\<exists>s'. map_get q (h_procs h) = Some s' \<and> hr_id s' = hr_id s" if "map_get q (h_procs (put_rec p r' h)) = Some s" for q s
    using that assms by (auto simp: put_rec_def map_get_set split: if_splits)
  have f: "h_agents (put_rec p r' h) = h_agents h" "told_to_stop q (put_rec p r' h) = told_to_stop q h" for q
    by (simp_all add: put_rec_def told_to_stop_def)
  show ?thesis using assms(1) ok g unfolding tracked_def f by metis
qed

lemma tracked_fold: "(\<And>x h. tracked h \<Longrightarrow> tracked (f x h)) \<Longrightarrow> tracked h \<Longrightarrow> tracked (fold f xs h)"
  by (induction xs arbitrary: h) auto

lemma tracked_onData: "tracked h \<Longrightarrow> tracked (onData p t buf h)"
proof (cases "map_get p (h_procs h)")
  case (Some r)
  assume tr: "tracked h"
  then have "length (hr_log r) \<le> 300" using Some by (auto simp: tracked_def host_ok_def)
  then show ?thesis using tracked_put_rec [OF tr Some] push_lines_bound by (simp add: onData_def Some)
qed (simp add: onData_def)

lemma tracked_report: "tracked h \<Longrightarrow> tracked (report_one he t e h)"
proof (cases "map_get (snd e) (h_procs h)")
  case (Some r)
  assume tr: "tracked h"
  then have "length (hr_log r) \<le> 300" using Some by (auto simp: tracked_def host_ok_def)
  then have "tracked (put_rec (snd e) (r\<lparr> hr_lastSent := t \<rparr>) h)" by (intro tracked_put_rec [OF tr Some]) simp_all
  then show ?thesis using tracked_quiet [OF quiet_act] by (simp add: report_one_def Some)
qed (simp add: report_one_def)

lemma tracked_gone:
  assumes "tracked h" "quiet_step h h1" "map_get p (h_procs h) = Some r"
  shows "tracked (forget p r h1)" "tracked (drop_proc p r h1)"
proof -
  have t: "tracked h1" by (rule tracked_quiet [OF assms(2,1)])
  have p: "map_get p (h_procs h1) = Some r" using assms(2,3) by (simp add: quiet_step_def)
  note g = host_ok_gone [OF trackedD(1) [OF assms(1)] assms(2,3)]
  show "tracked (forget p r h1)" "tracked (drop_proc p r h1)"
    using tracked_drop [OF t p _ _ _ g(1)] tracked_drop [OF t p _ _ _ g(2)] by (simp_all add: forget_def drop_proc_def)
qed

lemma tracked_onExit: "tracked h \<Longrightarrow> tracked (onExit p code t h)"
proof (cases "map_get p (h_procs h)")
  case (Some r)
  assume tr: "tracked h"
  obtain h1 where "quiet_step h h1" "onExit p code t h = forget p r h1" using onExit_forget [OF Some] by blast
  then show ?thesis using tracked_gone(1) [OF tr _ Some] by simp
qed (simp add: onExit_def)

lemma tracked_onError: "tracked h \<Longrightarrow> tracked (onError p t h)"
proof (cases "map_get p (h_procs h)")
  case (Some r)
  assume tr: "tracked h"
  obtain h1 where "quiet_step h h1" "onError p t h = drop_proc p r h1" using onError_drop [OF Some] by blast
  then show ?thesis using tracked_gone(2) [OF tr _ Some] by simp
qed (simp add: onError_def)

lemma tracked_timer: "tracked h \<Longrightarrow> tracked (kill_timer p h)"
proof -
  assume tr: "tracked h"
  have "host_ok (kill_timer p h)" using tr kill_timer_ok by (simp add: tracked_def)
  moreover have "h_agents (kill_timer p h) = h_agents h" "h_procs (kill_timer p h) = h_procs h" "told_to_stop q h \<Longrightarrow> told_to_stop q (kill_timer p h)" for q
    by (auto simp: kill_timer_def act_def told_to_stop_def)
  ultimately show ?thesis using tr unfolding tracked_def by metis
qed

lemma tracked_step: "tracked (hs_host s) \<Longrightarrow> orderly_op (hs_host s) op \<Longrightarrow> tracked (hs_host (host_step cfg s op))"
proof (cases op)
  case (Start he t a)
  assume tr: "tracked (hs_host s)" and o: "orderly_op (hs_host s) op"
  have "\<forall>q r. map_get q (h_procs (hs_host s)) = Some r \<longrightarrow> jget a ''id'' = Inr (JStr (hr_id r)) \<longrightarrow>
      map_get (hr_id r) (h_agents (hs_host s)) = Some q"
    using o by (auto simp: orderly_op_def Start list_all_iff dest: map_get_in)
  from tracked_start [OF tr this] show ?thesis by (simp add: Start host_step_def on_host_def)
qed (auto simp: host_step_def on_host_def orderly_op_def tracked_stop enforceMemory_def report_all_def tracked_report tracked_onData
    tracked_onExit tracked_onError tracked_timer intro!: tracked_fold)

lemma orderly_tracked: "orderly cfg s \<Longrightarrow> tracked (hs_host s)"
proof (induction rule: orderly.induct)
  case init
  then show ?case using host_init_ok by (simp add: tracked_def sys_init_def host_init_def)
next
  case (step s op)
  then show ?case by (intro tracked_step)
qed

lemma sole_key:
  assumes "map_ok m" "(p, r) \<in> set m" "f r = k" "\<And>q s. (q, s) \<in> set m \<Longrightarrow> f s = k \<Longrightarrow> q = p"
  shows "map_keys (filter (\<lambda>(q, s). f s = k) m) = [p]"
proof -
  let ?f = "filter (\<lambda>(q, s). f s = k) m"
  have d: "distinct (map_keys ?f)" using map_ok_filter [OF assms(1), of "\<lambda>(q, s). f s = k"] unfolding map_ok_def .
  have "(p, r) \<in> set ?f" using assms(2,3) by simp
  then have "p \<in> set (map_keys ?f)" by (force simp only: set_map fst_conv intro: rev_image_eqI)
  moreover have "set (map_keys ?f) \<subseteq> {p}" using assms(4) by auto
  ultimately have e: "set (map_keys ?f) = {p}" by blast
  have "length (map_keys ?f) = 1" using distinct_card [OF d] unfolding e by simp
  then have "\<exists>x. map_keys ?f = [x]" unfolding One_nat_def length_Suc_conv by auto
  then obtain x where x: "map_keys ?f = [x]" by (elim exE)
  show ?thesis using e unfolding x by simp
qed

text \<open>C17. On a run where starts do not overlap and no start arrives for a stopped agent whose process is still shutting down, no
  process escapes: every process that has not exited is the one the node-host lists for its agent (so it is reported, held to
  the memory budget and can be stopped), or it was told to stop; and an agent never has two processes, also when it is assigned
  again while it runs.\<close>

theorem no_process_escapes:
  assumes "orderly cfg s" "map_get p (h_procs (hs_host s)) = Some r"
  shows "(map_get (hr_id r) (h_agents (hs_host s)) = Some p \<or> Kill p ''SIGTERM'' \<in> set (h_acts (hs_host s))) \<and>
    map_keys (filter (\<lambda>(q, s). hr_id s = hr_id r) (h_procs (hs_host s))) = [p]"
proof -
  let ?h = "hs_host s"
  note tr = orderly_tracked [OF assms(1)]
  have m: "map_ok (h_procs ?h)" using trackedD(1) [OF tr] by (simp add: host_ok_def)
  have mem: "(p, r) \<in> set (h_procs ?h)" using assms(2) by (rule map_get_in)
  have uniq: "q = p" if "(q, r') \<in> set (h_procs ?h)" "hr_id r' = hr_id r" for q r'
  proof -
    have "map_get q (h_procs ?h) = Some r'" using that(1) by (simp only: map_get_iff [OF m])
    then show ?thesis by (rule trackedD(3) [OF tr _ assms(2) that(2)])
  qed
  have "map_keys (filter (\<lambda>(q, s). hr_id s = hr_id r) (h_procs ?h)) = [p]" by (rule sole_key [OF m mem refl uniq])
  then show ?thesis using trackedD(2) [OF tr assms(2)] by (simp add: told_to_stop_def)
qed

section \<open>What goes wrong without the order\<close>

text \<open>A built-in workload on a host with an empty environment.\<close>

definition plain_start :: "string \<Rightarrow> jsval" where
  "plain_start i = JObj [(''id'', JStr i)]"

definition plain_pending :: "host_cfg \<Rightarrow> host_env \<Rightarrow> string \<Rightarrow> pending" where
  "plain_pending cfg he i = \<lparr> pd_agent = plain_start i, pd_id = i, pd_dir = path_join [hc_dataDir cfg, ''agents'', i],
     pd_plan = Inr (Builtin (he_execPath he) [path_join [he_repo he, ''agentd'', ''agentd.js'']]) \<rparr>"

definition plain_host :: "host_env \<Rightarrow> bool" where
  "plain_host he = (he_src he = (\<lambda>k. None) \<and> \<not> he_cgroup he)"

lemma plain_start_get: "jget (plain_start i) ''id'' = Inr (JStr i)" "jopt (plain_start i) ''spec'' = JUndef"
  "jopt (plain_start i) ''bundle'' = JUndef" "jopt (plain_start i) ''signer'' = JUndef"
  by (simp_all add: plain_start_def jopt_def inherited_def object_members_def)

lemma jopt_undef: "jopt JUndef k = JUndef" "jopt (JObj []) ''env'' = JUndef" "jopt (JObj []) ''bundle'' = JUndef" "jopt (JObj []) ''workload'' = JUndef"
  by (simp_all add: jopt_def inherited_def object_members_def)

lemma plain_begin:
  assumes "map_get i (h_agents h) = None" "\<not> jle (hc_maxAgents cfg) (nat_num (length (h_agents h)))"
  shows "start_begin cfg he (plain_start i) h =
    (Inr (Some (plain_pending cfg he i)), prepare_dir (plain_start i) (path_join [hc_dataDir cfg, ''agents'', i]) h)"
  using assms
  by (simp add: start_begin_def plain_start_get map_has_def text_arg_def liftS_def Let_def plain_pending_def resolve_plan_def is_bundle_def
      str_or_def jopt_undef)

lemma plain_env: "\<exists>env. buildAgentEnv (plain_start i) dir (\<lambda>k. None) = Inr env"
  by (simp add: buildAgentEnv_def plain_start_get signer_env_def declared_def str_or_def jopt_undef)

lemma plain_finish:
  assumes "plain_host he"
  shows "\<exists>rec env. start_finish cfg he t got (plain_pending cfg he i) h =
      (Inr (), h\<lparr> h_agents := map_set i (h_next h) (h_agents h), h_procs := map_set (h_next h) rec (h_procs h), h_next := Suc (h_next h),
         h_acts := h_acts h @ [Spawn (h_next h) (he_execPath he) [path_join [he_repo he, ''agentd'', ''agentd.js'']]
           (path_join [hc_dataDir cfg, ''agents'', i]) env] \<rparr>) \<and> hr_id rec = i \<and> hr_proxy rec = None"
proof -
  obtain env where "buildAgentEnv (plain_start i) (path_join [hc_dataDir cfg, ''agents'', i]) (\<lambda>k. None) = Inr env"
    using plain_env by blast
  moreover define rec where "rec = \<lparr> hr_id = i, hr_proxy = None, hr_name = jopt (plain_start i) ''name'',
      hr_workload = workload_label (plain_start i) \<lparr> rs_command = he_execPath he, rs_args = [path_join [he_repo he, ''agentd'', ''agentd.js'']],
        rs_cwd = Some (path_join [hc_dataDir cfg, ''agents'', i]), rs_proxy = None \<rparr>,
      hr_dir = path_join [hc_dataDir cfg, ''agents'', i], hr_cgrouped = False, hr_log = [], hr_lastSent = 0, hr_startedAt = t \<rparr>"
  ultimately show ?thesis using assms
    by (intro exI [of _ rec] exI [of _ env])
       (simp add: start_finish_def plain_pending_def liftS_def resolve_end_def launch_def plain_host_def applyCgroup_def act_def Let_def)
qed

lemma plain_start_out:
  assumes "plain_host he" "map_get i (h_agents h) = None" "\<not> jle (hc_maxAgents cfg) (nat_num (length (h_agents h)))"
  shows "\<exists>rec xs. h_agents (start_caught cfg he t (plain_start i) h) = map_set i (h_next h) (h_agents h) \<and>
    h_procs (start_caught cfg he t (plain_start i) h) = map_set (h_next h) rec (h_procs h) \<and>
    h_next (start_caught cfg he t (plain_start i) h) = Suc (h_next h) \<and> hr_id rec = i \<and> hr_proxy rec = None \<and>
    h_acts (start_caught cfg he t (plain_start i) h) = h_acts h @ xs \<and> (\<forall>p s. Kill p s \<notin> set xs)"
proof -
  let ?h = "prepare_dir (plain_start i) (path_join [hc_dataDir cfg, ''agents'', i]) h"
  obtain rec env where f: "start_finish cfg he t (pulled cfg he (plain_pending cfg he i)) (plain_pending cfg he i) ?h =
      (Inr (), ?h\<lparr> h_agents := map_set i (h_next ?h) (h_agents ?h), h_procs := map_set (h_next ?h) rec (h_procs ?h), h_next := Suc (h_next ?h),
         h_acts := h_acts ?h @ [Spawn (h_next ?h) (he_execPath he) [path_join [he_repo he, ''agentd'', ''agentd.js'']]
           (path_join [hc_dataDir cfg, ''agents'', i]) env] \<rparr>)" "hr_id rec = i" "hr_proxy rec = None"
    using plain_finish [OF assms(1)] by blast
  have q: "quiet_step h ?h" by (rule prepare_dir_quiet)
  then obtain xs where xs: "h_acts ?h = h_acts h @ xs" "\<forall>x \<in> set xs. \<not> about_process x" by (auto simp: quiet_step_def)
  then have nk: "Kill p s \<notin> set xs" for p s by force
  have e: "start_caught cfg he t (plain_start i) h = snd (start_finish cfg he t (pulled cfg he (plain_pending cfg he i)) (plain_pending cfg he i) ?h)"
    unfolding start_caught_def startAgent_def plain_begin [OF assms(2,3)] by (simp add: f(1))
  have p: "h_agents ?h = h_agents h" "h_procs ?h = h_procs h" "h_next ?h = h_next h" using q by (simp_all add: quiet_step_def)
  let ?sp = "Spawn (h_next h) (he_execPath he) [path_join [he_repo he, ''agentd'', ''agentd.js'']] (path_join [hc_dataDir cfg, ''agents'', i]) env"
  have "Kill p s \<notin> set (xs @ [?sp])" for p s using nk by simp
  then show ?thesis unfolding e f(1) using f(2,3)
    by (intro exI [of _ rec] exI [of _ "xs @ [?sp]"]) (simp add: p xs(1))
qed

lemma plain_start_told:
  "h_acts h' = h_acts h @ xs \<Longrightarrow> \<forall>p s. Kill p s \<notin> set xs \<Longrightarrow> told_to_stop p h' = told_to_stop p h"
  by (auto simp: told_to_stop_def)

lemma quiet_told: "quiet_step h h' \<Longrightarrow> told_to_stop p h' = told_to_stop p h"
proof -
  assume "quiet_step h h'"
  then obtain xs where xs: "h_acts h' = h_acts h @ xs" "\<forall>x \<in> set xs. \<not> about_process x" by (auto simp: quiet_step_def)
  then have "Kill p s \<notin> set xs" for p s by force
  then show ?thesis using plain_start_told [OF xs(1)] by blast
qed

text \<open>A late exit loses the successor: an agent is stopped and started again while its old process is still shutting down; when the
  old process exits, its handler removes the entry of the new one, which keeps running, is no longer
  listed and was never told to stop, and the next assignment starts a third process of the same agent.\<close>

theorem late_exit_loses_successor:
  "\<exists>s r1 r2. s = run_ops (host_step sample_node) [Start sample_world 0 (plain_start ''a1''), Stop (JStr ''a1''),
       Start sample_world 1000 (plain_start ''a1''), Exited 0 (Some 0) 6000, Start sample_world 9000 (plain_start ''a1'')] sys_init \<and>
     h_procs (hs_host s) = [(1, r1), (2, r2)] \<and> hr_id r1 = ''a1'' \<and> hr_id r2 = ''a1'' \<and>
     h_agents (hs_host s) = [(''a1'', 2)] \<and> \<not> told_to_stop 1 (hs_host s)"
proof -
  let ?a = "plain_start ''a1''"
  have w: "plain_host sample_world" by (simp add: plain_host_def sample_world_def)
  have room: "\<not> jle (hc_maxAgents sample_node) (nat_num 0)" by (simp add: sample_node_vals jle_Fin)
  define h1 where "h1 = start_caught sample_node sample_world 0 ?a host_init"
  obtain r0 xs1 where h1: "h_agents h1 = [(''a1'', 0)]" "h_procs h1 = [(0, r0)]" "h_next h1 = 1" "hr_id r0 = ''a1''" "hr_proxy r0 = None"
      "h_acts h1 = xs1" "\<forall>p s. Kill p s \<notin> set xs1"
    using plain_start_out [OF w, of "''a1''" host_init sample_node 0] room by (auto simp: h1_def host_init_def)
  define h2 where "h2 = stopAgent (JStr ''a1'') h1"
  have h2: "h_agents h2 = []" "h_procs h2 = [(0, r0)]" "h_next h2 = 1" "\<not> told_to_stop 1 h2"
    using h1 by (simp_all add: h2_def stopAgent_def act_def close_proxy_def map_get_def map_delete_def told_to_stop_def)
  define h3 where "h3 = start_caught sample_node sample_world 1000 ?a h2"
  obtain r1 xs3 where h3: "h_agents h3 = [(''a1'', 1)]" "h_procs h3 = [(0, r0), (1, r1)]" "h_next h3 = 2" "hr_id r1 = ''a1''"
      "h_acts h3 = h_acts h2 @ xs3" "\<forall>p s. Kill p s \<notin> set xs3"
    using plain_start_out [OF w, of "''a1''" h2 sample_node 1000] room by (auto simp: h3_def h2)
  define h4 where "h4 = onExit 0 (Some 0) 6000 h3"
  obtain g where g: "quiet_step h3 g" "h4 = forget 0 r0 g"
    using onExit_forget [of 0 h3 r0 "Some 0" 6000] by (auto simp: h4_def h3(2) map_get_def)
  have h4: "h_agents h4 = []" "h_procs h4 = [(1, r1)]" "h_next h4 = 2" "told_to_stop 1 h4 = told_to_stop 1 h3"
    using g h3 h1(4) quiet_told [OF g(1), of 1] by (simp_all add: quiet_step_def forget_def drop_proc_def map_delete_def told_to_stop_def)
  define h5 where "h5 = start_caught sample_node sample_world 9000 ?a h4"
  obtain r2 xs5 where h5: "h_agents h5 = [(''a1'', 2)]" "h_procs h5 = [(1, r1), (2, r2)]" "hr_id r2 = ''a1''"
      "h_acts h5 = h_acts h4 @ xs5" "\<forall>p s. Kill p s \<notin> set xs5"
    using plain_start_out [OF w, of "''a1''" h4 sample_node 9000] room by (auto simp: h5_def h4)
  have "\<not> told_to_stop 1 h5"
    using plain_start_told [OF h5(4,5), of 1] h4(4) plain_start_told [OF h3(5,6), of 1] h2(4) by simp
  moreover have "hs_host (run_ops (host_step sample_node) [Start sample_world 0 ?a, Stop (JStr ''a1''), Start sample_world 1000 ?a,
      Exited 0 (Some 0) 6000, Start sample_world 9000 ?a] sys_init) = h5"
    by (simp add: run_ops_def host_step_def on_host_def sys_init_def h5_def h4_def h3_def h2_def h1_def)
  ultimately show ?thesis using h5 h3(4) by auto
qed

text \<open>Starts that overlap break the budget: with room for one agent, two starts that both pass the check before either
  of them has its bundle leave two agents on the node (a heartbeat does not wait for the one before).\<close>

theorem overlapping_starts_exceed_budget:
  "\<exists>cfg s. hc_maxAgents cfg = nat_num 1 \<and>
     s = run_ops (host_step cfg) [Begin sample_world (plain_start ''a1''), Begin sample_world (plain_start ''a2''),
       Finish sample_world 0 0 (Inr []), Finish sample_world 0 0 (Inr [])] sys_init \<and>
     map_keys (h_agents (hs_host s)) = [''a1'', ''a2'']"
proof -
  define cfg where "cfg = sample_node\<lparr> hc_maxAgents := Fin 1 \<rparr>"
  have w: "plain_host sample_world" by (simp add: plain_host_def sample_world_def)
  have room: "\<not> jle (hc_maxAgents cfg) (nat_num 0)" by (simp add: cfg_def jle_Fin)
  let ?d1 = "path_join [hc_dataDir cfg, ''agents'', ''a1'']" and ?d2 = "path_join [hc_dataDir cfg, ''agents'', ''a2'']"
  define h1 where "h1 = prepare_dir (plain_start ''a1'') ?d1 host_init"
  have e1: "h_agents h1 = []" "h_procs h1 = []" using prepare_dir_quiet [of host_init "plain_start ''a1''" ?d1]
    by (simp_all add: h1_def quiet_step_def host_init_def)
  have b1: "start_begin cfg sample_world (plain_start ''a1'') host_init = (Inr (Some (plain_pending cfg sample_world ''a1'')), h1)"
    unfolding h1_def by (rule plain_begin) (use room in \<open>simp_all add: host_init_def\<close>)
  define h2 where "h2 = prepare_dir (plain_start ''a2'') ?d2 h1"
  have e2: "h_agents h2 = []" using prepare_dir_quiet [of h1 "plain_start ''a2''" ?d2] by (simp add: h2_def quiet_step_def e1)
  have b2: "start_begin cfg sample_world (plain_start ''a2'') h1 = (Inr (Some (plain_pending cfg sample_world ''a2'')), h2)"
    unfolding h2_def by (rule plain_begin) (use room in \<open>simp_all add: e1\<close>)
  let ?p1 = "plain_pending cfg sample_world ''a1''" and ?p2 = "plain_pending cfg sample_world ''a2''"
  define h3 where "h3 = snd (start_finish cfg sample_world 0 (Inr []) ?p1 h2)"
  have e3: "h_agents h3 = [(''a1'', h_next h2)]"
    using plain_finish [OF w, of cfg 0 "Inr []" "''a1''" h2] by (elim exE conjE) (simp add: h3_def e2)
  define h4 where "h4 = snd (start_finish cfg sample_world 0 (Inr []) ?p2 h3)"
  have e4: "map_keys (h_agents h4) = [''a1'', ''a2'']"
    using plain_finish [OF w, of cfg 0 "Inr []" "''a2''" h3] by (elim exE conjE) (simp add: h4_def e3)
  have s1: "host_step cfg sys_init (Begin sample_world (plain_start ''a1'')) = \<lparr> hs_host = h1, hs_pending = [?p1] \<rparr>"
    by (simp add: begin_step sys_init_def b1)
  have s2: "host_step cfg \<lparr> hs_host = h1, hs_pending = [?p1] \<rparr> (Begin sample_world (plain_start ''a2'')) = \<lparr> hs_host = h2, hs_pending = [?p1, ?p2] \<rparr>"
    by (simp add: begin_step b2)
  have f: "host_step cfg \<lparr> hs_host = h, hs_pending = pd # pds \<rparr> (Finish he t 0 got) = \<lparr> hs_host = snd (start_finish cfg he t got pd h), hs_pending = pds \<rparr>"
    for h pd pds he t got by (simp add: host_step_def)
  have "run_ops (host_step cfg) [Begin sample_world (plain_start ''a1''), Begin sample_world (plain_start ''a2''),
       Finish sample_world 0 0 (Inr []), Finish sample_world 0 0 (Inr [])] sys_init = \<lparr> hs_host = h4, hs_pending = [] \<rparr>"
    unfolding run_ops_def foldl_Cons foldl_Nil s1 s2 f h3_def [symmetric] h4_def [symmetric] ..
  moreover have "hc_maxAgents cfg = nat_num 1" by (simp add: cfg_def)
  ultimately show ?thesis using e4 by (intro exI [of _ cfg] exI [of _ "\<lparr> hs_host = h4, hs_pending = [] \<rparr>"]) simp
qed

theorem node_keeps_budget_witness:
  "length (h_agents (hs_host (run_ops (host_step sample_node) [Start sample_world 0 (plain_start ''a1''), Stop (JStr ''a1'')] sys_init))) \<le> 5"
  by (rule node_keeps_budget) (simp_all add: sample_node_vals)

lemma running_start_ignored: "map_get i (h_agents h) = Some p \<Longrightarrow> start_caught cfg he t (plain_start i) h = h"
  by (simp add: start_caught_def startAgent_def start_begin_def plain_start_get text_arg_def liftS_def map_has_def)

lemma plain_host_started:
  "\<exists>r. h_agents (hs_host (host_step sample_node sys_init (Start sample_world 0 (plain_start ''a1'')))) = [(''a1'', 0)] \<and>
     h_procs (hs_host (host_step sample_node sys_init (Start sample_world 0 (plain_start ''a1'')))) = [(0, r)] \<and>
     hr_proxy r = None \<and> hr_id r = ''a1'' \<and> h_timers (hs_host (host_step sample_node sys_init (Start sample_world 0 (plain_start ''a1'')))) = []"
proof -
  have w: "plain_host sample_world" by (simp add: plain_host_def sample_world_def)
  have room: "\<not> jle (hc_maxAgents sample_node) (nat_num 0)" by (simp add: sample_node_vals jle_Fin)
  obtain r where r: "h_agents (hs_host (host_step sample_node sys_init (Start sample_world 0 (plain_start ''a1'')))) = [(''a1'', 0)]"
      "h_procs (hs_host (host_step sample_node sys_init (Start sample_world 0 (plain_start ''a1'')))) = [(0, r)]" "hr_proxy r = None" "hr_id r = ''a1''"
    using plain_start_out [OF w, of "''a1''" host_init sample_node 0] room
    by (auto simp: host_init_def sys_init_def host_step_def on_host_def)
  have "timers_for {} (start_caught sample_node sample_world 0 (plain_start ''a1'') host_init)"
    by (rule timers_start) (simp add: timers_for_def host_init_def)
  moreover have "host_ok (start_caught sample_node sample_world 0 (plain_start ''a1'') host_init)"
    using host_init_ok by (simp add: start_caught_ok sys_init_def)
  ultimately have "h_timers (hs_host (host_step sample_node sys_init (Start sample_world 0 (plain_start ''a1'')))) = []"
    using r(1,2) by (cases "h_timers (start_caught sample_node sample_world 0 (plain_start ''a1'') host_init)")
      (auto simp: timers_for_def host_ok_def timer_ok_def host_step_def on_host_def sys_init_def map_get_def split: if_splits)
  then show ?thesis using r by blast
qed

theorem no_process_escapes_witness:
  "\<exists>s r. s = run_ops (host_step sample_node) [Start sample_world 0 (plain_start ''a1''), Start sample_world 5 (plain_start ''a1''),
       Stop (JStr ''a1'')] sys_init \<and>
     map_get 0 (h_procs (hs_host s)) = Some r \<and> h_agents (hs_host s) = [] \<and> Kill 0 ''SIGTERM'' \<in> set (h_acts (hs_host s))"
proof -
  let ?a = "plain_start ''a1''"
  let ?s1 = "host_step sample_node sys_init (Start sample_world 0 ?a)" and ?o = "Stop (JStr ''a1'')"
  let ?s2 = "host_step sample_node ?s1 (Start sample_world 5 ?a)"
  obtain r where h1: "h_agents (hs_host ?s1) = [(''a1'', 0)]" "h_procs (hs_host ?s1) = [(0, r)]" "hr_proxy r = None" "hr_id r = ''a1''"
    using plain_host_started by blast
  have e: "?s2 = ?s1" using h1(1) by (simp add: host_step_def [of _ _ "Start sample_world 5 ?a"] on_host_def running_start_ignored map_get_def)
  have "orderly sample_node ?s1"
    by (rule orderly.step [OF orderly.init]) (simp add: orderly_op_def sys_init_def host_init_def)
  then have "orderly sample_node ?s2"
    by (rule orderly.step) (use h1 in \<open>simp add: orderly_op_def map_get_def\<close>)
  then have o: "orderly sample_node (host_step sample_node ?s2 ?o)" by (rule orderly.step) (simp add: orderly_op_def)
  have p: "h_agents (hs_host (host_step sample_node ?s2 ?o)) = []" "map_get 0 (h_procs (hs_host (host_step sample_node ?s2 ?o))) = Some r"
    using h1 by (simp_all add: e host_step_def [of _ _ ?o] on_host_def stopAgent_def act_def close_proxy_def map_get_def map_delete_def)
  show ?thesis
    using no_process_escapes [OF o p(2)] p by (intro exI [of _ "host_step sample_node ?s2 ?o"] exI [of _ r]) (simp add: run_ops_def)
qed

section \<open>A failure to spawn leaves the sidecar\<close>

text \<open>The handler of a spawn error forgets the agent and its sidecar, and runs no command: the container stays.\<close>

lemma spawn_failure_leaves_sidecar:
  assumes "host_ok h" "map_get p (h_procs h) = Some r" "hr_proxy r = Some (rt, name)"
  shows "map_get (hr_id r) (h_agents (onError p t h)) = None" "map_get p (h_procs (onError p t h)) = None"
    "\<exists>xs. h_acts (onError p t h) = h_acts h @ xs \<and> (\<forall>c args. Exec c args \<notin> set xs)"
proof -
  show "map_get (hr_id r) (h_agents (onError p t h)) = None" "map_get p (h_procs (onError p t h)) = None"
    by (simp_all add: onError_def assms(2) drop_proc_def)
  show "\<exists>xs. h_acts (onError p t h) = h_acts h @ xs \<and> (\<forall>c args. Exec c args \<notin> set xs)"
    by (simp add: onError_def assms(2) drop_proc_def reportAgent_def act_def)
qed

text \<open>Nor does it cancel the SIGKILL of a stop that came before the error: no exit is reported of a process that never ran.\<close>

theorem spawn_failure_keeps_timer:
  "\<exists>s. s = run_ops (host_step sample_node) [Start sample_world 0 (plain_start ''a1''), Stop (JStr ''a1''), Spawn_Failed 0 10] sys_init \<and>
     h_procs (hs_host s) = [] \<and> h_timers (hs_host s) = [0]"
proof -
  let ?s1 = "host_step sample_node sys_init (Start sample_world 0 (plain_start ''a1''))"
  obtain r where "h_agents (hs_host ?s1) = [(''a1'', 0)]" "h_procs (hs_host ?s1) = [(0, r)]" "hr_proxy r = None" "h_timers (hs_host ?s1) = []"
    using plain_host_started by blast
  then show ?thesis
    by (simp add: run_ops_def host_step_def [of _ _ "Stop k" for k] host_step_def [of _ _ "Spawn_Failed p t" for p t] on_host_def stopAgent_def
        act_def close_proxy_def onError_def drop_proc_def reportAgent_def map_get_def map_delete_def)
qed

end
