(* ===== verification/Agentd.thy ===== *)
theory Agentd
  imports Agent_Env Js_Text
begin

text \<open>
  agentd/agentd.js: the reference workload, a paper trader. Its environment and the parsed
  configuration file give the settings; a run is a sequence of events: a timer tick with the random
  numbers it draws, the signer's answer to the intent the last tick waits for, the signal to shut down.
  Log texts are not kept. What it writes and posts is recorded in a list.
\<close>

record trader_cfg =
  tc_SIGNER :: string
  tc_AGENT_ID :: string
  tc_EPOCH :: jsnum
  tc_SESSION :: string
  tc_ADDRESS :: string
  tc_NAME :: string
  tc_cfg :: "(string, jsval) jmap"

text \<open>\<open>{ ...defaults, ...parsed }\<close>: \<open>None\<close> when the file cannot be read or is not JSON.\<close>

definition default_cfg :: "(string, jsval) jmap" where
  "default_cfg = [(''scanIntervalMs'', JNum (Fin 5000)), (''paperTrading'', JBool True), (''strategy'', JStr ''dip-reversal''),
     (''tradeSizeSol'', JNum (fl (1 / 100)))]"

definition load_cfg :: "jsval option \<Rightarrow> (string, jsval) jmap" where
  "load_cfg parsed = (case parsed of None \<Rightarrow> default_cfg | Some v \<Rightarrow> fold (\<lambda>(k, x). map_set k x) (obj_entries v) default_cfg)"

definition trader_config :: "src_env \<Rightarrow> jsval option \<Rightarrow> trader_cfg" where
  "trader_config src parsed =
     \<lparr> tc_SIGNER = env_or src ''CIRCUIT_SIGNER_URL'' [], tc_AGENT_ID = env_or src ''CIRCUIT_AGENT_ID'' [],
       tc_EPOCH = (case src ''CIRCUIT_AGENT_EPOCH'' of Some v \<Rightarrow> if v = [] then Fin 0 else str_num v | None \<Rightarrow> Fin 0),
       tc_SESSION = env_or src ''CIRCUIT_AGENT_SESSION'' [], tc_ADDRESS = env_or src ''CIRCUIT_AGENT_ADDRESS'' [],
       tc_NAME = env_or src ''AGENT_NAME'' ''agent'', tc_cfg = load_cfg parsed \<rparr>"

definition cfg_get :: "string \<Rightarrow> trader_cfg \<Rightarrow> jsval" where
  "cfg_get k c = jopt (JObj (tc_cfg c)) k"

section \<open>Asking the signer\<close>

datatype sign_reply = No_Answer | Answer nat "jsval option"

definition intent_body :: "trader_cfg \<Rightarrow> string \<Rightarrow> string \<Rightarrow> jsval \<Rightarrow> jsval" where
  "intent_body c kind token sz = JObj [(''epoch'', JNum (tc_EPOCH c)), (''token'', JStr (tc_SESSION c)),
     (''intent'', JObj [(''kind'', JStr kind), (''token'', JStr token), (''sizeSol'', sz)])]"

definition intent_url :: "trader_cfg \<Rightarrow> string" where
  "intent_url c = tc_SIGNER c @ ''/v1/agents/'' @ tc_AGENT_ID c @ ''/intent''"

definition unreachable :: jsval where
  "unreachable = JObj [(''ok'', JBool False), (''code'', JStr ''signer-unreachable''), (''error'', JStr [])]"

text \<open>What \<open>signTrade\<close> makes of the answer; without a signer there is nothing to ask.\<close>

definition sign_result :: "trader_cfg \<Rightarrow> sign_reply \<Rightarrow> jsval" where
  "sign_result c reply =
     (if tc_SIGNER c = [] then JObj [(''ok'', JBool True), (''code'', JStr ''paper-local''), (''signature'', JNull)]
      else case reply of
          No_Answer \<Rightarrow> unreachable
        | Answer status body \<Rightarrow>
            let j = (case body of Some v \<Rightarrow> v | None \<Rightarrow> JObj [])
            in if 200 \<le> status \<and> status < 300 then j
               else case jget j ''code'' of
                   Inl _ \<Rightarrow> unreachable
                 | Inr code \<Rightarrow> JObj [(''ok'', JBool False), (''code'', str_or code (JStr (''http-'' @ nat_str status))), (''error'', jopt j ''error'')])"

section \<open>The scans\<close>

record position =
  po_symbol :: string
  po_sizeSol :: jsval

datatype trader_act = Intent string jsval | Heartbeat jsval

text \<open>\<open>td_waiting\<close> is the token and the size of the entry that waits for the signer (inside \<open>tick\<close>, \<open>busy\<close> set);
  \<open>td_crashed\<close> tells that a tick threw, which ends the process.\<close>

record trader =
  td_scans :: nat
  td_pnlPct :: jsnum
  td_positions :: "position list"
  td_running :: bool
  td_signedTrades :: nat
  td_busy :: bool
  td_waiting :: "(string \<times> jsval) option"
  td_crashed :: bool
  td_acts :: "trader_act list"

definition trader_init :: trader where
  "trader_init = \<lparr> td_scans = 0, td_pnlPct = Fin 0, td_positions = [], td_running = True, td_signedTrades = 0, td_busy = False,
     td_waiting = None, td_crashed = False, td_acts = [] \<rparr>"

text \<open>\<open>+x.toFixed(2)\<close>: two decimals, ties away from zero.\<close>

fun fixed2 :: "jsnum \<Rightarrow> jsnum" where
  "fixed2 (Fin q) = (if 10 ^ 21 \<le> \<bar>q\<bar> then Fin q
     else if q < 0 then jneg (fl (of_int \<lfloor>- q * 100 + 1 / 2\<rfloor> / 100)) else fl (of_int \<lfloor>q * 100 + 1 / 2\<rfloor> / 100))"
| "fixed2 x = x"

definition position_val :: "position \<Rightarrow> jsval" where
  "position_val p = JObj [(''symbol'', JStr (po_symbol p)), (''entryPnl'', JNum (Fin 0)), (''sizeSol'', po_sizeSol p)]"

text \<open>\<open>t\<close> is the clock, \<open>t0\<close> the time the process started.\<close>

definition heartbeat :: "trader_cfg \<Rightarrow> int \<Rightarrow> int \<Rightarrow> string \<Rightarrow> trader \<Rightarrow> trader" where
  "heartbeat c t0 t state s = s\<lparr> td_acts := td_acts s @ [Heartbeat (JObj [(''ts'', JNum (int_num t)), (''state'', JStr state),
     (''name'', JStr (tc_NAME c)), (''uptimeS'', JNum (jround (jdiv (int_num (t - t0)) (Fin 1000)))), (''scans'', JNum (nat_num (td_scans s))),
     (''pnlPct'', JNum (fixed2 (td_pnlPct s))), (''positions'', JArr (map position_val (td_positions s))),
     (''paper'', JBool (\<not> strict_eq (cfg_get ''paperTrading'' c) (JBool False))),
     (''custody'', JStr (if tc_SIGNER c \<noteq> [] then ''offbox-signer'' else ''local'')),
     (''address'', if tc_ADDRESS c \<noteq> [] then JStr (tc_ADDRESS c) else JUndef), (''signedTrades'', JNum (nat_num (td_signedTrades s)))])] \<rparr>"

text \<open>A tick up to the signer's answer: \<open>r\<close> and \<open>r2\<close> are what \<open>Math.random()\<close> returns.\<close>

definition tick :: "trader_cfg \<Rightarrow> int \<Rightarrow> int \<Rightarrow> jsnum \<Rightarrow> jsnum \<Rightarrow> trader \<Rightarrow> trader" where
  "tick c t0 t r r2 s0 =
     (if \<not> td_running s0 \<or> td_busy s0 then s0
      else let s = s0\<lparr> td_busy := True, td_scans := Suc (td_scans s0) \<rparr>
        in if td_positions s = [] \<and> jlt r (fl (3 / 10)) then
             let token = ''TKN'' @ nat_str (td_scans s);
                 sz = (let v = cfg_get ''tradeSizeSol'' c in if nullish v then JNum (fl (1 / 100)) else v)
             in s\<lparr> td_waiting := Some (token, sz), td_acts := td_acts s @ (if tc_SIGNER c = [] then [] else [Intent (intent_url c) (intent_body c ''buy'' token sz)]) \<rparr>
           else if td_positions s \<noteq> [] \<and> jlt r (fl (4 / 10)) then
             let realized = jmul (jsub r2 (fl (45 / 100))) (Fin 4)
             in (heartbeat c t0 t ''running'' (s\<lparr> td_positions := butlast (td_positions s), td_pnlPct := jadd (td_pnlPct s) realized \<rparr>))\<lparr> td_busy := False \<rparr>
           else (heartbeat c t0 t ''running'' s)\<lparr> td_busy := False \<rparr>)"

text \<open>
  The rest of that tick: the entry is made only when the answer says so. An answer that cannot be read
  throws, and so does printing it when the log line cannot be made of it.
\<close>

definition logged_buy :: "jsval \<Rightarrow> jsval \<Rightarrow> bool" where
  "logged_buy sz sig =
     (isOk (to_str sz) \<and> (\<not> truthy (jopt sig ''signature'') \<or>
        (case jopt sig ''signature'' of JStr s \<Rightarrow> True | JArr xs \<Rightarrow> isOk (to_str (JArr (take 16 xs))) | _ \<Rightarrow> False)))"

definition logged_denial :: "jsval \<Rightarrow> bool" where
  "logged_denial sig = (isOk (to_str (jopt sig ''code'')) \<and> isOk (to_str (str_or (jopt sig ''error'') (JStr []))))"

definition crash :: "trader \<Rightarrow> trader" where
  "crash s = s\<lparr> td_busy := False, td_crashed := True \<rparr>"

definition tick_end :: "trader_cfg \<Rightarrow> int \<Rightarrow> int \<Rightarrow> sign_reply \<Rightarrow> trader \<Rightarrow> trader" where
  "tick_end c t0 t reply s =
     (case td_waiting s of
        None \<Rightarrow> s
      | Some (token, sz) \<Rightarrow>
          let sig = sign_result c reply; s1 = s\<lparr> td_waiting := None \<rparr>
          in case jget sig ''ok'' of
               Inl _ \<Rightarrow> crash s1
             | Inr ok \<Rightarrow>
                 if truthy ok then
                   let s2 = s1\<lparr> td_signedTrades := Suc (td_signedTrades s1),
                                td_positions := td_positions s1 @ [\<lparr> po_symbol = token, po_sizeSol = sz \<rparr>] \<rparr>
                   in if logged_buy sz sig then (heartbeat c t0 t ''running'' s2)\<lparr> td_busy := False \<rparr> else crash s2
                 else if logged_denial sig then (heartbeat c t0 t ''running'' s1)\<lparr> td_busy := False \<rparr>
                 else crash s1)"

definition stop_trader :: "trader_cfg \<Rightarrow> int \<Rightarrow> int \<Rightarrow> trader \<Rightarrow> trader" where
  "stop_trader c t0 t s = heartbeat c t0 t ''stopped'' (s\<lparr> td_running := False \<rparr>)"

datatype trader_ev = Tick int jsnum jsnum | Answered int sign_reply | Signal int

text \<open>Nothing happens any more once the process has ended.\<close>

definition trader_step :: "trader_cfg \<Rightarrow> int \<Rightarrow> trader \<Rightarrow> trader_ev \<Rightarrow> trader" where
  "trader_step c t0 s ev =
     (if td_crashed s \<or> \<not> td_running s then s
      else case ev of
          Tick t r r2 \<Rightarrow> tick c t0 t r r2 s
        | Answered t reply \<Rightarrow> tick_end c t0 t reply s
        | Signal t \<Rightarrow> stop_trader c t0 t s)"

section \<open>The life of a position\<close>

text \<open>The abstract trader: flat, asking for an entry, holding one position, or ended.\<close>

datatype phase = Flat | Asking string | Holding string | Ended

definition phase_of :: "trader \<Rightarrow> phase" where
  "phase_of s =
     (if td_crashed s \<or> \<not> td_running s then Ended
      else case td_waiting s of
          Some (token, sz) \<Rightarrow> Asking token
        | None \<Rightarrow> (case td_positions s of [] \<Rightarrow> Flat | p # _ \<Rightarrow> Holding (po_symbol p)))"

definition signed :: "trader_cfg \<Rightarrow> sign_reply \<Rightarrow> bool" where
  "signed c reply = truthy (jopt (sign_result c reply) ''ok'')"

inductive trades :: "trader_cfg \<Rightarrow> phase \<Rightarrow> trader_ev \<Rightarrow> phase \<Rightarrow> bool" for c where
  ask: "trades c Flat (Tick t r r2) (Asking token)"
| enter: "signed c reply \<Longrightarrow> trades c (Asking token) (Answered t reply) (Holding token)"
| refused: "\<not> signed c reply \<Longrightarrow> trades c (Asking token) (Answered t reply) Flat"
| crashed: "trades c (Asking token) (Answered t reply) Ended"
| leave: "trades c (Holding token) (Tick t r r2) Flat"
| idle: "trades c p (Tick t r r2) p"
| stray: "p \<noteq> Asking token \<Longrightarrow> trades c p (Answered t reply) p"
| quit: "trades c p (Signal t) Ended"
| over: "trades c Ended ev Ended"

inductive_simps trades_asking: "trades c (Asking token) ev q"

definition trader_ok :: "trader \<Rightarrow> bool" where
  "trader_ok s = (length (td_positions s) \<le> 1 \<and> (td_waiting s \<noteq> None \<longrightarrow> td_positions s = [] \<and> td_busy s) \<and>
     (td_busy s \<longrightarrow> td_waiting s \<noteq> None))"

lemma heartbeat_keeps: "td_positions (heartbeat c t0 t st s) = td_positions s" "td_waiting (heartbeat c t0 t st s) = td_waiting s"
  "td_busy (heartbeat c t0 t st s) = td_busy s" "td_running (heartbeat c t0 t st s) = td_running s"
  "td_crashed (heartbeat c t0 t st s) = td_crashed s" "td_signedTrades (heartbeat c t0 t st s) = td_signedTrades s"
  by (simp_all add: heartbeat_def)

lemma tick_ok: "trader_ok s \<Longrightarrow> trader_ok (tick c t0 t r r2 s)"
  by (auto simp: tick_def trader_ok_def heartbeat_keeps Let_def)

lemma tick_end_ok: "trader_ok s \<Longrightarrow> trader_ok (tick_end c t0 t reply s)"
  by (auto simp: tick_end_def trader_ok_def heartbeat_keeps crash_def Let_def split: option.split sum.split)

lemma trader_step_ok: "trader_ok s \<Longrightarrow> trader_ok (trader_step c t0 s ev)"
  by (cases ev) (auto simp: trader_step_def tick_ok tick_end_ok stop_trader_def, auto simp: trader_ok_def heartbeat_keeps)

interpretation trader_runs: invariant_system "trader_step c t0" "\<lambda>_. True" trader_ok for c t0
  by unfold_locales (rule trader_step_ok)

lemma tick_phase:
  assumes "trader_ok s" "\<not> td_crashed s" "td_running s"
  shows "trades c (phase_of s) (Tick t r r2) (phase_of (tick c t0 t r r2 s))"
proof (cases "td_busy s")
  case True
  then show ?thesis by (simp add: tick_def trades.idle)
next
  case False
  then have w: "td_waiting s = None" using assms(1) unfolding trader_ok_def by blast
  show ?thesis
  proof (cases "td_positions s")
    case Nil
    then show ?thesis using False w assms
      by (auto simp: tick_def phase_of_def Let_def heartbeat_keeps intro: trades.ask trades.idle)
  next
    case (Cons p ps)
    then have "ps = []" using assms(1) by (simp add: trader_ok_def)
    then show ?thesis using Cons False w assms
      by (auto simp: tick_def phase_of_def Let_def heartbeat_keeps intro: trades.leave trades.idle)
  qed
qed

lemma tick_end_phase:
  assumes "trader_ok s" "\<not> td_crashed s" "td_running s"
  shows "trades c (phase_of s) (Answered t reply) (phase_of (tick_end c t0 t reply s))"
proof (cases "td_waiting s")
  case None
  have "trades c (phase_of s) (Answered t reply) (phase_of s)"
    using assms None by (cases "td_positions s") (auto simp: phase_of_def intro: trades.stray)
  then show ?thesis by (simp add: tick_end_def None)
next
  case (Some w)
  obtain token sz where w: "w = (token, sz)" by (cases w)
  have p: "td_positions s = []" using assms(1) Some by (simp add: trader_ok_def)
  have a: "phase_of s = Asking token" using assms by (simp add: phase_of_def Some w)
  show ?thesis
  proof (cases "jget (sign_result c reply) ''ok''")
    case (Inl e)
    then show ?thesis by (simp add: tick_end_def Some w Let_def a crash_def phase_of_def trades.crashed trades.over)
  next
    case (Inr ok)
    then have sg: "signed c reply = truthy ok" by (simp add: signed_def jopt_def)
    show ?thesis
      using assms p sg unfolding a
      by (auto simp: tick_end_def Some w Let_def Inr phase_of_def heartbeat_keeps crash_def intro: trades.intros)
  qed
qed

text \<open>Entries and the answers that allowed them.\<close>

definition granted :: "trader_cfg \<Rightarrow> trader_ev \<Rightarrow> bool" where
  "granted c ev = (case ev of Answered t reply \<Rightarrow> signed c reply | _ \<Rightarrow> False)"

lemma trades_counted:
  "td_signedTrades (trader_step c t0 s ev) \<le> td_signedTrades s + (if granted c ev then 1 else 0)"
proof (cases ev)
  case (Answered t reply)
  show ?thesis
    by (auto simp: Answered trader_step_def tick_end_def granted_def signed_def jopt_def Let_def heartbeat_keeps crash_def
        split: option.split sum.split)
qed (auto simp: trader_step_def tick_def stop_trader_def heartbeat_keeps Let_def granted_def)

lemma run_counted:
  "td_signedTrades (run_ops (trader_step c t0) evs s) \<le> td_signedTrades s + length (filter (granted c) evs)"
proof (induction evs arbitrary: s)
  case (Cons ev evs)
  have "run_ops (trader_step c t0) (ev # evs) s = run_ops (trader_step c t0) evs (trader_step c t0 s ev)" by (simp add: run_ops_def)
  then show ?case using Cons [of "trader_step c t0 s ev"] trades_counted [of c t0 s ev] by (simp split: if_splits)
qed (simp add: run_ops_def)

text \<open>C20. The reference workload is a refinement of the abstract trader: whatever the timer, the signer and the operator do, every event
  moves it as the abstract trader allows, so a position is entered only on an answer that grants
  it, never while another is held or asked for, and at most one is ever held; the trades it counts as signed
  are no more than the answers that granted one.\<close>

theorem trader_refines_phases:
  fixes c :: trader_cfg and evs :: "trader_ev list" and t0 :: int and ev :: trader_ev
  defines "s \<equiv> run_ops (trader_step c t0) evs trader_init"
  shows "trades c (phase_of s) ev (phase_of (trader_step c t0 s ev)) \<and> length (td_positions s) \<le> 1 \<and>
    td_signedTrades s \<le> length (filter (granted c) evs)"
proof -
  have "trader_ok trader_init" by (simp add: trader_ok_def trader_init_def)
  then have ok: "trader_ok s" unfolding s_def by (rule trader_runs.run_inv) simp
  have "trades c (phase_of s) ev (phase_of (trader_step c t0 s ev))"
  proof (cases "td_crashed s \<or> \<not> td_running s")
    case True
    then show ?thesis by (simp add: trader_step_def phase_of_def trades.over)
  next
    case False
    then show ?thesis using tick_phase [OF ok] tick_end_phase [OF ok]
      by (cases ev) (auto simp: trader_step_def stop_trader_def phase_of_def heartbeat_keeps intro: trades.quit)
  qed
  then show ?thesis using ok run_counted [of c t0 evs trader_init] by (simp add: trader_ok_def s_def trader_init_def)
qed

end
