(* ===== verification/Custody_Chain.thy ===== *)
theory Custody_Chain
  imports Fencing Agentd
begin

text \<open>
  The way of a session: from the signer that opens it over the control plane's assignment and the environment the
  node host builds to the intent the reference workload posts back to the signer.
\<close>

lemma session_granted:
  assumes "cc_SIGNER_URL cfg \<noteq> []" "ca_nodeId a = JStr m" "m \<noteq> []"
    and "case ca_session a of Some l \<Rightarrow> \<not> strict_eq (le_node l) (JStr m) | None \<Rightarrow> True"
    and "map_get (ca_id a) (sn_agents sg) = Some ag" "bearer_auth (cf_KEY scfg) bearer = Inr ()"
  shows "ca_session (ensureSession cfg (session_reply scfg bearer t rtoken (ca_id a) sg) a) =
      Some \<lparr> le_epoch = JNum (nat_num (epoch_of ag + 1)), le_token = JStr rtoken, le_node = JStr m \<rparr>"
    "\<exists>ag'. map_get (ca_id a) (sn_agents (snd (post_session scfg bearer t rtoken (ca_id a) (sc_body (session_call a)) sg))) = Some ag' \<and>
      ag_session ag' = Some \<lparr> ss_epoch = epoch_of ag + 1, ss_tokenHash = sha256hex (cf_crypto scfg) rtoken, ss_node = JStr m, ss_openedAt = t \<rparr>"
proof -
  let ?s = "\<lparr> ss_epoch = epoch_of ag + 1, ss_tokenHash = sha256hex (cf_crypto scfg) rtoken, ss_node = JStr m, ss_openedAt = t \<rparr>"
  let ?v = "JObj [(''agentId'', ag_id ag), (''address'', JStr (ag_address ag)), (''epoch'', JNum (nat_num (epoch_of ag + 1))),
     (''token'', JStr rtoken), (''paper'', JBool (po_paper (ag_policy ag)))]"
  have p: "post_session scfg bearer t rtoken (ca_id a) (sc_body (session_call a)) sg =
      (Inr ?v, put_agent (ca_id a) (ag\<lparr> ag_session := Some ?s \<rparr>) sg)"
    using assms(2,3,5,6) by (simp add: post_session_def session_call_def Let_def epoch_of_def)
  have c: "signerApi (session_reply scfg bearer t rtoken (ca_id a) sg (session_call a)) = Inr ?v"
    by (simp add: session_reply_def p signerApi_def)
  show "ca_session (ensureSession cfg (session_reply scfg bearer t rtoken (ca_id a) sg) a) =
      Some \<lparr> le_epoch = JNum (nat_num (epoch_of ag + 1)), le_token = JStr rtoken, le_node = JStr m \<rparr>"
    using assms(1-4) c by (simp add: ensureSession_def jopt_def split: option.splits)
  show "\<exists>ag'. map_get (ca_id a) (sn_agents (snd (post_session scfg bearer t rtoken (ca_id a) (sc_body (session_call a)) sg))) = Some ag' \<and>
      ag_session ag' = Some ?s"
    by (simp add: p put_agent_def)
qed

lemma signer_block_get:
  assumes "ca_session a = Some l" "cc_SIGNER_PUBLIC_URL cfg \<noteq> []"
  shows "truthy (signerBlockFor cfg a)" "jopt (signerBlockFor cfg a) ''url'' = JStr (cc_SIGNER_PUBLIC_URL cfg)"
    "jopt (signerBlockFor cfg a) ''token'' = le_token l" "jopt (signerBlockFor cfg a) ''epoch'' = le_epoch l"
  using assms by (simp_all add: signerBlockFor_def jopt_def)

lemma assigned_signer: "jopt (jopt (start_assignment cfg a) ''agent'') ''signer'' = signerBlockFor cfg a"
  by (simp add: start_assignment_def jopt_def)

section \<open>How long a session lasts\<close>

text \<open>The session of an agent in the signer's table.\<close>

definition session_is :: "string \<Rightarrow> session option \<Rightarrow> signer \<Rightarrow> bool" where
  "session_is k x st = (\<exists>a. map_get k (sn_agents st) = Some a \<and> ag_session a = x)"

lemma session_is_put: "session_is k x st \<Longrightarrow> (l = k \<Longrightarrow> ag_session a = x) \<Longrightarrow> sn_agents st' = sn_agents st \<Longrightarrow> session_is k x (put_agent l a st')"
  by (auto simp: session_is_def put_agent_def map_get_set)

lemma session_of: "session_is k x st \<Longrightarrow> map_get k (sn_agents st) = Some a \<Longrightarrow> ag_session a = x"
  by (auto simp: session_is_def)

lemma session_is_cong: "session_is k x st \<Longrightarrow> sn_agents st' = sn_agents st \<Longrightarrow> session_is k x st'"
  by (simp add: session_is_def)

lemma create_session:
  assumes "session_is k x st" "map_get l (sn_agents st) = None"
  shows "session_is k x (snd (create_agent cfg now rnd iv i l p v w st))"
  using assms by (auto simp: create_agent_def Let_def session_is_def put_agent_def map_get_set split: sum.split)

lemma update_session:
  assumes "session_is k x st" "map_get l (sn_agents st) = Some a"
  shows "session_is k x (snd (update_agent now l p v w a st))"
  using assms by (auto simp: update_agent_def Let_def intro!: session_is_put dest: session_of split: sum.split)

lemma signer_handlers_session:
  assumes "session_is k x st"
  shows "session_is k x (snd (put_policy cfg b now l body st))" "session_is k x (snd (put_owner cfg b now l body st))"
    "session_is k x (snd (post_agents cfg b now rnd iv body st))" "l \<noteq> k \<Longrightarrow> session_is k x (snd (post_session cfg b now t l body st))"
    "l \<noteq> k \<Longrightarrow> session_is k x (snd (destroy_commit l st))"
      apply (use assms in \<open>auto simp: put_policy_def Let_def intro!: session_is_put dest: session_of split: sum.split option.split\<close>)[1]
     apply (use assms in \<open>auto simp: put_owner_def Let_def intro!: session_is_put dest: session_of split: sum.split option.split\<close>)[1]
    apply (use assms create_session update_session in \<open>auto simp: post_agents_def split: sum.split option.split\<close>)[1]
   apply (use assms in \<open>auto simp: post_session_def Let_def intro!: session_is_put split: sum.split option.split\<close>)[1]
  using assms by (auto simp: destroy_commit_def session_is_def map_get_delete)

lemma begin_session:
  assumes "session_is k x st"
  shows "session_is k x (snd (intent_begin cfg now l body st))"
proof (cases "map_get l (sn_agents st)")
  case None
  then show ?thesis using assms by (simp add: intent_begin_def)
next
  case (Some a)
  have r: "ag_session (roll_day now a) = ag_session a" by (simp add: roll_day_def)
  have c: "session_is k x (st\<lparr> sn_vnonce := vs \<rparr>)" for vs using assms by (rule session_is_cong) simp
  have p: "session_is k x (put_agent l (roll_day now a) (st\<lparr> sn_vnonce := vs \<rparr>))"
     "session_is k x (put_agent l ((roll_day now a)\<lparr> ag_daySpentSol := y, ag_lastTradeTs := now \<rparr>) (st\<lparr> sn_vnonce := vs \<rparr>))" for vs y
    using assms Some r by (auto intro!: session_is_put dest: session_of)
  show ?thesis
    using Some assms c p sign_intent_state [of cfg now l "roll_day now a" body]
    by (simp add: intent_begin_def Let_def split: sum.split prod.split) (metis put_put_agent)
qed

lemma finish_session:
  assumes "session_is k x st"
  shows "session_is k x (snd (intent_finish r p st))"
proof (cases "map_get (pd_key p) (sn_agents st)")
  case None
  then show ?thesis using assms
    by (auto simp: intent_finish_def Let_def has_ref_def intro: session_is_cong split: sum.split option.split)
next
  case (Some a)
  have "session_is k x (put_agent (pd_key p) (account_swap p v a) st)" for v
    by (rule session_is_put [OF assms _ refl]) (use session_of [OF assms] Some in \<open>simp add: account_swap_def\<close>)
  then show ?thesis using Some assms
    by (auto simp: intent_finish_def Let_def has_ref_def intro: session_is_cong split: sum.split option.split)
qed

text \<open>A session lasts until the next one is opened for the agent, or the agent is destroyed.\<close>

fun keeps_session :: "string \<Rightarrow> sys_op \<Rightarrow> bool" where
  "keeps_session k (OpenSession b now t l body) = (l \<noteq> k)"
| "keeps_session k (Destroy l) = (l \<noteq> k)"
| "keeps_session k op = True"

interpretation lasting_session: invariant_system "sys_step cfg" "keeps_session k" "\<lambda>s. session_is k x (sy_signer s)" for cfg k x
proof
  fix s :: sys and op
  assume a: "session_is k x (sy_signer s)" "keeps_session k op"
  show "session_is k x (sy_signer (sys_step cfg s op))"
  proof (cases op)
    case (Begin now l body)
    then show ?thesis using begin_session [OF a(1)] sys_step_begin by simp
  qed (use a signer_handlers_session [OF a(1)] finish_session [OF a(1)] in auto)
qed

section \<open>From the signer to the workload and back\<close>

text \<open>The settings of a workload whose environment holds a session.\<close>

lemma session_settings:
  assumes "buildAgentEnv v dir src = Inr env" "env_block env = Inr es" "\<forall>k \<in> fst ` set (declared v). CHR ''='' \<notin> set k"
    and "truthy (jopt v ''signer'')" "jopt (jopt v ''signer'') ''url'' = JStr url" "jopt (jopt v ''signer'') ''token'' = JStr token"
    and "jopt (jopt v ''signer'') ''epoch'' = JNum (nat_num e)" "e < 2 ^ 53"
  shows "tc_SIGNER (trader_config (getenv es) parsed) = url" "tc_SESSION (trader_config (getenv es) parsed) = token"
    "tc_EPOCH (trader_config (getenv es) parsed) = nat_num e"
proof -
  have n: "\<forall>l \<in> set (map_keys env). CHR ''='' \<notin> set l" using started_names [OF assms(1,3)] by blast
  note g = getenv_block [OF assms(2) n] and s = started_session [OF assms(1,4), unfolded assms(5-7)]
  have u: "getenv es ''CIRCUIT_SIGNER_URL'' = Some url" "getenv es ''CIRCUIT_AGENT_SESSION'' = Some token"
    "getenv es ''CIRCUIT_AGENT_EPOCH'' = Some (num_str (nat_num e))"
    using s g [of "''CIRCUIT_SIGNER_URL''"] g [of "''CIRCUIT_AGENT_SESSION''"] g [of "''CIRCUIT_AGENT_EPOCH''"] by auto
  have f: "f64 (of_nat e)" using f64_int [of "int e"] assms(8) by simp
  show "tc_SIGNER (trader_config (getenv es) parsed) = url" "tc_SESSION (trader_config (getenv es) parsed) = token"
    by (simp_all add: trader_config_def env_or_def u)
  show "tc_EPOCH (trader_config (getenv es) parsed) = nat_num e"
    using str_num_num_str [OF f] num_str_nonempty [OF f] by (simp add: trader_config_def u)
qed


section \<open>A session on its way\<close>

definition moved_start :: jsval where
  "moved_start = JObj [(''id'', JStr ''a''), (''name'', JStr ''bot''), (''owner'', JNull), (''spec'', JObj []), (''bundle'', JUndef),
     (''signer'', JObj [(''url'', JStr ''s''), (''agentId'', JStr ''a''), (''epoch'', JNum (Fin 2)), (''token'', JStr ''new''),
        (''address'', JNull), (''paper'', JBool True)])]"

definition moved_env :: env where
  "moved_env = base_env moved_start ''/d'' (\<lambda>k. None) @
     [(''CIRCUIT_SIGNER_URL'', JStr ''s''), (''CIRCUIT_AGENT_ID'', JStr ''a''), (''CIRCUIT_AGENT_EPOCH'', JStr (num_str (Fin 2))),
      (''CIRCUIT_AGENT_SESSION'', JStr ''new''), (''CIRCUIT_AGENT_ADDRESS'', JStr []), (''CIRCUIT_AGENT_PAPER'', JStr ''1'')]"

lemma moved_start_get: "jopt moved_start ''signer'' = JObj [(''url'', JStr ''s''), (''agentId'', JStr ''a''), (''epoch'', JNum (Fin 2)),
    (''token'', JStr ''new''), (''address'', JNull), (''paper'', JBool True)]" "jopt moved_start ''spec'' = JObj []" "jopt moved_start ''name'' = JStr ''bot''"
  by (simp_all add: moved_start_def jopt_def)

lemma moved_built: "buildAgentEnv moved_start ''/d'' (\<lambda>k. None) = Inr moved_env" "declared moved_start = []"
proof -
  show d: "declared moved_start = []" by (simp add: declared_def moved_start_get str_or_def) (simp add: jopt_def inherited_def object_members_def)
  have s: "signer_env (jopt moved_start ''signer'') (base_env moved_start ''/d'' (\<lambda>k. None)) = Inr moved_env"
    by (simp add: signer_env_def moved_start_get moved_env_def) (simp add: jopt_def str_or_def)
  have "fold (pass_step (\<lambda>k. None)) ks e = e" for ks e by (induction ks) (simp_all add: pass_step_def)
  then have p: "pass_env (\<lambda>k. None) b e = e" for b e by (simp add: pass_env_def)
  show "buildAgentEnv moved_start ''/d'' (\<lambda>k. None) = Inr moved_env" by (simp add: buildAgentEnv_def s d p)
qed

lemma moved_block: "\<exists>es. env_block moved_env = Inr es"
  by (simp add: moved_env_def base_env_def env_block_def moved_start_get str_or_def)

lemma moved_facts: "ca_id moved_agent = ''a''" "ca_nodeId moved_agent = JStr ''m''"
  "ca_session moved_agent = Some \<lparr> le_epoch = JNum (Fin 1), le_token = JStr ''old'', le_node = JStr ''n'' \<rparr>"
  "map_get ''a'' (sn_agents open_signer) = Some open_agent" "epoch_of open_agent = 1" "cc_SIGNER_URL toy_cp_cfg = ''s''"
  "cc_SIGNER_PUBLIC_URL toy_cp_cfg = ''s''" "bearer_auth (cf_KEY toy_cfg) [] = Inr ()"
  by (simp_all add: moved_agent_def toy_run_def open_signer_def map_get_def open_agent_def epoch_of_def toy_cp_cfg_def toy_cfg_def bearer_auth_def)

lemma moved_session: "ensureSession toy_cp_cfg (session_reply toy_cfg [] 7 ''new'' ''a'' open_signer) moved_agent =
    moved_agent\<lparr> ca_session := Some \<lparr> le_epoch = JNum (Fin 2), le_token = JStr ''new'', le_node = JStr ''m'' \<rparr>, ca_paper := JBool True \<rparr>"
  by (simp add: ensureSession_def moved_facts session_reply_def post_session_def session_call_def signerApi_def Let_def)
     (simp add: jopt_def open_agent_def sample_normal_def)

lemma moved_assigned:
  "jopt (start_assignment toy_cp_cfg (ensureSession toy_cp_cfg (session_reply toy_cfg [] 7 ''new'' (ca_id moved_agent) open_signer) moved_agent)) ''agent'' = moved_start"
  unfolding moved_facts(1) moved_session
  by (simp add: start_assignment_def jopt_def signerBlockFor_def moved_facts moved_start_def bundleBlockFor_def Let_def)
     (simp add: moved_agent_def toy_run_def inherited_def object_members_def)

definition later_requests :: "sys_op list" where
  "later_requests = [SetPolicy [] 8 ''a'' (JObj []), Begin 9 ''a'' (JObj []), Destroy ''b'']"


end
