(* ===== verification/Spec2Isabelle.thy ===== *)
theory Spec2Isabelle
  imports Fencing Bundle_Gc Egress Bundle_Store Http Signer_Disk Node_Api End_To_End Host_Order Custody_Chain
begin

text \<open>
  A verification library for the agent cloud: owners publish signed bundles (programs), a control plane
  places them as agents on the nodes of volunteers, a signer holds the wallets off-box and signs only
  what the owner's policy permits, and a node host runs the agents, trusted ones as processes, untrusted ones in
  containers whose only way out is a vetting proxy. The theories translate the JavaScript of
  src/ function by function; this file gathers them.

  The parts, and how they interact. An owner signs requests (lib/owner-auth.js) and bundles
  (lib/bundle.js) and sends them to the control plane (control-plane/server.js), which keeps nodes, agents and
  logs (lib/store.js), provisions a wallet at the signer for each agent (signer/server.js) and chooses a node
  (lib/proto.js and the sweep). A node polls: its signed heartbeat (lib/node-auth.js) brings assignments; for a start
  the control plane opens a session at the signer, whose epoch fences out the node the agent was on before. The node host
  (node-host/host.js) pulls the bundle by its digest from its own store (lib/bundle-store.js), verifies
  it, builds a curated environment (node-host/env.js) and spawns it, or a container (node-host/oci.js) with a proxy
  sidecar (node-host/egress-proxy.js over lib/netguard.js). The workload (agentd/agentd.js is the reference one) asks the
  signer for every trade; the signer checks session, policy, caps and, when committed to a rule, the
  evidence (lib/verified-intent.js; signed quotes, and zkTLS claims that it takes as they stand when no verifier is configured), and for a live trade inspects the aggregator's transaction before it signs
  (signer/submit.js); the owner withdraws to one committed address only (signer/withdraw.js).

  The theories, from the bottom.
  \<^item> Prelude: results (error or value), sequencing with and without a state (bindE, bindS), traversal, runs of a
    system and the locale of systems with an invariant (invariant_system) that every component's
    invariant is an interpretation of. Js_Map: insertion-ordered maps (Map, plain objects). Js_Number: doubles as
    rationals with rounding to 53 bits, infinities and NaN. Js_Value: JSON-like values, truthiness, strict and loose
    equality, property access with the inherited members, conversions. Js_Text: numbers from and to text, trimming, splitting.
  \<^item> Encoding, Crypto: base58, hex, DER prefixes and lib/ed25519.js. The primitives are the record crypto; what is
    assumed of them (signatures of a key pair verify, sealed boxes open, SHA-256 is a function) are named predicates, and
    toy_crypto is an executable instance of them all.
  \<^item> Canonical, Request_Auth: the canonical texts and the request signatures of owners and nodes.
  \<^item> Proto, Verified_Intent: placement contract, policies, rules, evidence and the decision gate.
  \<^item> Wire, Submit, Withdraw: Solana's wire format on bytes, the swap, the withdrawal.
  \<^item> Signer: the signer's handlers and the system of its steps, with live swaps in flight as part of the state.
  \<^item> Signer_Disk: the master key, the two state files, and restarts.
  \<^item> Store, Placement, Access, Control_Plane, Cp_System: the control plane's data, sweep, gates, handlers and the system of
    all its steps, with the handlers that await the signer as part of the state. Bundle_Gc: its blob directory.
  \<^item> Netguard, Egress: address ranges and the proxy's decision. Bundle, Bundle_Store, Paths: bundles, stores, path.join.
  \<^item> Http: the router both servers use.
  \<^item> Agent_Env, Container, Host, Host_Run, Node_Api: the node host; Host_Safety, Host_Order and Host_Bundles: what holds of it. Agentd: the
    reference workload. Fencing: control plane and signer together. Custody_Chain: from the signer's session
    through assignment and environment to the workload's intent. End_To_End: from the owner's signature
    through control plane and node to the process.

  How the model corresponds to the code. Every definition carries the name of the function it
  translates; constants and locals that are not functions in the code (guards, the two halves of a handler) have a
  name of their own. A throw is the left side of a result and carries the status and code where the code has
  them; texts of messages are not kept. An object with a fixed shape is a record, an object that comes from outside a
  jsval. A handler that awaits is split there: the first half returns what is awaited, the second gets the
  answer, and the system of steps may run anything in between. Every clock reading, random draw, reply of a
  remote party, look at the file system and result of a command is an argument, so a theorem holds for all of
  them. What a component does outward (files, commands, processes, posts) is a list in its state.

  What the theorems show. Signer: no intent is signed outside session, policy, caps and gate; a superseded session
  is fenced for good; each wallet's sealed seed opens to the address shown; paper spending stays within
  the day's cap; a wallet is destroyed only when read as empty; wallets survive a restart. Swaps and withdrawals: the byte parser agrees with the
  structured transaction, every check precedes the signature, a withdrawal goes to the committed owner only; length
  fields are read in finitely many rounds. Control plane: an owner's request on an owned agent gets through for its owner only
  (what nodes, sweeps and waiting creations do to an agent is not such a request), bundles stay bound to
  owner, agent and digest, node keys stay pinned and every handler of nodes refuses another key, trust needs the operator's
  key, a silent node's agents are failed over, starts stay within the node's budget, a new placement fences the old one, the
  collection removes exactly what it may. Node: no unverified bytes run on a pull, containers are
  contained and hold exactly the curated environment, no secret of the operator reaches a bundle, tables stay consistent, and
  no process escapes on orderly runs (starts do not overlap and none comes while a stopped process of the agent is
  shutting down; assigning a running agent again is allowed). The tables record what the code leaves behind too: a
  process that could not be spawned keeps the SIGKILL timer of its stop. End to end: what a node pulls and spawns for an assignment is what the agent's owner signed.
  A session the signer opens is the one the workload's intents pass the fence with, until the next one or the end of the agent.
  Each property is followed by a witness that applies it to concrete data; theorems without a claim number
  are findings or supporting facts, among them counterexamples to what comments promise.

  Bounds and fuel. Two searches of Js_Value use fuel, the exponent and the shortest decimal text of a double; Js_Text
  proves both fuels enough for every double. The other loops are structural or have a measure (read_loop on the bytes
  left, compactU16 on the number, retries on their list of endpoints or attempts). Word widths are the code's: bytes
  at 8 bits, compact lengths and IPv4 addresses at 32. Numbers are doubles; times are integers, exact up
  to two to the 53 milliseconds.

  Not modelled, and why. The tar archives of packDir and unpackTo, sockets and their relaying, listening, timers as such (a timer's
  callback is a step that may happen at any time), file-system failures other than those the code tests, and console
  output are input and output without logic of their own. The assignment and other messages travel
  unchanged: serialisation to JSON text drops undefined members and turns NaN into null, which no handler's
  checks depend on, as they normalise what they read. new URL, DNS and fetch are parameters. Ids and keys that are objects (not
  text or numbers) are compared structurally. Session requests inside one heartbeat are taken as atomic with
  it, and a synchronous stretch of code reads the clock once. The process start-up code of the two servers
  (ports, directories) is not modelled, nor are the scripts under test/.
\<close>

end
